(* ===== verification/Prelude.thy ===== *)
theory Prelude
  imports "HOL-Library.Word" "HOL-Library.Monad_Syntax"
begin

text \<open>
  Shared vocabulary of the development: machine integer types, the convention for C strings and
  for byte buffers, and the generic lemmas the component theories use.

  A C string is a \<^typ>\<open>string\<close> read through \<open>cget\<close> (or, for a moving pointer, through
  \<open>chd\<close> and \<^const>\<open>tl\<close>): every index at or past the end of the list reads as the terminating
  \<open>NUL\<close>. A byte buffer of the kernel is a function from offsets to bytes.
\<close>

unbundle bit_operations_syntax

named_theorems layout_simps \<open>field reads after field writes in packed structures\<close>
named_theorems fs_simps \<open>record updates of the filesystem state seen through its selectors\<close>

type_synonym byte = "8 word"
type_synonym u16 = "16 word"
type_synonym u32 = "32 word"
type_synonym i32 = "32 word" \<comment> \<open>signed: read with \<^const>\<open>sint\<close>\<close>
type_synonym buffer = "nat \<Rightarrow> byte"

abbreviation NUL :: char where
  "NUL \<equiv> CHR 0x00"

abbreviation ord :: "char \<Rightarrow> nat" where
  "ord c \<equiv> of_char c"

definition chd :: "string \<Rightarrow> char" where
  "chd s = (case s of [] \<Rightarrow> NUL | c # _ \<Rightarrow> c)"

definition cget :: "string \<Rightarrow> nat \<Rightarrow> char" where
  "cget s i = (if i < length s then s ! i else NUL)"

text \<open>The strings a NUL-terminated C string can denote.\<close>

definition cstring :: "string \<Rightarrow> bool" where
  "cstring s \<longleftrightarrow> NUL \<notin> set s"

lemma chd_simps [simp]: "chd [] = NUL" "chd (c # s) = c"
  by (simp_all add: chd_def)

lemma cget_0 [simp]: "cget s 0 = chd s"
  by (cases s) (simp_all add: cget_def)

lemma cget_Cons_Suc [simp]: "cget (c # s) (Suc i) = cget s i"
  by (simp add: cget_def)

lemma cget_Nil [simp]: "cget [] i = NUL"
  by (simp add: cget_def)

lemma cget_in [simp]: "i < length s \<Longrightarrow> cget s i = s ! i"
  by (simp add: cget_def)

lemma cget_out [simp]: "length s \<le> i \<Longrightarrow> cget s i = NUL"
  by (simp add: cget_def)

lemma cstring_simps [simp]:
  "cstring []" "cstring (c # s) \<longleftrightarrow> c \<noteq> NUL \<and> cstring s"
  "cstring (s @ t) \<longleftrightarrow> cstring s \<and> cstring t"
  by (auto simp: cstring_def)

lemma cstring_chd_NUL [simp]: "cstring s \<Longrightarrow> chd s = NUL \<longleftrightarrow> s = []"
  by (cases s) auto

lemma cstring_nth: "cstring s \<Longrightarrow> i < length s \<Longrightarrow> s ! i \<noteq> NUL"
  by (metis cstring_def nth_mem)

lemma cstring_cget_NUL: "cstring s \<Longrightarrow> cget s i = NUL \<longleftrightarrow> length s \<le> i"
  by (cases "i < length s") (auto simp: cstring_nth)

lemma takeWhile_cstring: "cstring s \<Longrightarrow> takeWhile (\<lambda>c. c \<noteq> NUL) (s @ NUL # t) = s"
  by (induction s) auto

lemma printable_not_NUL: "32 \<le> ord c \<Longrightarrow> NUL \<noteq> c"
  by auto

lemma ord_inject [simp]: "ord c = ord d \<longleftrightarrow> c = d"
  by simp

text \<open>Evaluates a character given by its code.\<close>

lemma char_of_num: "char_of (numeral n :: nat) =
  Char (bit (numeral n :: nat) 0) (bit (numeral n :: nat) 1) (bit (numeral n :: nat) 2)
    (bit (numeral n :: nat) 3) (bit (numeral n :: nat) 4) (bit (numeral n :: nat) 5)
    (bit (numeral n :: nat) 6) (bit (numeral n :: nat) 7)"
  by (simp only: char_of_def bit_0)

text \<open>Characters and bytes: a \<open>char\<close> stored into a byte buffer and read back.\<close>

definition byte_of :: "char \<Rightarrow> byte" where
  "byte_of c = word_of_nat (ord c)"

definition char_of_byte :: "byte \<Rightarrow> char" where
  "char_of_byte b = char_of (unat b)"

lemma unat_byte_of [simp]: "unat (byte_of c) = ord c"
  by (simp add: byte_of_def unat_of_nat)

lemma char_of_byte_of [simp]: "char_of_byte (byte_of c) = c"
  by (simp add: char_of_byte_def)

lemma byte_of_char_of_byte [simp]: "byte_of (char_of_byte b) = b"
proof -
  have "unat b < 256" using unsigned_less [of b, where ?'a = nat] by simp
  then show ?thesis by (simp add: byte_of_def char_of_byte_def)
qed

lemma byte_of_inject [simp]: "byte_of c = byte_of d \<longleftrightarrow> c = d"
  by (metis char_of_byte_of)

lemma map_char_of_byte_of [simp]: "map char_of_byte (map byte_of s) = s"
  by (simp add: comp_def)

text \<open>Evaluation of lists at numeral positions.\<close>

lemma replicate_numeral: "replicate (numeral v) x = x # replicate (pred_numeral v) x"
  by (simp add: numeral_eq_Suc)

lemma list_update_numeral: "(x # xs)[numeral v := y] = x # xs[pred_numeral v := y]"
  by (simp add: numeral_eq_Suc)

lemma bit_Suc_0_0: "bit (Suc 0) 0"
  by (simp add: bit_0)

lemmas list_eval = replicate_numeral list_update_numeral char_of_num bit_Suc_0_0

text \<open>A word plus a small number, when the sum does not wrap.\<close>

lemma unat_plus_small: "unat a + k < 2 ^ 32 \<Longrightarrow> unat (a + word_of_nat k) = unat a + k" for a :: u32
proof -
  assume k: "unat a + k < 2 ^ 32"
  then have "unat (word_of_nat k :: u32) = k" by (simp add: unat_of_nat)
  then show ?thesis using k by (simp add: unat_add_lem [THEN iffD1])
qed

end
