(* ===== verification/Ports.thy ===== *)
theory Ports
  imports Prelude
begin

text \<open>
  Port input and output, \<open>kernel/io.h\<close>. The devices behind the ports are not part of the kernel:
  they are a parameter, a record of the four access functions on a device state of any type.
  Programs that only write are also described by the list of their writes.
\<close>

record 'd bus =
  inb :: "u16 \<Rightarrow> 'd \<Rightarrow> byte \<times> 'd"
  outb :: "u16 \<Rightarrow> byte \<Rightarrow> 'd \<Rightarrow> 'd"
  inw :: "u16 \<Rightarrow> 'd \<Rightarrow> u16 \<times> 'd"
  outw :: "u16 \<Rightarrow> u16 \<Rightarrow> 'd \<Rightarrow> 'd"

text \<open>\<open>io_wait\<close> writes a zero to the unused port \<open>0x80\<close>.\<close>

definition io_wait :: "'d bus \<Rightarrow> 'd \<Rightarrow> 'd" where
  "io_wait b d = outb b 0x80 0 d"

text \<open>A sequence of byte writes.\<close>

fun out_all :: "'d bus \<Rightarrow> (u16 \<times> byte) list \<Rightarrow> 'd \<Rightarrow> 'd" where
  "out_all b [] d = d"
| "out_all b ((p, v) # ws) d = out_all b ws (outb b p v d)"

lemma out_all_append [simp]: "out_all b (xs @ ys) d = out_all b ys (out_all b xs d)"
  by (induction xs arbitrary: d) auto

text \<open>
  \<open>poll b port p d\<close> reads \<open>port\<close> until the value satisfies \<open>p\<close>; a device that never shows such a
  value keeps it reading forever, and then the result is \<^const>\<open>None\<close>.
\<close>

partial_function (option) poll :: "'d bus \<Rightarrow> u16 \<Rightarrow> (byte \<Rightarrow> bool) \<Rightarrow> 'd \<Rightarrow> (byte \<times> 'd) option" where
  "poll b port p d = (case inb b port d of (v, d') \<Rightarrow> if p v then Some (v, d') else poll b port p d')"

lemma poll_hit: "inb b port d = (v, d') \<Longrightarrow> p v \<Longrightarrow> poll b port p d = Some (v, d')"
  by (subst poll.simps) simp

lemma poll_miss: "inb b port d = (v, d') \<Longrightarrow> \<not> p v \<Longrightarrow> poll b port p d = poll b port p d'"
  by (subst poll.simps) simp

lemma poll_sound: "poll b port p d = Some r \<Longrightarrow> p (fst r)"
  by (rule poll.raw_induct [of "\<lambda>b port p d r. p (fst r)"]) (auto split: prod.splits if_splits)

text \<open>A device that becomes ready after \<open>n\<close> reads is waited for.\<close>

fun reads :: "'d bus \<Rightarrow> u16 \<Rightarrow> nat \<Rightarrow> 'd \<Rightarrow> 'd" where
  "reads b port 0 d = d"
| "reads b port (Suc n) d = reads b port n (snd (inb b port d))"

lemma poll_terminates:
  "p (fst (inb b port (reads b port n d))) \<Longrightarrow> \<exists>v d'. poll b port p d = Some (v, d')"
proof (induction n arbitrary: d)
  case 0
  then show ?case using poll_hit [of b port d] by (cases "inb b port d") auto
next
  case (Suc n)
  obtain v d' where v: "inb b port d = (v, d')" by force
  show ?case
  proof (cases "p v")
    case True
    then show ?thesis using poll_hit [OF v] by blast
  next
    case False
    then show ?thesis using Suc v poll_miss [OF v] by simp
  qed
qed

end
