(* ===== verification/Idt.thy ===== *)
theory Idt
  imports Ports
begin

text \<open>
  Descriptor tables and the interrupt controllers, \<open>kernel/idt.c\<close>, and the task state segment,
  \<open>kernel/tss.c\<close>: the gates of the interrupt table, the segment descriptors, the remapping of the two
  8259 controllers and the table of C handlers.

  Code addresses (the stubs of \<open>isr.asm\<close>, the handlers) and the addresses of the tables are
  parameters. \<open>Kernel\<close> holds the dispatcher \<open>isr_handler_c\<close>, which calls into the drivers.
\<close>

subsection \<open>Gates and descriptors\<close>

record idt_entry =
  i_base_low :: u16
  i_selector :: u16
  i_zero :: byte
  i_flags :: byte
  i_base_high :: u16

record gdt_entry =
  g_limit_low :: u16
  g_base_low :: u16
  g_base_middle :: byte
  g_access :: byte
  g_granularity :: byte
  g_base_high :: byte

text \<open>The operand of \<open>lgdt\<close> and \<open>lidt\<close>.\<close>

record table_ptr =
  t_limit :: u16
  t_base :: u32

text \<open>What the stubs push before they call \<open>isr_handler_c\<close>, in the order of the addresses.\<close>

record registers =
  reg_edi :: u32
  reg_esi :: u32
  reg_ebp :: u32
  reg_esp :: u32
  reg_ebx :: u32
  reg_edx :: u32
  reg_ecx :: u32
  reg_eax :: u32
  reg_gs :: u32
  reg_fs :: u32
  reg_es :: u32
  reg_ds :: u32
  reg_int_no :: u32
  reg_err_code :: u32
  reg_eip :: u32
  reg_cs :: u32
  reg_eflags :: u32

abbreviation (input) IDT_ENTRIES :: nat where "IDT_ENTRIES \<equiv> 256"
abbreviation (input) KERNEL_CS :: u16 where "KERNEL_CS \<equiv> 0x08"
abbreviation (input) IDT_FLAG_INT_GATE :: byte where "IDT_FLAG_INT_GATE \<equiv> 0x8E"
abbreviation (input) IDT_FLAG_INT_GATE_USER :: byte where "IDT_FLAG_INT_GATE_USER \<equiv> 0xEE"

text \<open>
  The static state; \<open>'h\<close> stands for the handler functions, a null pointer is \<^const>\<open>None\<close>. \<open>gdtr\<close>
  and \<open>idtr\<close> are the tables the processor has loaded.
\<close>

record 'h tables =
  idt :: "idt_entry list"
  handlers :: "'h option list"
  gdt :: "gdt_entry list"
  gdtr :: "table_ptr option"
  idtr :: "table_ptr option"

definition idt_gate :: "u32 \<Rightarrow> u16 \<Rightarrow> byte \<Rightarrow> idt_entry" where
  "idt_gate base selector flags =
     \<lparr>i_base_low = ucast (base AND 0xFFFF), i_selector = selector, i_zero = 0, i_flags = flags,
      i_base_high = ucast (drop_bit 16 base AND 0xFFFF)\<rparr>"

definition idt_set_gate :: "byte \<Rightarrow> u32 \<Rightarrow> u16 \<Rightarrow> byte \<Rightarrow> 'h tables \<Rightarrow> 'h tables" where
  "idt_set_gate n base selector flags t = t\<lparr>idt := (idt t)[unat n := idt_gate base selector flags]\<rparr>"

definition gdt_gate :: "u32 \<Rightarrow> u32 \<Rightarrow> byte \<Rightarrow> byte \<Rightarrow> gdt_entry" where
  "gdt_gate base limit acc gran =
     \<lparr>g_limit_low = ucast (limit AND 0xFFFF), g_base_low = ucast (base AND 0xFFFF),
      g_base_middle = ucast (drop_bit 16 base AND 0xFF), g_access = acc,
      g_granularity = ucast (drop_bit 16 limit AND 0x0F) OR (gran AND 0xF0),
      g_base_high = ucast (drop_bit 24 base AND 0xFF)\<rparr>"

definition gdt_set_gate :: "nat \<Rightarrow> u32 \<Rightarrow> u32 \<Rightarrow> byte \<Rightarrow> byte \<Rightarrow> 'h tables \<Rightarrow> 'h tables" where
  "gdt_set_gate num base limit acc gran t = t\<lparr>gdt := (gdt t)[num := gdt_gate base limit acc gran]\<rparr>"

definition gdt_set_tss :: "u32 \<Rightarrow> u32 \<Rightarrow> 'h tables \<Rightarrow> 'h tables" where
  "gdt_set_tss base limit = gdt_set_gate 5 base limit 0x89 0x00"

definition idt_set_gate_ring3 :: "byte \<Rightarrow> 'h tables \<Rightarrow> 'h tables" where
  "idt_set_gate_ring3 n t = t\<lparr>idt := (idt t)[unat n := (idt t ! unat n)\<lparr>i_flags := IDT_FLAG_INT_GATE_USER\<rparr>]\<rparr>"

definition gdt_init :: "u32 \<Rightarrow> 'h tables \<Rightarrow> 'h tables" where
  "gdt_init gdt_addr t =
     (gdt_set_gate 5 0 0 0 0
       (gdt_set_gate 4 0 0xFFFFFFFF 0xF2 0xCF
         (gdt_set_gate 3 0 0xFFFFFFFF 0xFA 0xCF
           (gdt_set_gate 2 0 0xFFFFFFFF 0x92 0xCF
             (gdt_set_gate 1 0 0xFFFFFFFF 0x9A 0xCF
               (gdt_set_gate 0 0 0 0 0 t))))))\<lparr>gdtr := Some \<lparr>t_limit = 6 * 8 - 1, t_base = gdt_addr\<rparr>\<rparr>"

subsection \<open>Initialisation\<close>

definition pic_remap :: "'d bus \<Rightarrow> 'd \<Rightarrow> 'd" where
  "pic_remap b d =
     (case inb b 0x21 d of (a1, d) \<Rightarrow>
      case inb b 0xA1 d of (a2, d) \<Rightarrow>
      let d = io_wait b (outb b 0x20 0x11 d);
          d = io_wait b (outb b 0xA0 0x11 d);
          d = io_wait b (outb b 0x21 0x20 d);
          d = io_wait b (outb b 0xA1 0x28 d);
          d = io_wait b (outb b 0x21 0x04 d);
          d = io_wait b (outb b 0xA1 0x02 d);
          d = io_wait b (outb b 0x21 0x01 d);
          d = io_wait b (outb b 0xA1 0x01 d) in
      outb b 0xA1 a2 (outb b 0x21 a1 d))"

definition idt_register_handler :: "byte \<Rightarrow> 'h \<Rightarrow> 'h tables \<Rightarrow> 'h tables" where
  "idt_register_handler n h t = t\<lparr>handlers := (handlers t)[unat n := Some h]\<rparr>"

text \<open>The loop that clears the gates and handlers; \<open>stubs v\<close> is the address of the stub of vector \<open>v\<close>.\<close>

definition clear_tables :: "'h tables \<Rightarrow> 'h tables" where
  "clear_tables t = fold (\<lambda>i t. (idt_set_gate (word_of_nat i) 0 0 0 t)\<lparr>handlers := (handlers t)[i := None]\<rparr>) [0..<IDT_ENTRIES] t"

definition set_stubs :: "(nat \<Rightarrow> u32) \<Rightarrow> nat list \<Rightarrow> 'h tables \<Rightarrow> 'h tables" where
  "set_stubs stubs = fold (\<lambda>v. idt_set_gate (word_of_nat v) (stubs v) KERNEL_CS IDT_FLAG_INT_GATE)"

definition idt_init :: "'d bus \<Rightarrow> (nat \<Rightarrow> u32) \<Rightarrow> u32 \<Rightarrow> u32 \<Rightarrow> 'h tables \<Rightarrow> 'd \<Rightarrow> 'h tables \<times> 'd" where
  "idt_init b stubs gdt_addr idt_addr t d =
     (let t = set_stubs stubs [0..<32] (clear_tables (gdt_init gdt_addr t));
          d = pic_remap b d;
          t = set_stubs stubs [32..<48] t;
          t = idt_set_gate 0x80 (stubs 0x80) KERNEL_CS IDT_FLAG_INT_GATE_USER t;
          d = outb b 0xA1 0xEF (outb b 0x21 0xF8 d) in
      (t\<lparr>idtr := Some \<lparr>t_limit = 8 * 256 - 1, t_base = idt_addr\<rparr>\<rparr>, d))"

subsection \<open>The task state segment\<close>

record tss =
  prev_tss :: u32
  esp0 :: u32
  ss0 :: u32
  esp1 :: u32
  ss1 :: u32
  esp2 :: u32
  ss2 :: u32
  tss_cr3 :: u32
  tss_eip :: u32
  tss_eflags :: u32
  tss_eax :: u32
  tss_ecx :: u32
  tss_edx :: u32
  tss_ebx :: u32
  tss_esp :: u32
  tss_ebp :: u32
  tss_esi :: u32
  tss_edi :: u32
  tss_es :: u32
  tss_cs :: u32
  tss_ss :: u32
  tss_ds :: u32
  tss_fs :: u32
  tss_gs :: u32
  tss_ldt :: u32
  tss_trap :: u16
  iomap_base :: u16

text \<open>The structure is packed: twenty-five words and two half words, 104 bytes.\<close>

definition zero_tss :: tss where
  "zero_tss = \<lparr>prev_tss = 0, esp0 = 0, ss0 = 0, esp1 = 0, ss1 = 0, esp2 = 0, ss2 = 0, tss_cr3 = 0, tss_eip = 0,
     tss_eflags = 0, tss_eax = 0, tss_ecx = 0, tss_edx = 0, tss_ebx = 0, tss_esp = 0, tss_ebp = 0, tss_esi = 0,
     tss_edi = 0, tss_es = 0, tss_cs = 0, tss_ss = 0, tss_ds = 0, tss_fs = 0, tss_gs = 0, tss_ldt = 0,
     tss_trap = 0, iomap_base = 0\<rparr>"

text \<open>
  \<open>stack_end\<close> is the address behind the kernel stack. \<open>tss_flush\<close> (\<open>isr.asm\<close>) loads the selector \<open>0x28\<close>
  of the sixth descriptor; the result has the structure, the tables and the task register.
\<close>

definition tss_flush :: u16 where
  "tss_flush = 0x28"

definition tss_init :: "u32 \<Rightarrow> u32 \<Rightarrow> 'h tables \<Rightarrow> tss \<times> 'h tables \<times> u16" where
  "tss_init tss_addr stack_end t =
     (zero_tss\<lparr>ss0 := 0x10, esp0 := stack_end, iomap_base := 104\<rparr>, gdt_set_tss tss_addr (104 - 1) t, tss_flush)"

definition tss_set_kernel_stack :: "u32 \<Rightarrow> tss \<Rightarrow> tss" where
  "tss_set_kernel_stack stack t = t\<lparr>esp0 := stack\<rparr>"

subsection \<open>What the processor reads\<close>

definition gate_offset :: "idt_entry \<Rightarrow> u32" where
  "gate_offset e = ucast (i_base_low e) OR push_bit 16 (ucast (i_base_high e))"

definition gate_present :: "idt_entry \<Rightarrow> bool" where
  "gate_present e = bit (i_flags e) 7"

text \<open>The privilege a program needs to enter the gate with \<open>INT\<close>.\<close>

definition gate_dpl :: "idt_entry \<Rightarrow> nat" where
  "gate_dpl e = unat (drop_bit 5 (i_flags e) AND 3)"

definition seg_base :: "gdt_entry \<Rightarrow> u32" where
  "seg_base e = ucast (g_base_low e) OR push_bit 16 (ucast (g_base_middle e)) OR push_bit 24 (ucast (g_base_high e))"

text \<open>The last offset of the segment, in bytes, with the granularity bit taken into account.\<close>

definition seg_limit :: "gdt_entry \<Rightarrow> u32" where
  "seg_limit e =
     (let l = ucast (g_limit_low e) OR push_bit 16 (ucast (g_granularity e AND 0x0F)) in
      if bit (g_granularity e) 7 then push_bit 12 l OR 0xFFF else l)"

definition seg_dpl :: "gdt_entry \<Rightarrow> nat" where
  "seg_dpl e = unat (drop_bit 5 (g_access e) AND 3)"

lemma mask_words: "(0xFFFF :: u32) = mask 16" "(0xFF :: u32) = mask 8" "(0x0F :: u32) = mask 4"
  "(0x0F :: byte) = mask 4" "(0xF0 :: byte) = push_bit 4 (mask 4)" "(0xFFF :: u32) = mask 12"
  by (simp_all add: mask_eq_exp_minus_1)

lemma gate_offset_gate [simp]: "gate_offset (idt_gate base sel fl) = base"
  unfolding gate_offset_def idt_gate_def mask_words
proof (rule bit_word_eqI)
  fix n
  assume "n < LENGTH(32)"
  then show "bit (ucast (i_base_low \<lparr>i_base_low = ucast (base AND mask 16), i_selector = sel, i_zero = 0, i_flags = fl,
      i_base_high = ucast (drop_bit 16 base AND mask 16)\<rparr>) OR push_bit 16 (ucast (i_base_high \<lparr>i_base_low = ucast (base AND mask 16),
      i_selector = sel, i_zero = 0, i_flags = fl, i_base_high = ucast (drop_bit 16 base AND mask 16)\<rparr>)) :: u32) n = bit base n"
    by (cases "n < 16") (auto simp: bit_simps)
qed

lemma gate_bits [simp]:
  "gate_present (idt_gate base sel fl) = bit fl 7" "gate_dpl (idt_gate base sel fl) = unat (drop_bit 5 fl AND 3)"
  "i_selector (idt_gate base sel fl) = sel"
  by (simp_all add: gate_present_def gate_dpl_def idt_gate_def)

lemma seg_base_gate [simp]: "seg_base (gdt_gate base limit acc gran) = base"
  unfolding seg_base_def gdt_gate_def mask_words gdt_entry.select_convs
proof (rule bit_word_eqI)
  fix n
  assume "n < LENGTH(32)"
  then show "bit (ucast (ucast (base AND mask 16) :: u16) OR push_bit 16 (ucast (ucast (drop_bit 16 base AND mask 8) :: byte)) OR
      push_bit 24 (ucast (ucast (drop_bit 24 base AND mask 8) :: byte)) :: u32) n = bit base n"
    by (cases "n < 16"; cases "n < 24") (auto simp: bit_simps)
qed

lemma seg_limit_gate: "seg_limit (gdt_gate base limit acc gran) =
    (if bit gran 7 then push_bit 12 limit OR 0xFFF else limit AND 0xFFFFF)"
proof -
  have m: "(0xFFFFF :: u32) = mask 20" by (simp add: mask_eq_exp_minus_1)
  let ?g = "gdt_gate base limit acc gran"
  let ?l = "ucast (g_limit_low ?g) OR push_bit 16 (ucast (g_granularity ?g AND 0x0F)) :: u32"
  have l: "?l = limit AND 0xFFFFF" unfolding gdt_gate_def mask_words gdt_entry.select_convs m
  proof (rule bit_word_eqI)
    fix n
    assume "n < LENGTH(32)"
    then show "bit (ucast (ucast (limit AND mask 16) :: u16) OR push_bit 16 (ucast (((ucast (drop_bit 16 limit AND mask 4) :: byte) OR
      gran AND push_bit 4 (mask 4)) AND mask 4)) :: u32) n = bit (limit AND mask 20) n"
      by (cases "n < 16") (auto simp: bit_simps)
  qed
  have b: "bit (g_granularity ?g) 7 = bit gran 7" unfolding gdt_gate_def mask_words gdt_entry.select_convs by (simp add: bit_simps)
  have s: "push_bit 12 (limit AND 0xFFFFF) = push_bit 12 limit" unfolding m by (rule bit_word_eqI) (auto simp: bit_simps)
  show ?thesis unfolding seg_limit_def Let_def l b s ..
qed

lemma seg_dpl_gate [simp]: "seg_dpl (gdt_gate base limit acc gran) = unat (drop_bit 5 acc AND 3)"
  by (simp add: seg_dpl_def gdt_gate_def)

subsection \<open>The tables after initialisation\<close>

lemma set_stubs_simps [simp]:
  "handlers (set_stubs stubs vs t) = handlers t" "gdt (set_stubs stubs vs t) = gdt t" "length (idt (set_stubs stubs vs t)) = length (idt t)"
  by (induction vs arbitrary: t) (simp_all add: set_stubs_def idt_set_gate_def)

lemma set_stubs_gate:
  "length (idt t) = 256 \<Longrightarrow> list_all (\<lambda>v. v < 256) vs \<Longrightarrow>
   idt (set_stubs stubs vs t) ! v = (if v \<in> set vs then idt_gate (stubs v) KERNEL_CS IDT_FLAG_INT_GATE else idt t ! v)"
proof (induction vs arbitrary: t)
  case (Cons w vs)
  let ?t = "idt_set_gate (word_of_nat w) (stubs w) KERNEL_CS IDT_FLAG_INT_GATE t"
  have "idt ?t ! v = (if v = w then idt_gate (stubs w) KERNEL_CS IDT_FLAG_INT_GATE else idt t ! v)"
    using Cons.prems by (simp add: idt_set_gate_def unat_of_nat)
  moreover have "length (idt ?t) = 256" using Cons.prems(1) by (simp add: idt_set_gate_def)
  ultimately show ?case using Cons.IH [of ?t] Cons.prems(2) by (auto simp: set_stubs_def)
qed (simp add: set_stubs_def)

lemma set_stubs_range:
  "length (idt t) = 256 \<Longrightarrow> n \<le> 256 \<Longrightarrow>
   idt (set_stubs stubs [m..<n] t) ! v = (if m \<le> v \<and> v < n then idt_gate (stubs v) KERNEL_CS IDT_FLAG_INT_GATE else idt t ! v)"
  by (subst set_stubs_gate) (auto simp: list_all_iff)

lemma clear_tables_eq:
  assumes "length (idt t) = 256" "length (handlers t) = 256"
  shows "idt (clear_tables t) = replicate 256 (idt_gate 0 0 0)" "handlers (clear_tables t) = replicate 256 None"
    "gdt (clear_tables t) = gdt t"
proof -
  let ?f = "\<lambda>i t. (idt_set_gate (word_of_nat i) 0 0 0 t)\<lparr>handlers := (handlers t)[i := None]\<rparr>"
  have "idt (fold ?f [0..<n] t) = replicate n (idt_gate 0 0 0) @ drop n (idt t) \<and>
    handlers (fold ?f [0..<n] t) = replicate n None @ drop n (handlers t) \<and> gdt (fold ?f [0..<n] t) = gdt t"
    if "n \<le> 256" for n
    using that
  proof (induction n)
    case (Suc n)
    have "drop n (idt t) = idt t ! n # drop (Suc n) (idt t)" "drop n (handlers t) = handlers t ! n # drop (Suc n) (handlers t)"
      using assms Suc.prems by (simp_all add: Cons_nth_drop_Suc)
    then show ?case using Suc assms
      by (simp add: idt_set_gate_def unat_of_nat list_update_append replicate_append_same [symmetric])
  qed simp
  from this [of 256] show "idt (clear_tables t) = replicate 256 (idt_gate 0 0 0)" "handlers (clear_tables t) = replicate 256 None"
    "gdt (clear_tables t) = gdt t"
    using assms by (simp_all add: clear_tables_def)
qed

definition tables_ok :: "'h tables \<Rightarrow> bool" where
  "tables_ok t \<longleftrightarrow> length (idt t) = 256 \<and> length (handlers t) = 256 \<and> length (gdt t) = 6"

text \<open>The vectors with a stub: the exceptions, the sixteen interrupt lines and the system call.\<close>

definition has_stub :: "nat \<Rightarrow> bool" where
  "has_stub v \<longleftrightarrow> v < 48 \<or> v = 0x80"

lemma idt_init_tables:
  assumes "tables_ok t"
  shows "v < 256 \<Longrightarrow> idt (fst (idt_init b stubs ga ia t d)) ! v =
      (if v = 0x80 then idt_gate (stubs 0x80) KERNEL_CS IDT_FLAG_INT_GATE_USER
       else if v < 48 then idt_gate (stubs v) KERNEL_CS IDT_FLAG_INT_GATE else idt_gate 0 0 0)"
    and "handlers (fst (idt_init b stubs ga ia t d)) = replicate 256 None"
    and "gdt (fst (idt_init b stubs ga ia t d)) = map (\<lambda>(l, a, g). gdt_gate 0 l a g)
      [(0, 0, 0), (0xFFFFFFFF, 0x9A, 0xCF), (0xFFFFFFFF, 0x92, 0xCF), (0xFFFFFFFF, 0xFA, 0xCF), (0xFFFFFFFF, 0xF2, 0xCF), (0, 0, 0)]"
    and "tables_ok (fst (idt_init b stubs ga ia t d))"
proof -
  have l: "length (idt (gdt_init ga t)) = 256" "length (handlers (gdt_init ga t)) = 256"
    using assms by (simp_all add: tables_ok_def gdt_init_def gdt_set_gate_def)
  obtain g0 g1 g2 g3 g4 g5 where g: "gdt t = [g0, g1, g2, g3, g4, g5]"
  proof -
    have "length (gdt t) = Suc (Suc (Suc (Suc (Suc (Suc 0)))))" using assms by (simp add: tables_ok_def)
    then show ?thesis by (auto simp: length_Suc_conv intro: that)
  qed
  let ?t = "set_stubs stubs [32..<48] (set_stubs stubs [0..<32] (clear_tables (gdt_init ga t)))"
  have i: "idt (fst (idt_init b stubs ga ia t d)) = (idt ?t)[0x80 := idt_gate (stubs 0x80) KERNEL_CS IDT_FLAG_INT_GATE_USER]"
    by (simp add: idt_init_def Let_def idt_set_gate_def)
  have n: "length (idt ?t) = 256" by (simp add: clear_tables_eq [OF l] del: upt_rec_numeral)
  show "idt (fst (idt_init b stubs ga ia t d)) ! v =
      (if v = 0x80 then idt_gate (stubs 0x80) KERNEL_CS IDT_FLAG_INT_GATE_USER
       else if v < 48 then idt_gate (stubs v) KERNEL_CS IDT_FLAG_INT_GATE else idt_gate 0 0 0)" if "v < 256"
    using that n by (simp add: i set_stubs_range clear_tables_eq [OF l] nth_list_update del: upt_rec_numeral)
  show "handlers (fst (idt_init b stubs ga ia t d)) = replicate 256 None"
    by (simp add: idt_init_def Let_def idt_set_gate_def clear_tables_eq [OF l] del: upt_rec_numeral)
  show "gdt (fst (idt_init b stubs ga ia t d)) = map (\<lambda>(l, a, g). gdt_gate 0 l a g)
      [(0, 0, 0), (0xFFFFFFFF, 0x9A, 0xCF), (0xFFFFFFFF, 0x92, 0xCF), (0xFFFFFFFF, 0xFA, 0xCF), (0xFFFFFFFF, 0xF2, 0xCF), (0, 0, 0)]"
    by (simp add: idt_init_def Let_def idt_set_gate_def clear_tables_eq [OF l] del: upt_rec_numeral)
      (simp add: gdt_init_def gdt_set_gate_def g)
  then show "tables_ok (fst (idt_init b stubs ga ia t d))"
    using n by (simp add: tables_ok_def i) (simp add: idt_init_def Let_def idt_set_gate_def clear_tables_eq [OF l] del: upt_rec_numeral)
qed

text \<open>
  After \<open>idt_init\<close> a vector can be entered exactly when it has a stub, the gate leads to
  that stub in the kernel's code segment, and a program in ring 3 can enter only the system call.
\<close>

lemma only_syscall_from_ring3:
  assumes "tables_ok t" "v < 256"
  shows "let e = idt (fst (idt_init b stubs ga ia t d)) ! v in
     gate_present e = has_stub v \<and> (has_stub v \<longrightarrow> gate_offset e = stubs v \<and> i_selector e = KERNEL_CS) \<and>
     (gate_present e \<and> gate_dpl e = 3 \<longleftrightarrow> v = 0x80)"
  using idt_init_tables(1) [OF assms, of b stubs ga ia d] by (auto simp: has_stub_def Let_def)

definition blank_tables :: "'h tables" where
  "blank_tables = \<lparr>idt = replicate 256 (idt_gate 0 0 0), handlers = replicate 256 None, gdt = replicate 6 (gdt_gate 0 0 0 0),
     gdtr = None, idtr = None\<rparr>"

text \<open>A bus with nothing on it.\<close>

definition open_bus :: "unit bus" where
  "open_bus = \<lparr>inb = (\<lambda>_ d. (0xFF, d)), outb = (\<lambda>_ _ d. d), inw = (\<lambda>_ d. (0xFFFF, d)), outw = (\<lambda>_ _ d. d)\<rparr>"

lemma only_syscall_from_ring3_witness:
  "let e = idt (fst (idt_init open_bus (\<lambda>v. 0x10000 + word_of_nat v) 0x5000 0x6000 (blank_tables :: unit tables) ())) ! 13 in
     gate_present e \<and> gate_offset e = 0x1000D \<and> gate_dpl e \<noteq> 3"
  using only_syscall_from_ring3 [where t = "blank_tables :: unit tables" and v = 13 and b = open_bus and
      stubs = "\<lambda>v. 0x10000 + word_of_nat v" and ga = "0x5000" and ia = "0x6000" and d = "()"]
  by (simp add: blank_tables_def tables_ok_def has_stub_def Let_def)

subsection \<open>The interrupt controllers\<close>

text \<open>
  A reference model of the 8259: the initialisation words, the mask register, the lines in service and
  the end-of-interrupt command, which clears the lowest of them. \<open>stage\<close> counts the initialisation
  words that have arrived, zero in operation; \<open>needs4\<close> is what the first one announced. The controller
  is cascaded, so a third word follows the second.
\<close>

record pic =
  stage :: nat
  needs4 :: bool
  vec_base :: byte
  imr :: byte
  in_service :: byte

record pics =
  master :: pic
  slave :: pic

definition pic_command :: "byte \<Rightarrow> pic \<Rightarrow> pic" where
  "pic_command v p =
     (if bit v 4 then p\<lparr>stage := 1, needs4 := bit v 0, imr := 0, in_service := 0\<rparr>
      else if v = 0x20 then p\<lparr>in_service := in_service p AND (in_service p - 1)\<rparr>
      else p)"

definition pic_data :: "byte \<Rightarrow> pic \<Rightarrow> pic" where
  "pic_data v p =
     (if stage p = 0 then p\<lparr>imr := v\<rparr>
      else if stage p = 1 then p\<lparr>stage := 2, vec_base := v AND 0xF8\<rparr>
      else if stage p = 2 \<and> needs4 p then p\<lparr>stage := 3\<rparr>
      else p\<lparr>stage := 0\<rparr>)"

definition pics_out :: "u16 \<Rightarrow> byte \<Rightarrow> pics \<Rightarrow> pics" where
  "pics_out port v d =
     (if port = 0x20 then d\<lparr>master := pic_command v (master d)\<rparr>
      else if port = 0x21 then d\<lparr>master := pic_data v (master d)\<rparr>
      else if port = 0xA0 then d\<lparr>slave := pic_command v (slave d)\<rparr>
      else if port = 0xA1 then d\<lparr>slave := pic_data v (slave d)\<rparr>
      else d)"

text \<open>A request on line \<open>n\<close> gets through when neither controller masks it; then it is acknowledged.\<close>

definition unmasked :: "nat \<Rightarrow> pics \<Rightarrow> bool" where
  "unmasked n d = (if n < 8 then \<not> bit (imr (master d)) n else \<not> bit (imr (master d)) 2 \<and> \<not> bit (imr (slave d)) (n - 8))"

definition acknowledge :: "nat \<Rightarrow> pics \<Rightarrow> pics" where
  "acknowledge n d =
     (if n < 8 then d\<lparr>master := (master d)\<lparr>in_service := in_service (master d) OR push_bit n 1\<rparr>\<rparr>
      else d\<lparr>master := (master d)\<lparr>in_service := in_service (master d) OR push_bit 2 1\<rparr>,
             slave := (slave d)\<lparr>in_service := in_service (slave d) OR push_bit (n - 8) 1\<rparr>\<rparr>)"

definition irq_vector :: "nat \<Rightarrow> pics \<Rightarrow> nat" where
  "irq_vector n d = (if n < 8 then unat (vec_base (master d)) + n else unat (vec_base (slave d)) + (n - 8))"

text \<open>Devices on a bus among which are the two controllers.\<close>

locale pic_device =
  fixes b :: "'d bus"
    and view :: "'d \<Rightarrow> pics"
  assumes view_out: "view (outb b port v d) = pics_out port v (view d)"
    and view_in: "view (snd (inb b port d)) = view d"
begin

lemma wait_view: "view (io_wait b d) = view d"
  by (simp add: io_wait_def view_out pics_out_def)

lemma remap_view:
  "\<exists>m s. view (pic_remap b d) =
     \<lparr>master = \<lparr>stage = 0, needs4 = True, vec_base = 0x20, imr = m, in_service = 0\<rparr>,
      slave = \<lparr>stage = 0, needs4 = True, vec_base = 0x28, imr = s, in_service = 0\<rparr>\<rparr>"
proof -
  obtain a1 d1 where 1: "inb b 0x21 d = (a1, d1)" by force
  obtain a2 d2 where 2: "inb b 0xA1 d1 = (a2, d2)" by force
  have "bit (0x11 :: byte) 4" "bit (0x11 :: byte) 0" "(0x20 :: byte) AND 0xF8 = 0x20" "(0x28 :: byte) AND 0xF8 = 0x28" by simp_all
  then have "view (pic_remap b d) =
     \<lparr>master = \<lparr>stage = 0, needs4 = True, vec_base = 0x20, imr = a1, in_service = 0\<rparr>,
      slave = \<lparr>stage = 0, needs4 = True, vec_base = 0x28, imr = a2, in_service = 0\<rparr>\<rparr>"
    unfolding pic_remap_def Let_def 1 2 prod.case
    by (simp add: view_out wait_view pics_out_def pic_command_def pic_data_def)
  then show ?thesis by blast
qed

lemma init_view: "view (snd (idt_init b stubs ga ia t d)) =
     \<lparr>master = \<lparr>stage = 0, needs4 = True, vec_base = 0x20, imr = 0xF8, in_service = 0\<rparr>,
      slave = \<lparr>stage = 0, needs4 = True, vec_base = 0x28, imr = 0xEF, in_service = 0\<rparr>\<rparr>"
proof -
  obtain m s where r: "view (pic_remap b d) =
     \<lparr>master = \<lparr>stage = 0, needs4 = True, vec_base = 0x20, imr = m, in_service = 0\<rparr>,
      slave = \<lparr>stage = 0, needs4 = True, vec_base = 0x28, imr = s, in_service = 0\<rparr>\<rparr>"
    using remap_view by blast
  show ?thesis by (simp add: idt_init_def Let_def view_out pics_out_def pic_data_def r)
qed

end

text \<open>The controllers next to any other devices.\<close>

definition with_pics :: "'e bus \<Rightarrow> ('e \<times> pics) bus" where
  "with_pics rest =
     \<lparr>inb = (\<lambda>port (e, p). if port = 0x21 then (imr (master p), e, p) else if port = 0xA1 then (imr (slave p), e, p)
         else case inb rest port e of (v, e) \<Rightarrow> (v, e, p)),
      outb = (\<lambda>port v (e, p). if port \<in> {0x20, 0x21, 0xA0, 0xA1} then (e, pics_out port v p) else (outb rest port v e, p)),
      inw = (\<lambda>port (e, p). case inw rest port e of (v, e) \<Rightarrow> (v, e, p)),
      outw = (\<lambda>port v (e, p). (outw rest port v e, p))\<rparr>"

interpretation pc: pic_device "with_pics rest" snd for rest
  by unfold_locales (auto simp: with_pics_def pics_out_def split: prod.splits)

text \<open>
  After \<open>idt_init\<close> the lines that get through are those of the timer, the keyboard, the
  cascade and the mouse; line \<open>n\<close> raises vector \<open>32 + n\<close>, and the gate of that vector leads to its stub.
\<close>

lemma irq_wiring:
  assumes "tables_ok t" "n < 16" "idt_init (with_pics rest) stubs ga ia t d = (t', d')"
  shows "(unmasked n (snd d') \<longleftrightarrow> n \<in> {0, 1, 2, 12}) \<and> irq_vector n (snd d') = 32 + n \<and>
     gate_present (idt t' ! irq_vector n (snd d')) \<and> gate_offset (idt t' ! irq_vector n (snd d')) = stubs (32 + n)"
proof -
  have d: "snd d' = \<lparr>master = \<lparr>stage = 0, needs4 = True, vec_base = 0x20, imr = 0xF8, in_service = 0\<rparr>,
      slave = \<lparr>stage = 0, needs4 = True, vec_base = 0x28, imr = 0xEF, in_service = 0\<rparr>\<rparr>"
    using pc.init_view [of rest stubs ga ia t d] assms(3) by simp
  have v: "irq_vector n (snd d') = 32 + n" using assms(2) by (simp add: irq_vector_def d)
  have t: "idt t' ! (32 + n) = idt_gate (stubs (32 + n)) KERNEL_CS IDT_FLAG_INT_GATE"
    using idt_init_tables(1) [OF assms(1), of "32 + n" "with_pics rest" stubs ga ia d] assms(2,3) by simp
  have "n \<in> {0, 1, 2, 3, 4, 5, 6, 7, 8, 9, 10, 11, 12, 13, 14, 15}" using assms(2) by simp presburger
  then have "unmasked n (snd d') \<longleftrightarrow> n \<in> {0, 1, 2, 12}"
    by (elim insertE) (simp_all add: unmasked_def d)
  then show ?thesis unfolding v t by simp
qed

definition fresh_pics :: pics where
  "fresh_pics = \<lparr>master = \<lparr>stage = 0, needs4 = False, vec_base = 0x08, imr = 0, in_service = 1\<rparr>,
     slave = \<lparr>stage = 0, needs4 = False, vec_base = 0x70, imr = 0, in_service = 0\<rparr>\<rparr>"

lemma irq_wiring_witness:
  "unmasked 12 (snd (snd (idt_init (with_pics open_bus) (\<lambda>v. 0x10000 + word_of_nat v) 0x5000 0x6000 (blank_tables :: unit tables) ((), fresh_pics)))) \<and>
   irq_vector 12 (snd (snd (idt_init (with_pics open_bus) (\<lambda>v. 0x10000 + word_of_nat v) 0x5000 0x6000 (blank_tables :: unit tables) ((), fresh_pics)))) = 44"
  using irq_wiring [where t = "blank_tables :: unit tables" and n = 12 and rest = open_bus and d = "((), fresh_pics)" and
      stubs = "\<lambda>v. 0x10000 + word_of_nat v" and ga = "0x5000" and ia = "0x6000", OF _ _ prod.collapse [symmetric]]
  by (simp add: blank_tables_def tables_ok_def)

text \<open>The segments: flat ones for both rings and, once \<open>tss_init\<close> has run, the task state.\<close>

lemma boot_segments:
  assumes "tables_ok t" "tss_init tss_addr stack_end (fst (idt_init b stubs ga ia t d)) = (s, t', tr)"
  shows "\<forall>i \<in> {1, 2, 3, 4}. seg_base (gdt t' ! i) = 0 \<and> seg_limit (gdt t' ! i) = 0xFFFFFFFF \<and> seg_dpl (gdt t' ! i) = (if i < 3 then 0 else 3)"
    and "seg_base (gdt t' ! 5) = tss_addr \<and> seg_limit (gdt t' ! 5) = 103 \<and> seg_dpl (gdt t' ! 5) = 0"
    and "esp0 s = stack_end \<and> ss0 s = 0x10 \<and> tr = 0x28"
proof -
  have g: "gdt t' = (gdt (fst (idt_init b stubs ga ia t d)))[5 := gdt_gate tss_addr 103 0x89 0]"
    and s: "s = zero_tss\<lparr>ss0 := 0x10, esp0 := stack_end, iomap_base := 104\<rparr>" "tr = 0x28"
    using assms(2) by (auto simp: tss_init_def tss_flush_def gdt_set_tss_def gdt_set_gate_def)
  show "\<forall>i \<in> {1, 2, 3, 4}. seg_base (gdt t' ! i) = 0 \<and> seg_limit (gdt t' ! i) = 0xFFFFFFFF \<and> seg_dpl (gdt t' ! i) = (if i < 3 then 0 else 3)"
    and "seg_base (gdt t' ! 5) = tss_addr \<and> seg_limit (gdt t' ! 5) = 103 \<and> seg_dpl (gdt t' ! 5) = 0"
    unfolding g idt_init_tables(3) [OF assms(1)] by (simp_all add: seg_limit_gate)
  show "esp0 s = stack_end \<and> ss0 s = 0x10 \<and> tr = 0x28" using s by simp
qed

end
