(* ===== verification/Kstring.thy ===== *)
theory Kstring
  imports Prelude
begin

text \<open>
  The kernel's C library, \<open>kernel/string.c\<close>. Readers of strings take the string; the writers take
  the destination buffer as a list of its cells and return \<^const>\<open>None\<close> when they would store
  past its end.
\<close>

subsection \<open>Operations\<close>

function strlen_from :: "string \<Rightarrow> nat \<Rightarrow> nat" where
  "strlen_from s n = (if cget s n = NUL then n else strlen_from s (Suc n))"
  by pat_completeness auto
termination
  by (relation "measure (\<lambda>(s, n). length s - n)") (auto simp: cget_def split: if_splits)

definition strlen :: "string \<Rightarrow> nat" where
  "strlen s = strlen_from s 0"

function strcmp :: "string \<Rightarrow> string \<Rightarrow> int" where
  "strcmp a b =
     (if chd a \<noteq> NUL \<and> chd a = chd b then strcmp (tl a) (tl b)
      else int (ord (chd a)) - int (ord (chd b)))"
  by pat_completeness auto
termination
  by (relation "measure (\<lambda>(a, b). length a)") (auto simp: chd_def split: list.splits)

function strncmp_from :: "string \<Rightarrow> string \<Rightarrow> nat \<Rightarrow> nat \<Rightarrow> int" where
  "strncmp_from a b n i =
     (if i < n
      then if cget a i \<noteq> cget b i \<or> cget a i = NUL \<or> cget b i = NUL
           then int (ord (cget a i)) - int (ord (cget b i))
           else strncmp_from a b n (Suc i)
      else 0)"
  by pat_completeness auto
termination
  by (relation "measure (\<lambda>(a, b, n, i). n - i)") auto

definition strncmp :: "string \<Rightarrow> string \<Rightarrow> nat \<Rightarrow> int" where
  "strncmp a b n = strncmp_from a b n 0"

function strcpy_from :: "string \<Rightarrow> string \<Rightarrow> nat \<Rightarrow> string option" where
  "strcpy_from dst src i =
     (if cget src i \<noteq> NUL
      then if i < length dst then strcpy_from (dst[i := cget src i]) src (Suc i) else None
      else if i < length dst then Some (dst[i := NUL]) else None)"
  by pat_completeness auto
termination
  by (relation "measure (\<lambda>(dst, src, i). length src - i)") (auto simp: cget_def split: if_splits)

definition strcpy :: "string \<Rightarrow> string \<Rightarrow> string option" where
  "strcpy dst src = strcpy_from dst src 0"

text \<open>
  The \<open>mem*\<close> functions work on buffers; a pointer into a buffer is the buffer and an offset.
\<close>

function memset_from :: "buffer \<Rightarrow> nat \<Rightarrow> byte \<Rightarrow> nat \<Rightarrow> nat \<Rightarrow> buffer" where
  "memset_from p off c n i =
     (if i < n then memset_from (p(off + i := c)) off c n (Suc i) else p)"
  by pat_completeness auto
termination
  by (relation "measure (\<lambda>(p, off, c, n, i). n - i)") auto

definition memset :: "buffer \<Rightarrow> nat \<Rightarrow> byte \<Rightarrow> nat \<Rightarrow> buffer" where
  "memset dst off c n = memset_from dst off c n 0"

function memcpy_from :: "buffer \<Rightarrow> nat \<Rightarrow> buffer \<Rightarrow> nat \<Rightarrow> nat \<Rightarrow> nat \<Rightarrow> buffer" where
  "memcpy_from d doff s soff n i =
     (if i < n then memcpy_from (d(doff + i := s (soff + i))) doff s soff n (Suc i) else d)"
  by pat_completeness auto
termination
  by (relation "measure (\<lambda>(d, doff, s, soff, n, i). n - i)") auto

definition memcpy :: "buffer \<Rightarrow> nat \<Rightarrow> buffer \<Rightarrow> nat \<Rightarrow> nat \<Rightarrow> buffer" where
  "memcpy dst doff src soff n = memcpy_from dst doff src soff n 0"

function memcmp_from :: "buffer \<Rightarrow> buffer \<Rightarrow> nat \<Rightarrow> nat \<Rightarrow> int" where
  "memcmp_from pa pb n i =
     (if i < n
      then if pa i \<noteq> pb i then int (unat (pa i)) - int (unat (pb i))
           else memcmp_from pa pb n (Suc i)
      else 0)"
  by pat_completeness auto
termination
  by (relation "measure (\<lambda>(pa, pb, n, i). n - i)") auto

definition memcmp :: "buffer \<Rightarrow> buffer \<Rightarrow> nat \<Rightarrow> int" where
  "memcmp a b n = memcmp_from a b n 0"

text \<open>
  \<open>atoi\<close> accumulates in a 32-bit \<open>int\<close>; the accumulator is a 32-bit word, so a value past
  \<open>INT_MAX\<close> wraps the way the compiled code does.
\<close>

fun skip_blanks :: "string \<Rightarrow> string" where
  "skip_blanks [] = []"
| "skip_blanks (c # s) = (if c = CHR '' '' \<or> c = CHR 0x09 then skip_blanks s else c # s)"

fun atoi_digits :: "i32 \<Rightarrow> string \<Rightarrow> i32" where
  "atoi_digits value [] = value"
| "atoi_digits value (c # s) =
     (if 48 \<le> ord c \<and> ord c \<le> 57
      then atoi_digits (value * 10 + word_of_nat (ord c - 48)) s
      else value)"

definition atoi :: "string \<Rightarrow> i32" where
  "atoi s =
     (let s = skip_blanks s in
      if chd s = CHR ''-'' then atoi_digits 0 (tl s) * (- 1)
      else if chd s = CHR ''+'' then atoi_digits 0 (tl s) * 1
      else atoi_digits 0 s * 1)"

declare strlen_from.simps [simp del] strcmp.simps [simp del] strncmp_from.simps [simp del]
  strcpy_from.simps [simp del] memset_from.simps [simp del] memcpy_from.simps [simp del]
  memcmp_from.simps [simp del]

subsection \<open>Reading strings\<close>

lemma strlen_from_eq: "n \<le> length s \<Longrightarrow>
  strlen_from s n = n + length (takeWhile (\<lambda>c. c \<noteq> NUL) (drop n s))"
proof (induction s n rule: strlen_from.induct)
  case (1 s n)
  show ?case
  proof (cases "n < length s")
    case True
    then have "drop n s = s ! n # drop (Suc n) s" by (simp add: Cons_nth_drop_Suc)
    with 1 True show ?thesis by (subst strlen_from.simps) simp
  next
    case False
    with "1.prems" show ?thesis by (subst strlen_from.simps) simp
  qed
qed

lemma strlen_eq: "strlen s = length (takeWhile (\<lambda>c. c \<noteq> NUL) s)"
  by (simp add: strlen_def strlen_from_eq)

lemma strlen_cstring [simp]: "cstring s \<Longrightarrow> strlen s = length s"
  by (induction s) (simp_all add: strlen_eq)

lemma strcmp_Nil: "strcmp [] b = - int (ord (chd b))"
  by (subst strcmp.simps) simp

lemma strcmp_Cons_Nil: "c \<noteq> NUL \<Longrightarrow> strcmp (c # a) [] = int (ord c)"
  by (subst strcmp.simps) simp

lemma strcmp_Cons_Cons:
  "c \<noteq> NUL \<Longrightarrow> strcmp (c # a) (d # b) = (if c = d then strcmp a b else int (ord c) - int (ord d))"
  by (subst strcmp.simps) simp

lemmas strcmp_rec [simp] = strcmp_Nil strcmp_Cons_Nil strcmp_Cons_Cons

lemma ord_NUL_iff [simp]: "ord c = 0 \<longleftrightarrow> c = NUL"
  using ord_inject [of c NUL] by (simp del: ord_inject of_char_eq_iff)

lemma strcmp_eq_0: "cstring a \<Longrightarrow> cstring b \<Longrightarrow> strcmp a b = 0 \<longleftrightarrow> a = b"
proof (induction a arbitrary: b)
  case Nil
  then show ?case by (cases b) auto
next
  case (Cons c a)
  then show ?case by (cases b) auto
qed

lemma strcmp_antisym: "cstring a \<Longrightarrow> cstring b \<Longrightarrow> strcmp b a = - strcmp a b"
proof (induction a arbitrary: b)
  case Nil
  then show ?case by (cases b) auto
next
  case (Cons c a)
  then show ?case by (cases b) auto
qed

lemma strcmp_less_0:
  "cstring a \<Longrightarrow> cstring b \<Longrightarrow> strcmp a b < 0 \<longleftrightarrow> (a, b) \<in> lexord {(c, d). ord c < ord d}"
proof (induction a arbitrary: b)
  case Nil
  then show ?case by (cases b) (auto simp: neq0_conv [symmetric] simp del: neq0_conv)
next
  case (Cons c a)
  then show ?case by (cases b) auto
qed

lemma cget_Suc: "cget s (Suc i) = cget (tl s) i"
  by (cases s) simp_all

lemma strncmp_from_Suc: "strncmp_from a b (Suc n) (Suc i) = strncmp_from (tl a) (tl b) n i"
proof (induction "tl a" "tl b" n i rule: strncmp_from.induct)
  case (1 n i)
  then show ?case
    by (subst (1 2) strncmp_from.simps) (auto simp: cget_Suc)
qed

lemma strncmp_0 [simp]: "strncmp a b 0 = 0"
  unfolding strncmp_def by (subst strncmp_from.simps) simp

lemma strncmp_Suc:
  "strncmp a b (Suc n) =
     (if chd a \<noteq> chd b \<or> chd a = NUL then int (ord (chd a)) - int (ord (chd b))
      else strncmp (tl a) (tl b) n)"
  unfolding strncmp_def by (subst strncmp_from.simps) (auto simp: strncmp_from_Suc)

lemma strncmp_eq_0:
  "cstring a \<Longrightarrow> cstring b \<Longrightarrow> strncmp a b n = 0 \<longleftrightarrow> take n a = take n b"
proof (induction n arbitrary: a b)
  case 0
  then show ?case by simp
next
  case (Suc n)
  then show ?case
    by (cases a; cases b) (auto simp: strncmp_Suc)
qed

lemma strncmp_prefix:
  assumes "cstring a" "cstring b"
  shows "strncmp a b (length b) = 0 \<longleftrightarrow> (\<exists>rest. a = b @ rest)"
proof -
  have "take (length b) a = b \<longleftrightarrow> (\<exists>rest. a = b @ rest)"
    by (metis append_eq_conv_conj append_take_drop_id)
  with assms show ?thesis by (simp add: strncmp_eq_0)
qed

subsection \<open>Writing buffers\<close>

lemma strcpy_from_eq:
  assumes "cstring src"
  shows "i \<le> length src \<Longrightarrow> i \<le> length dst \<Longrightarrow> strcpy_from dst src i =
    (if length src < length dst
     then Some (take i dst @ drop i src @ NUL # drop (Suc (length src)) dst) else None)"
  using assms
proof (induction dst src i rule: strcpy_from.induct)
  case (1 dst src i)
  show ?case
  proof (cases "i < length src")
    case True
    then have ne: "src ! i \<noteq> NUL" using "1.prems" by (simp add: cstring_nth)
    have dr: "drop i src = src ! i # drop (Suc i) src" using True by (simp add: Cons_nth_drop_Suc)
    show ?thesis
    proof (cases "i < length dst")
      case T: True
      with "1.IH" "1.prems" True ne show ?thesis
        by (subst strcpy_from.simps) (simp add: dr take_Suc_conv_app_nth)
    next
      case False
      with True ne show ?thesis by (subst strcpy_from.simps) simp
    qed
  next
    case False
    with "1.prems" have [simp]: "i = length src" by simp
    show ?thesis
      by (subst strcpy_from.simps) (simp add: upd_conv_take_nth_drop)
  qed
qed

lemma strcpy_eq:
  "cstring src \<Longrightarrow> strcpy dst src =
    (if length src < length dst then Some (src @ NUL # drop (Suc (length src)) dst) else None)"
  unfolding strcpy_def by (simp add: strcpy_from_eq)

lemma memset_from_eq:
  "memset_from p off c n i = (\<lambda>k. if off + i \<le> k \<and> k < off + n then c else p k)"
proof (induction p off c n i rule: memset_from.induct)
  case (1 p off c n i)
  show ?case
    by (subst memset_from.simps) (auto simp: 1 fun_eq_iff)
qed

lemma memset_eq: "memset p off c n = (\<lambda>k. if off \<le> k \<and> k < off + n then c else p k)"
  by (simp add: memset_def memset_from_eq)

lemma memcpy_from_eq:
  "memcpy_from d doff s soff n i =
    (\<lambda>k. if doff + i \<le> k \<and> k < doff + n then s (soff + (k - doff)) else d k)"
proof (induction d doff s soff n i rule: memcpy_from.induct)
  case (1 d doff s soff n i)
  show ?case
    by (subst memcpy_from.simps) (auto simp: 1 fun_eq_iff)
qed

lemma memcpy_eq:
  "memcpy d doff s soff n = (\<lambda>k. if doff \<le> k \<and> k < doff + n then s (soff + (k - doff)) else d k)"
  by (simp add: memcpy_def memcpy_from_eq)

lemma memcmp_from_eq_0: "memcmp_from a b n i = 0 \<longleftrightarrow> (\<forall>k. i \<le> k \<longrightarrow> k < n \<longrightarrow> a k = b k)"
proof (induction a b n i rule: memcmp_from.induct)
  case (1 a b n i)
  have "(\<forall>k. i \<le> k \<longrightarrow> k < n \<longrightarrow> a k = b k) \<longleftrightarrow>
    (i < n \<longrightarrow> a i = b i \<and> (\<forall>k. Suc i \<le> k \<longrightarrow> k < n \<longrightarrow> a k = b k))"
    by (auto simp: Suc_le_eq) (metis le_neq_implies_less)
  with 1 show ?case by (subst memcmp_from.simps) (auto simp: word_uint_eq_iff)
qed

lemma memcmp_eq_0: "memcmp a b n = 0 \<longleftrightarrow> (\<forall>k<n. a k = b k)"
  by (simp add: memcmp_def memcmp_from_eq_0)

subsection \<open>Decimal numerals\<close>

definition is_dec :: "char \<Rightarrow> bool" where
  "is_dec c \<longleftrightarrow> 48 \<le> ord c \<and> ord c \<le> 57"

fun dec_val :: "nat \<Rightarrow> string \<Rightarrow> nat" where
  "dec_val v [] = v"
| "dec_val v (c # s) = dec_val (v * 10 + (ord c - 48)) s"

lemma atoi_digits_eq:
  "list_all is_dec ds \<Longrightarrow> (rest = [] \<or> \<not> is_dec (chd rest)) \<Longrightarrow>
     atoi_digits (word_of_nat v) (ds @ rest) = word_of_nat (dec_val v ds)"
proof (induction ds arbitrary: v)
  case Nil
  then show ?case by (cases rest) (auto simp: is_dec_def)
next
  case (Cons c ds)
  then show ?case using Cons.IH [of "v * 10 + (ord c - 48)"]
    by (simp add: is_dec_def algebra_simps)
qed

lemma skip_blanks_append:
  "list_all (\<lambda>c. c = CHR '' '' \<or> c = CHR 0x09) bl \<Longrightarrow> skip_blanks (bl @ s) = skip_blanks s"
  by (induction bl) auto

lemma skip_blanks_id: "chd s \<noteq> CHR '' '' \<Longrightarrow> chd s \<noteq> CHR 0x09 \<Longrightarrow> skip_blanks s = s"
  by (cases s) auto

lemma is_dec_not: "is_dec c \<Longrightarrow> c \<noteq> CHR '' '' \<and> c \<noteq> CHR 0x09 \<and> c \<noteq> CHR ''-'' \<and> c \<noteq> CHR ''+''"
  by (auto simp: is_dec_def)

lemma atoi_unsigned:
  assumes bl: "list_all (\<lambda>c. c = CHR '' '' \<or> c = CHR 0x09) bl"
    and ds: "list_all is_dec ds" "ds \<noteq> []" and rest: "rest = [] \<or> \<not> is_dec (chd rest)"
  shows "atoi (bl @ ds @ rest) = word_of_nat (dec_val 0 ds)"
proof -
  obtain d ds' where d: "ds = d # ds'" using ds(2) by (cases ds) auto
  with ds have "is_dec d" by simp
  then have sk: "skip_blanks (bl @ ds @ rest) = ds @ rest"
    using is_dec_not [of d] d by (simp add: skip_blanks_append bl)
  show ?thesis
    using atoi_digits_eq [OF ds(1) rest, of 0] is_dec_not [OF \<open>is_dec d\<close>]
    unfolding atoi_def sk by (simp add: Let_def d)
qed

lemma atoi_negative:
  assumes bl: "list_all (\<lambda>c. c = CHR '' '' \<or> c = CHR 0x09) bl"
    and ds: "list_all is_dec ds" and rest: "rest = [] \<or> \<not> is_dec (chd rest)"
  shows "atoi (bl @ CHR ''-'' # ds @ rest) = - word_of_nat (dec_val 0 ds)"
  using atoi_digits_eq [OF ds rest, of 0]
  by (simp add: atoi_def skip_blanks_append bl Let_def)

end
