(* ===== verification/Process.thy ===== *)
theory Process
  imports Kstring
begin

text \<open>
  Processes and the scheduler, \<open>kernel/process.c\<close>, with the stack frame \<open>kernel/context.asm\<close>
  restores. The table is a list of sixteen control blocks and \<open>current_process\<close> an index into it. A
  call of \<open>context_switch\<close> is reported in the result of \<open>schedule\<close>; code addresses are words.
\<close>

subsection \<open>Data\<close>

datatype process_state = PROCESS_UNUSED | PROCESS_READY | PROCESS_RUNNING | PROCESS_BLOCKED | PROCESS_ZOMBIE

record cpu_context =
  c_edi :: u32
  c_esi :: u32
  c_ebp :: u32
  c_esp :: u32
  c_ebx :: u32
  c_edx :: u32
  c_ecx :: u32
  c_eax :: u32
  c_eip :: u32
  c_eflags :: u32

text \<open>\<open>stack_ptr\<close> is an index into the process's own \<open>stack\<close>.\<close>

record process =
  p_pid :: u32
  p_state :: process_state
  p_context :: cpu_context
  p_stack :: "nat \<Rightarrow> u32"
  p_stack_ptr :: nat
  p_name :: string
  p_priority :: u32
  p_time_slice :: u32
  p_total_ticks :: u32
  p_exit_code :: int

record sched =
  process_table :: "process list"
  current_process :: "nat option"
  next_pid :: u32
  scheduler_enabled :: bool

datatype switch = No_switch | Switch "nat option" nat

abbreviation (input) MAX_PROCESSES :: nat where "MAX_PROCESSES \<equiv> 16"
abbreviation (input) STACK_WORDS :: nat where "STACK_WORDS \<equiv> 1024"

definition zero_context :: cpu_context where
  "zero_context = \<lparr>c_edi = 0, c_esi = 0, c_ebp = 0, c_esp = 0, c_ebx = 0, c_edx = 0, c_ecx = 0, c_eax = 0,
     c_eip = 0, c_eflags = 0\<rparr>"

text \<open>A control block after \<open>memset\<close> to zero.\<close>

definition zero_process :: process where
  "zero_process = \<lparr>p_pid = 0, p_state = PROCESS_UNUSED, p_context = zero_context, p_stack = (\<lambda>_. 0),
     p_stack_ptr = 0, p_name = replicate 32 NUL, p_priority = 0, p_time_slice = 0, p_total_ticks = 0, p_exit_code = 0\<rparr>"

subsection \<open>Operations\<close>

definition process_init :: "sched \<Rightarrow> sched" where
  "process_init s = s\<lparr>process_table := replicate MAX_PROCESSES zero_process, current_process := None,
     next_pid := 1, scheduler_enabled := False\<rparr>"

fun first_slot :: "(process \<Rightarrow> bool) \<Rightarrow> process list \<Rightarrow> nat \<Rightarrow> nat option" where
  "first_slot P [] i = None"
| "first_slot P (p # ps) i = (if P p then Some i else first_slot P ps (Suc i))"

definition find_free_slot :: "sched \<Rightarrow> nat option" where
  "find_free_slot s = first_slot (\<lambda>p. p_state p = PROCESS_UNUSED) (process_table s) 0"

definition find_process :: "u32 \<Rightarrow> sched \<Rightarrow> nat option" where
  "find_process pid s = first_slot (\<lambda>p. p_pid p = pid \<and> p_state p \<noteq> PROCESS_UNUSED) (process_table s) 0"

definition put_process :: "nat \<Rightarrow> process \<Rightarrow> sched \<Rightarrow> sched" where
  "put_process i p s = s\<lparr>process_table := (process_table s)[i := p]\<rparr>"

text \<open>
  \<open>push_down\<close> stores the words of a list downward from index \<open>i\<close>: \<open>*sp-- = w\<close> for each but the
  last, \<open>*sp = w\<close> for the last.
\<close>

fun push_down :: "nat \<Rightarrow> u32 list \<Rightarrow> (nat \<Rightarrow> u32) \<Rightarrow> (nat \<Rightarrow> u32) \<times> nat" where
  "push_down i [] st = (st, i)"
| "push_down i [w] st = (st(i := w), i)"
| "push_down i (w # ws) st = push_down (i - 1) ws (st(i := w))"

definition initial_frame :: "u32 \<Rightarrow> u32 \<Rightarrow> u32 list" where
  "initial_frame wrapper entry = [entry, 0, wrapper, 0x202, 0, 0, 0, 0, 0, 0, 0, 0]"

text \<open>
  \<open>wrapper\<close> and \<open>entry\<close> are the addresses of \<open>process_wrapper\<close> and of the new process's code.
\<close>

definition process_create :: "u32 \<Rightarrow> string \<Rightarrow> u32 \<Rightarrow> sched \<Rightarrow> int \<times> sched" where
  "process_create wrapper name entry s =
     (case find_free_slot s of
        None \<Rightarrow> (- 1, s)
      | Some i \<Rightarrow>
          let len = (if strlen name > 31 then 31 else strlen name);
              nm = (take len name @ drop len (p_name zero_process))[len := NUL];
              (st, sp) = push_down (STACK_WORDS - 1) (initial_frame wrapper entry) (p_stack zero_process);
              p = zero_process\<lparr>p_pid := next_pid s, p_state := PROCESS_READY, p_priority := 1, p_time_slice := 10,
                    p_name := nm, p_stack := st, p_stack_ptr := sp\<rparr> in
          (sint (next_pid s), (put_process i p s)\<lparr>next_pid := next_pid s + 1\<rparr>))"

definition cleanup_zombies :: "sched \<Rightarrow> sched" where
  "cleanup_zombies s = s\<lparr>process_table := map (\<lambda>p. if p_state p = PROCESS_ZOMBIE
      then p\<lparr>p_state := PROCESS_UNUSED, p_pid := 0\<rparr> else p) (process_table s)\<rparr>"

text \<open>The search for the next ready process: \<open>n\<close> candidates are left, from distance \<open>i\<close> on.\<close>

fun next_ready :: "process list \<Rightarrow> nat \<Rightarrow> nat \<Rightarrow> nat \<Rightarrow> nat option" where
  "next_ready tab start 0 i = None"
| "next_ready tab start (Suc n) i =
     (let idx = (start + i) mod MAX_PROCESSES in
      if p_state (tab ! idx) = PROCESS_READY then Some idx else next_ready tab start n (Suc i))"

definition set_state :: "nat \<Rightarrow> process_state \<Rightarrow> sched \<Rightarrow> sched" where
  "set_state i st s = put_process i ((process_table s ! i)\<lparr>p_state := st\<rparr>) s"

definition schedule :: "sched \<Rightarrow> switch \<times> sched" where
  "schedule s =
     (if \<not> scheduler_enabled s then (No_switch, s)
      else let s = cleanup_zombies s;
               start = (case current_process s of Some c \<Rightarrow> c + 1 | None \<Rightarrow> 0) in
        case next_ready (process_table s) start MAX_PROCESSES 0 of
          None \<Rightarrow> (No_switch, s)
        | Some next \<Rightarrow>
            let old = current_process s;
                s = (case old of
                       Some c \<Rightarrow> if p_state (process_table s ! c) = PROCESS_RUNNING then set_state c PROCESS_READY s else s
                     | None \<Rightarrow> s);
                s = (set_state next PROCESS_RUNNING s)\<lparr>current_process := Some next\<rparr> in
            (if old = Some next then No_switch else Switch old next, s))"

definition process_yield :: "sched \<Rightarrow> switch \<times> sched" where
  "process_yield s = schedule s"

text \<open>\<open>process_exit\<close> up to the point where the exiting process would halt.\<close>

definition process_exit :: "int \<Rightarrow> sched \<Rightarrow> switch \<times> sched" where
  "process_exit exit_code s =
     (case current_process s of
        None \<Rightarrow> (No_switch, s)
      | Some c \<Rightarrow>
          schedule (put_process c ((process_table s ! c)\<lparr>p_state := PROCESS_ZOMBIE, p_exit_code := exit_code\<rparr>) s))"

definition process_kill :: "u32 \<Rightarrow> sched \<Rightarrow> int \<times> switch \<times> sched" where
  "process_kill pid s =
     (case find_process pid s of
        None \<Rightarrow> (- 1, No_switch, s)
      | Some i \<Rightarrow>
          let s = put_process i ((process_table s ! i)\<lparr>p_state := PROCESS_ZOMBIE, p_exit_code := - 1\<rparr>) s in
          if current_process s = Some i then (0, schedule s) else (0, No_switch, s))"

definition scheduler_init :: "sched \<Rightarrow> sched" where
  "scheduler_init s = s\<lparr>scheduler_enabled := True\<rparr>"

definition scheduler_tick :: "sched \<Rightarrow> switch \<times> sched" where
  "scheduler_tick s =
     (case current_process s of
        None \<Rightarrow> (No_switch, s)
      | Some c \<Rightarrow>
          if \<not> scheduler_enabled s then (No_switch, s)
          else let p = process_table s ! c;
                   p = p\<lparr>p_total_ticks := p_total_ticks p + 1\<rparr>;
                   p = (if p_time_slice p > 0 then p\<lparr>p_time_slice := p_time_slice p - 1\<rparr> else p) in
          if p_time_slice p = 0 then schedule (put_process c (p\<lparr>p_time_slice := 10\<rparr>) s)
          else (No_switch, put_process c p s))"

text \<open>
  What \<open>context_switch\<close> restores from a stack pointer: it pops edi, esi, ebp, ebx, edx, ecx, eax and
  the flags, and returns to the next word.
\<close>

record restored =
  r_edi :: u32
  r_esi :: u32
  r_ebp :: u32
  r_ebx :: u32
  r_edx :: u32
  r_ecx :: u32
  r_eax :: u32
  r_eflags :: u32
  r_eip :: u32

definition context_restore :: "(nat \<Rightarrow> u32) \<Rightarrow> nat \<Rightarrow> restored" where
  "context_restore st sp = \<lparr>r_edi = st sp, r_esi = st (sp + 1), r_ebp = st (sp + 2), r_ebx = st (sp + 3),
     r_edx = st (sp + 4), r_ecx = st (sp + 5), r_eax = st (sp + 6), r_eflags = st (sp + 7), r_eip = st (sp + 8)\<rparr>"

subsection \<open>Listing\<close>

definition state_text :: "process_state \<Rightarrow> string" where
  "state_text st = (case st of PROCESS_READY \<Rightarrow> ''READY   '' | PROCESS_RUNNING \<Rightarrow> ''RUNNING ''
     | PROCESS_BLOCKED \<Rightarrow> ''BLOCKED '' | PROCESS_ZOMBIE \<Rightarrow> ''ZOMBIE  '' | PROCESS_UNUSED \<Rightarrow> ''?       '')"

text \<open>The text \<open>process_list\<close> prints; \<open>dec\<close> is what \<open>vga_print_dec\<close> prints for a number.\<close>

definition process_list :: "(u32 \<Rightarrow> string) \<Rightarrow> sched \<Rightarrow> string" where
  "process_list dec s =
     ''PID  STATE    NAME'' @ [CHR 0x0A] @ ''---- -------- ----------------'' @ [CHR 0x0A] @
     concat (map (\<lambda>p. dec (p_pid p) @ ''    '' @ state_text (p_state p) @ '' '' @
         takeWhile (\<lambda>c. c \<noteq> NUL) (p_name p) @ [CHR 0x0A])
       (filter (\<lambda>p. p_state p \<noteq> PROCESS_UNUSED) (process_table s)))"

subsection \<open>Basic facts\<close>

definition sched_ok :: "sched \<Rightarrow> bool" where
  "sched_ok s \<longleftrightarrow> length (process_table s) = MAX_PROCESSES \<and>
     (\<forall>c. current_process s = Some c \<longrightarrow> c < MAX_PROCESSES)"

definition state_of :: "sched \<Rightarrow> nat \<Rightarrow> process_state" where
  "state_of s i = p_state (process_table s ! i)"

lemma first_slot_Some:
  "first_slot P ps i = Some k \<Longrightarrow> i \<le> k \<and> k < i + length ps \<and> P (ps ! (k - i)) \<and> (\<forall>j. i \<le> j \<and> j < k \<longrightarrow> \<not> P (ps ! (j - i)))"
proof (induction ps arbitrary: i)
  case (Cons p ps)
  show ?case
  proof (cases "P p")
    case False
    then have k: "Suc i \<le> k \<and> k < Suc i + length ps \<and> P (ps ! (k - Suc i)) \<and> (\<forall>j. Suc i \<le> j \<and> j < k \<longrightarrow> \<not> P (ps ! (j - Suc i)))"
      using Cons.IH [of "Suc i"] Cons.prems by simp
    have n: "(p # ps) ! (j - i) = ps ! (j - Suc i)" if "Suc i \<le> j" for j
    proof -
      have "j - i = Suc (j - Suc i)" using that by simp
      then show ?thesis by simp
    qed
    have "\<not> P ((p # ps) ! (j - i))" if "i \<le> j" "j < k" for j
      using that k n [of j] False by (cases "j = i") auto
    then show ?thesis using k n [of k] by auto
  qed (use Cons.prems in auto)
qed simp

lemma first_slot_None: "first_slot P ps i = None \<longleftrightarrow> (\<forall>p \<in> set ps. \<not> P p)"
  by (induction ps arbitrary: i) auto

lemma put_process_simps [simp]:
  "process_table (put_process i p s) = (process_table s)[i := p]" "current_process (put_process i p s) = current_process s"
  "next_pid (put_process i p s) = next_pid s" "scheduler_enabled (put_process i p s) = scheduler_enabled s"
  by (simp_all add: put_process_def)

lemma set_state_simps [simp]:
  "current_process (set_state i st s) = current_process s" "next_pid (set_state i st s) = next_pid s"
  "scheduler_enabled (set_state i st s) = scheduler_enabled s" "length (process_table (set_state i st s)) = length (process_table s)"
  by (simp_all add: set_state_def)

lemma state_of_put: "j < length (process_table s) \<Longrightarrow> state_of (put_process i p s) j = (if i = j then p_state p else state_of s j)"
  by (simp add: state_of_def nth_list_update)

lemma state_of_set: "j < length (process_table s) \<Longrightarrow> state_of (set_state i st s) j = (if i = j then st else state_of s j)"
  by (simp add: set_state_def state_of_put)

lemma cleanup_simps [simp]:
  "current_process (cleanup_zombies s) = current_process s" "length (process_table (cleanup_zombies s)) = length (process_table s)"
  "scheduler_enabled (cleanup_zombies s) = scheduler_enabled s" "next_pid (cleanup_zombies s) = next_pid s"
  by (simp_all add: cleanup_zombies_def)

lemma state_of_cleanup:
  "j < length (process_table s) \<Longrightarrow> state_of (cleanup_zombies s) j = (if state_of s j = PROCESS_ZOMBIE then PROCESS_UNUSED else state_of s j)"
  by (simp add: cleanup_zombies_def state_of_def)

subsection \<open>The search of the scheduler\<close>

lemma next_ready_Some:
  "next_ready tab start n i = Some idx \<Longrightarrow> \<exists>k. i \<le> k \<and> k < i + n \<and> idx = (start + k) mod MAX_PROCESSES \<and>
     p_state (tab ! idx) = PROCESS_READY \<and>
     (\<forall>j. i \<le> j \<and> j < k \<longrightarrow> p_state (tab ! ((start + j) mod MAX_PROCESSES)) \<noteq> PROCESS_READY)"
proof (induction n arbitrary: i)
  case (Suc n)
  show ?case
  proof (cases "p_state (tab ! ((start + i) mod 16)) = PROCESS_READY")
    case True
    then show ?thesis using Suc.prems by (intro exI [of _ i]) (auto simp: Let_def)
  next
    case False
    then obtain k where k: "Suc i \<le> k" "k < Suc i + n" "idx = (start + k) mod 16" "p_state (tab ! idx) = PROCESS_READY"
      "\<forall>j. Suc i \<le> j \<and> j < k \<longrightarrow> p_state (tab ! ((start + j) mod 16)) \<noteq> PROCESS_READY"
      using Suc.IH [of "Suc i"] Suc.prems by (auto simp: Let_def)
    have "p_state (tab ! ((start + j) mod 16)) \<noteq> PROCESS_READY" if "i \<le> j" "j < k" for j
      using that k(5) False by (cases "j = i") auto
    then show ?thesis using k by (intro exI [of _ k]) auto
  qed
qed simp

lemma next_ready_None:
  "next_ready tab start n i = None \<Longrightarrow> i \<le> k \<Longrightarrow> k < i + n \<Longrightarrow> p_state (tab ! ((start + k) mod MAX_PROCESSES)) \<noteq> PROCESS_READY"
proof (induction n arbitrary: i)
  case (Suc n)
  have first: "p_state (tab ! ((start + i) mod 16)) \<noteq> PROCESS_READY" and rest: "next_ready tab start n (Suc i) = None"
    using Suc.prems(1) by (auto simp: Let_def split: if_splits)
  show ?case
  proof (cases "k = i")
    case True
    then show ?thesis using first by simp
  next
    case False
    then show ?thesis using Suc.IH [OF rest] Suc.prems by simp
  qed
qed simp

text \<open>How far \<open>j\<close> is behind \<open>c\<close> in the cyclic order of the table.\<close>

definition ring_dist :: "nat \<Rightarrow> nat \<Rightarrow> nat" where
  "ring_dist c j = (if c < j then j - c - 1 else j + 15 - c)"

lemma ring_dist_facts:
  assumes "c < 16" "j < 16"
  shows "ring_dist c j < 16" "(c + 1 + ring_dist c j) mod 16 = j"
    "k < ring_dist c j \<Longrightarrow> ring_dist ((c + 1 + k) mod 16) j = ring_dist c j - k - 1"
    "k < ring_dist c j \<Longrightarrow> (c + 1 + k) mod 16 \<noteq> j"
proof -
  have m: "x mod 16 = (if x < 16 then x else x - 16)" if "x < 32" for x :: nat
    using that by (simp add: le_mod_geq)
  show d: "ring_dist c j < 16" using assms unfolding ring_dist_def by (simp split: if_split) linarith
  show "(c + 1 + ring_dist c j) mod 16 = j"
    using assms d m [of "c + 1 + ring_dist c j"] by (simp add: ring_dist_def split: if_splits)
  assume k: "k < ring_dist c j"
  then have i: "(c + 1 + k) mod 16 = (if c + 1 + k < 16 then c + 1 + k else c + 1 + k - 16)"
    using assms d by (intro m) simp
  show "ring_dist ((c + 1 + k) mod 16) j = ring_dist c j - k - 1" "(c + 1 + k) mod 16 \<noteq> j"
    unfolding i using assms k by (simp_all add: ring_dist_def split: if_splits) linarith+
qed

text \<open>A table of processes that are running their course: no zombie, and the current one is running.\<close>

definition steady :: "sched \<Rightarrow> nat \<Rightarrow> bool" where
  "steady s c \<longleftrightarrow> sched_ok s \<and> scheduler_enabled s \<and> current_process s = Some c \<and> state_of s c = PROCESS_RUNNING \<and>
     (\<forall>i < MAX_PROCESSES. state_of s i \<noteq> PROCESS_ZOMBIE)"

lemma cleanup_steady: "steady s c \<Longrightarrow> cleanup_zombies s = s"
proof -
  assume "steady s c"
  then have "p_state p \<noteq> PROCESS_ZOMBIE" if "p \<in> set (process_table s)" for p
    using that by (auto simp: steady_def sched_ok_def state_of_def in_set_conv_nth)
  then have "map (\<lambda>p. if p_state p = PROCESS_ZOMBIE then p\<lparr>p_state := PROCESS_UNUSED, p_pid := 0\<rparr> else p) (process_table s) = process_table s"
    by (intro map_idI) auto
  then show ?thesis by (simp add: cleanup_zombies_def)
qed

text \<open>One call of \<open>schedule\<close> when \<open>j\<close> is ready: the nearest ready process runs.\<close>

lemma schedule_steady:
  assumes st: "steady s c" and j: "j < MAX_PROCESSES" "state_of s j = PROCESS_READY"
  obtains n k where "k \<le> ring_dist c j" "n = (c + 1 + k) mod MAX_PROCESSES" "state_of s n = PROCESS_READY"
    "fst (schedule s) = Switch (Some c) n" "steady (snd (schedule s)) n"
    "\<And>i. i < MAX_PROCESSES \<Longrightarrow> i \<noteq> n \<Longrightarrow> state_of s i = PROCESS_READY \<Longrightarrow> state_of (snd (schedule s)) i = PROCESS_READY"
    "\<And>i. i < k \<Longrightarrow> state_of s ((c + 1 + i) mod MAX_PROCESSES) \<noteq> PROCESS_READY"
proof -
  have c: "c < 16" "length (process_table s) = 16" "current_process s = Some c" "scheduler_enabled s" "state_of s c = PROCESS_RUNNING"
    using st by (auto simp: steady_def sched_ok_def)
  note R = ring_dist_facts [OF c(1) j(1)]
  have "next_ready (process_table s) (c + 1) 16 0 \<noteq> None"
    using next_ready_None [of "process_table s" "c + 1" 16 0 "ring_dist c j"] R(1,2) j(2) by (auto simp: state_of_def)
  then obtain n where nr: "next_ready (process_table s) (c + 1) 16 0 = Some n" by blast
  then obtain k where k: "k < 16" "n = (c + 1 + k) mod 16" "state_of s n = PROCESS_READY"
    "\<And>i. i < k \<Longrightarrow> state_of s ((c + 1 + i) mod 16) \<noteq> PROCESS_READY"
    using next_ready_Some [OF nr] by (auto simp: state_of_def)
  have kd: "k \<le> ring_dist c j" using k(4) [of "ring_dist c j"] R(2) j(2) by (cases "k \<le> ring_dist c j") auto
  have nc: "n \<noteq> c" "n < 16" using k(2,3) c(5) by auto
  have eq: "schedule s = (Switch (Some c) n, (set_state n PROCESS_RUNNING (set_state c PROCESS_READY s))\<lparr>current_process := Some n\<rparr>)"
    using nr c nc cleanup_steady [OF st] by (simp add: schedule_def Let_def state_of_def)
  have so: "state_of (snd (schedule s)) i = (if i = n then PROCESS_RUNNING else if i = c then PROCESS_READY else state_of s i)"
    if "i < 16" for i
    using that c(2) by (simp add: eq state_of_def set_state_def nth_list_update)
  have "steady (snd (schedule s)) n"
    unfolding steady_def sched_ok_def using so nc c st by (auto simp: eq steady_def)
  then show thesis using that [OF kd k(2,3) _ _ _ k(4)] eq so by auto
qed

lemma schedule_fair_aux:
  "steady s c \<Longrightarrow> j < MAX_PROCESSES \<Longrightarrow> state_of s j = PROCESS_READY \<Longrightarrow>
     \<exists>n \<le> Suc (ring_dist c j). current_process (((snd \<circ> schedule) ^^ n) s) = Some j"
proof (induction "ring_dist c j" arbitrary: s c rule: less_induct)
  case less
  obtain n k where S: "k \<le> ring_dist c j" "n = (c + 1 + k) mod 16" "state_of s n = PROCESS_READY"
    "fst (schedule s) = Switch (Some c) n" "steady (snd (schedule s)) n"
    "\<And>i. i < 16 \<Longrightarrow> i \<noteq> n \<Longrightarrow> state_of s i = PROCESS_READY \<Longrightarrow> state_of (snd (schedule s)) i = PROCESS_READY"
    using schedule_steady [OF less.prems] by metis
  have c: "c < 16" using less.prems(1) by (auto simp: steady_def sched_ok_def)
  note R = ring_dist_facts [OF c less.prems(2)]
  show ?case
  proof (cases "k = ring_dist c j")
    case True
    then have "n = j" using S(2) R(2) by simp
    then show ?thesis using S(5) by (intro exI [of _ 1]) (simp add: steady_def)
  next
    case False
    then have kl: "k < ring_dist c j" using S(1) by simp
    have d: "ring_dist n j = ring_dist c j - k - 1" "n \<noteq> j" using R(3,4) [OF kl] S(2) by simp_all
    obtain m where "m \<le> Suc (ring_dist n j)" "current_process (((snd \<circ> schedule) ^^ m) (snd (schedule s))) = Some j"
      using less.hyps [of n "snd (schedule s)"] d kl S(5,6) less.prems(2,3) by auto
    then show ?thesis using d(1) kl by (intro exI [of _ "Suc m"]) (simp add: funpow_Suc_right del: funpow.simps)
  qed
qed

subsection \<open>The process table invariant\<close>

definition pid_of :: "sched \<Rightarrow> nat \<Rightarrow> u32" where
  "pid_of s i = p_pid (process_table s ! i)"

text \<open>
  Only the current process is running, and the processes in the table have distinct identifiers
  below \<open>next_pid\<close>.
\<close>

definition sched_inv :: "sched \<Rightarrow> bool" where
  "sched_inv s \<longleftrightarrow> sched_ok s \<and> 0 < next_pid s \<and>
     (\<forall>i < MAX_PROCESSES. state_of s i = PROCESS_RUNNING \<longrightarrow> current_process s = Some i) \<and>
     (\<forall>i < MAX_PROCESSES. state_of s i \<noteq> PROCESS_UNUSED \<longrightarrow> 0 < pid_of s i \<and> pid_of s i < next_pid s) \<and>
     inj_on (pid_of s) {i. i < MAX_PROCESSES \<and> state_of s i \<noteq> PROCESS_UNUSED}"

lemma sched_invD:
  assumes "sched_inv s"
  shows "length (process_table s) = MAX_PROCESSES" "current_process s = Some c \<Longrightarrow> c < MAX_PROCESSES" "0 < next_pid s"
    "i < MAX_PROCESSES \<Longrightarrow> state_of s i = PROCESS_RUNNING \<Longrightarrow> current_process s = Some i"
    "i < MAX_PROCESSES \<Longrightarrow> state_of s i \<noteq> PROCESS_UNUSED \<Longrightarrow> 0 < pid_of s i"
    "i < MAX_PROCESSES \<Longrightarrow> state_of s i \<noteq> PROCESS_UNUSED \<Longrightarrow> pid_of s i < next_pid s"
    "inj_on (pid_of s) {i. i < MAX_PROCESSES \<and> state_of s i \<noteq> PROCESS_UNUSED}"
  using assms unfolding sched_inv_def sched_ok_def by blast+

lemma sched_invI:
  assumes "length (process_table s) = MAX_PROCESSES" "\<And>c. current_process s = Some c \<Longrightarrow> c < MAX_PROCESSES" "0 < next_pid s"
    "\<And>i. i < MAX_PROCESSES \<Longrightarrow> state_of s i = PROCESS_RUNNING \<Longrightarrow> current_process s = Some i"
    "\<And>i. i < MAX_PROCESSES \<Longrightarrow> state_of s i \<noteq> PROCESS_UNUSED \<Longrightarrow> 0 < pid_of s i"
    "\<And>i. i < MAX_PROCESSES \<Longrightarrow> state_of s i \<noteq> PROCESS_UNUSED \<Longrightarrow> pid_of s i < next_pid s"
    "inj_on (pid_of s) {i. i < MAX_PROCESSES \<and> state_of s i \<noteq> PROCESS_UNUSED}"
  shows "sched_inv s"
  using assms unfolding sched_inv_def sched_ok_def by blast

text \<open>Steps that start no process: every used slot was used before and keeps its identifier.\<close>

definition keeps_pids :: "sched \<Rightarrow> sched \<Rightarrow> bool" where
  "keeps_pids s s' \<longleftrightarrow> length (process_table s') = length (process_table s) \<and> next_pid s' = next_pid s \<and>
     (\<forall>i < length (process_table s). state_of s' i \<noteq> PROCESS_UNUSED \<longrightarrow> state_of s i \<noteq> PROCESS_UNUSED \<and> pid_of s' i = pid_of s i)"

lemma keeps_pids_refl [simp]: "keeps_pids s s"
  by (simp add: keeps_pids_def)

lemma keeps_pids_trans: "keeps_pids s t \<Longrightarrow> keeps_pids t u \<Longrightarrow> keeps_pids s u"
  by (auto simp: keeps_pids_def)

lemma inv_keeps:
  assumes "sched_inv s" "keeps_pids s s'" "\<And>c. current_process s' = Some c \<Longrightarrow> c < MAX_PROCESSES"
    "\<And>i. i < MAX_PROCESSES \<Longrightarrow> state_of s' i = PROCESS_RUNNING \<Longrightarrow> current_process s' = Some i"
  shows "sched_inv s'"
proof -
  note I = sched_invD [OF assms(1)]
  have len: "length (process_table s') = 16" "next_pid s' = next_pid s"
    using I(1) assms(2) by (simp_all add: keeps_pids_def)
  have k: "state_of s i \<noteq> PROCESS_UNUSED" "pid_of s' i = pid_of s i" if "i < 16" "state_of s' i \<noteq> PROCESS_UNUSED" for i
    using assms(2) that I(1) by (simp_all add: keeps_pids_def)
  have sub: "{i. i < 16 \<and> state_of s' i \<noteq> PROCESS_UNUSED} \<subseteq> {i. i < 16 \<and> state_of s i \<noteq> PROCESS_UNUSED}" using k(1) by blast
  have "inj_on (pid_of s') {i. i < 16 \<and> state_of s' i \<noteq> PROCESS_UNUSED} =
      inj_on (pid_of s) {i. i < 16 \<and> state_of s' i \<noteq> PROCESS_UNUSED}"
    using k(2) by (intro inj_on_cong) blast
  then have "inj_on (pid_of s') {i. i < 16 \<and> state_of s' i \<noteq> PROCESS_UNUSED}" using inj_on_subset [OF I(7) sub] by simp
  moreover have "0 < pid_of s' i" "pid_of s' i < next_pid s'" if "i < 16" "state_of s' i \<noteq> PROCESS_UNUSED" for i
    using k [OF that] I(5,6) [OF that(1)] len(2) by simp_all
  moreover have "0 < next_pid s'" using I(3) len(2) by simp
  ultimately show ?thesis using len(1) assms(3,4) by (intro sched_invI) blast+
qed

lemma pid_of_put: "j < length (process_table s) \<Longrightarrow> pid_of (put_process i p s) j = (if i = j then p_pid p else pid_of s j)"
  by (simp add: pid_of_def nth_list_update)

lemma put_keeps:
  "(state_of s i = PROCESS_UNUSED \<Longrightarrow> p_state p = PROCESS_UNUSED) \<Longrightarrow> (p_state p \<noteq> PROCESS_UNUSED \<Longrightarrow> p_pid p = pid_of s i) \<Longrightarrow>
     keeps_pids s (put_process i p s)"
  by (auto simp: keeps_pids_def state_of_put pid_of_put split: if_splits)

lemma cleanup_keeps: "keeps_pids s (cleanup_zombies s)"
  by (auto simp: keeps_pids_def state_of_cleanup pid_of_def cleanup_zombies_def state_of_def)

lemma set_state_keeps: "state_of s i \<noteq> PROCESS_UNUSED \<or> st = PROCESS_UNUSED \<Longrightarrow> keeps_pids s (set_state i st s)"
  unfolding set_state_def by (rule put_keeps) (auto simp: pid_of_def)

lemma keeps_current [simp]: "keeps_pids s (s'\<lparr>current_process := c\<rparr>) = keeps_pids s s'"
  by (simp add: keeps_pids_def state_of_def pid_of_def)

lemma state_of_current [simp]: "state_of (s\<lparr>current_process := c\<rparr>) i = state_of s i"
  by (simp add: state_of_def)

text \<open>What \<open>schedule\<close> does to the states; \<open>s1\<close> is the table after the zombies were removed.\<close>

lemma schedule_cases:
  assumes "schedule s = (w, s')"
  obtains (off) "\<not> scheduler_enabled s" "s' = s"
  | (idle) "s' = cleanup_zombies s"
  | (run) n s2 where "n < MAX_PROCESSES" "state_of (cleanup_zombies s) n = PROCESS_READY"
      "s2 = (case current_process s of
         Some c \<Rightarrow> if state_of (cleanup_zombies s) c = PROCESS_RUNNING then set_state c PROCESS_READY (cleanup_zombies s) else cleanup_zombies s
       | None \<Rightarrow> cleanup_zombies s)"
      "s' = (set_state n PROCESS_RUNNING s2)\<lparr>current_process := Some n\<rparr>"
proof (cases "scheduler_enabled s")
  case True
  define start where "start = (case current_process s of Some c \<Rightarrow> c + 1 | None \<Rightarrow> 0)"
  show ?thesis
  proof (cases "next_ready (process_table (cleanup_zombies s)) start 16 0")
    case None
    then show ?thesis using assms True idle by (simp add: schedule_def Let_def start_def)
  next
    case (Some n)
    obtain k where "n = (start + k) mod 16" "state_of (cleanup_zombies s) n = PROCESS_READY"
      using next_ready_Some [OF Some] by (auto simp: state_of_def)
    moreover from this have "n < 16" by simp
    moreover have "s' = (set_state n PROCESS_RUNNING (case current_process s of
         Some c \<Rightarrow> if state_of (cleanup_zombies s) c = PROCESS_RUNNING then set_state c PROCESS_READY (cleanup_zombies s) else cleanup_zombies s
       | None \<Rightarrow> cleanup_zombies s))\<lparr>current_process := Some n\<rparr>"
      using assms True Some by (cases "current_process s") (auto simp: schedule_def Let_def start_def state_of_def)
    ultimately show ?thesis using run [of n] by blast
  qed
next
  case False
  then have "s' = s" using assms by (simp add: schedule_def)
  then show ?thesis using False by (intro off)
qed

lemma schedule_inv:
  assumes inv: "sched_inv s" and sc: "schedule s = (w, s')"
  shows "sched_inv s'"
proof -
  note len = sched_invD(1) [OF inv] and cur = sched_invD(2) [OF inv] and run = sched_invD(4) [OF inv]
  have clr: "current_process s = Some i" if "i < 16" "state_of (cleanup_zombies s) i = PROCESS_RUNNING" for i
    using run [of i] that state_of_cleanup [of i s] len by (auto split: if_splits)
  from sc show ?thesis
  proof (cases rule: schedule_cases)
    case off
    then show ?thesis using inv by simp
  next
    case idle
    show ?thesis unfolding idle
    proof (rule inv_keeps [OF inv cleanup_keeps])
      show "current_process (cleanup_zombies s) = Some c \<Longrightarrow> c < 16" for c using cur by simp
      show "i < 16 \<Longrightarrow> state_of (cleanup_zombies s) i = PROCESS_RUNNING \<Longrightarrow> current_process (cleanup_zombies s) = Some i" for i
        using clr [of i] by simp
    qed
  next
    case (run n s2)
    have k2: "keeps_pids s s2 \<and> length (process_table s2) = 16 \<and> state_of s2 n \<noteq> PROCESS_UNUSED \<and>
      (\<forall>i < 16. state_of s2 i \<noteq> PROCESS_RUNNING)"
    proof (cases "\<exists>c. current_process s = Some c \<and> state_of (cleanup_zombies s) c = PROCESS_RUNNING")
      case True
      then obtain c where c: "current_process s = Some c" "state_of (cleanup_zombies s) c = PROCESS_RUNNING" by blast
      then have s2: "s2 = set_state c PROCESS_READY (cleanup_zombies s)" using run(3) by simp
      have "keeps_pids (cleanup_zombies s) s2" unfolding s2 by (rule set_state_keeps) (simp add: c)
      then have "keeps_pids s s2" by (rule keeps_pids_trans [OF cleanup_keeps])
      moreover have "state_of s2 i \<noteq> PROCESS_RUNNING" if "i < 16" for i
        using clr [OF that] that c(1) len by (auto simp: s2 state_of_set split: if_splits)
      moreover have "state_of s2 n \<noteq> PROCESS_UNUSED" using run(1,2) len by (simp add: s2 state_of_set)
      ultimately show ?thesis using len by (simp add: s2)
    next
      case False
      then have "s2 = cleanup_zombies s" using run(3) by (auto split: option.splits)
      moreover have "state_of (cleanup_zombies s) i \<noteq> PROCESS_RUNNING" if "i < 16" for i using clr [OF that] False by auto
      ultimately show ?thesis using len run(2) cleanup_keeps by simp
    qed
    have "keeps_pids s2 (set_state n PROCESS_RUNNING s2)" using k2 by (intro set_state_keeps) simp
    then have kp: "keeps_pids s s'" using keeps_pids_trans k2 unfolding run(4) keeps_current by blast
    have cn: "current_process s' = Some n" by (simp add: run(4))
    show ?thesis
    proof (rule inv_keeps [OF inv kp])
      show "current_process s' = Some c \<Longrightarrow> c < 16" for c using cn run(1) by simp
      show "current_process s' = Some i" if "i < 16" "state_of s' i = PROCESS_RUNNING" for i
        using that k2 cn by (auto simp: run(4) state_of_set split: if_splits)
    qed
  qed
qed

lemma put_inv:
  assumes "sched_inv s" "state_of s i = PROCESS_UNUSED \<Longrightarrow> p_state p = PROCESS_UNUSED"
    "p_state p \<noteq> PROCESS_UNUSED \<Longrightarrow> p_pid p = pid_of s i" "p_state p = PROCESS_RUNNING \<Longrightarrow> state_of s i = PROCESS_RUNNING"
  shows "sched_inv (put_process i p s)"
proof -
  note len = sched_invD(1) [OF assms(1)] and cur = sched_invD(2) [OF assms(1)] and run = sched_invD(4) [OF assms(1)]
  have k: "keeps_pids s (put_process i p s)" using assms(2,3) by (rule put_keeps)
  show ?thesis
  proof (rule inv_keeps [OF assms(1) k])
    show "current_process (put_process i p s) = Some c \<Longrightarrow> c < 16" for c using cur by simp
    show "current_process (put_process i p s) = Some j" if "j < 16" "state_of (put_process i p s) j = PROCESS_RUNNING" for j
      using run [OF that(1)] that assms(4) state_of_put [of j s i p] len by (auto split: if_splits)
  qed
qed

lemma create_inv:
  assumes inv: "sched_inv s" and nw: "next_pid s + 1 > next_pid s" and cr: "process_create w nm e s = (r, s')"
  shows "sched_inv s'"
proof (cases "find_free_slot s")
  case None
  then show ?thesis using cr inv by (simp add: process_create_def)
next
  case (Some i)
  note I = sched_invD [OF inv]
  have i: "i < 16" "state_of s i = PROCESS_UNUSED"
    using first_slot_Some [OF Some [unfolded find_free_slot_def]] I(1) by (auto simp: state_of_def)
  obtain p where p: "s' = (put_process i p s)\<lparr>next_pid := next_pid s + 1\<rparr>" "p_state p = PROCESS_READY" "p_pid p = next_pid s"
    using cr Some by (auto simp: process_create_def Let_def split: prod.splits)
  have st: "state_of s' j = (if i = j then PROCESS_READY else state_of s j)" "pid_of s' j = (if i = j then next_pid s else pid_of s j)"
    if "j < 16" for j
    using that I(1) p by (simp_all add: state_of_def pid_of_def nth_list_update)
  have np: "next_pid s' = next_pid s + 1" "current_process s' = current_process s" "length (process_table s') = 16"
    using p I(1) by simp_all
  show ?thesis
  proof (rule sched_invI)
    show "0 < next_pid s'" using I(3) nw unfolding np by (rule order.strict_trans)
    fix j assume j: "j < 16" "state_of s' j \<noteq> PROCESS_UNUSED"
    show "0 < pid_of s' j" using j st [OF j(1)] I(3,5) by (auto split: if_splits)
    show "pid_of s' j < next_pid s'"
      using j st [OF j(1)] I(6) [of j] nw order.strict_trans [of "pid_of s j"] unfolding np by (auto split: if_splits)
  next
    fix j assume "j < 16" "state_of s' j = PROCESS_RUNNING"
    then show "current_process s' = Some j" using st I(4) np(2) by (auto split: if_splits)
  next
    show "inj_on (pid_of s') {j. j < 16 \<and> state_of s' j \<noteq> PROCESS_UNUSED}"
    proof (rule inj_onI)
      fix j k
      assume "j \<in> {j. j < 16 \<and> state_of s' j \<noteq> PROCESS_UNUSED}" "k \<in> {j. j < 16 \<and> state_of s' j \<noteq> PROCESS_UNUSED}"
        and eq: "pid_of s' j = pid_of s' k"
      then show "j = k"
        using st [of j] st [of k] I(6) [of j] I(6) [of k] inj_onD [OF I(7), of j k] by (auto split: if_splits)
    qed
  qed (use I(2) np in auto)
qed

subsection \<open>The kernel's use of the table\<close>

text \<open>
  \<open>sstep\<close>: one call into \<open>process.c\<close>. \<open>shell_step\<close>: the calls the rest of the kernel makes while no
  process runs. The shell creates and kills processes and turns the scheduler on, the timer interrupt
  and \<open>sys_yield\<close> call \<open>scheduler_tick\<close>; nothing calls \<open>process_yield\<close>, and \<open>process_exit\<close> is called
  only by \<open>process_wrapper\<close>, that is, by a process; \<open>leave\<close> is the exit of a process that is running
  in the table's view.
\<close>

inductive shell_step :: "sched \<Rightarrow> sched \<Rightarrow> bool" where
  create: "process_create w nm e s = (r, s') \<Longrightarrow> next_pid s + 1 > next_pid s \<Longrightarrow> shell_step s s'"
| kill: "process_kill pid s = (r, sw, s') \<Longrightarrow> shell_step s s'"
| enable: "shell_step s (scheduler_init s)"
| tick: "scheduler_tick s = (sw, s') \<Longrightarrow> shell_step s s'"

inductive sstep :: "sched \<Rightarrow> sched \<Rightarrow> bool" where
  shell: "shell_step s s' \<Longrightarrow> sstep s s'"
| yield: "process_yield s = (sw, s') \<Longrightarrow> sstep s s'"
| leave: "process_exit code s = (sw, s') \<Longrightarrow> current_process s = Some c \<Longrightarrow> state_of s c = PROCESS_RUNNING \<Longrightarrow> sstep s s'"

lemma init_inv: "sched_inv (process_init s)"
proof (rule sched_invI)
  have z: "state_of (process_init s) i = PROCESS_UNUSED" if "i < 16" for i
    using that by (simp add: state_of_def process_init_def zero_process_def)
  show "inj_on (pid_of (process_init s)) {i. i < 16 \<and> state_of (process_init s) i \<noteq> PROCESS_UNUSED}"
    using z by (auto simp: inj_on_def)
  fix i assume i: "i < (16 :: nat)"
  show "state_of (process_init s) i = PROCESS_RUNNING \<Longrightarrow> current_process (process_init s) = Some i"
    "state_of (process_init s) i \<noteq> PROCESS_UNUSED \<Longrightarrow> 0 < pid_of (process_init s) i"
    "state_of (process_init s) i \<noteq> PROCESS_UNUSED \<Longrightarrow> pid_of (process_init s) i < next_pid (process_init s)"
    using z [OF i] by simp_all
qed (simp_all add: process_init_def)

lemma kill_inv:
  assumes inv: "sched_inv s" and k: "process_kill pid s = (r, sw, s')"
  shows "sched_inv s'"
proof (cases "find_process pid s")
  case None
  then show ?thesis using k inv by (simp add: process_kill_def)
next
  case (Some i)
  have used: "state_of s i \<noteq> PROCESS_UNUSED"
    using first_slot_Some [OF Some [unfolded find_process_def]] by (simp add: state_of_def)
  let ?s = "put_process i ((process_table s ! i)\<lparr>p_state := PROCESS_ZOMBIE, p_exit_code := - 1\<rparr>) s"
  have "sched_inv ?s" using used by (intro put_inv [OF inv]) (simp_all add: pid_of_def)
  then show ?thesis using k Some schedule_inv [of ?s sw s'] by (auto simp: process_kill_def Let_def split: if_splits)
qed

lemma tick_inv:
  assumes inv: "sched_inv s" and t: "scheduler_tick s = (sw, s')"
  shows "sched_inv s'"
proof (cases "current_process s")
  case None
  then show ?thesis using t inv by (simp add: scheduler_tick_def)
next
  case (Some c)
  have pi: "sched_inv (put_process c p s)" if "p_state p = state_of s c" "p_pid p = pid_of s c" for p
    using that by (intro put_inv [OF inv]) simp_all
  define p1 where "p1 = (process_table s ! c)\<lparr>p_total_ticks := p_total_ticks (process_table s ! c) + 1\<rparr>"
  define p2 where "p2 = (if p_time_slice p1 > 0 then p1\<lparr>p_time_slice := p_time_slice p1 - 1\<rparr> else p1)"
  have i2: "sched_inv (put_process c p2 s)" "sched_inv (put_process c (p2\<lparr>p_time_slice := 10\<rparr>) s)"
    by (intro pi; simp add: p2_def p1_def state_of_def pid_of_def)+
  have "(sw, s') = (if \<not> scheduler_enabled s then (No_switch, s)
      else if p_time_slice p2 = 0 then schedule (put_process c (p2\<lparr>p_time_slice := 10\<rparr>) s) else (No_switch, put_process c p2 s))"
    unfolding t [symmetric] scheduler_tick_def Let_def p2_def p1_def using Some by simp
  then show ?thesis
    using inv i2(1) schedule_inv [OF i2(2), of sw s'] by (simp split: if_splits)
qed

lemma exit_inv:
  assumes inv: "sched_inv s" and t: "process_exit code s = (sw, s')"
    and c: "current_process s = Some c" "state_of s c = PROCESS_RUNNING"
  shows "sched_inv s'"
proof -
  let ?p = "(process_table s ! c)\<lparr>p_state := PROCESS_ZOMBIE, p_exit_code := code\<rparr>"
  have "sched_inv (put_process c ?p s)" using c(2) by (intro put_inv [OF inv]) (simp_all add: pid_of_def)
  then show ?thesis using t c(1) schedule_inv by (simp add: process_exit_def)
qed

lemma enable_inv:
  assumes "sched_inv s"
  shows "sched_inv (scheduler_init s)"
proof -
  have e: "state_of (scheduler_init s) = state_of s" "pid_of (scheduler_init s) = pid_of s" "process_table (scheduler_init s) = process_table s"
    "current_process (scheduler_init s) = current_process s" "next_pid (scheduler_init s) = next_pid s"
    by (rule ext, simp add: state_of_def pid_of_def scheduler_init_def)+ (simp_all add: scheduler_init_def)
  show ?thesis using assms unfolding sched_inv_def sched_ok_def e .
qed

lemma shell_step_inv: "shell_step s s' \<Longrightarrow> sched_inv s \<Longrightarrow> sched_inv s'"
  by (induction rule: shell_step.induct) (auto intro: create_inv kill_inv tick_inv enable_inv)

lemma sstep_inv: "sstep s s' \<Longrightarrow> sched_inv s \<Longrightarrow> sched_inv s'"
  by (induction rule: sstep.induct)
    (auto intro: shell_step_inv exit_inv schedule_inv simp: process_yield_def)

lemma ssteps_inv: "sstep\<^sup>*\<^sup>* s s' \<Longrightarrow> sched_inv s \<Longrightarrow> sched_inv s'"
  by (induction rule: rtranclp_induct) (auto intro: sstep_inv)

lemma shell_step_none: "shell_step s s' \<Longrightarrow> current_process s = None \<Longrightarrow> current_process s' = None"
  by (induction rule: shell_step.induct)
    (auto simp: process_create_def process_kill_def scheduler_tick_def scheduler_init_def Let_def split: option.splits prod.splits if_splits)

lemma shell_steps_none: "shell_step\<^sup>*\<^sup>* s s' \<Longrightarrow> current_process s = None \<Longrightarrow> current_process s' = None"
  by (induction rule: rtranclp_induct) (auto intro: shell_step_none)

lemma created_ready:
  assumes "find_free_slot s = Some i" "i < length (process_table s)" "process_create wrapper name entry s = (r, s')"
  shows "state_of s' i = PROCESS_READY"
  using assms by (auto simp: process_create_def Let_def state_of_def split: prod.splits)

subsection \<open>Properties\<close>

text \<open>
  Property C13. Round robin is fair: while processes neither end nor block, a ready process runs
  after at most sixteen calls of \<open>schedule\<close>.
\<close>

theorem schedule_fair:
  assumes "steady s c" "j < MAX_PROCESSES" "state_of s j = PROCESS_READY"
  shows "\<exists>n \<le> MAX_PROCESSES. current_process (((snd \<circ> schedule) ^^ n) s) = Some j"
proof -
  obtain n where n: "n \<le> Suc (ring_dist c j)" "current_process (((snd \<circ> schedule) ^^ n) s) = Some j"
    using schedule_fair_aux [OF assms] by blast
  have "c < 16" using assms(1) by (auto simp: steady_def sched_ok_def)
  then have "Suc (ring_dist c j) \<le> 16" using ring_dist_facts(1) [of c j] assms(2) by simp
  then show ?thesis using n le_trans by blast
qed

text \<open>A table in which slot 2 runs and slot 1 is ready.\<close>

definition two_processes :: sched where
  "two_processes = \<lparr>process_table = (replicate 16 zero_process)[1 := zero_process\<lparr>p_state := PROCESS_READY, p_pid := 1\<rparr>,
      2 := zero_process\<lparr>p_state := PROCESS_RUNNING, p_pid := 2\<rparr>],
     current_process = Some 2, next_pid = 3, scheduler_enabled = True\<rparr>"

lemma two_processes_steady: "steady two_processes 2" "state_of two_processes 1 = PROCESS_READY"
proof -
  have s: "state_of two_processes i = (if i = 2 then PROCESS_RUNNING else if i = 1 then PROCESS_READY else PROCESS_UNUSED)" if "i < 16" for i
    using that by (simp add: two_processes_def state_of_def nth_list_update zero_process_def)
  show "steady two_processes 2" "state_of two_processes 1 = PROCESS_READY"
    using s by (auto simp: steady_def sched_ok_def) (simp_all add: two_processes_def)
qed

theorem schedule_fair_witness:
  "\<exists>n \<le> 16. current_process (((snd \<circ> schedule) ^^ n) two_processes) = Some 1"
  using schedule_fair [OF two_processes_steady(1) _ two_processes_steady(2)] by simp

text \<open>
  In every state the calls into \<open>process.c\<close> can reach from \<open>process_init\<close>, at most the
  current process is running, and no two processes share an identifier (as long as \<open>next_pid\<close> has
  not wrapped around).
\<close>

lemma process_table_invariant:
  assumes "sstep\<^sup>*\<^sup>* (process_init s0) s"
  shows "length (process_table s) = MAX_PROCESSES \<and>
    (\<forall>i < MAX_PROCESSES. state_of s i = PROCESS_RUNNING \<longrightarrow> current_process s = Some i) \<and>
    inj_on (pid_of s) {i. i < MAX_PROCESSES \<and> state_of s i \<noteq> PROCESS_UNUSED}"
  using sched_invD [OF ssteps_inv [OF assms init_inv]] by blast

lemma process_table_invariant_witness:
  "sstep\<^sup>*\<^sup>* (process_init two_processes) (scheduler_init (process_init two_processes)) \<and>
   length (process_table (scheduler_init (process_init two_processes))) = 16"
proof -
  have "sstep\<^sup>*\<^sup>* (process_init two_processes) (scheduler_init (process_init two_processes))"
    by (rule r_into_rtranclp) (rule sstep.shell, rule shell_step.enable)
  then show ?thesis using process_table_invariant by blast
qed

text \<open>
  No process the shell starts ever runs: from boot, no sequence of the calls the kernel
  makes (creating, killing, turning the scheduler on, timer ticks) ever sets \<open>current_process\<close>, because
  \<open>scheduler_tick\<close> returns at once when there is no current process and nothing else calls \<open>schedule\<close>.
\<close>

lemma spawned_processes_never_run:
  assumes "shell_step\<^sup>*\<^sup>* (process_init s0) s"
  shows "current_process s = None \<and> (\<forall>i < MAX_PROCESSES. state_of s i \<noteq> PROCESS_RUNNING)"
proof -
  have n: "current_process s = None" using shell_steps_none [OF assms] by (simp add: process_init_def)
  have "sched_inv s" using assms by (induction rule: rtranclp_induct) (auto intro: init_inv shell_step_inv)
  then show ?thesis using sched_invD(4) n by fastforce
qed

lemma spawned_processes_never_run_witness:
  "\<exists>s. shell_step\<^sup>*\<^sup>* (process_init two_processes) s \<and> state_of s 0 = PROCESS_READY \<and> scheduler_enabled s \<and> current_process s = None"
proof -
  let ?s0 = "process_init two_processes"
  obtain r s1 where c: "process_create 0x100000 ''counter'' 0x200000 ?s0 = (r, s1)" by force
  have "shell_step ?s0 s1" using c by (intro shell_step.create [OF c]) (simp add: process_init_def)
  then have st: "shell_step\<^sup>*\<^sup>* ?s0 (scheduler_init s1)" by (meson shell_step.enable rtranclp.simps)
  have f: "find_free_slot ?s0 = Some 0" "0 < length (process_table ?s0)"
    by (simp_all add: find_free_slot_def process_init_def zero_process_def replicate_numeral)
  have "state_of (scheduler_init s1) 0 = PROCESS_READY"
    using created_ready [OF f c] by (simp add: scheduler_init_def state_of_def)
  then show ?thesis
    using spawned_processes_never_run [OF st] st by (intro exI [of _ "scheduler_init s1"]) (simp add: scheduler_init_def)
qed

text \<open>
  The frame \<open>process_create\<close> builds is not the one \<open>context_switch\<close> restores: it holds a
  word for esp that is never popped, so a new process would start with flags 0 at address \<open>0x202\<close>
  instead of at \<open>process_wrapper\<close>.
\<close>

lemma new_process_starts_at_flags:
  assumes "find_free_slot s = Some i" "i < length (process_table s)"
    and "process_create wrapper name entry s = (r, s')"
  shows "let p = process_table s' ! i; c = context_restore (p_stack p) (p_stack_ptr p) in
    p_stack_ptr p + 11 = STACK_WORDS - 1 \<and> r_eip c = 0x202 \<and> r_eflags c = 0 \<and>
    p_stack p (p_stack_ptr p + 9) = wrapper"
  using assms
  by (auto simp: process_create_def Let_def initial_frame_def context_restore_def split: prod.splits)

lemma new_process_starts_at_flags_witness:
  "r_eip (context_restore (p_stack (process_table (snd (process_create 0x100000 ''counter'' 0x200000 (process_init two_processes))) ! 0))
     (p_stack_ptr (process_table (snd (process_create 0x100000 ''counter'' 0x200000 (process_init two_processes))) ! 0))) = 0x202"
proof -
  let ?s0 = "process_init two_processes"
  obtain r s1 where c: "process_create 0x100000 ''counter'' 0x200000 ?s0 = (r, s1)" by force
  have f: "find_free_slot ?s0 = Some 0" "0 < length (process_table ?s0)"
    by (simp_all add: find_free_slot_def process_init_def zero_process_def replicate_numeral)
  have "r_eip (context_restore (p_stack (process_table s1 ! 0)) (p_stack_ptr (process_table s1 ! 0))) = 0x202"
    using new_process_starts_at_flags [OF f c] unfolding Let_def by blast
  then show ?thesis using c by simp
qed

end
