(* ===== verification/Timer.thy ===== *)
theory Timer
  imports Ports Process
begin

text \<open>
  The programmable interval timer, \<open>kernel/timer.c\<close>: the divisor it is programmed with, the tick
  counter the interrupt advances, and sleeping.

  The counter is 32 bits wide and wraps; sleeping compares differences and is shown to last the
  requested number of ticks also across the wrap.
\<close>

record timer =
  tick_count :: u32
  tick_frequency :: u32

definition timer_irq_handler :: "timer \<Rightarrow> sched \<Rightarrow> timer \<times> switch \<times> sched" where
  "timer_irq_handler t s = (t\<lparr>tick_count := tick_count t + 1\<rparr>, scheduler_tick s)"

definition pit_divisor :: "u32 \<Rightarrow> u32" where
  "pit_divisor frequency =
     (let divisor = 1193182 div frequency;
          divisor = (if divisor > 65535 then 65535 else divisor) in
      if divisor < 1 then 1 else divisor)"

text \<open>A frequency of zero is a division fault, \<^const>\<open>None\<close>. The handler is registered by the caller.\<close>

definition timer_init :: "'d bus \<Rightarrow> u32 \<Rightarrow> 'd \<Rightarrow> timer \<Rightarrow> (timer \<times> 'd) option" where
  "timer_init b frequency d t =
     (if frequency = 0 then None
      else let divisor = pit_divisor frequency in
        Some (t\<lparr>tick_frequency := frequency\<rparr>,
              out_all b [(0x43, 0x36), (0x40, ucast (divisor AND 0xFF)), (0x40, ucast (drop_bit 8 divisor AND 0xFF))] d))"

definition timer_get_ticks :: "timer \<Rightarrow> u32" where
  "timer_get_ticks t = tick_count t"

definition sleep_ticks :: "u32 \<Rightarrow> timer \<Rightarrow> u32" where
  "sleep_ticks ms t = (let ticks = (ms * tick_frequency t) div 1000 in if ticks = 0 then 1 else ticks)"

text \<open>
  The waiting loop. Each \<open>hlt\<close> ends with an interrupt; \<open>wakes\<close> gives the number of ticks that came
  with each. The result is the timer and the rest of \<open>wakes\<close>, or \<^const>\<open>None\<close> while it still waits.
\<close>

fun sleep_loop :: "u32 \<Rightarrow> u32 \<Rightarrow> nat list \<Rightarrow> timer \<Rightarrow> (timer \<times> nat list) option" where
  "sleep_loop start ticks wakes t =
     (if tick_count t - start < ticks
      then case wakes of [] \<Rightarrow> None | w # ws \<Rightarrow> sleep_loop start ticks ws (t\<lparr>tick_count := tick_count t + word_of_nat w\<rparr>)
      else Some (t, wakes))"

definition timer_sleep :: "u32 \<Rightarrow> nat list \<Rightarrow> timer \<Rightarrow> (timer \<times> nat list) option" where
  "timer_sleep ms wakes t = sleep_loop (tick_count t) (sleep_ticks ms t) wakes t"

declare sleep_loop.simps [simp del]

subsection \<open>The divisor\<close>

lemma pit_divisor_bounds: "1 \<le> pit_divisor f \<and> pit_divisor f \<le> 65535"
  by (auto simp: pit_divisor_def Let_def word_less_nat_alt word_le_nat_alt not_less)

lemma pit_divisor_exact:
  assumes "19 \<le> unat f" "unat f \<le> 1193182"
  shows "unat (pit_divisor f) = 1193182 div unat f"
proof -
  have u: "unat ((1193182 :: u32) div f) = 1193182 div unat f" by (simp add: unat_div)
  have "1193182 div unat f \<le> 1193182 div 19" using assms by (intro div_le_mono2) auto
  moreover have "1 \<le> 1193182 div unat f" using assms by (simp add: Suc_le_eq div_greater_zero_iff)
  ultimately show ?thesis
    using u by (auto simp: pit_divisor_def Let_def word_less_nat_alt not_less)
qed

subsection \<open>Sleeping\<close>

text \<open>
  From \<open>k\<close> ticks after the start: every interrupt brings at most one tick, and the loop ends with the
  interrupt that brings the last one needed.
\<close>

lemma sleep_loop_ticks:
  assumes "\<forall>w \<in> set wakes. w \<le> 1" "tick_count t = start + word_of_nat k" "k \<le> unat ticks"
  shows "if unat ticks - k \<le> sum_list wakes
     then \<exists>used rest. wakes = used @ rest \<and> sum_list used = unat ticks - k \<and>
       sleep_loop start ticks wakes t = Some (t\<lparr>tick_count := start + ticks\<rparr>, rest)
     else sleep_loop start ticks wakes t = None"
  using assms
proof (induction wakes arbitrary: t k)
  case Nil
  have "unat (word_of_nat k :: u32) = k" using Nil.prems(3) unsigned_less [of ticks, where 'a = nat] by (simp add: unat_of_nat)
  then show ?case
    using Nil.prems by (cases "k = unat ticks") (auto simp: sleep_loop.simps word_less_nat_alt)
next
  case (Cons w ws)
  have uk: "unat (word_of_nat k :: u32) = k" using Cons.prems(3) unsigned_less [of ticks, where 'a = nat] by (simp add: unat_of_nat)
  show ?case
  proof (cases "k = unat ticks")
    case True
    then have "sleep_loop start ticks (w # ws) t = Some (t, w # ws)"
      using Cons.prems by (subst sleep_loop.simps) simp
    moreover have "t\<lparr>tick_count := start + ticks\<rparr> = t" using Cons.prems(2) True by simp
    ultimately show ?thesis using True by (auto intro!: exI [of _ "[]"])
  next
    case False
    let ?t = "t\<lparr>tick_count := tick_count t + word_of_nat w\<rparr>"
    have step: "sleep_loop start ticks (w # ws) t = sleep_loop start ticks ws ?t"
      using Cons.prems(2,3) False uk by (subst sleep_loop.simps) (simp add: word_less_nat_alt)
    have w: "w \<le> 1" "k + w \<le> unat ticks" using Cons.prems False by auto
    note IH = Cons.IH [of ?t "k + w", OF _ _ w(2)]
    have sub: "unat ticks - k \<le> w + sum_list ws \<longleftrightarrow> unat ticks - (k + w) \<le> sum_list ws"
      "unat ticks - k = w + (unat ticks - (k + w))" using w(2) by linarith+
    have IH': "if unat ticks - (k + w) \<le> sum_list ws
        then \<exists>used rest. ws = used @ rest \<and> sum_list used = unat ticks - (k + w) \<and>
          sleep_loop start ticks (w # ws) t = Some (t\<lparr>tick_count := start + ticks\<rparr>, rest)
        else sleep_loop start ticks (w # ws) t = None"
      using IH Cons.prems(1,2) unfolding step by (simp add: add.assoc split: if_splits)
    show ?thesis
    proof (cases "unat ticks - k \<le> sum_list (w # ws)")
      case True
      then obtain used rest where "ws = used @ rest" "sum_list used = unat ticks - (k + w)"
          "sleep_loop start ticks (w # ws) t = Some (t\<lparr>tick_count := start + ticks\<rparr>, rest)"
        using IH' sub(1) by (auto split: if_splits)
      then show ?thesis using True sub(2) by (auto intro!: exI [of _ "w # used"])
    next
      case False
      then show ?thesis using IH' sub(1) by simp
    qed
  qed
qed

text \<open>
  Property C27. \<open>timer_sleep\<close> returns, and not early: when the interrupts that arrive bring one tick at
  most each and together enough of them, it returns after exactly \<open>ms * frequency div 1000\<close> ticks (at least
  one), wherever the 32-bit counter stood, also when it wraps meanwhile. The product is taken modulo
  \<open>2 ^ 32\<close>, so that is the requested time only while it stays below.
\<close>

theorem timer_sleep_exact:
  assumes "\<forall>w \<in> set wakes. w \<le> 1" and "unat (sleep_ticks ms t) \<le> sum_list wakes"
    and "unat ms * unat (tick_frequency t) < 2 ^ 32"
  shows "\<exists>used rest. wakes = used @ rest \<and>
     sum_list used = max 1 (unat ms * unat (tick_frequency t) div 1000) \<and>
     timer_sleep ms wakes t = Some (t\<lparr>tick_count := tick_count t + sleep_ticks ms t\<rparr>, rest)"
proof -
  have m: "unat ((ms * tick_frequency t) div 1000) = unat ms * unat (tick_frequency t) div 1000"
    using assms(3) by (simp add: unat_div unat_mult_lem [THEN iffD1])
  have "unat (sleep_ticks ms t) = max 1 (unat ms * unat (tick_frequency t) div 1000)"
    unfolding sleep_ticks_def Let_def using m by (auto simp: unat_eq_0 [symmetric] max_def simp del: unat_eq_0)
  then show ?thesis
    using sleep_loop_ticks [of wakes t "tick_count t" 0 "sleep_ticks ms t"] assms(1,2) by (simp add: timer_sleep_def)
qed

theorem timer_sleep_exact_witness:
  "\<exists>used rest. [0, 1, 0, 1, 1, 0, 1 :: nat] = used @ rest \<and> sum_list used = max 1 (unat (30 :: u32) * unat (100 :: u32) div 1000) \<and>
     timer_sleep 30 [0, 1, 0, 1, 1, 0, 1] \<lparr>tick_count = 0xFFFFFFFF, tick_frequency = 100\<rparr> =
       Some (\<lparr>tick_count = 0xFFFFFFFF, tick_frequency = 100\<rparr>\<lparr>tick_count := 0xFFFFFFFF + sleep_ticks 30 \<lparr>tick_count = 0xFFFFFFFF, tick_frequency = 100\<rparr>\<rparr>, rest)"
proof -
  have "sleep_ticks 30 \<lparr>tick_count = 0xFFFFFFFF, tick_frequency = 100\<rparr> = 3" by (simp add: sleep_ticks_def)
  then show ?thesis
    using timer_sleep_exact [of "[0, 1, 0, 1, 1, 0, 1]" 30 "\<lparr>tick_count = 0xFFFFFFFF, tick_frequency = 100\<rparr>"] by simp
qed

text \<open>At the kernel's 100 Hz a request of 42949673 milliseconds, about twelve hours, wraps to a single tick.\<close>

lemma long_sleep_wraps: "sleep_ticks 42949673 \<lparr>tick_count = 0, tick_frequency = 100\<rparr> = 1"
  by (simp add: sleep_ticks_def)

end
