(* ===== verification/Bytes.thy ===== *)
theory Bytes
  imports Kstring
begin

text \<open>
  Integers stored in byte buffers, least significant byte first, as the packed structures of the
  kernel and its frame buffers hold them.
\<close>

subsection \<open>Little-endian fields\<close>

definition get16 :: "buffer \<Rightarrow> nat \<Rightarrow> u16" where
  "get16 b off = ucast (b off) OR push_bit 8 (ucast (b (off + 1)))"

definition get32 :: "buffer \<Rightarrow> nat \<Rightarrow> u32" where
  "get32 b off = ucast (b off) OR push_bit 8 (ucast (b (off + 1))) OR
     push_bit 16 (ucast (b (off + 2))) OR push_bit 24 (ucast (b (off + 3)))"

definition le16 :: "u16 \<Rightarrow> byte list" where
  "le16 v = [ucast v, ucast (drop_bit 8 v)]"

definition le32 :: "u32 \<Rightarrow> byte list" where
  "le32 v = [ucast v, ucast (drop_bit 8 v), ucast (drop_bit 16 v), ucast (drop_bit 24 v)]"

lemma le16_join: "ucast (ucast v :: byte) OR push_bit 8 (ucast (ucast (drop_bit 8 v) :: byte)) = v" for v :: u16
  by (rule bit_word_eqI) (auto simp: bit_simps)

lemma le32_join:
  "ucast (ucast v :: byte) OR push_bit 8 (ucast (ucast (drop_bit 8 v) :: byte)) OR
   push_bit 16 (ucast (ucast (drop_bit 16 v) :: byte)) OR
   push_bit 24 (ucast (ucast (drop_bit 24 v) :: byte)) = v" for v :: u32
proof (rule bit_word_eqI)
  fix n
  assume "n < LENGTH(32)"
  then show "bit (ucast (ucast v :: byte) OR push_bit 8 (ucast (ucast (drop_bit 8 v) :: byte)) OR
     push_bit 16 (ucast (ucast (drop_bit 16 v) :: byte)) OR
     push_bit 24 (ucast (ucast (drop_bit 24 v) :: byte)) :: u32) n = bit v n"
    by (cases "n < 16"; cases "n < 24") (auto simp: bit_simps)
qed

definition put8 :: "nat \<Rightarrow> byte \<Rightarrow> buffer \<Rightarrow> buffer" where
  "put8 off v b = b(off := v)"

definition put16 :: "nat \<Rightarrow> u16 \<Rightarrow> buffer \<Rightarrow> buffer" where
  "put16 off v b = b(off := ucast v, off + 1 := ucast (drop_bit 8 v))"

definition put32 :: "nat \<Rightarrow> u32 \<Rightarrow> buffer \<Rightarrow> buffer" where
  "put32 off v b = b(off := ucast v, off + 1 := ucast (drop_bit 8 v),
     off + 2 := ucast (drop_bit 16 v), off + 3 := ucast (drop_bit 24 v))"

definition put_chars :: "nat \<Rightarrow> string \<Rightarrow> buffer \<Rightarrow> buffer" where
  "put_chars off s b = memcpy b off (\<lambda>k. byte_of (cget s k)) 0 (length s)"

lemma get16_put16: "get16 (put16 off v b) off = v"
  by (simp add: get16_def put16_def le16_join)

lemma get32_put32: "get32 (put32 off v b) off = v"
  by (simp add: get32_def put32_def le32_join)

lemma get32_put32_other: "off + 4 \<le> off' \<or> off' + 4 \<le> off \<Longrightarrow> get32 (put32 off v b) off' = get32 b off'"
  by (auto simp: get32_def put32_def)

lemma put32_outside: "i < off \<or> off + 4 \<le> i \<Longrightarrow> put32 off v b i = b i"
  by (auto simp: put32_def)

end
