(* ===== verification/Vesa.thy ===== *)
theory Vesa
  imports Bytes
begin

text \<open>
  The linear frame buffer driver, \<open>kernel/vesa.c\<close>: pixels, rectangles, characters of the 8x16 font,
  lines and the copy of the back buffer.

  The frame buffer the hardware maps at \<open>vesa_framebuffer\<close> and the static back buffer are byte
  buffers addressed by their offset. Coordinates and the other \<open>int\<close> values are mathematical
  integers; the offset computations the code makes in \<open>uint32_t\<close> are made on 32-bit words.
\<close>

subsection \<open>State\<close>

record vbe_mode_info =
  vbe_pitch :: u16
  vbe_width :: u16
  vbe_height :: u16
  vbe_bpp :: byte
  vbe_framebuffer :: u32

record vesa =
  vesa_framebuffer :: u32
  vesa_width :: u16
  vesa_height :: u16
  vesa_pitch :: u16
  vesa_bpp :: byte
  vesa_enabled :: bool
  vesa_use_backbuffer :: bool
  vesa_backbuffer :: bool \<comment> \<open>whether the pointer is set to the static store\<close>
  vesa_backbuffer_size :: u32
  fb_mem :: buffer \<comment> \<open>the memory at \<open>vesa_framebuffer\<close>\<close>
  vesa_backbuffer_store :: buffer

abbreviation (input) VESA_BACKBUFFER_MAX :: u32 where "VESA_BACKBUFFER_MAX \<equiv> 800 * 600 * 4"

definition on_back :: "vesa \<Rightarrow> bool" where
  "on_back v \<longleftrightarrow> vesa_use_backbuffer v \<and> vesa_backbuffer v"

text \<open>The bytes behind the pointer \<open>vesa_target\<close> returns, and a store through that pointer.\<close>

definition vesa_target :: "vesa \<Rightarrow> buffer" where
  "vesa_target v = (if on_back v then vesa_backbuffer_store v else fb_mem v)"

definition to_target :: "(buffer \<Rightarrow> buffer) \<Rightarrow> vesa \<Rightarrow> vesa" where
  "to_target f v =
     (if on_back v then v\<lparr>vesa_backbuffer_store := f (vesa_backbuffer_store v)\<rparr> else v\<lparr>fb_mem := f (fb_mem v)\<rparr>)"

subsection \<open>The font\<close>

definition font8x16 :: "byte list list" where
  "font8x16 = [
    [0, 0, 0, 0, 0, 0, 0, 0, 0, 0, 0, 0, 0, 0, 0, 0],
    [0, 0, 0x18, 0x3C, 0x3C, 0x3C, 0x18, 0x18, 0x18, 0, 0x18, 0x18, 0, 0, 0, 0],
    [0, 0x66, 0x66, 0x66, 0x24, 0, 0, 0, 0, 0, 0, 0, 0, 0, 0, 0],
    [0, 0, 0, 0x6C, 0x6C, 0xFE, 0x6C, 0x6C, 0x6C, 0xFE, 0x6C, 0x6C, 0, 0, 0, 0],
    [0x18, 0x18, 0x7C, 0xC6, 0xC2, 0xC0, 0x7C, 0x06, 0x06, 0x86, 0xC6, 0x7C, 0x18, 0x18, 0, 0],
    [0, 0, 0, 0, 0xC2, 0xC6, 0x0C, 0x18, 0x30, 0x60, 0xC6, 0x86, 0, 0, 0, 0],
    [0, 0, 0x38, 0x6C, 0x6C, 0x38, 0x76, 0xDC, 0xCC, 0xCC, 0xCC, 0x76, 0, 0, 0, 0],
    [0, 0x30, 0x30, 0x30, 0x60, 0, 0, 0, 0, 0, 0, 0, 0, 0, 0, 0],
    [0, 0, 0x0C, 0x18, 0x30, 0x30, 0x30, 0x30, 0x30, 0x30, 0x18, 0x0C, 0, 0, 0, 0],
    [0, 0, 0x30, 0x18, 0x0C, 0x0C, 0x0C, 0x0C, 0x0C, 0x0C, 0x18, 0x30, 0, 0, 0, 0],
    [0, 0, 0, 0, 0, 0x66, 0x3C, 0xFF, 0x3C, 0x66, 0, 0, 0, 0, 0, 0],
    [0, 0, 0, 0, 0, 0x18, 0x18, 0x7E, 0x18, 0x18, 0, 0, 0, 0, 0, 0],
    [0, 0, 0, 0, 0, 0, 0, 0, 0, 0x18, 0x18, 0x18, 0x30, 0, 0, 0],
    [0, 0, 0, 0, 0, 0, 0, 0xFE, 0, 0, 0, 0, 0, 0, 0, 0],
    [0, 0, 0, 0, 0, 0, 0, 0, 0, 0, 0x18, 0x18, 0, 0, 0, 0],
    [0, 0, 0, 0, 0x02, 0x06, 0x0C, 0x18, 0x30, 0x60, 0xC0, 0x80, 0, 0, 0, 0],
    [0, 0, 0x38, 0x6C, 0xC6, 0xC6, 0xD6, 0xD6, 0xC6, 0xC6, 0x6C, 0x38, 0, 0, 0, 0],
    [0, 0, 0x18, 0x38, 0x78, 0x18, 0x18, 0x18, 0x18, 0x18, 0x18, 0x7E, 0, 0, 0, 0],
    [0, 0, 0x7C, 0xC6, 0x06, 0x0C, 0x18, 0x30, 0x60, 0xC0, 0xC6, 0xFE, 0, 0, 0, 0],
    [0, 0, 0x7C, 0xC6, 0x06, 0x06, 0x3C, 0x06, 0x06, 0x06, 0xC6, 0x7C, 0, 0, 0, 0],
    [0, 0, 0x0C, 0x1C, 0x3C, 0x6C, 0xCC, 0xFE, 0x0C, 0x0C, 0x0C, 0x1E, 0, 0, 0, 0],
    [0, 0, 0xFE, 0xC0, 0xC0, 0xC0, 0xFC, 0x06, 0x06, 0x06, 0xC6, 0x7C, 0, 0, 0, 0],
    [0, 0, 0x38, 0x60, 0xC0, 0xC0, 0xFC, 0xC6, 0xC6, 0xC6, 0xC6, 0x7C, 0, 0, 0, 0],
    [0, 0, 0xFE, 0xC6, 0x06, 0x06, 0x0C, 0x18, 0x30, 0x30, 0x30, 0x30, 0, 0, 0, 0],
    [0, 0, 0x7C, 0xC6, 0xC6, 0xC6, 0x7C, 0xC6, 0xC6, 0xC6, 0xC6, 0x7C, 0, 0, 0, 0],
    [0, 0, 0x7C, 0xC6, 0xC6, 0xC6, 0x7E, 0x06, 0x06, 0x06, 0x0C, 0x78, 0, 0, 0, 0],
    [0, 0, 0, 0, 0x18, 0x18, 0, 0, 0, 0x18, 0x18, 0, 0, 0, 0, 0],
    [0, 0, 0, 0, 0x18, 0x18, 0, 0, 0, 0x18, 0x18, 0x30, 0, 0, 0, 0],
    [0, 0, 0, 0x06, 0x0C, 0x18, 0x30, 0x60, 0x30, 0x18, 0x0C, 0x06, 0, 0, 0, 0],
    [0, 0, 0, 0, 0, 0x7E, 0, 0, 0x7E, 0, 0, 0, 0, 0, 0, 0],
    [0, 0, 0, 0x60, 0x30, 0x18, 0x0C, 0x06, 0x0C, 0x18, 0x30, 0x60, 0, 0, 0, 0],
    [0, 0, 0x7C, 0xC6, 0xC6, 0x0C, 0x18, 0x18, 0x18, 0, 0x18, 0x18, 0, 0, 0, 0],
    [0, 0, 0, 0x7C, 0xC6, 0xC6, 0xDE, 0xDE, 0xDE, 0xDC, 0xC0, 0x7C, 0, 0, 0, 0],
    [0, 0, 0x10, 0x38, 0x6C, 0xC6, 0xC6, 0xFE, 0xC6, 0xC6, 0xC6, 0xC6, 0, 0, 0, 0],
    [0, 0, 0xFC, 0x66, 0x66, 0x66, 0x7C, 0x66, 0x66, 0x66, 0x66, 0xFC, 0, 0, 0, 0],
    [0, 0, 0x3C, 0x66, 0xC2, 0xC0, 0xC0, 0xC0, 0xC0, 0xC2, 0x66, 0x3C, 0, 0, 0, 0],
    [0, 0, 0xF8, 0x6C, 0x66, 0x66, 0x66, 0x66, 0x66, 0x66, 0x6C, 0xF8, 0, 0, 0, 0],
    [0, 0, 0xFE, 0x66, 0x62, 0x68, 0x78, 0x68, 0x60, 0x62, 0x66, 0xFE, 0, 0, 0, 0],
    [0, 0, 0xFE, 0x66, 0x62, 0x68, 0x78, 0x68, 0x60, 0x60, 0x60, 0xF0, 0, 0, 0, 0],
    [0, 0, 0x3C, 0x66, 0xC2, 0xC0, 0xC0, 0xDE, 0xC6, 0xC6, 0x66, 0x3A, 0, 0, 0, 0],
    [0, 0, 0xC6, 0xC6, 0xC6, 0xC6, 0xFE, 0xC6, 0xC6, 0xC6, 0xC6, 0xC6, 0, 0, 0, 0],
    [0, 0, 0x3C, 0x18, 0x18, 0x18, 0x18, 0x18, 0x18, 0x18, 0x18, 0x3C, 0, 0, 0, 0],
    [0, 0, 0x1E, 0x0C, 0x0C, 0x0C, 0x0C, 0x0C, 0xCC, 0xCC, 0xCC, 0x78, 0, 0, 0, 0],
    [0, 0, 0xE6, 0x66, 0x66, 0x6C, 0x78, 0x78, 0x6C, 0x66, 0x66, 0xE6, 0, 0, 0, 0],
    [0, 0, 0xF0, 0x60, 0x60, 0x60, 0x60, 0x60, 0x60, 0x62, 0x66, 0xFE, 0, 0, 0, 0],
    [0, 0, 0xC6, 0xEE, 0xFE, 0xFE, 0xD6, 0xC6, 0xC6, 0xC6, 0xC6, 0xC6, 0, 0, 0, 0],
    [0, 0, 0xC6, 0xE6, 0xF6, 0xFE, 0xDE, 0xCE, 0xC6, 0xC6, 0xC6, 0xC6, 0, 0, 0, 0],
    [0, 0, 0x7C, 0xC6, 0xC6, 0xC6, 0xC6, 0xC6, 0xC6, 0xC6, 0xC6, 0x7C, 0, 0, 0, 0],
    [0, 0, 0xFC, 0x66, 0x66, 0x66, 0x7C, 0x60, 0x60, 0x60, 0x60, 0xF0, 0, 0, 0, 0],
    [0, 0, 0x7C, 0xC6, 0xC6, 0xC6, 0xC6, 0xC6, 0xC6, 0xD6, 0xDE, 0x7C, 0x0C, 0x0E, 0, 0],
    [0, 0, 0xFC, 0x66, 0x66, 0x66, 0x7C, 0x6C, 0x66, 0x66, 0x66, 0xE6, 0, 0, 0, 0],
    [0, 0, 0x7C, 0xC6, 0xC6, 0x60, 0x38, 0x0C, 0x06, 0xC6, 0xC6, 0x7C, 0, 0, 0, 0],
    [0, 0, 0x7E, 0x7E, 0x5A, 0x18, 0x18, 0x18, 0x18, 0x18, 0x18, 0x3C, 0, 0, 0, 0],
    [0, 0, 0xC6, 0xC6, 0xC6, 0xC6, 0xC6, 0xC6, 0xC6, 0xC6, 0xC6, 0x7C, 0, 0, 0, 0],
    [0, 0, 0xC6, 0xC6, 0xC6, 0xC6, 0xC6, 0xC6, 0xC6, 0x6C, 0x38, 0x10, 0, 0, 0, 0],
    [0, 0, 0xC6, 0xC6, 0xC6, 0xC6, 0xD6, 0xD6, 0xD6, 0xFE, 0xEE, 0x6C, 0, 0, 0, 0],
    [0, 0, 0xC6, 0xC6, 0x6C, 0x7C, 0x38, 0x38, 0x7C, 0x6C, 0xC6, 0xC6, 0, 0, 0, 0],
    [0, 0, 0x66, 0x66, 0x66, 0x66, 0x3C, 0x18, 0x18, 0x18, 0x18, 0x3C, 0, 0, 0, 0],
    [0, 0, 0xFE, 0xC6, 0x86, 0x0C, 0x18, 0x30, 0x60, 0xC2, 0xC6, 0xFE, 0, 0, 0, 0],
    [0, 0, 0x3C, 0x30, 0x30, 0x30, 0x30, 0x30, 0x30, 0x30, 0x30, 0x3C, 0, 0, 0, 0],
    [0, 0, 0, 0x80, 0xC0, 0xE0, 0x70, 0x38, 0x1C, 0x0E, 0x06, 0x02, 0, 0, 0, 0],
    [0, 0, 0x3C, 0x0C, 0x0C, 0x0C, 0x0C, 0x0C, 0x0C, 0x0C, 0x0C, 0x3C, 0, 0, 0, 0],
    [0x10, 0x38, 0x6C, 0xC6, 0, 0, 0, 0, 0, 0, 0, 0, 0, 0, 0, 0],
    [0, 0, 0, 0, 0, 0, 0, 0, 0, 0, 0, 0, 0, 0xFF, 0, 0],
    [0x30, 0x30, 0x18, 0, 0, 0, 0, 0, 0, 0, 0, 0, 0, 0, 0, 0],
    [0, 0, 0, 0, 0, 0x78, 0x0C, 0x7C, 0xCC, 0xCC, 0xCC, 0x76, 0, 0, 0, 0],
    [0, 0, 0xE0, 0x60, 0x60, 0x78, 0x6C, 0x66, 0x66, 0x66, 0x66, 0x7C, 0, 0, 0, 0],
    [0, 0, 0, 0, 0, 0x7C, 0xC6, 0xC0, 0xC0, 0xC0, 0xC6, 0x7C, 0, 0, 0, 0],
    [0, 0, 0x1C, 0x0C, 0x0C, 0x3C, 0x6C, 0xCC, 0xCC, 0xCC, 0xCC, 0x76, 0, 0, 0, 0],
    [0, 0, 0, 0, 0, 0x7C, 0xC6, 0xFE, 0xC0, 0xC0, 0xC6, 0x7C, 0, 0, 0, 0],
    [0, 0, 0x38, 0x6C, 0x64, 0x60, 0xF0, 0x60, 0x60, 0x60, 0x60, 0xF0, 0, 0, 0, 0],
    [0, 0, 0, 0, 0, 0x76, 0xCC, 0xCC, 0xCC, 0xCC, 0xCC, 0x7C, 0x0C, 0xCC, 0x78, 0],
    [0, 0, 0xE0, 0x60, 0x60, 0x6C, 0x76, 0x66, 0x66, 0x66, 0x66, 0xE6, 0, 0, 0, 0],
    [0, 0, 0x18, 0x18, 0, 0x38, 0x18, 0x18, 0x18, 0x18, 0x18, 0x3C, 0, 0, 0, 0],
    [0, 0, 0x06, 0x06, 0, 0x0E, 0x06, 0x06, 0x06, 0x06, 0x06, 0x06, 0x66, 0x66, 0x3C, 0],
    [0, 0, 0xE0, 0x60, 0x60, 0x66, 0x6C, 0x78, 0x78, 0x6C, 0x66, 0xE6, 0, 0, 0, 0],
    [0, 0, 0x38, 0x18, 0x18, 0x18, 0x18, 0x18, 0x18, 0x18, 0x18, 0x3C, 0, 0, 0, 0],
    [0, 0, 0, 0, 0, 0xEC, 0xFE, 0xD6, 0xD6, 0xD6, 0xD6, 0xC6, 0, 0, 0, 0],
    [0, 0, 0, 0, 0, 0xDC, 0x66, 0x66, 0x66, 0x66, 0x66, 0x66, 0, 0, 0, 0],
    [0, 0, 0, 0, 0, 0x7C, 0xC6, 0xC6, 0xC6, 0xC6, 0xC6, 0x7C, 0, 0, 0, 0],
    [0, 0, 0, 0, 0, 0xDC, 0x66, 0x66, 0x66, 0x66, 0x66, 0x7C, 0x60, 0x60, 0xF0, 0],
    [0, 0, 0, 0, 0, 0x76, 0xCC, 0xCC, 0xCC, 0xCC, 0xCC, 0x7C, 0x0C, 0x0C, 0x1E, 0],
    [0, 0, 0, 0, 0, 0xDC, 0x76, 0x66, 0x60, 0x60, 0x60, 0xF0, 0, 0, 0, 0],
    [0, 0, 0, 0, 0, 0x7C, 0xC6, 0x60, 0x38, 0x0C, 0xC6, 0x7C, 0, 0, 0, 0],
    [0, 0, 0x10, 0x30, 0x30, 0xFC, 0x30, 0x30, 0x30, 0x30, 0x36, 0x1C, 0, 0, 0, 0],
    [0, 0, 0, 0, 0, 0xCC, 0xCC, 0xCC, 0xCC, 0xCC, 0xCC, 0x76, 0, 0, 0, 0],
    [0, 0, 0, 0, 0, 0x66, 0x66, 0x66, 0x66, 0x66, 0x3C, 0x18, 0, 0, 0, 0],
    [0, 0, 0, 0, 0, 0xC6, 0xC6, 0xD6, 0xD6, 0xD6, 0xFE, 0x6C, 0, 0, 0, 0],
    [0, 0, 0, 0, 0, 0xC6, 0x6C, 0x38, 0x38, 0x38, 0x6C, 0xC6, 0, 0, 0, 0],
    [0, 0, 0, 0, 0, 0xC6, 0xC6, 0xC6, 0xC6, 0xC6, 0xC6, 0x7E, 0x06, 0x0C, 0xF8, 0],
    [0, 0, 0, 0, 0, 0xFE, 0xCC, 0x18, 0x30, 0x60, 0xC6, 0xFE, 0, 0, 0, 0],
    [0, 0, 0x0E, 0x18, 0x18, 0x18, 0x70, 0x18, 0x18, 0x18, 0x18, 0x0E, 0, 0, 0, 0],
    [0, 0, 0x18, 0x18, 0x18, 0x18, 0, 0x18, 0x18, 0x18, 0x18, 0x18, 0, 0, 0, 0],
    [0, 0, 0x70, 0x18, 0x18, 0x18, 0x0E, 0x18, 0x18, 0x18, 0x18, 0x70, 0, 0, 0, 0],
    [0, 0, 0x76, 0xDC, 0, 0, 0, 0, 0, 0, 0, 0, 0, 0, 0, 0],
    [0, 0, 0, 0, 0, 0, 0, 0, 0, 0, 0, 0, 0, 0, 0, 0]]"

subsection \<open>Operations\<close>

definition vesa_init :: "vbe_mode_info \<Rightarrow> vesa \<Rightarrow> vesa" where
  "vesa_init info v =
     (if vbe_framebuffer info = 0 \<or> vbe_width info = 0 \<or> (vbe_bpp info \<noteq> 24 \<and> vbe_bpp info \<noteq> 32)
      then v\<lparr>vesa_enabled := False\<rparr>
      else v\<lparr>vesa_framebuffer := vbe_framebuffer info, vesa_width := vbe_width info, vesa_height := vbe_height info,
             vesa_pitch := vbe_pitch info, vesa_bpp := vbe_bpp info, vesa_enabled := True,
             vesa_backbuffer := True, vesa_backbuffer_size := VESA_BACKBUFFER_MAX, vesa_use_backbuffer := False\<rparr>)"

definition out_of_screen :: "int \<Rightarrow> int \<Rightarrow> vesa \<Rightarrow> bool" where
  "out_of_screen x y v \<longleftrightarrow> x < 0 \<or> x \<ge> uint (vesa_width v) \<or> y < 0 \<or> y \<ge> uint (vesa_height v)"

definition pixel_offset :: "int \<Rightarrow> int \<Rightarrow> vesa \<Rightarrow> u32" where
  "pixel_offset x y v = word_of_int y * ucast (vesa_pitch v) + word_of_int x * (ucast (vesa_bpp v) div 8)"

definition word_index :: "int \<Rightarrow> int \<Rightarrow> vesa \<Rightarrow> nat" where
  "word_index x y v = nat (y * (uint (vesa_pitch v) div 4) + x)"

text \<open>The three byte stores of a 24-bit pixel.\<close>

definition store24 :: "u32 \<Rightarrow> u32 \<Rightarrow> buffer \<Rightarrow> buffer" where
  "store24 offset color b =
     b(unat (offset + 0) := ucast (color AND 0xFF),
       unat (offset + 1) := ucast (drop_bit 8 color AND 0xFF),
       unat (offset + 2) := ucast (drop_bit 16 color AND 0xFF))"

definition vesa_put_pixel :: "int \<Rightarrow> int \<Rightarrow> u32 \<Rightarrow> vesa \<Rightarrow> vesa" where
  "vesa_put_pixel x y color v =
     (if \<not> vesa_enabled v then v
      else if out_of_screen x y v then v
      else if vesa_bpp v = 32 then to_target (put32 (4 * word_index x y v) color) v
      else to_target (store24 (pixel_offset x y v) color) v)"

definition vesa_get_pixel :: "int \<Rightarrow> int \<Rightarrow> vesa \<Rightarrow> u32" where
  "vesa_get_pixel x y v =
     (if \<not> vesa_enabled v then 0
      else if out_of_screen x y v then 0
      else if vesa_bpp v = 32 then get32 (vesa_target v) (4 * word_index x y v)
      else let offset = pixel_offset x y v;
               b = ucast (vesa_target v (unat (offset + 0)));
               g = ucast (vesa_target v (unat (offset + 1)));
               r = ucast (vesa_target v (unat (offset + 2))) in
           push_bit 16 r OR push_bit 8 g OR b)"

definition vesa_fill_rect :: "int \<Rightarrow> int \<Rightarrow> int \<Rightarrow> int \<Rightarrow> u32 \<Rightarrow> vesa \<Rightarrow> vesa" where
  "vesa_fill_rect x y w h color v =
     (if \<not> vesa_enabled v then v
      else fold (\<lambda>py. fold (\<lambda>px. vesa_put_pixel px py color) [x..x + w - 1]) [y..y + h - 1] v)"

definition vesa_clear :: "u32 \<Rightarrow> vesa \<Rightarrow> vesa" where
  "vesa_clear color v =
     (if \<not> vesa_enabled v then v
      else if vesa_bpp v = 32 then
        let pixels = (unat (vesa_pitch v) div 4) * unat (vesa_height v) in
        to_target (fold (\<lambda>i. put32 (4 * i) color) [0..<pixels]) v
      else
        to_target (fold (\<lambda>y. fold (\<lambda>x. store24 (word_of_nat y * ucast (vesa_pitch v) + word_of_nat x * 3) color)
            [0..<unat (vesa_width v)]) [0..<unat (vesa_height v)]) v)"

definition vesa_set_backbuffer :: "bool \<Rightarrow> vesa \<Rightarrow> vesa" where
  "vesa_set_backbuffer enable v = v\<lparr>vesa_use_backbuffer := enable\<rparr>"

definition vesa_present :: "vesa \<Rightarrow> vesa" where
  "vesa_present v =
     (if \<not> vesa_enabled v \<or> \<not> vesa_use_backbuffer v \<or> \<not> vesa_backbuffer v then v
      else let total = ucast (vesa_pitch v) * ucast (vesa_height v) :: u32;
               total = (if total > vesa_backbuffer_size v then vesa_backbuffer_size v else total) in
        v\<lparr>fb_mem := fold (\<lambda>i b. b(i := vesa_backbuffer_store v i)) [0..<unat total] (fb_mem v)\<rparr>)"

definition glyph_of :: "char \<Rightarrow> byte list" where
  "glyph_of c = (let uc = (if ord c < 32 \<or> ord c > 127 then ord (CHR ''?'') else ord c) in font8x16 ! (uc - 32))"

definition vesa_put_char :: "int \<Rightarrow> int \<Rightarrow> char \<Rightarrow> u32 \<Rightarrow> u32 \<Rightarrow> vesa \<Rightarrow> vesa" where
  "vesa_put_char x y c fg bg v =
     (if \<not> vesa_enabled v then v
      else let glyph = glyph_of c in
        fold (\<lambda>row. fold (\<lambda>col. vesa_put_pixel (x + int col) (y + int row)
                (if (glyph ! row) AND drop_bit col 0x80 \<noteq> 0 then fg else bg)) [0..<8]) [0..<16] v)"

fun put_string_loop :: "int \<Rightarrow> int \<Rightarrow> int \<Rightarrow> string \<Rightarrow> u32 \<Rightarrow> u32 \<Rightarrow> vesa \<Rightarrow> vesa" where
  "put_string_loop x cx y [] fg bg v = v"
| "put_string_loop x cx y (c # s) fg bg v =
     (if c = CHR 0x0A then put_string_loop x x (y + 16) s fg bg v
      else put_string_loop x (cx + 8) y s fg bg (vesa_put_char cx y c fg bg v))"

definition vesa_put_string :: "int \<Rightarrow> int \<Rightarrow> string \<Rightarrow> u32 \<Rightarrow> u32 \<Rightarrow> vesa \<Rightarrow> vesa" where
  "vesa_put_string x y s fg bg v = (if \<not> vesa_enabled v then v else put_string_loop x x y s fg bg v)"

text \<open>The loop of Bresenham's algorithm; \<^const>\<open>None\<close> if it never ends.\<close>

partial_function (option) line_loop ::
  "int \<Rightarrow> int \<Rightarrow> int \<Rightarrow> int \<Rightarrow> int \<Rightarrow> int \<Rightarrow> u32 \<Rightarrow> int \<Rightarrow> int \<Rightarrow> int \<Rightarrow> vesa \<Rightarrow> vesa option" where
  "line_loop x1 y1 dx dy sx sy color err x0 y0 v =
     (let v = vesa_put_pixel x0 y0 color v in
      if x0 = x1 \<and> y0 = y1 then Some v
      else let e2 = 2 * err;
               (err, x0) = (if e2 > - dy then (err - dy, x0 + sx) else (err, x0));
               (err, y0) = (if e2 < dx then (err + dx, y0 + sy) else (err, y0)) in
        line_loop x1 y1 dx dy sx sy color err x0 y0 v)"

definition vesa_draw_line :: "int \<Rightarrow> int \<Rightarrow> int \<Rightarrow> int \<Rightarrow> u32 \<Rightarrow> vesa \<Rightarrow> vesa option" where
  "vesa_draw_line x0 y0 x1 y1 color v =
     (if \<not> vesa_enabled v then Some v
      else let dx = x1 - x0; dy = y1 - y0;
               sx = (if dx > 0 then 1 else - 1); sy = (if dy > 0 then 1 else - 1);
               dx = (if dx < 0 then - dx else dx); dy = (if dy < 0 then - dy else dy) in
        line_loop x1 y1 dx dy sx sy color (dx - dy) x0 y0 v)"

definition vesa_draw_rect :: "int \<Rightarrow> int \<Rightarrow> int \<Rightarrow> int \<Rightarrow> u32 \<Rightarrow> vesa \<Rightarrow> vesa option" where
  "vesa_draw_rect x y w h color v =
     (if \<not> vesa_enabled v then Some v
      else do {
        v \<leftarrow> vesa_draw_line x y (x + w - 1) y color v;
        v \<leftarrow> vesa_draw_line x (y + h - 1) (x + w - 1) (y + h - 1) color v;
        v \<leftarrow> vesa_draw_line x y x (y + h - 1) color v;
        vesa_draw_line (x + w - 1) y (x + w - 1) (y + h - 1) color v
      })"

subsection \<open>Lines\<close>

text \<open>
  The points the loop visits, counted from the first one: \<open>i\<close> columns and \<open>j\<close> rows have been
  stepped over and \<open>n\<close> more steps may follow.
\<close>

fun line_pts :: "nat \<Rightarrow> int \<Rightarrow> int \<Rightarrow> int \<Rightarrow> int \<Rightarrow> int \<Rightarrow> (int \<times> int) list" where
  "line_pts 0 dx dy err i j = [(i, j)]"
| "line_pts (Suc n) dx dy err i j =
     (i, j) # (if i = dx \<and> j = dy then []
       else line_pts n dx dy
         (err - (if 2 * err > - dy then dy else 0) + (if 2 * err < dx then dx else 0))
         (i + (if 2 * err > - dy then 1 else 0)) (j + (if 2 * err < dx then 1 else 0)))"

definition near :: "int \<times> int \<Rightarrow> int \<times> int \<Rightarrow> bool" where
  "near p q \<longleftrightarrow> \<bar>fst q - fst p\<bar> \<le> 1 \<and> \<bar>snd q - snd p\<bar> \<le> 1"

lemma line_pts_hd [simp]: "hd (line_pts n dx dy err i j) = (i, j)"
  by (cases n) auto

lemma line_pts_not_Nil [simp]: "line_pts n dx dy err i j \<noteq> []"
  by (cases n) auto

lemma line_pts_near: "successively near (line_pts n dx dy err i j)"
  by (induction n dx dy err i j rule: line_pts.induct) (auto simp: successively_Cons near_def)

text \<open>Exchanging the axes negates the error term.\<close>

lemma line_pts_swap:
  "line_pts n dy dx (- err) j i = map prod.swap (line_pts n dx dy err i j)"
proof (induction n dx dy err i j rule: line_pts.induct)
  case (2 n dx dy err i j)
  have c: "2 * - err > - dx \<longleftrightarrow> 2 * err < dx" "2 * - err < dy \<longleftrightarrow> 2 * err > - dy" by linarith+
  have e: "- err - (if 2 * err < dx then dx else 0) + (if 2 * err > - dy then dy else 0) =
    - (err - (if 2 * err > - dy then dy else 0) + (if 2 * err < dx then dx else 0))" by simp
  show ?case using 2 by (simp only: line_pts.simps c e) auto
qed simp

text \<open>When \<open>dx\<close> is the longer side every step moves along it, and the other side ends in time.\<close>

definition line_inv :: "int \<Rightarrow> int \<Rightarrow> int \<Rightarrow> int \<Rightarrow> int \<Rightarrow> bool" where
  "line_inv dx dy err i j \<longleftrightarrow> 0 \<le> dy \<and> dy \<le> dx \<and> i \<le> dx \<and> err = dx * (j + 1) - dy * (i + 1) \<and>
     (0 < dx \<longrightarrow> - dy < 2 * err \<and> 2 * err < 3 * dx - 2 * dy)"

lemma line_inv_end:
  assumes "line_inv dx dy err dx j" "0 < dx"
  shows "j = dy"
proof -
  have e: "err = dx * (j + 1 - dy) - dy"
    using assms by (simp add: line_inv_def algebra_simps)
  have b: "- dy < 2 * err" "2 * err < 3 * dx - 2 * dy" "0 \<le> dy"
    using assms by (simp_all add: line_inv_def)
  have "dx * 0 < dx * (2 * (j + 1 - dy))" using e b by (simp add: algebra_simps)
  then have "0 < 2 * (j + 1 - dy)" using assms(2) by (simp only: mult_less_cancel_left_pos)
  moreover have "dx * (2 * (j + 1 - dy)) < dx * 3" using e b by (simp add: algebra_simps)
  then have "2 * (j + 1 - dy) < 3" using assms(2) by (simp only: mult_less_cancel_left_pos)
  ultimately have "j + 1 - dy = 1" by presburger
  then show ?thesis by simp
qed

lemma line_inv_step:
  assumes inv: "line_inv dx dy err i j" and i: "i < dx" "0 \<le> i"
  shows "2 * err > - dy"
    "line_inv dx dy (err - dy + (if 2 * err < dx then dx else 0)) (i + 1) (j + (if 2 * err < dx then 1 else 0))"
  using assms by (auto simp: line_inv_def algebra_simps)

lemma line_pts_major:
  "line_inv dx dy err i j \<Longrightarrow> 0 \<le> i \<Longrightarrow> n = nat (dx - i) \<Longrightarrow> (dx = 0 \<Longrightarrow> j = dy) \<Longrightarrow>
     length (line_pts n dx dy err i j) = Suc n \<and> last (line_pts n dx dy err i j) = (dx, dy)"
proof (induction n arbitrary: err i j)
  case 0
  then have "i = dx" by (simp add: line_inv_def)
  then show ?case using 0 line_inv_end [of dx dy err j] by (cases "dx = 0") (auto simp: line_inv_def)
next
  case (Suc n)
  then have i: "i < dx" by simp
  note st = line_inv_step [OF Suc.prems(1) i Suc.prems(2)]
  have "length (line_pts n dx dy (err - dy + (if 2 * err < dx then dx else 0)) (i + 1) (j + (if 2 * err < dx then 1 else 0))) = Suc n \<and>
    last (line_pts n dx dy (err - dy + (if 2 * err < dx then dx else 0)) (i + 1) (j + (if 2 * err < dx then 1 else 0))) = (dx, dy)"
    using Suc.prems i by (intro Suc.IH [OF st(2)]) auto
  then show ?case using i st(1) by (simp only: line_pts.simps if_True) auto
qed

lemma line_pts_complete:
  assumes "0 \<le> dx" "0 \<le> dy"
  shows "length (line_pts (nat (max dx dy)) dx dy (dx - dy) 0 0) = Suc (nat (max dx dy)) \<and>
    last (line_pts (nat (max dx dy)) dx dy (dx - dy) 0 0) = (dx, dy)"
proof (cases "dy \<le> dx")
  case True
  then show ?thesis using assms line_pts_major [of dx dy "dx - dy" 0 0 "nat (max dx dy)"] by (auto simp: line_inv_def)
next
  case False
  have "length (line_pts (nat dy) dy dx (- (dx - dy)) 0 0) = Suc (nat dy) \<and> last (line_pts (nat dy) dy dx (- (dx - dy)) 0 0) = (dy, dx)"
    using assms False by (intro line_pts_major) (auto simp: line_inv_def)
  then show ?thesis using False unfolding line_pts_swap by (auto simp: last_map max_def prod_eq_iff)
qed

text \<open>The loop draws exactly these points.\<close>

lemma line_loop_pts:
  assumes s: "sx = 1 \<or> sx = - 1" "sy = 1 \<or> sy = (- 1 :: int)"
  shows "last (line_pts n dx dy err i j) = (dx, dy) \<Longrightarrow>
    line_loop (X + sx * dx) (Y + sy * dy) dx dy sx sy color err (X + sx * i) (Y + sy * j) v =
      Some (fold (\<lambda>(a, b). vesa_put_pixel (X + sx * a) (Y + sy * b) color) (line_pts n dx dy err i j) v)"
proof (induction n arbitrary: err i j v)
  case 0
  then show ?case by (subst line_loop.simps) simp
next
  case (Suc n)
  have c: "X + sx * i = X + sx * dx \<longleftrightarrow> i = dx" "Y + sy * j = Y + sy * dy \<longleftrightarrow> j = dy" using s by auto
  show ?case
  proof (cases "i = dx \<and> j = dy")
    case True
    then show ?thesis by (subst line_loop.simps) simp
  next
    case False
    have "last (line_pts n dx dy (err - (if 2 * err > - dy then dy else 0) + (if 2 * err < dx then dx else 0))
         (i + (if 2 * err > - dy then 1 else 0)) (j + (if 2 * err < dx then 1 else 0))) = (dx, dy)"
      using Suc.prems False by simp
    note IH = Suc.IH [OF this, of "vesa_put_pixel (X + sx * i) (Y + sy * j) color v"]
    show ?thesis using IH False c
      by (subst line_loop.simps) (auto simp: Let_def algebra_simps)
  qed
qed

lemma vesa_draw_line_pts:
  assumes "vesa_enabled v"
  shows "\<exists>pts. vesa_draw_line x0 y0 x1 y1 color v = Some (fold (\<lambda>(x, y). vesa_put_pixel x y color) pts v) \<and>
    length pts = Suc (nat (max \<bar>x1 - x0\<bar> \<bar>y1 - y0\<bar>)) \<and> hd pts = (x0, y0) \<and> last pts = (x1, y1) \<and> successively near pts"
proof -
  define dx dy where d: "dx = \<bar>x1 - x0\<bar>" "dy = \<bar>y1 - y0\<bar>"
  define sx sy :: int where sg: "sx = (if x1 - x0 > 0 then 1 else - 1)" "sy = (if y1 - y0 > 0 then 1 else - 1)"
  define ps where "ps = line_pts (nat (max dx dy)) dx dy (dx - dy) 0 0"
  define f where "f = (\<lambda>(a, b). (x0 + sx * a, y0 + sy * b))"
  have e: "x1 = x0 + sx * dx" "y1 = y0 + sy * dy" by (auto simp: d sg)
  have s: "sx = 1 \<or> sx = - 1" "sy = 1 \<or> sy = - 1" by (simp_all add: sg)
  have n: "\<bar>x1 - x0\<bar> = dx" "\<bar>y1 - y0\<bar> = dy" "0 \<le> dx" "0 \<le> dy" by (simp_all add: d)
  have dd: "(if x1 - x0 < 0 then - (x1 - x0) else x1 - x0) = dx" "(if y1 - y0 < 0 then - (y1 - y0) else y1 - y0) = dy"
    by (auto simp: d)
  have ps: "length ps = Suc (nat (max dx dy))" "last ps = (dx, dy)" "hd ps = (0, 0)" "ps \<noteq> []" "successively near ps"
    using line_pts_complete [OF n(3,4)] by (simp_all add: ps_def line_pts_near)
  have "vesa_draw_line x0 y0 x1 y1 color v =
      Some (fold (\<lambda>(a, b). vesa_put_pixel (x0 + sx * a) (y0 + sy * b) color) ps v)"
    using line_loop_pts [OF s, of "nat (max dx dy)" dx dy "dx - dy" 0 0 x0 y0 color v] ps(2) assms
    unfolding vesa_draw_line_def Let_def dd sg [symmetric] e [symmetric] ps_def by simp
  moreover have "fold (\<lambda>(a, b). vesa_put_pixel (x0 + sx * a) (y0 + sy * b) color) ps v =
      fold (\<lambda>(x, y). vesa_put_pixel x y color) (map f ps) v"
    by (simp add: fold_map f_def comp_def case_prod_beta')
  moreover have "successively near (map f ps)"
    using ps(5) s by (auto simp: successively_map f_def near_def split: prod.splits elim!: successively_mono)
  moreover have "hd (map f ps) = (x0, y0)" "last (map f ps) = (x1, y1)"
    using ps e by (simp_all add: hd_map last_map f_def)
  ultimately show ?thesis using ps(1) n by (intro exI [of _ "map f ps"]) simp
qed

subsection \<open>Pixels\<close>

text \<open>The modes the boot loader may pass on: rows are at least as long as the visible part.\<close>

definition mode_ok :: "vesa \<Rightarrow> bool" where
  "mode_ok v \<longleftrightarrow> vesa_enabled v \<and>
     (vesa_bpp v = 24 \<and> 3 * unat (vesa_width v) \<le> unat (vesa_pitch v) \<or>
      vesa_bpp v = 32 \<and> 4 * unat (vesa_width v) \<le> unat (vesa_pitch v))"

definition pixel_bytes :: "vesa \<Rightarrow> nat" where
  "pixel_bytes v = (if vesa_bpp v = 32 then 4 else 3)"

definition stride :: "vesa \<Rightarrow> nat" where
  "stride v = (if vesa_bpp v = 32 then 4 * (unat (vesa_pitch v) div 4) else unat (vesa_pitch v))"

definition pixel_at :: "int \<Rightarrow> int \<Rightarrow> vesa \<Rightarrow> nat" where
  "pixel_at x y v = nat y * stride v + nat x * pixel_bytes v"

definition visible_color :: "vesa \<Rightarrow> u32 \<Rightarrow> u32" where
  "visible_color v c = (if vesa_bpp v = 32 then c else c AND 0xFFFFFF)"

definition load24 :: "nat \<Rightarrow> buffer \<Rightarrow> u32" where
  "load24 off b = push_bit 16 (ucast (b (off + 2))) OR push_bit 8 (ucast (b (off + 1))) OR ucast (b off)"

definition put24 :: "nat \<Rightarrow> u32 \<Rightarrow> buffer \<Rightarrow> buffer" where
  "put24 off c b = b(off := ucast c, off + 1 := ucast (drop_bit 8 c), off + 2 := ucast (drop_bit 16 c))"

definition put_at :: "vesa \<Rightarrow> nat \<Rightarrow> u32 \<Rightarrow> buffer \<Rightarrow> buffer" where
  "put_at v = (if vesa_bpp v = 32 then put32 else put24)"

definition get_at :: "vesa \<Rightarrow> nat \<Rightarrow> buffer \<Rightarrow> u32" where
  "get_at v off b = (if vesa_bpp v = 32 then get32 b off else load24 off b)"

lemma LENGTH_32: "2 ^ LENGTH(32) = (2 ^ 32 :: nat)"
  by simp

lemma u16_less: "unat (a :: u16) < 65536"
  using unsigned_less [of a, where ?'a = nat] by simp

lemma mask8: "(ucast (c AND 0xFF) :: byte) = ucast c" for c :: u32
proof -
  have m: "(0xFF :: u32) = mask 8" by (simp add: mask_eq_exp_minus_1)
  show ?thesis unfolding m by (rule bit_word_eqI) (auto simp: bit_simps)
qed

lemma le24_join:
  "push_bit 16 (ucast (ucast (drop_bit 16 c) :: byte)) OR push_bit 8 (ucast (ucast (drop_bit 8 c) :: byte)) OR
     ucast (ucast c :: byte) = c AND mask 24" for c :: u32
proof (rule bit_word_eqI)
  fix n
  assume "n < LENGTH(32)"
  then show "bit (push_bit 16 (ucast (ucast (drop_bit 16 c) :: byte)) OR push_bit 8 (ucast (ucast (drop_bit 8 c) :: byte)) OR
     ucast (ucast c :: byte) :: u32) n = bit (c AND mask 24) n"
    by (cases "n < 8"; cases "n < 16"; cases "n < 24") (auto simp: bit_simps)
qed

lemma load24_put24: "load24 off (put24 off c b) = c AND 0xFFFFFF"
proof -
  have m: "(0xFFFFFF :: u32) = mask 24" by (simp add: mask_eq_exp_minus_1)
  show ?thesis unfolding m by (simp add: load24_def put24_def le24_join)
qed

lemma load24_put24_other: "off + 3 \<le> off' \<or> off' + 3 \<le> off \<Longrightarrow> load24 off' (put24 off c b) = load24 off' b"
  by (auto simp: load24_def put24_def)

lemma get_put_at: "get_at v off (put_at v off c b) = visible_color v c"
  by (simp add: get_at_def put_at_def visible_color_def get32_put32 load24_put24)

lemma get_put_at_other:
  "off + pixel_bytes v \<le> off' \<or> off' + pixel_bytes v \<le> off \<Longrightarrow> get_at v off' (put_at v off c b) = get_at v off' b"
  by (auto simp: get_at_def put_at_def pixel_bytes_def get32_put32_other load24_put24_other)

lemma put_at_outside: "i < off \<or> off + pixel_bytes v \<le> i \<Longrightarrow> put_at v off c b i = b i"
  by (auto simp: put_at_def pixel_bytes_def put32_outside put24_def)

text \<open>Where a visible pixel lies: inside the buffer, and apart from every other pixel.\<close>

lemma row_bound:
  assumes "a < w" "k * w \<le> st" "b < (h :: nat)"
  shows "b * st + a * k + k \<le> st * h"
proof -
  have "a * k + k \<le> st" using assms(1,2) by (metis add.commute mult.commute mult_Suc mult_le_mono2 Suc_leI le_trans)
  moreover have "b * st + st \<le> h * st" using assms(3) by (metis add.commute mult_Suc mult_le_mono1 Suc_leI)
  ultimately show ?thesis by (simp add: mult.commute)
qed

lemma pixels_apart:
  assumes "a < w" "a' < w" "k * w \<le> st" "(a, b) \<noteq> (a', b')"
  shows "b * st + a * k + k \<le> b' * st + a' * k \<or> b' * st + a' * k + k \<le> b * st + a * (k :: nat)"
proof -
  have row: "x * k + k \<le> st" if "x < w" for x
    using that assms(3) by (metis add.commute mult.commute mult_Suc mult_le_mono2 Suc_leI le_trans)
  consider "b < b'" | "b' < b" | "b = b'" "a < a'" | "b = b'" "a' < a" using assms(4) by fastforce
  then show ?thesis
  proof cases
    case 1
    then have "b * st + st \<le> b' * st" by (metis add.commute mult_Suc mult_le_mono1 Suc_leI)
    then show ?thesis using row [OF assms(1)] by simp
  next
    case 2
    then have "b' * st + st \<le> b * st" by (metis add.commute mult_Suc mult_le_mono1 Suc_leI)
    then show ?thesis using row [OF assms(2)] by simp
  next
    case 3
    then have "a * k + k \<le> a' * k" by (metis add.commute mult_Suc mult_le_mono1 Suc_leI)
    then show ?thesis using 3 by simp
  next
    case 4
    then have "a' * k + k \<le> a * k" by (metis add.commute mult_Suc mult_le_mono1 Suc_leI)
    then show ?thesis using 4 by simp
  qed
qed

lemma stride_ok: "mode_ok v \<Longrightarrow> pixel_bytes v * unat (vesa_width v) \<le> stride v"
  by (auto simp: mode_ok_def pixel_bytes_def stride_def)

lemma stride_le: "stride v \<le> unat (vesa_pitch v)"
  by (simp add: stride_def)

lemma on_screen:
  assumes "\<not> out_of_screen x y v"
  shows "nat x < unat (vesa_width v)" "nat y < unat (vesa_height v)" "0 \<le> x" "0 \<le> y"
proof -
  have u: "uint w = int (unat w)" for w :: u16 by simp
  show "nat x < unat (vesa_width v)" "nat y < unat (vesa_height v)" "0 \<le> x" "0 \<le> y"
    using assms unfolding out_of_screen_def u by linarith+
qed

lemma pixel_at_bound:
  assumes "mode_ok v" "\<not> out_of_screen x y v"
  shows "pixel_at x y v + pixel_bytes v \<le> unat (vesa_pitch v) * unat (vesa_height v)"
proof -
  have "pixel_at x y v + pixel_bytes v \<le> stride v * unat (vesa_height v)"
    unfolding pixel_at_def by (rule row_bound [OF on_screen(1) [OF assms(2)] stride_ok [OF assms(1)] on_screen(2) [OF assms(2)]])
  also have "\<dots> \<le> unat (vesa_pitch v) * unat (vesa_height v)" using stride_le by (rule mult_le_mono1)
  finally show ?thesis .
qed

lemma pixel_at_apart:
  assumes "mode_ok v" "\<not> out_of_screen x y v" "\<not> out_of_screen x' y' v" "(x, y) \<noteq> (x', y')"
  shows "pixel_at x y v + pixel_bytes v \<le> pixel_at x' y' v \<or> pixel_at x' y' v + pixel_bytes v \<le> pixel_at x y v"
  unfolding pixel_at_def
  by (rule pixels_apart [OF on_screen(1) [OF assms(2)] on_screen(1) [OF assms(3)] stride_ok [OF assms(1)]])
    (use on_screen [OF assms(2)] on_screen [OF assms(3)] assms(4) in \<open>auto simp: nat_eq_iff2\<close>)

lemma screen_bytes: "unat (vesa_pitch v) * unat (vesa_height v) < 2 ^ 32"
proof -
  have "unat (vesa_pitch v) * unat (vesa_height v) \<le> 65535 * 65535"
    using u16_less [of "vesa_pitch v"] u16_less [of "vesa_height v"] by (intro mult_le_mono) auto
  then show ?thesis by simp
qed

lemma to_target_simps [simp]:
  "vesa_width (to_target f v) = vesa_width v" "vesa_height (to_target f v) = vesa_height v"
  "vesa_pitch (to_target f v) = vesa_pitch v" "vesa_bpp (to_target f v) = vesa_bpp v"
  "vesa_enabled (to_target f v) = vesa_enabled v" "on_back (to_target f v) = on_back v"
  "vesa_target (to_target f v) = f (vesa_target v)"
  "to_target g (to_target f v) = to_target (g \<circ> f) v" "to_target id v = v"
  by (auto simp: to_target_def on_back_def vesa_target_def)

lemma mode_simps [simp]:
  "mode_ok (to_target f v) = mode_ok v" "pixel_at x y (to_target f v) = pixel_at x y v"
  "out_of_screen x y (to_target f v) = out_of_screen x y v" "put_at (to_target f v) = put_at v"
  "get_at (to_target f v) = get_at v" "visible_color (to_target f v) = visible_color v"
  "pixel_bytes (to_target f v) = pixel_bytes v"
  by (simp_all add: mode_ok_def pixel_at_def out_of_screen_def put_at_def get_at_def visible_color_def
      stride_def pixel_bytes_def fun_eq_iff)

lemma word_index_eq:
  assumes "vesa_bpp v = 32" "0 \<le> x" "0 \<le> y"
  shows "4 * word_index x y v = pixel_at x y v"
proof -
  have u: "uint (vesa_pitch v) div 4 = int (unat (vesa_pitch v) div 4)" by (simp add: zdiv_int)
  have "word_index x y v = nat y * (unat (vesa_pitch v) div 4) + nat x"
    unfolding word_index_def u using assms(2,3) by (simp add: nat_add_distrib nat_mult_distrib del: uint_nat)
  then show ?thesis using assms(1) by (simp add: pixel_at_def stride_def pixel_bytes_def algebra_simps)
qed

lemma unat_pixel_offset:
  assumes m: "mode_ok v" "vesa_bpp v \<noteq> 32" and s: "\<not> out_of_screen x y v" and k: "k < 3"
  shows "unat (pixel_offset x y v + word_of_nat k) = pixel_at x y v + k"
proof -
  have b: "vesa_bpp v = 24" using m by (simp add: mode_ok_def)
  note o = on_screen [OF s]
  have pb: "pixel_bytes v = 3" and st: "stride v = unat (vesa_pitch v)" using m(2) by (simp_all add: pixel_bytes_def stride_def)
  have w: "word_of_int y = (word_of_nat (nat y) :: u32)" "word_of_int x = (word_of_nat (nat x) :: u32)"
    using o(3,4) by (simp_all)
  have p: "(ucast (vesa_pitch v) :: u32) = word_of_nat (unat (vesa_pitch v))" by (simp add: unsigned_def)
  have e: "pixel_offset x y v + word_of_nat k = word_of_nat (pixel_at x y v + k)"
    using pb st unfolding pixel_offset_def b w p pixel_at_def by simp
  have "pixel_at x y v + k < 2 ^ 32"
    using pixel_at_bound [OF m(1) s] screen_bytes [of v] k pb by linarith
  then show ?thesis unfolding e unat_of_nat by (metis mod_less LENGTH_32)
qed

lemma store24_eq:
  assumes "mode_ok v" "vesa_bpp v \<noteq> 32" "\<not> out_of_screen x y v"
  shows "store24 (pixel_offset x y v) c = put24 (pixel_at x y v) c"
  using unat_pixel_offset [OF assms, of 0] unat_pixel_offset [OF assms, of 1] unat_pixel_offset [OF assms, of 2]
  by (simp add: store24_def put24_def mask8 fun_eq_iff)

lemma put_pixel_eq:
  assumes "mode_ok v"
  shows "vesa_put_pixel x y c v = (if out_of_screen x y v then v else to_target (put_at v (pixel_at x y v) c) v)"
  using assms store24_eq [OF assms, of x y c] on_screen [of x y v] word_index_eq [of v x y]
  by (auto simp: vesa_put_pixel_def mode_ok_def put_at_def)

lemma get_pixel_eq:
  assumes "mode_ok v"
  shows "vesa_get_pixel x y v = (if out_of_screen x y v then 0 else get_at v (pixel_at x y v) (vesa_target v))"
proof (cases "vesa_bpp v = 32 \<or> out_of_screen x y v")
  case True
  then show ?thesis using assms on_screen [of x y v] word_index_eq [of v x y]
    by (auto simp: vesa_get_pixel_def mode_ok_def get_at_def)
next
  case False
  then show ?thesis
    using assms unat_pixel_offset [OF assms, of x y 0] unat_pixel_offset [OF assms, of x y 1] unat_pixel_offset [OF assms, of x y 2]
    by (simp add: vesa_get_pixel_def mode_ok_def get_at_def load24_def Let_def)
qed

lemma get_put_pixel:
  assumes "mode_ok v"
  shows "vesa_get_pixel x' y' (vesa_put_pixel x y c v) =
    (if (x', y') = (x, y) \<and> \<not> out_of_screen x y v then visible_color v c else vesa_get_pixel x' y' v)"
  using assms pixel_at_apart [OF assms, of x y x' y']
  by (auto simp: put_pixel_eq get_pixel_eq get_put_at get_put_at_other)

lemma put_pixel_inside:
  assumes "mode_ok v" "unat (vesa_pitch v) * unat (vesa_height v) \<le> i"
  shows "vesa_target (vesa_put_pixel x y c v) i = vesa_target v i"
  using assms pixel_at_bound [OF assms(1), of x y] by (auto simp: put_pixel_eq put_at_outside)

lemma put_pixel_simps [simp]:
  "mode_ok (vesa_put_pixel x y c v) = mode_ok v" "out_of_screen a b (vesa_put_pixel x y c v) = out_of_screen a b v"
  "visible_color (vesa_put_pixel x y c v) = visible_color v" "vesa_enabled (vesa_put_pixel x y c v) = vesa_enabled v"
  "vesa_pitch (vesa_put_pixel x y c v) = vesa_pitch v" "vesa_height (vesa_put_pixel x y c v) = vesa_height v"
  "vesa_width (vesa_put_pixel x y c v) = vesa_width v" "on_back (vesa_put_pixel x y c v) = on_back v"
  "vesa_bpp (vesa_put_pixel x y c v) = vesa_bpp v"
  by (simp_all add: vesa_put_pixel_def)

text \<open>Any sequence of pixels with colours: the last colour given to a visible pixel stays.\<close>

definition draw :: "((int \<times> int) \<times> u32) list \<Rightarrow> vesa \<Rightarrow> vesa" where
  "draw ps = fold (\<lambda>((x, y), c). vesa_put_pixel x y c) ps"

lemma draw_simps [simp]:
  "mode_ok (draw ps v) = mode_ok v" "out_of_screen a b (draw ps v) = out_of_screen a b v"
  "visible_color (draw ps v) = visible_color v" "vesa_enabled (draw ps v) = vesa_enabled v"
  by (induction ps arbitrary: v) (auto simp: draw_def)

lemma get_draw:
  assumes "mode_ok v"
  shows "vesa_get_pixel x y (draw ps v) =
    (if out_of_screen x y v then 0
     else case map_of (rev ps) (x, y) of None \<Rightarrow> vesa_get_pixel x y v | Some c \<Rightarrow> visible_color v c)"
proof (induction ps rule: rev_induct)
  case Nil
  then show ?case using assms by (simp add: draw_def get_pixel_eq)
next
  case (snoc p ps)
  obtain a b c where p: "p = ((a, b), c)" by (metis prod.collapse)
  have d: "draw (ps @ [p]) v = vesa_put_pixel a b c (draw ps v)" by (simp add: draw_def p)
  show ?case unfolding d using assms snoc by (auto simp: get_put_pixel p)
qed

lemma draw_inside:
  assumes "mode_ok v" "unat (vesa_pitch v) * unat (vesa_height v) \<le> i"
  shows "vesa_target (draw ps v) i = vesa_target v i"
  using assms by (induction ps arbitrary: v) (auto simp: draw_def put_pixel_inside)

text \<open>The drawing operations as sequences of pixels.\<close>

definition rect_points :: "int \<Rightarrow> int \<Rightarrow> int \<Rightarrow> int \<Rightarrow> (int \<times> int) list" where
  "rect_points x y w h = concat (map (\<lambda>py. map (\<lambda>px. (px, py)) [x..x + w - 1]) [y..y + h - 1])"

lemma fold_concat_map: "fold (\<lambda>y. fold (f y) (xs y)) ys = fold (\<lambda>(x, y). f y x) (concat (map (\<lambda>y. map (\<lambda>x. (x, y)) (xs y)) ys))"
  by (induction ys) (auto simp: fold_map comp_def fun_eq_iff)

lemma fill_rect_draw:
  assumes "vesa_enabled v"
  shows "vesa_fill_rect x y w h c v = draw (map (\<lambda>p. (p, c)) (rect_points x y w h)) v"
  using assms fold_concat_map [of "\<lambda>py px. vesa_put_pixel px py c" "\<lambda>_. [x..x + w - 1]" "[y..y + h - 1]"]
  by (simp add: vesa_fill_rect_def draw_def rect_points_def fold_map comp_def case_prod_beta')

lemma map_of_const: "map_of (rev (map (\<lambda>p. (p, c)) ps)) q = (if q \<in> set ps then Some c else None)"
  by (induction ps) (auto simp: map_add_def split: option.splits)

lemma get_fill_rect:
  assumes "mode_ok v"
  shows "vesa_get_pixel a b (vesa_fill_rect x y w h c v) =
    (if out_of_screen a b v then 0 else if x \<le> a \<and> a < x + w \<and> y \<le> b \<and> b < y + h then visible_color v c
     else vesa_get_pixel a b v)"
proof -
  have "(a, b) \<in> set (rect_points x y w h) \<longleftrightarrow> x \<le> a \<and> a < x + w \<and> y \<le> b \<and> b < y + h"
    by (force simp: rect_points_def)
  then show ?thesis
    using assms by (simp add: fill_rect_draw get_draw mode_ok_def [of v] map_of_const del: rev_map)
qed

text \<open>Clearing writes whole rows; what is visible of them is one rectangle.\<close>

lemma get_fold_put_at:
  assumes "\<And>o'. o' \<in> set os \<Longrightarrow> o' \<noteq> off \<Longrightarrow> o' + pixel_bytes v \<le> off \<or> off + pixel_bytes v \<le> o'"
  shows "get_at v off (fold (\<lambda>o'. put_at v o' c) os b) = (if off \<in> set os then visible_color v c else get_at v off b)"
  using assms
proof (induction os rule: rev_induct)
  case (snoc o' os)
  then show ?case by (cases "o' = off") (simp_all add: get_put_at get_put_at_other)
qed simp

lemma get_clear32:
  assumes m: "mode_ok v" "vesa_bpp v = 32" and s: "\<not> out_of_screen x y v"
  shows "vesa_get_pixel x y (vesa_clear c v) = visible_color v c"
proof -
  define q where "q = unat (vesa_pitch v) div 4"
  define os where "os = map (\<lambda>i. 4 * i) [0..<q * unat (vesa_height v)]"
  note o = on_screen [OF s]
  have st: "stride v = 4 * q" "pixel_bytes v = 4" using m(2) by (simp_all add: stride_def pixel_bytes_def q_def)
  have off: "pixel_at x y v = 4 * (nat y * q + nat x)" by (simp add: pixel_at_def st algebra_simps)
  have "4 * unat (vesa_width v) \<le> 4 * q" using stride_ok [OF m(1)] st by simp
  then have "nat y * q + nat x * 1 + 1 \<le> q * unat (vesa_height v)"
    by (intro row_bound [OF o(1) _ o(2)]) simp
  then have mem: "pixel_at x y v \<in> set os" unfolding off os_def set_map by (intro imageI) simp
  have "vesa_clear c v = to_target (fold (\<lambda>o'. put_at v o' c) os) v"
    using m by (simp add: vesa_clear_def mode_ok_def os_def fold_map comp_def put_at_def q_def)
  moreover have "get_at v (pixel_at x y v) (fold (\<lambda>o'. put_at v o' c) os (vesa_target v)) = visible_color v c"
    using mem by (subst get_fold_put_at) (auto simp: off os_def st)
  ultimately show ?thesis using m(1) s by (simp add: get_pixel_eq)
qed

lemma get_clear24:
  assumes m: "mode_ok v" "vesa_bpp v \<noteq> 32" and s: "\<not> out_of_screen x y v"
  shows "vesa_get_pixel x y (vesa_clear c v) = visible_color v c"
proof -
  define W H where WH: "W = unat (vesa_width v)" "H = unat (vesa_height v)"
  define ps where "ps = concat (map (\<lambda>y. map (\<lambda>x. (x, y)) [0..<W]) [0..<H])"
  define os where "os = map (\<lambda>(x, y). pixel_at (int x) (int y) v) ps"
  have b: "vesa_bpp v = 24" using m by (simp add: mode_ok_def)
  have scr: "\<not> out_of_screen (int x) (int y) v" if "(x, y) \<in> set ps" for x y
  proof -
    have u: "uint w = int (unat w)" for w :: u16 by simp
    have "x < W" "y < H" using that by (auto simp: ps_def)
    then show ?thesis unfolding out_of_screen_def u WH by linarith
  qed
  have "store24 (word_of_nat y * ucast (vesa_pitch v) + word_of_nat x * 3) c = put_at v (pixel_at (int x) (int y) v) c"
    if "(x, y) \<in> set ps" for x y
    using store24_eq [OF m scr [OF that], of c] m(2) by (simp add: pixel_offset_def b put_at_def)
  then have "fold (\<lambda>(x, y). store24 (word_of_nat y * ucast (vesa_pitch v) + word_of_nat x * 3) c) ps =
      fold (\<lambda>(x, y). put_at v (pixel_at (int x) (int y) v) c) ps"
    by (intro ext fold_cong) auto
  then have e: "vesa_clear c v = to_target (fold (\<lambda>o'. put_at v o' c) os) v"
    using m fold_concat_map [of "\<lambda>y x. store24 (word_of_nat y * ucast (vesa_pitch v) + word_of_nat x * 3) c" "\<lambda>_. [0..<W]" "[0..<H]"]
    by (simp add: vesa_clear_def mode_ok_def os_def fold_map comp_def ps_def WH case_prod_beta')
  have "(nat x, nat y) \<in> set ps" using on_screen [OF s] by (force simp: ps_def WH)
  then have mem: "pixel_at x y v \<in> set os"
    using on_screen(3,4) [OF s] unfolding os_def by (force simp: image_iff)
  have "get_at v (pixel_at x y v) (fold (\<lambda>o'. put_at v o' c) os (vesa_target v)) = visible_color v c"
  proof (subst get_fold_put_at)
    fix o' assume "o' \<in> set os" "o' \<noteq> pixel_at x y v"
    then obtain a b' where p: "(a, b') \<in> set ps" "o' = pixel_at (int a) (int b') v" "(int a, int b') \<noteq> (x, y)"
      by (auto simp: os_def)
    then show "o' + pixel_bytes v \<le> pixel_at x y v \<or> pixel_at x y v + pixel_bytes v \<le> o'"
      using pixel_at_apart [OF m(1) scr [OF p(1)] s p(3)] by simp
  qed (use mem in simp)
  then show ?thesis using m(1) s by (simp add: e get_pixel_eq)
qed

lemma get_clear:
  assumes "mode_ok v"
  shows "vesa_get_pixel x y (vesa_clear c v) = (if out_of_screen x y v then 0 else visible_color v c)"
proof (cases "out_of_screen x y v")
  case True
  then show ?thesis using assms by (simp add: vesa_clear_def vesa_get_pixel_def Let_def)
next
  case False
  then show ?thesis using get_clear32 [OF assms] get_clear24 [OF assms] by (cases "vesa_bpp v = 32") simp_all
qed

subsection \<open>Presenting the back buffer\<close>

lemma fold_copy: "fold (\<lambda>i b. b(i := g i)) [0..<n] b = (\<lambda>i. if i < n then g i else b i)" for b :: buffer
  by (induction n) (auto simp: fun_eq_iff less_Suc_eq)

lemma unat_total: "unat (ucast (vesa_pitch v) * ucast (vesa_height v) :: u32) = unat (vesa_pitch v) * unat (vesa_height v)"
proof -
  have u: "(ucast w :: u32) = word_of_nat (unat w)" for w :: u16 by (simp add: unsigned_def)
  have "(ucast (vesa_pitch v) * ucast (vesa_height v) :: u32) = word_of_nat (unat (vesa_pitch v) * unat (vesa_height v))"
    unfolding u by simp
  then show ?thesis using screen_bytes [of v] unfolding unat_of_nat by (metis unat_of_nat mod_less LENGTH_32)
qed

lemma present_pixels:
  assumes m: "mode_ok v" "on_back v" and fits: "unat (vesa_pitch v) * unat (vesa_height v) \<le> unat (vesa_backbuffer_size v)"
  shows "vesa_get_pixel x y (vesa_set_backbuffer False (vesa_present v)) = vesa_get_pixel x y v"
proof -
  define n where "n = unat (vesa_pitch v) * unat (vesa_height v)"
  have "\<not> (ucast (vesa_pitch v) * ucast (vesa_height v) :: u32) > vesa_backbuffer_size v"
    using fits unat_total [of v] by (simp add: word_less_nat_alt)
  then have p: "vesa_present v = v\<lparr>fb_mem := (\<lambda>i. if i < n then vesa_backbuffer_store v i else fb_mem v i)\<rparr>"
    using m unfolding vesa_present_def Let_def by (simp add: mode_ok_def on_back_def fold_copy unat_total n_def)
  let ?w = "vesa_set_backbuffer False (vesa_present v)"
  have sel: "mode_ok ?w = mode_ok v" "out_of_screen x y ?w = out_of_screen x y v" "pixel_at x y ?w = pixel_at x y v"
    "get_at ?w = get_at v" "vesa_target ?w = (\<lambda>i. if i < n then vesa_backbuffer_store v i else fb_mem v i)"
    by (simp_all add: p vesa_set_backbuffer_def mode_ok_def out_of_screen_def pixel_at_def stride_def pixel_bytes_def
        get_at_def fun_eq_iff vesa_target_def on_back_def)
  have "get_at v (pixel_at x y v) (\<lambda>i. if i < n then vesa_backbuffer_store v i else fb_mem v i) =
      get_at v (pixel_at x y v) (vesa_backbuffer_store v)" if "\<not> out_of_screen x y v"
    using pixel_at_bound [OF m(1) that] by (auto simp: get_at_def get32_def load24_def n_def pixel_bytes_def)
  then show ?thesis using m sel by (simp add: get_pixel_eq vesa_target_def)
qed

subsection \<open>Properties\<close>

text \<open>
  A pixel reads back as it was written (its low 24 bits in the 24-bit modes), no other
  pixel changes, and no store leaves the \<open>pitch * height\<close> bytes of the buffer; points outside the
  screen are ignored.
\<close>

lemma put_pixel_correct:
  assumes "mode_ok v"
  shows "vesa_get_pixel x' y' (vesa_put_pixel x y c v) =
      (if (x', y') = (x, y) \<and> \<not> out_of_screen x y v then visible_color v c else vesa_get_pixel x' y' v) \<and>
    (\<forall>i. unat (vesa_pitch v) * unat (vesa_height v) \<le> i \<longrightarrow>
       fb_mem (vesa_put_pixel x y c v) i = fb_mem v i \<and>
       vesa_backbuffer_store (vesa_put_pixel x y c v) i = vesa_backbuffer_store v i)"
  using get_put_pixel [OF assms] pixel_at_bound [OF assms, of x y]
  by (auto simp: put_pixel_eq [OF assms] to_target_def put_at_outside)

text \<open>The 800x600 mode with 32 bits per pixel.\<close>

definition svga :: vesa where
  "svga = vesa_init \<lparr>vbe_pitch = 3200, vbe_width = 800, vbe_height = 600, vbe_bpp = 32, vbe_framebuffer = 0xE0000000\<rparr>
     \<lparr>vesa_framebuffer = 0, vesa_width = 0, vesa_height = 0, vesa_pitch = 0, vesa_bpp = 0, vesa_enabled = False,
      vesa_use_backbuffer = False, vesa_backbuffer = False, vesa_backbuffer_size = 0, fb_mem = (\<lambda>_. 0), vesa_backbuffer_store = (\<lambda>_. 0)\<rparr>"

lemma svga_ok: "mode_ok svga"
  by (simp add: svga_def vesa_init_def mode_ok_def)

lemma put_pixel_correct_witness:
  "vesa_get_pixel 799 599 (vesa_put_pixel 799 599 0xFF00FF svga) = 0xFF00FF"
  using put_pixel_correct [OF svga_ok, of 799 599 799 599 "0xFF00FF"]
  by (simp add: svga_def vesa_init_def out_of_screen_def visible_color_def)

text \<open>
  \<open>vesa_clear\<close>, which writes the buffer row by row without looking at coordinates, shows
  the same screen as filling the rectangle of the whole screen pixel by pixel.
\<close>

lemma clear_is_fill_rect:
  assumes "mode_ok v"
  shows "vesa_get_pixel x y (vesa_clear c v) =
    vesa_get_pixel x y (vesa_fill_rect 0 0 (uint (vesa_width v)) (uint (vesa_height v)) c v)"
  using get_clear [OF assms] get_fill_rect [OF assms] by (auto simp: out_of_screen_def)

lemma clear_is_fill_rect_witness:
  "vesa_get_pixel 3 4 (vesa_clear 7 svga) = vesa_get_pixel 3 4 (vesa_fill_rect 0 0 800 600 7 svga)"
proof -
  have "uint (vesa_width svga) = 800" "uint (vesa_height svga) = 600" by (simp_all add: svga_def vesa_init_def)
  then show ?thesis using clear_is_fill_rect [OF svga_ok, of 3 4 7] by simp
qed



end
