(* ===== verification/Gfxcon.thy ===== *)
theory Gfxcon
  imports Vesa
begin

text \<open>
  The graphics console, \<open>kernel/gfxcon.c\<close>: a text cursor on a grid of 8x16 character cells drawn with
  the driver of \<open>Vesa\<close>. The invariant is that the cursor stays on the grid, so that every character
  is drawn inside the screen.
\<close>

subsection \<open>State and operations\<close>

record gfxcon =
  gfx_active :: bool
  cursor_row :: int
  cursor_col :: int
  fg_color :: u32
  bg_color :: u32
  gfx_cols :: int
  gfx_rows :: int
  gfx_vesa :: vesa

definition on_vesa :: "(vesa \<Rightarrow> vesa) \<Rightarrow> gfxcon \<Rightarrow> gfxcon" where
  "on_vesa f g = g\<lparr>gfx_vesa := f (gfx_vesa g)\<rparr>"

definition gfxcon_active :: "gfxcon \<Rightarrow> bool" where
  "gfxcon_active g = gfx_active g"

definition gfxcon_clear :: "gfxcon \<Rightarrow> gfxcon" where
  "gfxcon_clear g =
     (if \<not> gfx_active g then g
      else (on_vesa (vesa_clear (bg_color g)) g)\<lparr>cursor_row := 0, cursor_col := 0\<rparr>)"

definition gfxcon_init :: "gfxcon \<Rightarrow> gfxcon" where
  "gfxcon_init g =
     (if \<not> vesa_enabled (gfx_vesa g) then g\<lparr>gfx_active := False\<rparr>
      else let cols = uint (vesa_width (gfx_vesa g)) div 8; rows = uint (vesa_height (gfx_vesa g)) div 16 in
        gfxcon_clear (g\<lparr>gfx_active := True, cursor_row := 0, cursor_col := 0, fg_color := 0x00FF00, bg_color := 0,
          gfx_cols := (if cols \<le> 0 then 100 else cols), gfx_rows := (if rows \<le> 0 then 37 else rows)\<rparr>))"

text \<open>\<open>scroll_up\<close> works on the frame buffer itself, never on the back buffer.\<close>

definition pixel32 :: "vesa \<Rightarrow> int \<Rightarrow> int \<Rightarrow> nat" where
  "pixel32 v y x = 4 * unat (word_of_int y * (ucast (vesa_pitch v) div 4) + word_of_int x :: u32)"

definition byte24 :: "vesa \<Rightarrow> int \<Rightarrow> int \<Rightarrow> nat" where
  "byte24 v y x = unat (word_of_int y * ucast (vesa_pitch v) + word_of_int x :: u32)"

definition scroll32 :: "u32 \<Rightarrow> vesa \<Rightarrow> buffer \<Rightarrow> buffer" where
  "scroll32 bg v fb =
     (let w = uint (vesa_width v); h = uint (vesa_height v);
          fb = fold (\<lambda>y. fold (\<lambda>x fb. put32 (pixel32 v y x) (get32 fb (pixel32 v (y + 16) x)) fb) [0..w - 1]) [0..h - 16 - 1] fb in
      fold (\<lambda>y. fold (\<lambda>x. put32 (pixel32 v y x) bg) [0..w - 1]) [h - 16..h - 1] fb)"

definition scroll24 :: "u32 \<Rightarrow> vesa \<Rightarrow> buffer \<Rightarrow> buffer" where
  "scroll24 bg v fb =
     (let w = uint (vesa_width v); h = uint (vesa_height v);
          fb = fold (\<lambda>y. fold (\<lambda>x fb. fb(byte24 v y x := fb (byte24 v (y + 16) x))) [0..w * 3 - 1]) [0..h - 16 - 1] fb in
      fold (\<lambda>y. fold (\<lambda>x. store24 (word_of_int y * ucast (vesa_pitch v) + word_of_int (x * 3)) bg) [0..w - 1]) [h - 16..h - 1] fb)"

definition scroll_up :: "gfxcon \<Rightarrow> gfxcon" where
  "scroll_up g =
     (if \<not> gfx_active g then g
      else let bpp = uint (vesa_bpp (gfx_vesa g)) div 8 in
        if bpp = 4 then on_vesa (\<lambda>v. v\<lparr>fb_mem := scroll32 (bg_color g) v (fb_mem v)\<rparr>) g
        else if bpp = 3 then on_vesa (\<lambda>v. v\<lparr>fb_mem := scroll24 (bg_color g) v (fb_mem v)\<rparr>) g
        else g)"

lemma scroll_up_simps [simp]:
  "gfx_active (scroll_up g) = gfx_active g" "cursor_row (scroll_up g) = cursor_row g" "cursor_col (scroll_up g) = cursor_col g"
  "gfx_cols (scroll_up g) = gfx_cols g" "gfx_rows (scroll_up g) = gfx_rows g"
  "bg_color (scroll_up g) = bg_color g" "fg_color (scroll_up g) = fg_color g"
  by (simp_all add: scroll_up_def on_vesa_def Let_def)

function scroll_loop :: "gfxcon \<Rightarrow> gfxcon" where
  "scroll_loop g =
     (if cursor_row g \<ge> gfx_rows g then scroll_loop ((scroll_up g)\<lparr>cursor_row := cursor_row g - 1\<rparr>) else g)"
  by pat_completeness auto
termination
  by (relation "measure (\<lambda>g. nat (cursor_row g - gfx_rows g + 1))") auto

declare scroll_loop.simps [simp del]

text \<open>\<open>char\<close> is signed: the characters from 0x80 on are negative and not drawn.\<close>

definition gfxcon_putc :: "char \<Rightarrow> gfxcon \<Rightarrow> gfxcon" where
  "gfxcon_putc c g =
     (if \<not> gfx_active g then g
      else
        let g = (if c = CHR 0x0A then g\<lparr>cursor_col := 0, cursor_row := cursor_row g + 1\<rparr>
                 else if c = CHR 0x0D then g\<lparr>cursor_col := 0\<rparr>
                 else if c = CHR 0x09 then g\<lparr>cursor_col := (cursor_col g + 8) AND NOT 7\<rparr>
                 else if c = CHR 0x08 then
                   if cursor_col g > 0 then
                     let g = g\<lparr>cursor_col := cursor_col g - 1\<rparr> in
                     on_vesa (vesa_put_char (cursor_col g * 8) (cursor_row g * 16) CHR '' '' (fg_color g) (bg_color g)) g
                   else g
                 else if 32 \<le> ord c \<and> ord c < 128 then
                   (on_vesa (vesa_put_char (cursor_col g * 8) (cursor_row g * 16) c (fg_color g) (bg_color g)) g)
                     \<lparr>cursor_col := cursor_col g + 1\<rparr>
                 else g);
            g = (if cursor_col g \<ge> gfx_cols g then g\<lparr>cursor_col := 0, cursor_row := cursor_row g + 1\<rparr> else g) in
        scroll_loop g)"

fun gfxcon_puts :: "string \<Rightarrow> gfxcon \<Rightarrow> gfxcon" where
  "gfxcon_puts [] g = g"
| "gfxcon_puts (c # s) g = gfxcon_puts s (gfxcon_putc c g)"

definition gfxcon_set_fg :: "u32 \<Rightarrow> gfxcon \<Rightarrow> gfxcon" where
  "gfxcon_set_fg color g = g\<lparr>fg_color := color\<rparr>"

definition gfxcon_set_bg :: "u32 \<Rightarrow> gfxcon \<Rightarrow> gfxcon" where
  "gfxcon_set_bg color g = g\<lparr>bg_color := color\<rparr>"

definition gfxcon_set_cursor :: "int \<Rightarrow> int \<Rightarrow> gfxcon \<Rightarrow> gfxcon" where
  "gfxcon_set_cursor row col g =
     (let row = (if row < 0 then 0 else row); row = (if row \<ge> gfx_rows g then gfx_rows g - 1 else row);
          col = (if col < 0 then 0 else col); col = (if col \<ge> gfx_cols g then gfx_cols g - 1 else col) in
      g\<lparr>cursor_row := row, cursor_col := col\<rparr>)"

definition gfxcon_get_row :: "gfxcon \<Rightarrow> int" where
  "gfxcon_get_row g = cursor_row g"

definition gfxcon_get_col :: "gfxcon \<Rightarrow> int" where
  "gfxcon_get_col g = cursor_col g"

definition gfxcon_cols :: "gfxcon \<Rightarrow> int" where
  "gfxcon_cols g = gfx_cols g"

definition gfxcon_rows :: "gfxcon \<Rightarrow> int" where
  "gfxcon_rows g = gfx_rows g"

subsection \<open>Grids of memory cells\<close>

text \<open>
  The contract the scrolling loops rely on: cells addressed by column and row, where a store into one
  cell is read back and changes no other.
\<close>

locale cell_grid =
  fixes ok :: "'p \<Rightarrow> bool"
    and wd ht :: "'p \<Rightarrow> int"
    and rd :: "'p \<Rightarrow> int \<Rightarrow> int \<Rightarrow> 'm \<Rightarrow> 'c"
    and wr :: "'p \<Rightarrow> int \<Rightarrow> int \<Rightarrow> 'c \<Rightarrow> 'm \<Rightarrow> 'm"
    and norm :: "'p \<Rightarrow> 'c \<Rightarrow> 'c"
  assumes rd_wr: "ok p \<Longrightarrow> 0 \<le> x \<Longrightarrow> x < wd p \<Longrightarrow> 0 \<le> y \<Longrightarrow> y < ht p \<Longrightarrow> 0 \<le> x' \<Longrightarrow> x' < wd p \<Longrightarrow> 0 \<le> y' \<Longrightarrow> y' < ht p \<Longrightarrow>
      rd p x' y' (wr p x y c m) = (if x' = x \<and> y' = y then norm p c else rd p x' y' m)"
    and norm_rd: "ok p \<Longrightarrow> norm p (rd p x y m) = rd p x y m"
begin

text \<open>Copying one row onto another.\<close>

lemma copy_row:
  assumes p: "ok p" "0 \<le> y0" "0 < k" "y0 + k < ht p"
  shows "set xs \<subseteq> {0..<wd p} \<Longrightarrow> 0 \<le> x \<Longrightarrow> x < wd p \<Longrightarrow> 0 \<le> y \<Longrightarrow> y < ht p \<Longrightarrow>
    rd p x y (fold (\<lambda>x m. wr p x y0 (rd p x (y0 + k) m) m) xs m) =
      (if y = y0 \<and> x \<in> set xs then rd p x (y0 + k) m else rd p x y m)"
proof (induction xs arbitrary: x y rule: rev_induct)
  case (snoc a xs)
  have a: "0 \<le> a" "a < wd p" "set xs \<subseteq> {0..<wd p}" using snoc.prems(1) by simp_all
  have "rd p a (y0 + k) (fold (\<lambda>x m. wr p x y0 (rd p x (y0 + k) m) m) xs m) = rd p a (y0 + k) m"
    using p a by (subst snoc.IH) auto
  then show ?case using p a snoc.prems snoc.IH [OF a(3), of x y] by (auto simp: rd_wr norm_rd)
qed simp

lemma shift_rows:
  assumes p: "ok p" "0 < k"
  shows "int n + k \<le> ht p \<Longrightarrow> 0 \<le> x \<Longrightarrow> x < wd p \<Longrightarrow> 0 \<le> y \<Longrightarrow> y < ht p \<Longrightarrow>
    rd p x y (fold (\<lambda>y. fold (\<lambda>x m. wr p x y (rd p x (y + k) m) m) [0..wd p - 1]) [0..int n - 1] m) =
      (if y < int n then rd p x (y + k) m else rd p x y m)"
proof (induction n arbitrary: x y)
  case (Suc n)
  let ?f = "\<lambda>y. fold (\<lambda>x m. wr p x y (rd p x (y + k) m) m) [0..wd p - 1]"
  let ?m = "fold ?f [0..int n - 1] m"
  have "fold ?f [0..int (Suc n) - 1] m = ?f (int n) ?m" by (simp add: upto_rec2 [of 0 "int n"])
  moreover have "rd p x y (?f (int n) ?m) = (if y = int n \<and> x \<in> set [0..wd p - 1] then rd p x (int n + k) ?m else rd p x y ?m)"
    using Suc.prems p by (intro copy_row) auto
  moreover have "rd p x (int n + k) ?m = rd p x (int n + k) m"
    using Suc.prems p by (subst Suc.IH) auto
  ultimately show ?case using Suc.prems Suc.IH [of x y] by auto
qed simp

lemma fill_row:
  assumes p: "ok p" "0 \<le> y0" "y0 < ht p"
  shows "set xs \<subseteq> {0..<wd p} \<Longrightarrow> 0 \<le> x \<Longrightarrow> x < wd p \<Longrightarrow> 0 \<le> y \<Longrightarrow> y < ht p \<Longrightarrow>
    rd p x y (fold (\<lambda>x. wr p x y0 c) xs m) = (if y = y0 \<and> x \<in> set xs then norm p c else rd p x y m)"
proof (induction xs arbitrary: x y rule: rev_induct)
  case (snoc a xs)
  have a: "0 \<le> a" "a < wd p" "set xs \<subseteq> {0..<wd p}" using snoc.prems(1) by simp_all
  show ?case using p a snoc.prems snoc.IH [OF a(3), of x y] by (auto simp: rd_wr)
qed simp

lemma fill_rows:
  assumes p: "ok p"
  shows "set ys \<subseteq> {0..<ht p} \<Longrightarrow> 0 \<le> x \<Longrightarrow> x < wd p \<Longrightarrow> 0 \<le> y \<Longrightarrow> y < ht p \<Longrightarrow>
    rd p x y (fold (\<lambda>y. fold (\<lambda>x. wr p x y c) [0..wd p - 1]) ys m) = (if y \<in> set ys then norm p c else rd p x y m)"
proof (induction ys arbitrary: x y rule: rev_induct)
  case (snoc b ys)
  have b: "0 \<le> b" "b < ht p" "set ys \<subseteq> {0..<ht p}" using snoc.prems(1) by simp_all
  have "rd p x y (fold (\<lambda>x. wr p x b c) [0..wd p - 1] (fold (\<lambda>y. fold (\<lambda>x. wr p x y c) [0..wd p - 1]) ys m)) =
    (if y = b \<and> x \<in> set [0..wd p - 1] then norm p c else rd p x y (fold (\<lambda>y. fold (\<lambda>x. wr p x y c) [0..wd p - 1]) ys m))"
    using p b snoc.prems by (intro fill_row) auto
  then show ?case using snoc.prems snoc.IH [OF b(3), of x y] by auto
qed simp

lemma scroll_rows:
  assumes "ok p" "0 < k" "k \<le> ht p" "0 \<le> x" "x < wd p" "0 \<le> y" "y < ht p"
  shows "rd p x y (fold (\<lambda>y. fold (\<lambda>x. wr p x y c) [0..wd p - 1]) [ht p - k..ht p - 1]
      (fold (\<lambda>y. fold (\<lambda>x m. wr p x y (rd p x (y + k) m) m) [0..wd p - 1]) [0..ht p - k - 1] m)) =
    (if y < ht p - k then rd p x (y + k) m else norm p c)"
proof -
  have n: "ht p - k - 1 = int (nat (ht p - k)) - 1" using assms by simp
  show ?thesis
    using assms by (subst fill_rows) (auto simp: n shift_rows [of p k "nat (ht p - k)"] simp del: of_nat_nat int_nat_eq nat_0_le)
qed

end

subsection \<open>The frame buffer as a grid\<close>

definition px_get :: "vesa \<Rightarrow> int \<Rightarrow> int \<Rightarrow> buffer \<Rightarrow> u32" where
  "px_get v x y b = get_at v (pixel_at x y v) b"

definition px_put :: "vesa \<Rightarrow> int \<Rightarrow> int \<Rightarrow> u32 \<Rightarrow> buffer \<Rightarrow> buffer" where
  "px_put v x y c b = put_at v (pixel_at x y v) c b"

definition width_of :: "vesa \<Rightarrow> int" where "width_of v = uint (vesa_width v)"
definition height_of :: "vesa \<Rightarrow> int" where "height_of v = uint (vesa_height v)"

lemma out_of_screen_grid: "out_of_screen x y v \<longleftrightarrow> \<not> (0 \<le> x \<and> x < width_of v \<and> 0 \<le> y \<and> y < height_of v)"
  by (auto simp: out_of_screen_def width_of_def height_of_def)

lemma load24_mask: "load24 off b AND 0xFFFFFF = load24 off b"
proof -
  have m: "(0xFFFFFF :: u32) = mask 24" by (simp add: mask_eq_exp_minus_1)
  have l: "bit w n \<Longrightarrow> n < 8" for w :: byte and n using bit_imp_le_length [of w n] by simp
  show ?thesis unfolding m load24_def by (rule bit_word_eqI) (auto simp: bit_simps; drule l; linarith)
qed

interpretation px: cell_grid mode_ok width_of height_of px_get px_put visible_color
proof (unfold_locales, goal_cases)
  case (1 v x y x' y' c m)
  then show ?case using pixel_at_apart [OF 1(1), of x y x' y']
    by (auto simp: px_get_def px_put_def out_of_screen_grid get_put_at get_put_at_other)
next
  case (2 v x y m)
  then show ?case by (simp add: visible_color_def px_get_def get_at_def load24_mask)
qed

text \<open>The same memory as rows of single bytes, as the 24-bit modes copy it.\<close>

definition b24_ok :: "vesa \<Rightarrow> bool" where "b24_ok v \<longleftrightarrow> mode_ok v \<and> vesa_bpp v \<noteq> 32"
definition b24_width :: "vesa \<Rightarrow> int" where "b24_width v = uint (vesa_width v) * 3"
definition b24_at :: "vesa \<Rightarrow> int \<Rightarrow> int \<Rightarrow> nat" where "b24_at v x y = nat y * stride v + nat x * 1"
definition b24_get :: "vesa \<Rightarrow> int \<Rightarrow> int \<Rightarrow> buffer \<Rightarrow> byte" where "b24_get v x y b = b (b24_at v x y)"
definition b24_put :: "vesa \<Rightarrow> int \<Rightarrow> int \<Rightarrow> byte \<Rightarrow> buffer \<Rightarrow> buffer" where "b24_put v x y c b = b(b24_at v x y := c)"

lemma b24_facts:
  assumes "b24_ok v" "0 \<le> x" "x < b24_width v" "0 \<le> y" "y < height_of v"
  shows "nat x < 3 * unat (vesa_width v)" "nat y < unat (vesa_height v)" "1 * (3 * unat (vesa_width v)) \<le> stride v"
    "stride v = unat (vesa_pitch v)"
proof -
  have u: "uint w = int (unat w)" for w :: u16 by simp
  show "nat x < 3 * unat (vesa_width v)" "nat y < unat (vesa_height v)"
    using assms unfolding b24_width_def height_of_def u by linarith+
  show "1 * (3 * unat (vesa_width v)) \<le> stride v" "stride v = unat (vesa_pitch v)"
    using assms(1) stride_ok [of v] by (simp_all add: b24_ok_def pixel_bytes_def stride_def)
qed

interpretation bt: cell_grid b24_ok b24_width height_of b24_get b24_put "\<lambda>_ c. c"
proof (unfold_locales, goal_cases)
  case (1 v x y x' y' c m)
  note f = b24_facts [OF 1(1-5)] and f' = b24_facts [OF 1(1,6-9)]
  have "b24_at v x y \<noteq> b24_at v x' y'" if "(x, y) \<noteq> (x', y')"
  proof -
    have "(nat x, nat y) \<noteq> (nat x', nat y')" using that 1 by (auto simp: nat_eq_iff)
    from pixels_apart [OF f(1) f'(1) f(3) this] show ?thesis by (auto simp: b24_at_def)
  qed
  then show ?case by (auto simp: b24_get_def b24_put_def)
qed simp

lemma unat_offset_bound:
  assumes "n < 2 ^ 32"
  shows "unat (word_of_nat n :: u32) = n"
  using assms unfolding unat_of_nat by (metis mod_less LENGTH_32)

lemma byte24_eq:
  assumes "b24_ok v" "0 \<le> x" "x < b24_width v" "0 \<le> y" "y < height_of v"
  shows "byte24 v y x = b24_at v x y"
proof -
  note f = b24_facts [OF assms]
  have "nat y * stride v + nat x * 1 + 1 \<le> stride v * unat (vesa_height v)" by (rule row_bound [OF f(1) f(3) f(2)])
  then have b: "b24_at v x y < 2 ^ 32" using screen_bytes [of v] f(4) by (simp add: b24_at_def)
  have p: "(ucast (vesa_pitch v) :: u32) = word_of_nat (unat (vesa_pitch v))" by (simp add: unsigned_def)
  have w: "word_of_int y = (word_of_nat (nat y) :: u32)" "word_of_int x = (word_of_nat (nat x) :: u32)"
    using assms by simp_all
  have "word_of_int y * ucast (vesa_pitch v) + word_of_int x = (word_of_nat (b24_at v x y) :: u32)"
    unfolding p w b24_at_def f(4) by simp
  then show ?thesis using unat_offset_bound [OF b] by (simp add: byte24_def)
qed

lemma pixel32_eq:
  assumes m: "mode_ok v" "vesa_bpp v = 32" and s: "0 \<le> x" "x < width_of v" "0 \<le> y" "y < height_of v"
  shows "pixel32 v y x = pixel_at x y v"
proof -
  have o: "\<not> out_of_screen x y v" using s by (simp add: out_of_screen_grid)
  define q where "q = unat (vesa_pitch v) div 4"
  have at: "pixel_at x y v = 4 * (nat y * q + nat x)"
    using m(2) by (simp add: pixel_at_def stride_def pixel_bytes_def q_def algebra_simps)
  have b: "nat y * q + nat x < 2 ^ 32"
  proof -
    have "4 * (nat y * q + nat x) \<le> unat (vesa_pitch v) * unat (vesa_height v)" using pixel_at_bound [OF m(1) o] unfolding at by simp
    then show ?thesis using screen_bytes [of v] by simp
  qed
  have p: "(ucast (vesa_pitch v) :: u32) = word_of_nat (unat (vesa_pitch v))" by (simp add: unsigned_def)
  have "unat (vesa_pitch v) < 2 ^ 32" using u16_less [of "vesa_pitch v"] by simp
  then have d: "(ucast (vesa_pitch v) :: u32) div 4 = word_of_nat q"
    unfolding p word_unat_eq_iff unat_div q_def by (subst (1 2) unat_offset_bound) simp_all
  have w: "word_of_int y = (word_of_nat (nat y) :: u32)" "word_of_int x = (word_of_nat (nat x) :: u32)"
    using s by simp_all
  have "word_of_int y * (ucast (vesa_pitch v) div 4) + word_of_int x = (word_of_nat (nat y * q + nat x) :: u32)"
    unfolding d w by simp
  then show ?thesis unfolding pixel32_def at using unat_offset_bound [OF b] by simp
qed

subsection \<open>Scrolling\<close>

lemma fold_rows_cong:
  assumes "\<And>y x m. y \<in> set ys \<Longrightarrow> x \<in> set xs \<Longrightarrow> f y x m = g y x m"
  shows "fold (\<lambda>y. fold (f y) xs) ys m = fold (\<lambda>y. fold (g y) xs) ys m"
  using assms by (intro fold_cong ext) auto

lemma scroll32_eq:
  assumes m: "mode_ok v" "vesa_bpp v = 32" and h: "16 \<le> height_of v"
  shows "scroll32 bg v fb = fold (\<lambda>y. fold (\<lambda>x. px_put v x y bg) [0..width_of v - 1]) [height_of v - 16..height_of v - 1]
    (fold (\<lambda>y. fold (\<lambda>x m. px_put v x y (px_get v x (y + 16) m) m) [0..width_of v - 1]) [0..height_of v - 16 - 1] fb)"
proof -
  have c: "px_put v x y c m = put32 (pixel32 v y x) c m" "px_get v x y m = get32 m (pixel32 v y x)"
    if "0 \<le> x" "x < width_of v" "0 \<le> y" "y < height_of v" for x y c m
    using pixel32_eq [OF m that] m(2) by (simp_all add: px_put_def px_get_def put_at_def get_at_def)
  have "fold (\<lambda>y. fold (\<lambda>x fb. put32 (pixel32 v y x) (get32 fb (pixel32 v (y + 16) x)) fb) [0..width_of v - 1]) [0..height_of v - 16 - 1] fb =
    fold (\<lambda>y. fold (\<lambda>x m. px_put v x y (px_get v x (y + 16) m) m) [0..width_of v - 1]) [0..height_of v - 16 - 1] fb"
    using h by (intro fold_rows_cong) (auto simp: c)
  moreover have "fold (\<lambda>y. fold (\<lambda>x. put32 (pixel32 v y x) bg) [0..width_of v - 1]) [height_of v - 16..height_of v - 1] m' =
    fold (\<lambda>y. fold (\<lambda>x. px_put v x y bg) [0..width_of v - 1]) [height_of v - 16..height_of v - 1] m'" for m'
    using h by (intro fold_rows_cong) (auto simp: c)
  ultimately show ?thesis
    unfolding scroll32_def Let_def width_of_def [symmetric] height_of_def [symmetric] by (simp only:)
qed

lemma scroll24_eq:
  assumes m: "b24_ok v" and h: "16 \<le> height_of v"
  shows "scroll24 bg v fb = fold (\<lambda>y. fold (\<lambda>x. px_put v x y bg) [0..width_of v - 1]) [height_of v - 16..height_of v - 1]
    (fold (\<lambda>y. fold (\<lambda>x m. b24_put v x y (b24_get v x (y + 16) m) m) [0..b24_width v - 1]) [0..height_of v - 16 - 1] fb)"
proof -
  have c: "b24_put v x y c m = m(byte24 v y x := c)" "b24_get v x y m = m (byte24 v y x)"
    if "0 \<le> x" "x < b24_width v" "0 \<le> y" "y < height_of v" for x y c m
    using byte24_eq [OF m that] by (simp_all add: b24_put_def b24_get_def)
  have bw: "b24_width v = width_of v * 3" by (simp add: b24_width_def width_of_def)
  have bpp: "vesa_bpp v = 24" "vesa_bpp v \<noteq> 32" using m by (auto simp: b24_ok_def mode_ok_def)
  have s: "px_put v x y bg m = store24 (word_of_int y * ucast (vesa_pitch v) + word_of_int (x * 3)) bg m"
    if "0 \<le> x" "x < width_of v" "0 \<le> y" "y < height_of v" for x y m
  proof -
    have "\<not> out_of_screen x y v" using that by (simp add: out_of_screen_grid)
    then have "store24 (pixel_offset x y v) bg = put24 (pixel_at x y v) bg" using store24_eq m bpp(2) by (simp add: b24_ok_def)
    then show ?thesis using bpp by (simp add: px_put_def put_at_def pixel_offset_def)
  qed
  have "fold (\<lambda>y. fold (\<lambda>x fb. fb(byte24 v y x := fb (byte24 v (y + 16) x))) [0..b24_width v - 1]) [0..height_of v - 16 - 1] fb =
    fold (\<lambda>y. fold (\<lambda>x m. b24_put v x y (b24_get v x (y + 16) m) m) [0..b24_width v - 1]) [0..height_of v - 16 - 1] fb"
    using h by (intro fold_rows_cong) (auto simp: c)
  moreover have "fold (\<lambda>y. fold (\<lambda>x. store24 (word_of_int y * ucast (vesa_pitch v) + word_of_int (x * 3)) bg) [0..width_of v - 1])
      [height_of v - 16..height_of v - 1] m' = fold (\<lambda>y. fold (\<lambda>x. px_put v x y bg) [0..width_of v - 1]) [height_of v - 16..height_of v - 1] m'" for m'
    using h by (intro fold_rows_cong) (auto simp: s)
  ultimately show ?thesis
    unfolding scroll24_def Let_def width_of_def [symmetric] height_of_def [symmetric] bw by (simp only:)
qed

lemma px_get_bytes:
  assumes "b24_ok v" "0 \<le> x" "0 \<le> y"
  shows "px_get v x y m = push_bit 16 (ucast (b24_get v (x * 3 + 2) y m)) OR push_bit 8 (ucast (b24_get v (x * 3 + 1) y m)) OR
    ucast (b24_get v (x * 3) y m)"
  using assms
  by (simp add: px_get_def get_at_def b24_ok_def load24_def b24_get_def b24_at_def pixel_at_def pixel_bytes_def
      nat_add_distrib nat_mult_distrib add.assoc)

lemma scroll24_pixels:
  assumes m: "b24_ok v" and h: "16 \<le> height_of v" and s: "0 \<le> x" "x < width_of v" "0 \<le> y" "y < height_of v"
  shows "px_get v x y (scroll24 bg v fb) = (if y < height_of v - 16 then px_get v x (y + 16) fb else visible_color v bg)"
proof -
  define mm where "mm = fold (\<lambda>y. fold (\<lambda>x m. b24_put v x y (b24_get v x (y + 16) m) m) [0..b24_width v - 1]) [0..height_of v - 16 - 1] fb"
  have mo: "mode_ok v" using m by (simp add: b24_ok_def)
  have n: "height_of v - 16 - 1 = int (nat (height_of v - 16)) - 1" using h by simp
  have b: "b24_get v x' y mm = b24_get v x' (y + 16) fb" if "0 \<le> x'" "x' < b24_width v" "y < height_of v - 16" for x'
    unfolding mm_def n using bt.shift_rows [OF m, of 16 "nat (height_of v - 16)" x' y fb] that s(3,4) h by simp
  have w: "x * 3 + 2 < b24_width v" using s by (simp add: b24_width_def width_of_def)
  have "px_get v x y mm = px_get v x (y + 16) fb" if "y < height_of v - 16"
    using that s w by (simp add: px_get_bytes [OF m] b)
  moreover have "set [height_of v - 16..height_of v - 1] \<subseteq> {0..<height_of v}" using h by auto
  ultimately show ?thesis
    unfolding scroll24_eq [OF m h] mm_def [symmetric] using px.fill_rows [OF mo, of "[height_of v - 16..height_of v - 1]" x y bg mm] s h by auto
qed

lemma scroll32_pixels:
  assumes m: "mode_ok v" "vesa_bpp v = 32" and h: "16 \<le> height_of v" and s: "0 \<le> x" "x < width_of v" "0 \<le> y" "y < height_of v"
  shows "px_get v x y (scroll32 bg v fb) = (if y < height_of v - 16 then px_get v x (y + 16) fb else visible_color v bg)"
  unfolding scroll32_eq [OF m h] using px.scroll_rows [OF m(1) _ h s] by simp

lemma get_pixel_fb:
  assumes "mode_ok v" "\<not> on_back v" "0 \<le> x" "x < width_of v" "0 \<le> y" "y < height_of v"
  shows "vesa_get_pixel x y v = px_get v x y (fb_mem v)"
  using assms by (simp add: get_pixel_eq out_of_screen_grid px_get_def vesa_target_def)

lemma fb_upd_simps [simp]:
  "mode_ok (v\<lparr>fb_mem := b\<rparr>) = mode_ok v" "on_back (v\<lparr>fb_mem := b\<rparr>) = on_back v" "width_of (v\<lparr>fb_mem := b\<rparr>) = width_of v"
  "height_of (v\<lparr>fb_mem := b\<rparr>) = height_of v" "px_get (v\<lparr>fb_mem := b\<rparr>) = px_get v"
  by (simp_all add: mode_ok_def on_back_def width_of_def height_of_def px_get_def fun_eq_iff get_at_def pixel_at_def
      stride_def pixel_bytes_def)

lemma scroll_up_vesa:
  assumes "gfx_active g" "mode_ok (gfx_vesa g)"
  shows "gfx_vesa (scroll_up g) = (gfx_vesa g)\<lparr>fb_mem :=
    (if vesa_bpp (gfx_vesa g) = 32 then scroll32 else scroll24) (bg_color g) (gfx_vesa g) (fb_mem (gfx_vesa g))\<rparr>"
  using assms by (auto simp: scroll_up_def on_vesa_def mode_ok_def)

lemma scroll_up_pixels:
  assumes a: "gfx_active g" "mode_ok (gfx_vesa g)" "\<not> on_back (gfx_vesa g)" and h: "16 \<le> height_of (gfx_vesa g)"
    and s: "0 \<le> x" "x < width_of (gfx_vesa g)" "0 \<le> y" "y < height_of (gfx_vesa g)"
  shows "vesa_get_pixel x y (gfx_vesa (scroll_up g)) =
    (if y + 16 < height_of (gfx_vesa g) then vesa_get_pixel x (y + 16) (gfx_vesa g) else visible_color (gfx_vesa g) (bg_color g))"
proof (cases "vesa_bpp (gfx_vesa g) = 32")
  case True
  then show ?thesis using a s scroll32_pixels [OF a(2) True h s] by (simp add: scroll_up_vesa get_pixel_fb)
next
  case False
  then have "b24_ok (gfx_vesa g)" using a by (simp add: b24_ok_def)
  from scroll24_pixels [OF this h s] show ?thesis using False a s by (simp add: scroll_up_vesa get_pixel_fb)
qed

subsection \<open>The cursor\<close>

text \<open>The cursor is on the grid, and the grid fits the screen.\<close>

definition gfx_ok :: "gfxcon \<Rightarrow> bool" where
  "gfx_ok g \<longleftrightarrow> 0 \<le> cursor_row g \<and> cursor_row g < gfx_rows g \<and> 0 \<le> cursor_col g \<and> cursor_col g < gfx_cols g"

definition grid_of :: "gfxcon \<Rightarrow> int \<times> int \<times> bool" where
  "grid_of g = (gfx_rows g, gfx_cols g, gfx_active g)"

lemma scroll_loop_ok:
  "0 < gfx_rows g \<Longrightarrow> 0 \<le> cursor_row g \<Longrightarrow> 0 \<le> cursor_col g \<Longrightarrow> cursor_col g < gfx_cols g \<Longrightarrow>
     gfx_ok (scroll_loop g) \<and> grid_of (scroll_loop g) = grid_of g"
proof (induction g rule: scroll_loop.induct)
  case (1 g)
  show ?case
  proof (cases "cursor_row g \<ge> gfx_rows g")
    case True
    then show ?thesis using 1 by (subst (1 2) scroll_loop.simps) (simp add: grid_of_def)
  next
    case False
    then show ?thesis using "1.prems" by (subst (1 2) scroll_loop.simps) (simp add: gfx_ok_def grid_of_def)
  qed
qed

lemma on_vesa_simps [simp]:
  "gfx_active (on_vesa f g) = gfx_active g" "cursor_row (on_vesa f g) = cursor_row g" "cursor_col (on_vesa f g) = cursor_col g"
  "gfx_cols (on_vesa f g) = gfx_cols g" "gfx_rows (on_vesa f g) = gfx_rows g"
  by (simp_all add: on_vesa_def)

lemma and_not_7: "0 \<le> c \<Longrightarrow> 0 \<le> (c + 8) AND NOT (7 :: int)"
  by simp

lemma putc_ok:
  assumes "gfx_ok g"
  shows "gfx_ok (gfxcon_putc c g) \<and> grid_of (gfxcon_putc c g) = grid_of g"
proof (cases "gfx_active g")
  case False
  then show ?thesis using assms by (simp add: gfxcon_putc_def)
next
  case True
  have g: "0 \<le> cursor_row g" "cursor_row g < gfx_rows g" "0 \<le> cursor_col g" "cursor_col g < gfx_cols g"
    using assms by (simp_all add: gfx_ok_def)
  have fin: "gfx_ok (scroll_loop k) \<and> grid_of (scroll_loop k) = grid_of g"
    if "k = (if cursor_col h \<ge> gfx_cols h then h\<lparr>cursor_col := 0, cursor_row := cursor_row h + 1\<rparr> else h)"
      "gfx_rows h = gfx_rows g" "gfx_cols h = gfx_cols g" "gfx_active h = gfx_active g"
      "0 \<le> cursor_row h" "0 \<le> cursor_col h" for h k
  proof -
    have "0 < gfx_rows k" "0 \<le> cursor_row k" "0 \<le> cursor_col k" "cursor_col k < gfx_cols k" "grid_of k = grid_of g"
      using that g by (auto simp: grid_of_def)
    then show ?thesis using scroll_loop_ok [of k] by simp
  qed
  show ?thesis unfolding gfxcon_putc_def Let_def using True
    by (simp only: not_True_eq_False if_False) (rule fin [OF refl]; use g and_not_7 [OF g(3)] in simp)
qed

lemma puts_ok: "gfx_ok g \<Longrightarrow> gfx_ok (gfxcon_puts s g) \<and> grid_of (gfxcon_puts s g) = grid_of g"
  by (induction s arbitrary: g) (auto simp: putc_ok)

lemma set_cursor_ok: "0 < gfx_rows g \<Longrightarrow> 0 < gfx_cols g \<Longrightarrow> gfx_ok (gfxcon_set_cursor row col g)"
  by (simp add: gfx_ok_def gfxcon_set_cursor_def)

lemma init_ok: "vesa_enabled (gfx_vesa g) \<Longrightarrow> gfx_ok (gfxcon_init g) \<and> gfx_active (gfxcon_init g)"
  by (simp add: gfx_ok_def gfxcon_init_def gfxcon_clear_def Let_def)

lemma init_grid_fits:
  assumes "vesa_enabled (gfx_vesa g)" "8 \<le> width_of (gfx_vesa g)" "16 \<le> height_of (gfx_vesa g)"
  shows "gfx_cols (gfxcon_init g) * 8 \<le> width_of (gfx_vesa g)" "gfx_rows (gfxcon_init g) * 16 \<le> height_of (gfx_vesa g)"
  using assms by (auto simp: gfxcon_init_def gfxcon_clear_def Let_def width_of_def height_of_def)

subsection \<open>Properties\<close>

text \<open>
  Property C39. Scrolling moves the whole picture up by one line of text and leaves the bottom line in
  the background colour, although it copies the rows in place.
\<close>

theorem scroll_up_correct:
  assumes "gfx_active g" "mode_ok (gfx_vesa g)" "\<not> on_back (gfx_vesa g)" "16 \<le> uint (vesa_height (gfx_vesa g))"
    and "\<not> out_of_screen x y (gfx_vesa g)"
  shows "vesa_get_pixel x y (gfx_vesa (scroll_up g)) =
    (if y + 16 < uint (vesa_height (gfx_vesa g)) then vesa_get_pixel x (y + 16) (gfx_vesa g)
     else visible_color (gfx_vesa g) (bg_color g))"
  using scroll_up_pixels [of g x y] assms by (simp add: out_of_screen_grid height_of_def)

text \<open>The console on the 800x600 screen.\<close>

definition svga_console :: gfxcon where
  "svga_console = gfxcon_init \<lparr>gfx_active = False, cursor_row = 0, cursor_col = 0, fg_color = 0, bg_color = 0,
     gfx_cols = 0, gfx_rows = 0, gfx_vesa = svga\<rparr>"

lemma svga_enabled: "vesa_enabled svga"
  using svga_ok by (simp add: mode_ok_def)

lemma svga_console_facts:
  "gfx_active svga_console" "mode_ok (gfx_vesa svga_console)" "\<not> on_back (gfx_vesa svga_console)"
  "vesa_height (gfx_vesa svga_console) = 600" "vesa_width (gfx_vesa svga_console) = 800" "bg_color svga_console = 0"
  "visible_color (gfx_vesa svga_console) 0 = 0"
proof -
  have v: "gfx_vesa svga_console = vesa_clear 0 svga" "gfx_active svga_console" "bg_color svga_console = 0"
    using svga_enabled by (simp_all add: svga_console_def gfxcon_init_def gfxcon_clear_def Let_def on_vesa_def)
  have t: "\<exists>f. vesa_clear 0 svga = to_target f svga"
    using svga_enabled by (auto simp: vesa_clear_def Let_def)
  have "\<not> on_back svga" "vesa_height svga = 600" "vesa_width svga = 800" by (simp_all add: svga_def vesa_init_def on_back_def)
  then show "gfx_active svga_console" "mode_ok (gfx_vesa svga_console)" "\<not> on_back (gfx_vesa svga_console)"
    "vesa_height (gfx_vesa svga_console) = 600" "vesa_width (gfx_vesa svga_console) = 800" "bg_color svga_console = 0"
    "visible_color (gfx_vesa svga_console) 0 = 0"
    using v t svga_ok by (auto simp: visible_color_def)
qed

theorem scroll_up_correct_witness:
  "vesa_get_pixel 5 583 (gfx_vesa (scroll_up svga_console)) = vesa_get_pixel 5 599 (gfx_vesa svga_console) \<and>
   vesa_get_pixel 5 599 (gfx_vesa (scroll_up svga_console)) = 0"
  using scroll_up_correct [of svga_console 5 583] scroll_up_correct [of svga_console 5 599] svga_console_facts
  by (simp add: out_of_screen_def)

text \<open>
  Property C40. Whatever text is printed, the cursor of the console stays on the character grid, the
  grid does not change, and the next character is drawn inside the screen.
\<close>

theorem console_cursor_on_screen:
  assumes "vesa_enabled (gfx_vesa g0)" "8 \<le> uint (vesa_width (gfx_vesa g0))" "16 \<le> uint (vesa_height (gfx_vesa g0))"
    and "g = gfxcon_puts s (gfxcon_set_cursor row col (gfxcon_puts t (gfxcon_init g0)))"
  shows "0 \<le> cursor_col g * 8 \<and> cursor_col g * 8 + 8 \<le> uint (vesa_width (gfx_vesa g0)) \<and>
    0 \<le> cursor_row g * 16 \<and> cursor_row g * 16 + 16 \<le> uint (vesa_height (gfx_vesa g0))"
proof -
  note i = init_ok [OF assms(1)]
  let ?g1 = "gfxcon_puts t (gfxcon_init g0)"
  have 1: "gfx_ok ?g1" "grid_of ?g1 = grid_of (gfxcon_init g0)" using puts_ok i by auto
  have "gfx_ok (gfxcon_set_cursor row col ?g1)" using 1 by (intro set_cursor_ok) (auto simp: gfx_ok_def)
  moreover have "grid_of (gfxcon_set_cursor row col ?g1) = grid_of ?g1" by (simp add: grid_of_def gfxcon_set_cursor_def)
  ultimately have 2: "gfx_ok g" "grid_of g = grid_of (gfxcon_init g0)" using assms(4) 1 puts_ok by auto
  have "gfx_cols g * 8 \<le> uint (vesa_width (gfx_vesa g0))" "gfx_rows g * 16 \<le> uint (vesa_height (gfx_vesa g0))"
    using init_grid_fits [of g0] assms(1-3) 2(2) by (simp_all add: width_of_def height_of_def grid_of_def)
  then show ?thesis using 2(1) unfolding gfx_ok_def by linarith
qed

theorem console_cursor_on_screen_witness:
  "0 \<le> cursor_col (gfxcon_puts ''ab'' (gfxcon_set_cursor 99 99 (gfxcon_puts ''x'' svga_console))) * 8 \<and>
   cursor_col (gfxcon_puts ''ab'' (gfxcon_set_cursor 99 99 (gfxcon_puts ''x'' svga_console))) * 8 + 8 \<le> 800"
proof -
  let ?g0 = "\<lparr>gfx_active = False, cursor_row = 0, cursor_col = 0, fg_color = 0, bg_color = 0, gfx_cols = 0, gfx_rows = 0, gfx_vesa = svga\<rparr>"
  have "vesa_enabled (gfx_vesa ?g0)" "vesa_width (gfx_vesa ?g0) = 800" "vesa_height (gfx_vesa ?g0) = 600"
    using svga_enabled by (simp_all add: svga_def vesa_init_def)
  then show ?thesis
    using console_cursor_on_screen [of ?g0 _ "''ab''" 99 99 "''x''", OF _ _ _ refl] unfolding svga_console_def by simp
qed

end
