(* ===== verification/Vga.thy ===== *)
theory Vga
  imports Gfxcon
begin

text \<open>
  The console every other part prints to, \<open>kernel/vga.c\<close>: the 80x25 text screen, which hands over to
  the graphics console when that is active, and the number and format printing on top of it.

  In text mode the screen is shown to be a terminal: rows of cells, of which the first is dropped and
  a blank one added when the text runs over the bottom.
\<close>

subsection \<open>State\<close>

datatype vga_color = VGA_COLOR_BLACK | VGA_COLOR_BLUE | VGA_COLOR_GREEN | VGA_COLOR_CYAN | VGA_COLOR_RED
  | VGA_COLOR_MAGENTA | VGA_COLOR_BROWN | VGA_COLOR_LIGHT_GREY | VGA_COLOR_DARK_GREY | VGA_COLOR_LIGHT_BLUE
  | VGA_COLOR_LIGHT_GREEN | VGA_COLOR_LIGHT_CYAN | VGA_COLOR_LIGHT_RED | VGA_COLOR_LIGHT_MAGENTA
  | VGA_COLOR_YELLOW | VGA_COLOR_WHITE

primrec color_num :: "vga_color \<Rightarrow> nat" where
  "color_num VGA_COLOR_BLACK = 0" | "color_num VGA_COLOR_BLUE = 1" | "color_num VGA_COLOR_GREEN = 2"
| "color_num VGA_COLOR_CYAN = 3" | "color_num VGA_COLOR_RED = 4" | "color_num VGA_COLOR_MAGENTA = 5"
| "color_num VGA_COLOR_BROWN = 6" | "color_num VGA_COLOR_LIGHT_GREY = 7" | "color_num VGA_COLOR_DARK_GREY = 8"
| "color_num VGA_COLOR_LIGHT_BLUE = 9" | "color_num VGA_COLOR_LIGHT_GREEN = 10" | "color_num VGA_COLOR_LIGHT_CYAN = 11"
| "color_num VGA_COLOR_LIGHT_RED = 12" | "color_num VGA_COLOR_LIGHT_MAGENTA = 13" | "color_num VGA_COLOR_YELLOW = 14"
| "color_num VGA_COLOR_WHITE = 15"

abbreviation (input) VGA_WIDTH :: nat where "VGA_WIDTH \<equiv> 80"
abbreviation (input) VGA_HEIGHT :: nat where "VGA_HEIGHT \<equiv> 25"

record vga =
  vga_mem :: "nat \<Rightarrow> u16" \<comment> \<open>the cells at \<open>VGA_MEM\<close>\<close>
  cursor_x :: byte
  cursor_y :: byte
  color :: byte
  crtc :: "(u16 \<times> byte) list" \<comment> \<open>the port writes of \<open>update_cursor\<close>, in order\<close>
  vga_gfx :: gfxcon

subsection \<open>Text mode\<close>

definition make_cell :: "char \<Rightarrow> byte \<Rightarrow> u16" where
  "make_cell c col = ucast (byte_of c) OR push_bit 8 (ucast col)"

definition update_cursor :: "vga \<Rightarrow> vga" where
  "update_cursor s =
     (if gfxcon_active (vga_gfx s) then s
      else let pos = ucast (cursor_y s) * 80 + ucast (cursor_x s) :: u16 in
        s\<lparr>crtc := crtc s @ [(0x3D4, 0x0F), (0x3D5, ucast (pos AND 0xFF)), (0x3D4, 0x0E), (0x3D5, ucast (drop_bit 8 pos AND 0xFF))]\<rparr>)"

definition cell_at :: "int \<Rightarrow> int \<Rightarrow> nat" where
  "cell_at x y = nat (y * 80 + x)"

definition scroll_if_needed :: "vga \<Rightarrow> vga" where
  "scroll_if_needed s =
     (if unat (cursor_y s) < VGA_HEIGHT then s
      else let m = fold (\<lambda>y. fold (\<lambda>x m. m(cell_at x (y - 1) := m (cell_at x y))) [0..80 - 1]) [1..25 - 1] (vga_mem s);
               m = fold (\<lambda>x m. m(cell_at x (25 - 1) := make_cell CHR '' '' (color s))) [0..80 - 1] m in
        s\<lparr>vga_mem := m, cursor_y := 25 - 1\<rparr>)"

definition vga_clear :: "vga \<Rightarrow> vga" where
  "vga_clear s =
     (if gfxcon_active (vga_gfx s) then s\<lparr>vga_gfx := gfxcon_clear (vga_gfx s)\<rparr>
      else update_cursor (s\<lparr>vga_mem := fold (\<lambda>i m. m(i := make_cell CHR '' '' (color s))) [0..<VGA_WIDTH * VGA_HEIGHT] (vga_mem s),
             cursor_x := 0, cursor_y := 0\<rparr>))"

definition attribute :: "vga_color \<Rightarrow> vga_color \<Rightarrow> byte" where
  "attribute fg bg = word_of_nat (color_num fg OR push_bit 4 (color_num bg))"

definition vga_init :: "vga \<Rightarrow> vga" where
  "vga_init s = vga_clear (s\<lparr>cursor_x := 0, cursor_y := 0, color := attribute VGA_COLOR_LIGHT_GREY VGA_COLOR_BLACK\<rparr>)"

definition vga_to_rgb :: "u32 list" where
  "vga_to_rgb = [0x000000, 0x0000AA, 0x00AA00, 0x00AAAA, 0xAA0000, 0xAA00AA, 0xAA5500, 0xAAAAAA,
     0x555555, 0x5555FF, 0x55FF55, 0x55FFFF, 0xFF5555, 0xFF55FF, 0xFFFF55, 0xFFFFFF]"

definition vga_set_color :: "vga_color \<Rightarrow> vga_color \<Rightarrow> vga \<Rightarrow> vga" where
  "vga_set_color fg bg s =
     (let s = s\<lparr>color := attribute fg bg\<rparr> in
      if gfxcon_active (vga_gfx s)
      then s\<lparr>vga_gfx := gfxcon_set_bg (vga_to_rgb ! (color_num bg AND 0xF)) (gfxcon_set_fg (vga_to_rgb ! (color_num fg AND 0xF)) (vga_gfx s))\<rparr>
      else s)"

definition cursor_cell :: "vga \<Rightarrow> nat" where
  "cursor_cell s = unat (cursor_y s) * VGA_WIDTH + unat (cursor_x s)"

definition vga_putc :: "char \<Rightarrow> vga \<Rightarrow> vga" where
  "vga_putc c s =
     (if gfxcon_active (vga_gfx s) then s\<lparr>vga_gfx := gfxcon_putc c (vga_gfx s)\<rparr>
      else
        let s = (if c = CHR 0x0A then s\<lparr>cursor_x := 0, cursor_y := cursor_y s + 1\<rparr>
                 else if c = CHR 0x0D then s\<lparr>cursor_x := 0\<rparr>
                 else if c = CHR 0x08 then
                   if cursor_x s > 0 then
                     let s = s\<lparr>cursor_x := cursor_x s - 1\<rparr> in
                     s\<lparr>vga_mem := (vga_mem s)(cursor_cell s := make_cell CHR '' '' (color s))\<rparr>
                   else s
                 else s\<lparr>vga_mem := (vga_mem s)(cursor_cell s := make_cell c (color s)), cursor_x := cursor_x s + 1\<rparr>);
            s = (if unat (cursor_x s) \<ge> VGA_WIDTH then s\<lparr>cursor_x := 0, cursor_y := cursor_y s + 1\<rparr> else s) in
        update_cursor (scroll_if_needed s))"

fun puts_loop :: "string \<Rightarrow> vga \<Rightarrow> vga" where
  "puts_loop [] s = s"
| "puts_loop (c # str) s = puts_loop str (vga_putc c s)"

definition vga_puts :: "string \<Rightarrow> vga \<Rightarrow> vga" where
  "vga_puts str s =
     (if gfxcon_active (vga_gfx s) then s\<lparr>vga_gfx := gfxcon_puts str (vga_gfx s)\<rparr> else puts_loop str s)"

definition vga_set_cursor :: "byte \<Rightarrow> byte \<Rightarrow> vga \<Rightarrow> vga" where
  "vga_set_cursor x y s =
     (if gfxcon_active (vga_gfx s) then s\<lparr>vga_gfx := gfxcon_set_cursor (uint y) (uint x) (vga_gfx s)\<rparr>
      else let x = (if x \<ge> 80 then 80 - 1 else x); y = (if y \<ge> 25 then 25 - 1 else y) in
        update_cursor (s\<lparr>cursor_x := x, cursor_y := y\<rparr>))"

subsection \<open>Numbers and formats\<close>

text \<open>
  The digits are stored from the end of a buffer; \<open>acc\<close> is the text from \<open>buf[i]\<close> on, and \<open>i\<close> places
  are left before it.
\<close>

definition digit :: "u32 \<Rightarrow> char" where
  "digit v = char_of (48 + unat (v mod 10))"

fun dec_loop :: "nat \<Rightarrow> u32 \<Rightarrow> string \<Rightarrow> string" where
  "dec_loop 0 v acc = acc"
| "dec_loop (Suc i) v acc = (if v = 0 then acc else dec_loop i (v div 10) (digit v # acc))"

definition vga_print_dec :: "u32 \<Rightarrow> vga \<Rightarrow> vga" where
  "vga_print_dec v s = (if v = 0 then vga_putc CHR ''0'' s else vga_puts (dec_loop 10 v []) s)"

definition hex_digit :: "u32 \<Rightarrow> nat \<Rightarrow> char" where
  "hex_digit v i = ''0123456789ABCDEF'' ! unat (drop_bit (i * 4) v AND 0xF)"

definition vga_print_hex :: "u32 \<Rightarrow> vga \<Rightarrow> vga" where
  "vga_print_hex v s = fold (\<lambda>i. vga_putc (hex_digit v i)) (rev [0..<8]) (vga_puts ''0x'' s)"

text \<open>
  The variable arguments; a null string pointer is \<open>Arg_str None\<close>. A missing argument or one of
  another kind, and reading past the terminating zero of the format, are \<^const>\<open>None\<close>.
\<close>

datatype va_arg = Arg_str "string option" | Arg_word u32

fun vga_printf :: "string \<Rightarrow> va_arg list \<Rightarrow> vga \<Rightarrow> vga option" where
  "vga_printf [] args s = Some s"
| "vga_printf (f # fmt) args s =
     (if f \<noteq> CHR ''%'' then vga_printf fmt args (vga_putc f s)
      else case fmt of [] \<Rightarrow> None
      | d # fmt \<Rightarrow>
        if d = CHR ''%'' then vga_printf fmt args (vga_putc CHR ''%'' s)
        else if d = CHR ''s'' then
          (case args of Arg_str p # args \<Rightarrow>
             vga_printf fmt args (vga_puts (case p of None \<Rightarrow> ''(null)'' | Some t \<Rightarrow> t) s) | _ \<Rightarrow> None)
        else if d = CHR ''c'' then
          (case args of Arg_word v # args \<Rightarrow> vga_printf fmt args (vga_putc (char_of_byte (ucast v)) s) | _ \<Rightarrow> None)
        else if d = CHR ''d'' then
          (case args of Arg_word v # args \<Rightarrow>
             vga_printf fmt args
               (if sint v < 0 then vga_print_dec (- v) (vga_putc CHR ''-'' s) else vga_print_dec v s) | _ \<Rightarrow> None)
        else if d = CHR ''u'' then
          (case args of Arg_word v # args \<Rightarrow> vga_printf fmt args (vga_print_dec v s) | _ \<Rightarrow> None)
        else if d = CHR ''x'' then
          (case args of Arg_word v # args \<Rightarrow> vga_printf fmt args (vga_print_hex v s) | _ \<Rightarrow> None)
        else vga_printf fmt args (vga_putc d (vga_putc CHR ''%'' s)))"

subsection \<open>Printing is a sequence of characters\<close>

text \<open>What each printing function hands to \<open>vga_putc\<close>, whichever console is active.\<close>

definition dec_text :: "u32 \<Rightarrow> string" where
  "dec_text v = (if v = 0 then ''0'' else dec_loop 10 v [])"

definition hex_text :: "u32 \<Rightarrow> string" where
  "hex_text v = ''0x'' @ map (hex_digit v) (rev [0..<8])"

definition signed_text :: "u32 \<Rightarrow> string" where
  "signed_text v = (if sint v < 0 then CHR ''-'' # dec_text (- v) else dec_text v)"

lemma scroll_loop_active [simp]: "gfx_active (scroll_loop g) = gfx_active g"
proof (induction g rule: scroll_loop.induct)
  case (1 g)
  then show ?case by (subst scroll_loop.simps) simp
qed

lemma gfx_putc_active [simp]: "gfx_active (gfxcon_putc c g) = gfx_active g"
  by (simp add: gfxcon_putc_def Let_def)

lemma update_cursor_gfx [simp]: "vga_gfx (update_cursor s) = vga_gfx s"
  by (simp add: update_cursor_def Let_def)

lemma scroll_if_needed_gfx [simp]: "vga_gfx (scroll_if_needed s) = vga_gfx s"
  by (simp add: scroll_if_needed_def Let_def)

lemma putc_active [simp]: "gfxcon_active (vga_gfx (vga_putc c s)) = gfxcon_active (vga_gfx s)"
  by (simp add: vga_putc_def Let_def gfxcon_active_def)

lemma gfx_puts_fold: "gfxcon_active (vga_gfx s) \<Longrightarrow> s\<lparr>vga_gfx := gfxcon_puts str (vga_gfx s)\<rparr> = fold vga_putc str s"
proof (induction str arbitrary: s)
  case (Cons c str)
  have "vga_putc c s = s\<lparr>vga_gfx := gfxcon_putc c (vga_gfx s)\<rparr>" using Cons.prems by (simp add: vga_putc_def)
  moreover have "gfxcon_active (vga_gfx (vga_putc c s))" using Cons.prems by simp
  ultimately show ?case using Cons.IH [of "vga_putc c s"] by simp
qed simp

lemma puts_loop_fold: "puts_loop str s = fold vga_putc str s"
  by (induction str arbitrary: s) simp_all

lemma vga_puts_fold: "vga_puts str s = fold vga_putc str s"
  by (simp add: vga_puts_def gfx_puts_fold puts_loop_fold)

lemma vga_print_dec_fold: "vga_print_dec v s = fold vga_putc (dec_text v) s"
  by (simp add: vga_print_dec_def dec_text_def vga_puts_fold)

lemma vga_print_hex_fold: "vga_print_hex v s = fold vga_putc (hex_text v) s"
  by (simp add: vga_print_hex_def hex_text_def vga_puts_fold fold_map comp_def)

fun format_text :: "string \<Rightarrow> va_arg list \<Rightarrow> string option" where
  "format_text [] args = Some []"
| "format_text (f # fmt) args =
     (if f \<noteq> CHR ''%'' then map_option (Cons f) (format_text fmt args)
      else case fmt of [] \<Rightarrow> None
      | d # fmt \<Rightarrow>
        if d = CHR ''%'' then map_option (Cons d) (format_text fmt args)
        else if d = CHR ''s'' then
          (case args of Arg_str p # args \<Rightarrow>
             map_option ((@) (case p of None \<Rightarrow> ''(null)'' | Some t \<Rightarrow> t)) (format_text fmt args) | _ \<Rightarrow> None)
        else if d \<in> {CHR ''c'', CHR ''d'', CHR ''u'', CHR ''x''} then
          (case args of Arg_word v # args \<Rightarrow>
             map_option ((@) (if d = CHR ''c'' then [char_of_byte (ucast v)] else if d = CHR ''d'' then signed_text v
               else if d = CHR ''u'' then dec_text v else hex_text v)) (format_text fmt args) | _ \<Rightarrow> None)
        else map_option ((@) [f, d]) (format_text fmt args))"

lemma vga_printf_fold: "vga_printf fmt args s = map_option (\<lambda>t. fold vga_putc t s) (format_text fmt args)"
proof (induction "length fmt" arbitrary: fmt args s rule: less_induct)
  case less
  consider "fmt = []" | f fmt' where "fmt = f # fmt'" "f \<noteq> CHR ''%''" | "fmt = [CHR ''%'']" | d fmt' where "fmt = CHR ''%'' # d # fmt'"
    by (cases fmt; metis list.exhaust)
  then show ?case
  proof cases
    case (2 f fmt')
    then show ?thesis using less [of fmt'] by (simp add: option.map_comp comp_def)
  next
    case (4 d fmt')
    have IH: "vga_printf fmt' args s = map_option (\<lambda>t. fold vga_putc t s) (format_text fmt' args)" for args s
      using less 4 by simp
    show ?thesis unfolding 4
      by (simp add: IH vga_puts_fold vga_print_dec_fold vga_print_hex_fold signed_text_def option.map_comp comp_def
          split: list.split va_arg.split option.split)
  qed simp_all
qed

subsection \<open>Decimal numerals\<close>

lemma unat_digit: "unat ((v :: u32) mod 10) = unat v mod 10"
  by (simp add: unat_mod)

lemma ord_digit: "ord (digit v) = 48 + unat v mod 10"
  unfolding digit_def unat_digit by simp

lemma is_dec_digit: "is_dec (digit v)"
proof -
  have "unat v mod 10 < 10" by simp
  then show ?thesis unfolding is_dec_def ord_digit by linarith
qed

lemma dec_loop_digits: "list_all is_dec acc \<Longrightarrow> list_all is_dec (dec_loop i v acc)"
  by (induction i v acc rule: dec_loop.induct) (auto simp: is_dec_digit)

lemma dec_loop_val: "unat v < 10 ^ i \<Longrightarrow> dec_val 0 (dec_loop i v acc) = dec_val (unat v) acc"
proof (induction i v acc rule: dec_loop.induct)
  case (2 i v acc)
  have "unat (v div 10) = unat v div 10" by (simp add: unat_div)
  moreover have "unat v div 10 < 10 ^ i" using 2(2) by (simp add: less_mult_imp_div_less mult.commute)
  moreover have "dec_val (unat v div 10) (digit v # acc) = dec_val (unat v) acc" by (simp add: ord_digit)
  ultimately show ?case using 2 by simp
qed simp

lemma dec_loop_not_Nil: "acc \<noteq> [] \<Longrightarrow> dec_loop i v acc \<noteq> []"
  by (induction i v acc rule: dec_loop.induct) auto

lemma dec_text_facts: "list_all is_dec (dec_text v)" "dec_text v \<noteq> []" "dec_val 0 (dec_text v) = unat v"
proof -
  show "list_all is_dec (dec_text v)" using dec_loop_digits [of "[]" 10 v] by (simp add: dec_text_def is_dec_def)
  have "dec_loop (Suc 9) v [] \<noteq> []" if "v \<noteq> 0" using that dec_loop_not_Nil [of "[digit v]" 9 "v div 10"] by (simp only: dec_loop.simps) simp
  then show "dec_text v \<noteq> []" by (simp add: dec_text_def)
  have "unat v < 10 ^ 10" using unsigned_less [of v, where ?'a = nat] by simp
  then show "dec_val 0 (dec_text v) = unat v" using dec_loop_val [of v 10 "[]"] by (simp add: dec_text_def)
qed

subsection \<open>The terminal\<close>

record terminal =
  t_rows :: "u16 list list"
  t_col :: nat
  t_row :: nat

definition t_blank :: "byte \<Rightarrow> u16" where
  "t_blank attr = make_cell CHR '' '' attr"

definition t_set :: "u16 \<Rightarrow> terminal \<Rightarrow> terminal" where
  "t_set v t = t\<lparr>t_rows := (t_rows t)[t_row t := (t_rows t ! t_row t)[t_col t := v]]\<rparr>"

definition t_newline :: "byte \<Rightarrow> terminal \<Rightarrow> terminal" where
  "t_newline attr t =
     (if t_row t + 1 < VGA_HEIGHT then t\<lparr>t_row := t_row t + 1, t_col := 0\<rparr>
      else t\<lparr>t_rows := tl (t_rows t) @ [replicate VGA_WIDTH (t_blank attr)], t_col := 0\<rparr>)"

definition t_putc :: "byte \<Rightarrow> char \<Rightarrow> terminal \<Rightarrow> terminal" where
  "t_putc attr c t =
     (if c = CHR 0x0A then t_newline attr t
      else if c = CHR 0x0D then t\<lparr>t_col := 0\<rparr>
      else if c = CHR 0x08 then if t_col t = 0 then t else t_set (t_blank attr) (t\<lparr>t_col := t_col t - 1\<rparr>)
      else let t = t_set (make_cell c attr) t in
        if t_col t + 1 < VGA_WIDTH then t\<lparr>t_col := t_col t + 1\<rparr> else t_newline attr t)"

definition rows_of :: "(nat \<Rightarrow> u16) \<Rightarrow> u16 list list" where
  "rows_of m = map (\<lambda>y. map (\<lambda>x. m (y * 80 + x)) [0..<80]) [0..<25]"

definition term_of :: "vga \<Rightarrow> terminal" where
  "term_of s = \<lparr>t_rows = rows_of (vga_mem s), t_col = unat (cursor_x s), t_row = unat (cursor_y s)\<rparr>"

definition text_ok :: "vga \<Rightarrow> bool" where
  "text_ok s \<longleftrightarrow> \<not> gfxcon_active (vga_gfx s) \<and> unat (cursor_x s) < 80 \<and> unat (cursor_y s) < 25"

text \<open>The text memory is a grid of cells.\<close>

lemma row_col_inject:
  assumes "0 \<le> x" "x < 80" "0 \<le> x'" "x' < (80 :: int)"
  shows "y * 80 + x = y' * 80 + x' \<longleftrightarrow> x = x' \<and> y = y'"
proof
  assume e: "y * 80 + x = y' * 80 + x'"
  have "(y * 80 + x) div 80 = y" "(y' * 80 + x') div 80 = y'" using assms by simp_all
  then show "x = x' \<and> y = y'" using e by simp
qed simp

lemma cell_at_inject:
  assumes "0 \<le> x" "x < 80" "0 \<le> y" "0 \<le> x'" "x' < 80" "0 \<le> y'"
  shows "cell_at x y = cell_at x' y' \<longleftrightarrow> x = x' \<and> y = y'"
proof -
  have "cell_at x y = cell_at x' y' \<longleftrightarrow> y * 80 + x = y' * 80 + x'" using assms unfolding cell_at_def by auto
  also have "\<dots> \<longleftrightarrow> x = x' \<and> y = y'" using assms by (intro row_col_inject)
  finally show ?thesis .
qed

interpretation tx: cell_grid "\<lambda>_ :: unit. True" "\<lambda>_. 80" "\<lambda>_. 25" "\<lambda>_ x y m. m (cell_at x y)"
  "\<lambda>_ x y (c :: u16) m. m(cell_at x y := c)" "\<lambda>_ c. c"
  by unfold_locales (auto simp: cell_at_inject)

definition scrolled :: "u16 \<Rightarrow> (nat \<Rightarrow> u16) \<Rightarrow> nat \<Rightarrow> u16" where
  "scrolled v m =
     fold (\<lambda>x m. m(cell_at x (25 - 1) := v)) [0..80 - 1]
       (fold (\<lambda>y. fold (\<lambda>x m. m(cell_at x (y - 1) := m (cell_at x y))) [0..80 - 1]) [1..25 - 1] m)"

lemma upto_shift: "[1..25 - 1] = map (\<lambda>y. y + 1) [0..25 - 1 - (1 :: int)]"
  by (simp add: upto.simps)

lemma scrolled_cell:
  assumes "0 \<le> x" "x < 80" "0 \<le> y" "y < 25"
  shows "scrolled v m (cell_at x y) = (if y < 24 then m (cell_at x (y + 1)) else v)"
proof -
  have one: "[25 - 1..25 - (1 :: int)] = [25 - 1]" by simp
  show ?thesis
    using tx.scroll_rows [where k = 1 and x = x and y = y and c = v and m = m] assms unfolding scrolled_def upto_shift fold_map comp_def one by simp
qed

lemma fold_upd_outside: "i \<notin> f ` set xs \<Longrightarrow> fold (\<lambda>x m. m(f x := g x m)) xs m i = m i"
  by (induction xs arbitrary: m) auto

lemma fold_rows_outside:
  assumes "\<And>y m. y \<in> set ys \<Longrightarrow> F y m i = m i"
  shows "fold F ys m i = m i"
  using assms by (induction ys arbitrary: m) auto

lemma scrolled_outside:
  assumes "2000 \<le> i"
  shows "scrolled v m i = m i"
proof -
  have c: "i \<notin> (\<lambda>x. cell_at x y) ` set [0..80 - 1]" if "0 \<le> y" "y < 25" for y
    using assms that by (auto simp: cell_at_def)
  have "fold (\<lambda>y. fold (\<lambda>x m. m(cell_at x (y - 1) := m (cell_at x y))) [0..80 - 1]) [1..25 - 1] m i = m i"
    by (intro fold_rows_outside fold_upd_outside c) auto
  then show ?thesis unfolding scrolled_def by (subst fold_upd_outside) (use c [of "25 - 1"] in auto)
qed

lemma rows_of_scrolled: "rows_of (scrolled v m) = tl (rows_of m) @ [replicate 80 v]"
proof -
  have c: "y * 80 + x = cell_at (int x) (int y)" for x y by (simp add: cell_at_def nat_add_distrib nat_mult_distrib)
  have c': "cell_at (int x) (int y + 1) = Suc y * 80 + x" for x y using c [of "Suc y" x] by (simp add: add.commute)
  have c'': "cell_at (int x) (int y + 1) = 80 + y * 80 + x" for x y using c' [of x y] by simp
  have r: "map (\<lambda>x. scrolled v m (y * 80 + x)) [0..<80] =
      (if y < 24 then map (\<lambda>x. m (Suc y * 80 + x)) [0..<80] else replicate 80 v)" if "y < 25" for y
    using that by (intro nth_equalityI) (auto simp: c scrolled_cell simp flip: c'')
  have s: "[0..<25] = [0..<24] @ [24 :: nat]" "tl [0..<25] = map Suc [0..<24 :: nat]"
    by (simp_all add: map_Suc_upt upt_rec)
  have "rows_of (scrolled v m) = map (\<lambda>y. map (\<lambda>x. m (Suc y * 80 + x)) [0..<80]) [0..<24] @ [replicate 80 v]"
    unfolding rows_of_def s(1) using r [of 24] by (simp add: r)
  also have "map (\<lambda>y. map (\<lambda>x. m (Suc y * 80 + x)) [0..<80]) [0..<24] = tl (rows_of m)"
    unfolding rows_of_def map_tl [symmetric] s(2) by simp
  finally show ?thesis .
qed

lemma rows_of_set:
  assumes "r < 25" "c < 80"
  shows "rows_of (m(r * 80 + c := v)) = (rows_of m)[r := (rows_of m ! r)[c := v]]"
proof (rule nth_equalityI)
  fix y
  assume "y < length (rows_of (m(r * 80 + c := v)))"
  then have y: "y < 25" by (simp add: rows_of_def)
  have "y * 80 + x = r * 80 + c \<longleftrightarrow> y = r \<and> x = c" if "x < 80" for x
    using row_col_inject [of "int x" "int c" "int y" "int r"] that assms by auto
  then show "rows_of (m(r * 80 + c := v)) ! y = (rows_of m)[r := (rows_of m ! r)[c := v]] ! y"
    using y assms by (cases "y = r") (auto simp: rows_of_def nth_list_update intro!: nth_equalityI)
qed (simp add: rows_of_def)

lemma scroll_eq:
  "scroll_if_needed s = (if unat (cursor_y s) < 25 then s
     else s\<lparr>vga_mem := scrolled (t_blank (color s)) (vga_mem s), cursor_y := 24\<rparr>)"
  unfolding scroll_if_needed_def scrolled_def t_blank_def Let_def by simp

lemma update_cursor_simps [simp]:
  "vga_mem (update_cursor s) = vga_mem s" "cursor_x (update_cursor s) = cursor_x s" "cursor_y (update_cursor s) = cursor_y s"
  "color (update_cursor s) = color s" "term_of (update_cursor s) = term_of s" "text_ok (update_cursor s) = text_ok s"
  by (simp_all add: update_cursor_def Let_def term_of_def text_ok_def)

lemma unat_inc_byte: "unat (b :: byte) < 80 \<Longrightarrow> unat (b + 1) = unat b + 1"
  by (simp add: unat_word_ariths)

lemma unat_dec_byte: "b > 0 \<Longrightarrow> unat (b - 1 :: byte) = unat b - 1"
  by (metis unat_minus_one word_neq_0_conv)

text \<open>What \<open>vga_putc\<close> does in one go, after moving the cursor.\<close>

definition settle :: "vga \<Rightarrow> vga" where
  "settle s = update_cursor (scroll_if_needed s)"

lemma settle_newline:
  assumes "text_ok s"
  shows "term_of (settle (s\<lparr>cursor_x := 0, cursor_y := cursor_y s + 1\<rparr>)) = t_newline (color s) (term_of s)"
    "text_ok (settle (s\<lparr>cursor_x := 0, cursor_y := cursor_y s + 1\<rparr>))"
proof -
  have y: "unat (cursor_y s) < 25" using assms by (simp add: text_ok_def)
  then have u: "unat (cursor_y s + 1) = unat (cursor_y s) + 1" by (intro unat_inc_byte) simp
  show "term_of (settle (s\<lparr>cursor_x := 0, cursor_y := cursor_y s + 1\<rparr>)) = t_newline (color s) (term_of s)"
  proof (cases "unat (cursor_y s) + 1 < 25")
    case True
    then show ?thesis by (simp add: settle_def scroll_eq u term_of_def t_newline_def)
  next
    case False
    then have "unat (cursor_y s) = 24" using y by simp
    then show ?thesis using False by (simp add: settle_def scroll_eq u term_of_def t_newline_def rows_of_scrolled)
  qed
  show "text_ok (settle (s\<lparr>cursor_x := 0, cursor_y := cursor_y s + 1\<rparr>))"
    using assms by (simp add: settle_def scroll_eq text_ok_def u)
qed

lemma settle_same:
  assumes "text_ok s"
  shows "term_of (settle s) = term_of s" "text_ok (settle s)"
  using assms by (simp_all add: settle_def scroll_eq text_ok_def)

lemma term_of_set:
  assumes "text_ok s"
  shows "term_of (s\<lparr>vga_mem := (vga_mem s)(cursor_cell s := v)\<rparr>) = t_set v (term_of s)"
  using assms by (simp add: term_of_def t_set_def text_ok_def cursor_cell_def rows_of_set)

lemma term_of_moved: "term_of (s\<lparr>cursor_x := x\<rparr>) = (term_of s)\<lparr>t_col := unat x\<rparr>"
  by (simp add: term_of_def)

lemma putc_unfold:
  assumes "text_ok s"
  shows "vga_putc c s =
    (if c = CHR 0x0A then settle (s\<lparr>cursor_x := 0, cursor_y := cursor_y s + 1\<rparr>)
     else if c = CHR 0x0D then settle (s\<lparr>cursor_x := 0\<rparr>)
     else if c = CHR 0x08 then
       if cursor_x s > 0 then
         let s = s\<lparr>cursor_x := cursor_x s - 1\<rparr> in settle (s\<lparr>vga_mem := (vga_mem s)(cursor_cell s := t_blank (color s))\<rparr>)
       else settle s
     else let s = s\<lparr>vga_mem := (vga_mem s)(cursor_cell s := make_cell c (color s))\<rparr> in
       if unat (cursor_x s) + 1 < 80 then settle (s\<lparr>cursor_x := cursor_x s + 1\<rparr>)
       else settle (s\<lparr>cursor_x := 0, cursor_y := cursor_y s + 1\<rparr>))"
  using assms unat_inc_byte [of "cursor_x s"] unat_dec_byte [of "cursor_x s"]
  unfolding vga_putc_def Let_def settle_def t_blank_def text_ok_def by auto

lemma putc_terminal:
  assumes ok: "text_ok s"
  shows "text_ok (vga_putc c s) \<and> term_of (vga_putc c s) = t_putc (color s) c (term_of s)"
proof -
  consider "c = CHR 0x0A" | "c = CHR 0x0D" | "c = CHR 0x08" | "c \<noteq> CHR 0x0A" "c \<noteq> CHR 0x0D" "c \<noteq> CHR 0x08" by blast
  then show ?thesis
  proof cases
    case 1
    then show ?thesis using settle_newline [OF ok] by (simp add: putc_unfold [OF ok] t_putc_def)
  next
    case 2
    have "text_ok (s\<lparr>cursor_x := 0\<rparr>)" using ok by (simp add: text_ok_def)
    then show ?thesis using 2 settle_same by (simp add: putc_unfold [OF ok] t_putc_def term_of_moved)
  next
    case 3
    let ?s = "s\<lparr>cursor_x := cursor_x s - 1\<rparr>"
    have z: "t_col (term_of s) = 0 \<longleftrightarrow> \<not> cursor_x s > 0" by (simp add: term_of_def word_gt_0 unat_eq_0)
    show ?thesis
    proof (cases "cursor_x s > 0")
      case True
      have u: "unat (cursor_x s - 1) = unat (cursor_x s) - 1" using unat_dec_byte [OF True] .
      have o: "text_ok ?s" using ok u by (auto simp: text_ok_def)
      have "term_of ?s = (term_of s)\<lparr>t_col := t_col (term_of s) - 1\<rparr>" unfolding term_of_moved u by (simp add: term_of_def)
      moreover have "text_ok (?s\<lparr>vga_mem := (vga_mem ?s)(cursor_cell ?s := t_blank (color s))\<rparr>)" using o by (simp add: text_ok_def)
      ultimately show ?thesis
        using 3 True z settle_same term_of_set [OF o] unfolding putc_unfold [OF ok] t_putc_def Let_def by simp
    next
      case False
      then show ?thesis using 3 z settle_same [OF ok] ok unfolding putc_unfold [OF ok] t_putc_def by simp
    qed
  next
    case 4
    let ?s = "s\<lparr>vga_mem := (vga_mem s)(cursor_cell s := make_cell c (color s))\<rparr>"
    have o: "text_ok ?s" "term_of ?s = t_set (make_cell c (color s)) (term_of s)" using ok term_of_set [OF ok] by (simp_all add: text_ok_def)
    have x: "unat (cursor_x s) < 80" using ok by (simp add: text_ok_def)
    have tc: "t_col (t_set (make_cell c (color s)) (term_of s)) = unat (cursor_x s)" by (simp add: t_set_def term_of_def)
    show ?thesis
    proof (cases "unat (cursor_x s) + 1 < 80")
      case True
      have "text_ok (?s\<lparr>cursor_x := cursor_x s + 1\<rparr>)" using ok True unat_inc_byte [OF x] by (simp add: text_ok_def)
      moreover have "term_of (?s\<lparr>cursor_x := cursor_x s + 1\<rparr>) = (term_of ?s)\<lparr>t_col := unat (cursor_x s) + 1\<rparr>"
        unfolding term_of_moved using unat_inc_byte [OF x] by simp
      ultimately show ?thesis
        using 4 True settle_same [of "?s\<lparr>cursor_x := cursor_x s + 1\<rparr>"] tc o(2) unfolding putc_unfold [OF ok] t_putc_def Let_def by simp
    next
      case False
      then show ?thesis using 4 settle_newline [OF o(1)] tc o(2) unfolding putc_unfold [OF ok] t_putc_def Let_def by simp
    qed
  qed
qed

lemma putc_color [simp]: "color (vga_putc c s) = color s"
  by (simp add: vga_putc_def scroll_eq Let_def)

lemma settle_outside: "2000 \<le> i \<Longrightarrow> vga_mem (settle s) i = vga_mem s i"
  by (simp add: settle_def scroll_eq scrolled_outside)

lemma putc_outside:
  assumes ok: "text_ok s" and i: "2000 \<le> i"
  shows "vga_mem (vga_putc c s) i = vga_mem s i"
proof -
  have "cursor_cell s < 2000" using ok by (simp add: text_ok_def cursor_cell_def)
  moreover have "cursor_cell (s\<lparr>cursor_x := cursor_x s - 1\<rparr>) < 2000" if "cursor_x s > 0"
    using ok unat_dec_byte [OF that] by (auto simp: text_ok_def cursor_cell_def)
  ultimately show ?thesis using i by (auto simp: putc_unfold [OF ok] settle_outside Let_def)
qed

lemma puts_terminal:
  "text_ok s \<Longrightarrow> text_ok (fold vga_putc str s) \<and> term_of (fold vga_putc str s) = fold (t_putc (color s)) str (term_of s) \<and>
     (\<forall>i \<ge> 2000. vga_mem (fold vga_putc str s) i = vga_mem s i)"
  by (induction str arbitrary: s) (auto simp: putc_terminal putc_outside)

subsection \<open>Properties\<close>

text \<open>
  Property C22. In text mode printing a text acts on the screen memory as on a terminal of 25 rows of
  80 cells that scrolls at the bottom, and no store leaves the 2000 cells.
\<close>

theorem vga_puts_terminal:
  assumes "text_ok s"
  shows "text_ok (vga_puts str s) \<and> term_of (vga_puts str s) = fold (t_putc (color s)) str (term_of s) \<and>
    (\<forall>i \<ge> VGA_WIDTH * VGA_HEIGHT. vga_mem (vga_puts str s) i = vga_mem s i)"
  using puts_terminal [OF assms] by (simp add: vga_puts_fold)

text \<open>A text screen with the cursor in the last row.\<close>

definition text_screen :: vga where
  "text_screen = \<lparr>vga_mem = (\<lambda>_. 0), cursor_x = 0, cursor_y = 24, color = 7, crtc = [],
     vga_gfx = \<lparr>gfx_active = False, cursor_row = 0, cursor_col = 0, fg_color = 0, bg_color = 0, gfx_cols = 0, gfx_rows = 0, gfx_vesa = svga\<rparr>\<rparr>"

lemma text_screen_ok: "text_ok text_screen"
  by (simp add: text_screen_def text_ok_def gfxcon_active_def)

theorem vga_puts_terminal_witness:
  "t_row (term_of (vga_puts [CHR 0x0A] text_screen)) = 24 \<and>
   last (t_rows (term_of (vga_puts [CHR 0x0A] text_screen))) = replicate 80 (t_blank 7)"
proof -
  have "color text_screen = 7" "t_row (term_of text_screen) = 24" by (simp_all add: text_screen_def term_of_def)
  then show ?thesis
    using vga_puts_terminal [OF text_screen_ok, of "[CHR 0x0A]"] by (simp add: t_putc_def t_newline_def)
qed

text \<open>
  A number printed in decimal reads back with \<open>atoi\<close> as the same number, for all 32-bit
  values: the ten places of the buffer are enough.
\<close>

lemma print_dec_atoi:
  "vga_print_dec v s = fold vga_putc (dec_text v) s \<and> atoi (dec_text v) = v"
proof -
  have "atoi ([] @ dec_text v @ []) = word_of_nat (unat v)"
    using dec_text_facts [of v] atoi_unsigned [of "[]" "dec_text v" "[]"] by simp
  then show ?thesis by (simp add: vga_print_dec_fold)
qed

end
