(* ===== verification/Syscall.thy ===== *)
theory Syscall
  imports Idt Timer Vga
begin

text \<open>
  System calls, \<open>kernel/syscall.c\<close>: the handler of interrupt \<open>0x80\<close> and the six calls.

  A call works on the screen, the timer, the scheduler, the memory a program passes pointers into and
  the characters the keyboard will deliver. \<open>wakes\<close> gives the timer ticks between the interrupts that
  end the \<open>hlt\<close> of a sleep (see \<open>Timer\<close>).
\<close>

record machine =
  m_vga :: vga
  m_timer :: timer
  m_sched :: sched
  m_mem :: buffer
  m_keys :: string
  m_wakes :: "nat list"

text \<open>
  How an interrupt ends: it returns with registers, it asks for a switch to another process before it
  returns, it halts for good, or it still waits for a key or a tick.
\<close>

datatype 'k outcome =
  Return registers 'k
| Switched "switch" registers 'k
| Halted 'k
| Waits

definition mem_at :: "buffer \<Rightarrow> u32 \<Rightarrow> byte" where
  "mem_at m a = m (unat a)"

definition sys_exit :: "i32 \<Rightarrow> 'a machine_scheme \<Rightarrow> 'a machine_scheme" where
  "sys_exit status k =
     k\<lparr>m_vga := vga_puts (CHR '']'' # [CHR 0x0A]) (vga_print_dec status (vga_puts ''[Process exited with status '' (m_vga k)))\<rparr>"

text \<open>The loop over the bytes from index \<open>i\<close> on, and the call.\<close>

definition write_chars :: "u32 \<Rightarrow> nat \<Rightarrow> buffer \<Rightarrow> vga \<Rightarrow> vga" where
  "write_chars buf count mem = fold (\<lambda>i. vga_putc (char_of_byte (mem_at mem (buf + word_of_nat i)))) [0..<count]"

definition sys_write :: "i32 \<Rightarrow> u32 \<Rightarrow> u32 \<Rightarrow> 'a machine_scheme \<Rightarrow> i32 \<times> 'a machine_scheme" where
  "sys_write fd buf count k =
     (if fd = 1 \<or> fd = 2 then (count, k\<lparr>m_vga := write_chars buf (unat count) (m_mem k) (m_vga k)\<rparr>)
      else (- 1, k))"

text \<open>\<open>n\<close> characters are still wanted; the result has the number stored in all.\<close>

fun read_chars :: "u32 \<Rightarrow> nat \<Rightarrow> nat \<Rightarrow> string \<Rightarrow> buffer \<Rightarrow> (nat \<times> string \<times> buffer) option" where
  "read_chars buf 0 i keys mem = Some (i, keys, mem)"
| "read_chars buf (Suc n) i [] mem = None"
| "read_chars buf (Suc n) i (c # keys) mem =
     (let mem = mem(unat (buf + word_of_nat i) := byte_of c) in
      if c = CHR 0x0A then Some (i + 1, keys, mem) else read_chars buf n (i + 1) keys mem)"

definition sys_read :: "i32 \<Rightarrow> u32 \<Rightarrow> u32 \<Rightarrow> 'a machine_scheme \<Rightarrow> (i32 \<times> 'a machine_scheme) option" where
  "sys_read fd buf count k =
     (if fd = 0 then
        case read_chars buf (unat count) 0 (m_keys k) (m_mem k) of
          None \<Rightarrow> None
        | Some (i, keys, mem) \<Rightarrow> Some (word_of_nat i, k\<lparr>m_keys := keys, m_mem := mem\<rparr>)
      else Some (- 1, k))"

text \<open>\<open>current_pid\<close> is never written.\<close>

definition sys_getpid :: i32 where
  "sys_getpid = 1"

definition sys_sleep :: "u32 \<Rightarrow> 'a machine_scheme \<Rightarrow> 'a machine_scheme option" where
  "sys_sleep ms k =
     (case timer_sleep ms (m_wakes k) (m_timer k) of
        None \<Rightarrow> None
      | Some (t, wakes) \<Rightarrow> Some (k\<lparr>m_timer := t, m_wakes := wakes\<rparr>))"

definition sys_yield :: "'a machine_scheme \<Rightarrow> switch \<times> 'a machine_scheme" where
  "sys_yield k = (case scheduler_tick (m_sched k) of (sw, s) \<Rightarrow> (sw, k\<lparr>m_sched := s\<rparr>))"

definition syscall_handler :: "registers \<Rightarrow> 'a machine_scheme \<Rightarrow> 'a machine_scheme outcome" where
  "syscall_handler r k =
     (let n = reg_eax r in
      if n = 0 then Halted (sys_exit (reg_ebx r) k)
      else if n = 1 then case sys_write (reg_ebx r) (reg_ecx r) (reg_edx r) k of (v, k) \<Rightarrow> Return (r\<lparr>reg_eax := v\<rparr>) k
      else if n = 2 then
        case sys_read (reg_ebx r) (reg_ecx r) (reg_edx r) k of None \<Rightarrow> Waits | Some (v, k) \<Rightarrow> Return (r\<lparr>reg_eax := v\<rparr>) k
      else if n = 3 then Return (r\<lparr>reg_eax := sys_getpid\<rparr>) k
      else if n = 4 then case sys_sleep (reg_ebx r) k of None \<Rightarrow> Waits | Some k \<Rightarrow> Return r k
      else if n = 5 then case sys_yield k of (sw, k) \<Rightarrow> if sw = No_switch then Return r k else Switched sw r k
      else Return (r\<lparr>reg_eax := - 1\<rparr>) k)"

text \<open>\<open>h\<close> is the address of \<open>syscall_handler\<close> in the table of handlers.\<close>

definition syscall_init :: "'h \<Rightarrow> 'h tables \<Rightarrow> 'h tables" where
  "syscall_init h t = idt_set_gate_ring3 0x80 (idt_register_handler 0x80 h t)"

subsection \<open>Reading and writing\<close>

definition store :: "nat \<Rightarrow> string \<Rightarrow> buffer \<Rightarrow> buffer" where
  "store a t m = (\<lambda>x. if a \<le> x \<and> x < a + length t then byte_of (t ! (x - a)) else m x)"

text \<open>The text at an address.\<close>

definition text_at :: "buffer \<Rightarrow> nat \<Rightarrow> nat \<Rightarrow> string" where
  "text_at m a n = map (\<lambda>i. char_of_byte (m (a + i))) [0..<n]"

lemma store_Cons: "store (Suc a) t (m(a := byte_of c)) = store a (c # t) m"
proof
  fix x
  show "store (Suc a) t (m(a := byte_of c)) x = store a (c # t) m x"
    by (cases "x = a"; cases "a < x") (auto simp: store_def Suc_diff_Suc nth_Cons')
qed

lemma store_Nil: "store a [] m = m"
proof
  show "store a [] m x = m x" for x by (cases "a \<le> x") (simp_all add: store_def)
qed

lemma text_at_store: "text_at (store a t m) a (length t) = t"
  by (rule nth_equalityI) (simp_all add: text_at_def store_def)

lemma text_at_other: "b + n \<le> a \<or> a + length t \<le> b \<Longrightarrow> text_at (store a t m) b n = text_at m b n"
  by (auto simp: text_at_def store_def)

lemma write_chars_text:
  "unat buf + n \<le> 2 ^ 32 \<Longrightarrow> write_chars buf n m = vga_puts (text_at m (unat buf) n)"
proof
  fix v
  assume "unat buf + n \<le> 2 ^ 32"
  then have "mem_at m (buf + word_of_nat i) = m (unat buf + i)" if "i < n" for i
    using that by (simp add: mem_at_def unat_plus_small)
  then show "write_chars buf n m v = vga_puts (text_at m (unat buf) n) v"
    unfolding write_chars_def vga_puts_fold text_at_def fold_map by (intro fold_cong) auto
qed

lemma read_chars_line:
  "CHR 0x0A \<notin> set line \<Longrightarrow> length line < n \<Longrightarrow> unat buf + i + n \<le> 2 ^ 32 \<Longrightarrow>
   read_chars buf n i (line @ CHR 0x0A # rest) m =
     Some (i + length line + 1, rest, store (unat buf + i) (line @ [CHR 0x0A]) m)"
proof (induction line arbitrary: n i m)
  case Nil
  then obtain n' where "n = Suc n'" by (cases n) auto
  then show ?case using Nil by (simp add: unat_plus_small store_Cons [symmetric] store_Nil Let_def fun_upd_def)
next
  case (Cons c line)
  then obtain n' where n: "n = Suc n'" by (cases n) auto
  let ?m = "m(unat buf + i := byte_of c)"
  have "read_chars buf n' (Suc i) (line @ CHR 0x0A # rest) ?m =
      Some (Suc i + length line + 1, rest, store (unat buf + Suc i) (line @ [CHR 0x0A]) ?m)"
    using Cons.prems by (intro Cons.IH) (auto simp: n)
  moreover have "store (unat buf + Suc i) (line @ [CHR 0x0A]) ?m = store (unat buf + i) (c # line @ [CHR 0x0A]) m"
    using store_Cons [of "unat buf + i"] by (metis add_Suc_right)
  ultimately have "read_chars buf n' (Suc i) (line @ CHR 0x0A # rest) ?m =
      Some (i + length (c # line) + 1, rest, store (unat buf + i) ((c # line) @ [CHR 0x0A]) m)"
    by (metis add_Suc_shift append_Cons length_Cons)
  moreover have "read_chars buf n i ((c # line) @ CHR 0x0A # rest) m = read_chars buf n' (Suc i) (line @ CHR 0x0A # rest) ?m"
    using Cons.prems unfolding n append_Cons read_chars.simps Let_def by (subst unat_plus_small) auto
  ultimately show ?case by metis
qed

text \<open>
  Property C24. A program that reads a line with the read call and passes buffer and result on to the
  write call shows the line: the two calls agree on where the characters are and how many there are.
\<close>

theorem read_write_echo:
  assumes "CHR 0x0A \<notin> set line" "length line < unat n" "unat buf + unat n \<le> 2 ^ 32"
    and "m_keys k = line @ CHR 0x0A # rest"
    and "reg_eax r = 2" "reg_ebx r = 0" "reg_ecx r = buf" "reg_edx r = n"
  shows "\<exists>r' k'. syscall_handler r k = Return r' k' \<and> m_keys k' = rest \<and>
     syscall_handler (r'\<lparr>reg_eax := 1, reg_ebx := 1, reg_edx := reg_eax r'\<rparr>) k' =
       Return (r'\<lparr>reg_ebx := 1, reg_edx := reg_eax r'\<rparr>) (k'\<lparr>m_vga := vga_puts (line @ [CHR 0x0A]) (m_vga k)\<rparr>)"
proof -
  let ?t = "line @ [CHR 0x0A]" and ?m = "store (unat buf) (line @ [CHR 0x0A]) (m_mem k)"
  let ?r = "r\<lparr>reg_eax := word_of_nat (length ?t)\<rparr>" and ?k = "k\<lparr>m_keys := rest, m_mem := ?m\<rparr>"
  have "unat n < 2 ^ 32" using unsigned_less [of n] by simp
  moreover have "unat (word_of_nat m :: u32) = m" if "m < 2 ^ 32" for m using that by (simp add: unat_of_nat)
  ultimately have u: "unat (word_of_nat (length ?t) :: u32) = length ?t" using assms(2) by (metis length_append_singleton Suc_leI le_less_trans)
  have "read_chars buf (unat n) 0 (m_keys k) (m_mem k) = Some (length ?t, rest, ?m)"
    using read_chars_line [OF assms(1,2), of buf 0 rest "m_mem k"] assms(3,4) by simp
  then have "syscall_handler r k = Return ?r ?k"
    using assms(5-8) by (simp add: syscall_handler_def sys_read_def Let_def)
  moreover have "syscall_handler (?r\<lparr>reg_eax := 1, reg_ebx := 1, reg_edx := reg_eax ?r\<rparr>) ?k =
     Return (?r\<lparr>reg_ebx := 1, reg_edx := reg_eax ?r\<rparr>) (?k\<lparr>m_vga := vga_puts ?t (m_vga k)\<rparr>)"
    using assms(2,3,7) u write_chars_text [of buf "length ?t" ?m] text_at_store [of "unat buf" ?t "m_mem k"]
    by (simp add: syscall_handler_def sys_write_def Let_def)
  ultimately show ?thesis by fastforce
qed

definition sample_machine :: machine where
  "sample_machine = \<lparr>m_vga = text_screen, m_timer = \<lparr>tick_count = 0, tick_frequency = 100\<rparr>, m_sched = process_init two_processes,
     m_mem = (\<lambda>_. 0), m_keys = ''hi'' @ [CHR 0x0A], m_wakes = []\<rparr>"

definition zero_regs :: registers where
  "zero_regs = \<lparr>reg_edi = 0, reg_esi = 0, reg_ebp = 0, reg_esp = 0, reg_ebx = 0, reg_edx = 0, reg_ecx = 0, reg_eax = 0, reg_gs = 0,
     reg_fs = 0, reg_es = 0, reg_ds = 0, reg_int_no = 0x80, reg_err_code = 0, reg_eip = 0, reg_cs = 0, reg_eflags = 0\<rparr>"

theorem read_write_echo_witness:
  "\<exists>r k. syscall_handler (zero_regs\<lparr>reg_eax := 2, reg_ecx := 0x1000, reg_edx := 10\<rparr>) sample_machine = Return r k \<and>
     syscall_handler (r\<lparr>reg_eax := 1, reg_ebx := 1, reg_edx := reg_eax r\<rparr>) k =
       Return (r\<lparr>reg_ebx := 1, reg_edx := reg_eax r\<rparr>) (k\<lparr>m_vga := vga_puts (''hi'' @ [CHR 0x0A]) text_screen\<rparr>)"
  using read_write_echo [of "''hi''" 10 "0x1000" sample_machine "[]" "zero_regs\<lparr>reg_eax := 2, reg_ecx := 0x1000, reg_edx := 10\<rparr>"]
  by (auto simp: sample_machine_def zero_regs_def)

end
