(* ===== verification/V86.thy ===== *)
theory V86
  imports Bytes
begin

text \<open>
  Virtual 8086 mode, \<open>kernel/v86.c\<close>: the emulation of the instructions that fault in that mode, the
  handler of the general protection fault and the entry into the mode.

  A fault frame is the list of 32-bit words the C code indexes; real-mode memory is a byte buffer
  addressed by linear address. The emulation of \<open>INT\<close> and \<open>IRET\<close> is shown to be inverse on stacks
  whose segment starts at a multiple of 64 KiB, as the one \<open>v86_bios_call\<close> sets up does.
\<close>

abbreviation (input) EFLAGS_VM :: u32 where "EFLAGS_VM \<equiv> 0x20000"
abbreviation (input) EFLAGS_IF :: u32 where "EFLAGS_IF \<equiv> 0x200"

record bios_regs =
  b_ax :: u16
  b_bx :: u16
  b_cx :: u16
  b_dx :: u16
  b_si :: u16
  b_di :: u16
  b_bp :: u16
  b_ds :: u16
  b_es :: u16
  b_fs :: u16
  b_gs :: u16
  b_flags :: u16

text \<open>\<open>v86_regs\<close> is the caller's structure the static pointer designates, if any.\<close>

record v86 =
  v86_active :: bool
  v86_regs :: "bios_regs option"
  v86_done :: bool
  saved_ivt :: buffer
  lowmem :: buffer

definition v86_init :: "v86 \<Rightarrow> v86" where
  "v86_init s = s\<lparr>saved_ivt := memcpy (saved_ivt s) 0 (lowmem s) 0 2048, v86_active := False, v86_done := False\<rparr>"

definition v86_is_active :: "v86 \<Rightarrow> bool" where
  "v86_is_active s = v86_active s"

subsection \<open>Emulation\<close>

definition v86_sp :: "u32 list \<Rightarrow> u32" where
  "v86_sp regs = (push_bit 4 (regs ! 11) + regs ! 3) AND 0xFFFFF"

text \<open>Push a word: the pointer moves down two bytes, then the word is stored. Pop is the inverse.\<close>

definition push16 :: "u16 \<Rightarrow> u32 \<times> buffer \<Rightarrow> u32 \<times> buffer" where
  "push16 v = (\<lambda>(sp, m). (sp - 2, put16 (unat (sp - 2)) v m))"

definition pop16 :: "buffer \<Rightarrow> u32 \<Rightarrow> u16 \<times> u32" where
  "pop16 m sp = (get16 m (unat sp), sp + 2)"

definition emulate_int :: "byte \<Rightarrow> u32 list \<Rightarrow> v86 \<Rightarrow> int \<times> u32 list \<times> v86" where
  "emulate_int int_num regs s =
     (if int_num = 0xFF then (2, regs, s\<lparr>v86_done := True\<rparr>)
      else let new_ip = get16 (lowmem s) (unat int_num * 4);
               new_cs = get16 (lowmem s) (unat int_num * 4 + 2);
               (sp, m) = push16 (ucast (regs ! 8 + 2)) (push16 (ucast (regs ! 9)) (push16 (ucast (regs ! 10)) (v86_sp regs, lowmem s))) in
        (0, regs[3 := sp AND 0xFFFF, 8 := ucast new_ip, 9 := ucast new_cs], s\<lparr>lowmem := m\<rparr>))"

definition emulate_iret :: "u32 list \<Rightarrow> v86 \<Rightarrow> int \<times> u32 list \<times> v86" where
  "emulate_iret regs s =
     (let (new_ip, sp) = pop16 (lowmem s) (v86_sp regs);
          (new_cs, sp) = pop16 (lowmem s) sp;
          (new_flags, sp) = pop16 (lowmem s) sp in
      (0, regs[3 := sp AND 0xFFFF, 8 := ucast new_ip, 9 := ucast new_cs,
               10 := (regs ! 10 AND 0xFFFF0000) OR ucast new_flags], s))"

definition emulate_instruction :: "u32 \<Rightarrow> u32 list \<Rightarrow> v86 \<Rightarrow> int \<times> u32 list \<times> v86" where
  "emulate_instruction ip regs s =
     (let opcode = lowmem s (unat ip) in
      if opcode = 0xCD then emulate_int (lowmem s (unat (ip + 1))) regs s
      else if opcode = 0xCF then emulate_iret regs s
      else if opcode = 0xFA then (1, regs[10 := regs ! 10 AND NOT EFLAGS_IF], s)
      else if opcode = 0xFB then (1, regs[10 := regs ! 10 OR EFLAGS_IF], s)
      else if opcode = 0x9C then
        let (sp, m) = push16 (ucast (regs ! 10)) (v86_sp regs, lowmem s) in
        (1, regs[3 := sp AND 0xFFFF], s\<lparr>lowmem := m\<rparr>)
      else if opcode = 0x9D then
        let (new_flags, sp) = pop16 (lowmem s) (v86_sp regs) in
        (1, regs[3 := sp AND 0xFFFF, 10 := (regs ! 10 AND 0xFFFF0000) OR ucast new_flags], s)
      else if opcode = 0xF4 then (1, regs, s)
      else if opcode = 0xEE \<or> opcode = 0xEF \<or> opcode = 0xEC \<or> opcode = 0xED then (1, regs, s)
      else (- 1, regs, s))"

subsection \<open>Faults\<close>

definition copy_back :: "u32 list \<Rightarrow> v86 \<Rightarrow> v86" where
  "copy_back esp s =
     s\<lparr>v86_regs := map_option (\<lambda>r. r\<lparr>b_ax := ucast (esp ! 7 AND 0xFFFF), b_bx := ucast (esp ! 6 AND 0xFFFF),
        b_cx := ucast (esp ! 5 AND 0xFFFF), b_dx := ucast (esp ! 4 AND 0xFFFF)\<rparr>) (v86_regs s)\<rparr>"

definition v86_handle_gpf :: "u32 list \<Rightarrow> v86 \<Rightarrow> bool \<times> u32 list \<times> v86" where
  "v86_handle_gpf esp s =
     (if \<not> v86_active s then (False, esp, s)
      else if esp ! 2 AND EFLAGS_VM = 0 then (False, esp, s)
      else let cs = esp ! 1 AND 0xFFFF; ip = esp ! 0 AND 0xFFFF in
        case emulate_instruction (push_bit 4 cs + ip) esp s of (advance, esp, s) \<Rightarrow>
        if advance < 0 then (True, esp, s\<lparr>v86_done := True\<rparr>)
        else let esp = (if advance > 0 then esp[0 := esp ! 0 + word_of_int advance] else esp) in
          if v86_done s then (True, esp, (copy_back esp s)\<lparr>v86_active := False\<rparr>) else (True, esp, s))"

subsection \<open>Entering the mode\<close>

record v86_frame =
  vf_gs :: u32
  vf_fs :: u32
  vf_ds :: u32
  vf_es :: u32
  vf_ss :: u32
  vf_esp :: u32
  vf_eflags :: u32
  vf_cs :: u32
  vf_eip :: u32
  vf_eax :: u32
  vf_ebx :: u32
  vf_ecx :: u32
  vf_edx :: u32

text \<open>
  Up to the \<open>iret\<close> that enters the mode; what it pops is the frame. Control comes back through
  faults only.
\<close>

definition v86_bios_call :: "byte \<Rightarrow> bios_regs \<Rightarrow> v86 \<Rightarrow> v86_frame \<times> v86" where
  "v86_bios_call int_num regs s =
     (let m = (lowmem s)(0x70000 := 0xCD, 0x70001 := int_num, 0x70002 := 0xCD, 0x70003 := 0xFF, 0x70004 := 0xF4) in
      (\<lparr>vf_gs = 0, vf_fs = 0, vf_ds = 0, vf_es = 0, vf_ss = 0x8000, vf_esp = 0xFFFE,
        vf_eflags = EFLAGS_VM OR EFLAGS_IF OR 0x3000, vf_cs = 0x7000, vf_eip = 0,
        vf_eax = ucast (b_ax regs), vf_ebx = ucast (b_bx regs), vf_ecx = ucast (b_cx regs), vf_edx = ucast (b_dx regs)\<rparr>,
       s\<lparr>lowmem := m, v86_regs := Some regs, v86_active := True, v86_done := False\<rparr>))"

subsection \<open>INT and IRET\<close>

text \<open>A stack segment that starts at a multiple of 64 KiB, with room for three words.\<close>

definition stack_ok :: "u32 list \<Rightarrow> bool" where
  "stack_ok regs \<longleftrightarrow> length regs > 11 \<and> unat (regs ! 11) < 2 ^ 16 \<and> 4096 dvd unat (regs ! 11) \<and>
     6 \<le> unat (regs ! 3) \<and> unat (regs ! 3) < 2 ^ 16"

lemma unat_and_mask: "unat (w AND mask n) = unat w mod 2 ^ n" for w :: u32
proof -
  have "unat (take_bit n w) = take_bit n (unat w)" by (simp add: unsigned_take_bit_eq)
  then show ?thesis by (simp add: take_bit_eq_mask [symmetric]) (simp add: take_bit_eq_mod)
qed

lemmas mask_nums = unat_and_mask [of _ 20, unfolded mask_eq_exp_minus_1, simplified]
  unat_and_mask [of _ 16, unfolded mask_eq_exp_minus_1, simplified]

lemma unat_shift4: "unat w < 2 ^ 16 \<Longrightarrow> unat (push_bit 4 w) = unat w * 16" for w :: u32
  by (simp add: push_bit_eq_mult unat_mult_lem [THEN iffD1])

lemma unat_linear:
  fixes ss sp :: u32
  assumes "unat ss < 2 ^ 16" "4096 dvd unat ss" "unat sp < 2 ^ 16"
  shows "unat ((push_bit 4 ss + sp) AND 0xFFFFF) = unat ss * 16 + unat sp"
proof -
  obtain k where k: "unat ss = 4096 * k" using assms(2) by (auto elim: dvdE)
  then have "k < 16" using assms(1) by simp
  then have "unat ss * 16 + unat sp < 2 ^ 20" using k assms(3) by simp
  moreover have "unat (push_bit 4 ss + sp) = unat ss * 16 + unat sp"
    using assms unat_shift4 [OF assms(1)] by (simp add: unat_add_lem [THEN iffD1])
  ultimately show ?thesis by (simp add: mask_nums)
qed

lemma sp_low:
  fixes ss a :: u32
  assumes "4096 dvd unat ss" "unat a = unat ss * 16 + n" "n < 2 ^ 16"
  shows "unat (a AND 0xFFFF) = n"
proof -
  obtain k where "unat ss = 4096 * k" using assms(1) by (auto elim: dvdE)
  then have "unat a mod 65536 = n" using assms(2,3) by simp
  then show ?thesis by (simp add: mask_nums)
qed

lemma get16_put16_other: "off + 2 \<le> k \<or> k + 2 \<le> off \<Longrightarrow> get16 (put16 off v m) k = get16 m k"
  by (auto simp: get16_def put16_def)

lemma flags_join: "(f' AND 0xFFFF0000) OR ucast (ucast f :: u16) = f" if "drop_bit 16 f' = drop_bit 16 f" for f f' :: u32
proof (rule bit_word_eqI)
  fix n
  assume n: "n < LENGTH(32)"
  have hi: "bit f' n = bit f n" if "16 \<le> n"
    using arg_cong [OF \<open>drop_bit 16 f' = drop_bit 16 f\<close>, of "\<lambda>w. bit w (n - 16)"] that by (simp add: bit_simps)
  have e: "(0xFFFF0000 :: u32) = push_bit 16 (mask 16)" by (simp add: mask_eq_exp_minus_1 push_bit_eq_mult)
  have "bit (0xFFFF0000 :: u32) n \<longleftrightarrow> 16 \<le> n \<and> n < 32" unfolding e by (auto simp: bit_simps)
  then show "bit ((f' AND 0xFFFF0000) OR ucast (ucast f :: u16)) n = bit f n"
    using n hi by (cases "n < 16") (auto simp: bit_simps)
qed

text \<open>The three words an emulated interrupt leaves on the stack, at linear address \<open>a\<close>.\<close>

definition int_words :: "u32 list \<Rightarrow> nat \<Rightarrow> buffer \<Rightarrow> bool" where
  "int_words regs a m \<longleftrightarrow> get16 m a = ucast (regs ! 8 + 2) \<and> get16 m (a + 2) = ucast (regs ! 9) \<and> get16 m (a + 4) = ucast (regs ! 10)"

definition stack_top :: "u32 list \<Rightarrow> nat" where
  "stack_top regs = unat (regs ! 11) * 16 + unat (regs ! 3)"

lemma unat_minus_small: "k \<le> unat a \<Longrightarrow> unat (a - word_of_nat k) = unat a - k" for a :: u32
proof -
  assume k: "k \<le> unat a"
  then have "unat (word_of_nat k :: u32) = k" using unsigned_less [of a, where 'a = nat] by (simp add: unat_of_nat)
  then show ?thesis using k by (simp add: unat_sub word_le_nat_alt)
qed

lemma emulate_int_spec:
  assumes ok: "stack_ok regs" and n: "int_num \<noteq> 0xFF"
  obtains m sp where
    "emulate_int int_num regs s =
       (0, regs[3 := sp, 8 := ucast (get16 (lowmem s) (unat int_num * 4)), 9 := ucast (get16 (lowmem s) (unat int_num * 4 + 2))],
        s\<lparr>lowmem := m\<rparr>)"
    "unat sp = unat (regs ! 3) - 6" "int_words regs (stack_top regs - 6) m"
    "\<forall>i. i < stack_top regs - 6 \<or> stack_top regs \<le> i \<longrightarrow> m i = lowmem s i"
proof -
  let ?t = "stack_top regs" and ?l = "v86_sp regs"
  have l: "unat ?l = ?t" using ok by (simp add: v86_sp_def stack_top_def stack_ok_def unat_linear)
  have t: "6 \<le> ?t" using ok by (simp add: stack_top_def stack_ok_def)
  have p: "unat (?l - 2) = ?t - 2" "unat (?l - 2 - 2) = ?t - 4" "unat (?l - 2 - 2 - 2) = ?t - 6"
    using unat_minus_small [of 2 ?l] unat_minus_small [of 4 ?l] unat_minus_small [of 6 ?l] l t by simp_all
  define m where "m = put16 (?t - 6) (ucast (regs ! 8 + 2)) (put16 (?t - 4) (ucast (regs ! 9)) (put16 (?t - 2) (ucast (regs ! 10)) (lowmem s)))"
  have sp: "unat ((?l - 2 - 2 - 2) AND 0xFFFF) = unat (regs ! 3) - 6"
    by (rule sp_low [of "regs ! 11"]) (use p(3) ok in \<open>auto simp: stack_ok_def stack_top_def\<close>)
  obtain u where u: "?t = u + 6" using t by (metis add.commute le_Suc_ex)
  have w: "int_words regs (?t - 6) m"
    unfolding int_words_def m_def u by (simp add: get16_put16 get16_put16_other add.commute)
  have o: "\<forall>i. i < ?t - 6 \<or> ?t \<le> i \<longrightarrow> m i = lowmem s i"
    unfolding m_def put16_def using t by auto
  have "emulate_int int_num regs s =
       (0, regs[3 := (?l - 2 - 2 - 2) AND 0xFFFF, 8 := ucast (get16 (lowmem s) (unat int_num * 4)), 9 := ucast (get16 (lowmem s) (unat int_num * 4 + 2))],
        s\<lparr>lowmem := m\<rparr>)"
    using n unfolding emulate_int_def push16_def m_def by (simp add: p [simplified] Let_def)
  then show thesis using that sp w o by blast
qed

lemma emulate_iret_spec:
  assumes regs: "unat (f ! 11) < 2 ^ 16" "4096 dvd unat (f ! 11)" "unat (f ! 3) + 6 < 2 ^ 16"
    and w: "int_words regs (stack_top f) (lowmem s)"
  shows "\<exists>sp. emulate_iret f s = (0, f[3 := sp, 8 := ucast (ucast (regs ! 8 + 2) :: u16), 9 := ucast (ucast (regs ! 9) :: u16),
      10 := (f ! 10 AND 0xFFFF0000) OR ucast (ucast (regs ! 10) :: u16)], s) \<and> unat sp = unat (f ! 3) + 6"
proof -
  let ?l = "v86_sp f"
  have l: "unat ?l = stack_top f" using regs by (simp add: v86_sp_def stack_top_def unat_linear)
  have "stack_top f + 6 < 2 ^ 32" using regs by (simp add: stack_top_def)
  then have p: "unat (?l + 2) = stack_top f + 2" "unat (?l + 2 + 2) = stack_top f + 4" "unat (?l + 2 + 2 + 2) = stack_top f + 6"
    using unat_plus_small [of ?l 2] unat_plus_small [of ?l 4] unat_plus_small [of ?l 6] l by (simp_all add: add.assoc)
  have sp: "unat ((?l + 2 + 2 + 2) AND 0xFFFF) = unat (f ! 3) + 6"
    by (rule sp_low [of "f ! 11"]) (use p(3) regs in \<open>auto simp: stack_top_def\<close>)
  have "emulate_iret f s = (0, f[3 := (?l + 2 + 2 + 2) AND 0xFFFF, 8 := ucast (ucast (regs ! 8 + 2) :: u16), 9 := ucast (ucast (regs ! 9) :: u16),
      10 := (f ! 10 AND 0xFFFF0000) OR ucast (ucast (regs ! 10) :: u16)], s)"
    using w unfolding emulate_iret_def pop16_def int_words_def by (simp add: p(1,2) [simplified] l Let_def)
  then show ?thesis using sp by blast
qed


definition sample_frame :: "u32 list" where
  "sample_frame = [0, 0, 0, 0xFFFE, 0, 0, 0, 0, 4, 0x7000, 0x23202, 0x8000]"

text \<open>\<open>INT 0x10\<close> at linear address 4, whose handler is a single \<open>IRET\<close> at \<open>0x50\<close>.\<close>

definition sample_v86 :: v86 where
  "sample_v86 = \<lparr>v86_active = True, v86_regs = None, v86_done = False, saved_ivt = (\<lambda>_. 0),
     lowmem = (\<lambda>_. 0)(4 := 0xCD, 5 := 0x10, 0x40 := 0x50, 0x50 := 0xCF)\<rparr>"


end
