(* ===== verification/Mouse.thy ===== *)
theory Mouse
  imports Ports
begin

text \<open>
  The PS/2 mouse driver, \<open>kernel/mouse.c\<close>: three-byte packets collected by the interrupt handler, the
  pointer position kept on the screen, polling, and the initialisation of the auxiliary device.

  The handler is described on the bytes it reads from the status and the data port. The pointer is
  shown to stay on the screen whatever bytes arrive, and a stream of whole packets to move it by the
  sum of their clamped movements.
\<close>

record mouse =
  mouse_x :: int
  mouse_y :: int
  mouse_buttons :: byte
  mouse_dx :: "8 word"
  mouse_dy :: "8 word"
  mouse_updated :: bool
  screen_w :: int
  screen_h :: int
  packet :: "byte list"
  packet_index :: nat

subsection \<open>The controller\<close>

definition ps2_wait_read :: "'d bus \<Rightarrow> 'd \<Rightarrow> 'd option" where
  "ps2_wait_read b d = map_option snd (poll b 0x64 (\<lambda>v. v AND 0x01 \<noteq> 0) d)"

definition ps2_wait_write :: "'d bus \<Rightarrow> 'd \<Rightarrow> 'd option" where
  "ps2_wait_write b d = map_option snd (poll b 0x64 (\<lambda>v. v AND 0x02 = 0) d)"

definition mouse_write :: "'d bus \<Rightarrow> byte \<Rightarrow> 'd \<Rightarrow> 'd option" where
  "mouse_write b value d =
     do {
       d \<leftarrow> ps2_wait_write b d;
       d \<leftarrow> ps2_wait_write b (outb b 0x64 0xD4 d);
       Some (outb b 0x60 value d)
     }"

definition mouse_read :: "'d bus \<Rightarrow> 'd \<Rightarrow> (byte \<times> 'd) option" where
  "mouse_read b d = do { d \<leftarrow> ps2_wait_read b d; Some (inb b 0x60 d) }"

subsection \<open>Packets\<close>

text \<open>The part of the handler that runs when the third byte is in.\<close>

definition clamp :: "int \<Rightarrow> int \<Rightarrow> int" where
  "clamp w x = (let x = (if x < 0 then 0 else x) in if x \<ge> w then w - 1 else x)"

definition move_pointer :: "mouse \<Rightarrow> mouse" where
  "move_pointer m =
     (let dx = packet m ! 1; dy = packet m ! 2 in
      m\<lparr>mouse_x := clamp (screen_w m) (mouse_x m + sint dx), mouse_y := clamp (screen_h m) (mouse_y m - sint dy),
        mouse_buttons := packet m ! 0 AND 0x07, mouse_dx := dx, mouse_dy := dy, mouse_updated := True\<rparr>)"

definition mouse_irq_handler :: "byte \<Rightarrow> byte \<Rightarrow> mouse \<Rightarrow> mouse" where
  "mouse_irq_handler status data m =
     (if status AND 0x20 = 0 then m
      else if packet_index m = 0 \<and> data AND 0x08 = 0 then m
      else let m = m\<lparr>packet := (packet m)[packet_index m := data], packet_index := packet_index m + 1\<rparr> in
        if packet_index m < 3 then m else move_pointer (m\<lparr>packet_index := 0\<rparr>))"

definition mouse_irq :: "'d bus \<Rightarrow> 'd \<Rightarrow> mouse \<Rightarrow> mouse \<times> 'd" where
  "mouse_irq b d m =
     (case inb b 0x64 d of (status, d) \<Rightarrow>
      if status AND 0x20 = 0 then (m, d)
      else case inb b 0x60 d of (data, d) \<Rightarrow> (mouse_irq_handler status data m, d))"

subsection \<open>Interface\<close>

definition mouse_set_bounds :: "int \<Rightarrow> int \<Rightarrow> mouse \<Rightarrow> mouse" where
  "mouse_set_bounds width height m =
     (let m = (if width > 0 then m\<lparr>screen_w := width\<rparr> else m);
          m = (if height > 0 then m\<lparr>screen_h := height\<rparr> else m);
          m = (if mouse_x m \<ge> screen_w m then m\<lparr>mouse_x := screen_w m - 1\<rparr> else m) in
      if mouse_y m \<ge> screen_h m then m\<lparr>mouse_y := screen_h m - 1\<rparr> else m)"

definition mouse_status_bits :: "byte \<Rightarrow> byte" where
  "mouse_status_bits status = ((status AND NOT 0x10) AND NOT 0x20) OR 0x02 OR 0x01"

definition mouse_reset :: "mouse \<Rightarrow> mouse" where
  "mouse_reset m =
     m\<lparr>packet_index := 0, mouse_updated := False, mouse_x := screen_w m div 2, mouse_y := screen_h m div 2, mouse_buttons := 0\<rparr>"

definition mouse_init :: "'d bus \<Rightarrow> 'd \<Rightarrow> mouse \<Rightarrow> (mouse \<times> 'd) option" where
  "mouse_init b d m =
     do {
       d \<leftarrow> ps2_wait_write b d;
       d \<leftarrow> ps2_wait_write b (outb b 0x64 0xAE d);
       d \<leftarrow> ps2_wait_write b (outb b 0x64 0xA8 d);
       d \<leftarrow> ps2_wait_read b (outb b 0x64 0x20 d);
       (status, d) \<leftarrow> Some (inb b 0x60 d);
       d \<leftarrow> ps2_wait_write b d;
       d \<leftarrow> ps2_wait_write b (outb b 0x64 0x60 d);
       d \<leftarrow> mouse_write b 0xF6 (outb b 0x60 (mouse_status_bits status) d);
       (_, d) \<leftarrow> mouse_read b d;
       d \<leftarrow> mouse_write b 0xF4 d;
       (_, d) \<leftarrow> mouse_read b d;
       Some (mouse_reset m, d)
     }"

record mouse_state =
  ms_x :: int
  ms_y :: int
  ms_buttons :: byte
  ms_dx :: "8 word"
  ms_dy :: "8 word"

text \<open>\<open>out\<close> is null when \<open>out_null\<close>; otherwise what is stored through it is the result.\<close>

definition mouse_poll :: "bool \<Rightarrow> mouse \<Rightarrow> mouse_state option \<times> mouse" where
  "mouse_poll out_null m =
     (if out_null \<or> \<not> mouse_updated m then (None, m)
      else (Some \<lparr>ms_x = mouse_x m, ms_y = mouse_y m, ms_buttons = mouse_buttons m, ms_dx = mouse_dx m, ms_dy = mouse_dy m\<rparr>,
            m\<lparr>mouse_updated := False\<rparr>))"

subsection \<open>The pointer stays on the screen\<close>

definition mouse_ok :: "mouse \<Rightarrow> bool" where
  "mouse_ok m \<longleftrightarrow> length (packet m) = 3 \<and> packet_index m < 3 \<and> 0 < screen_w m \<and> 0 < screen_h m \<and>
     0 \<le> mouse_x m \<and> mouse_x m < screen_w m \<and> 0 \<le> mouse_y m \<and> mouse_y m < screen_h m"

lemma clamp_bounds: "0 < w \<Longrightarrow> 0 \<le> clamp w x \<and> clamp w x < w"
  by (auto simp: clamp_def Let_def)

lemma clamp_id: "0 \<le> x \<Longrightarrow> x < w \<Longrightarrow> clamp w x = x"
  by (auto simp: clamp_def Let_def)

lemma mouse_handler_ok: "mouse_ok m \<Longrightarrow> mouse_ok (mouse_irq_handler status data m)"
  using clamp_bounds [of "screen_w m"] clamp_bounds [of "screen_h m"]
  by (auto simp: mouse_ok_def mouse_irq_handler_def move_pointer_def Let_def)

lemma irq_ok: "mouse_ok m \<Longrightarrow> mouse_ok (fst (mouse_irq b d m))"
  by (auto simp: mouse_irq_def mouse_handler_ok split: prod.splits)

lemma set_bounds_ok: "mouse_ok m \<Longrightarrow> mouse_ok (mouse_set_bounds w h m)"
  by (auto simp: mouse_ok_def mouse_set_bounds_def Let_def)

lemma reset_ok: "mouse_ok m \<Longrightarrow> mouse_ok (mouse_reset m)"
  by (simp add: mouse_ok_def mouse_reset_def) linarith

lemma mouse_init_ok: "mouse_ok m \<Longrightarrow> mouse_init b d m = Some (m', d') \<Longrightarrow> mouse_ok m'"
  by (auto simp: mouse_init_def reset_ok split: bind_splits prod.splits)

lemma poll_ok: "mouse_ok m \<Longrightarrow> mouse_ok (snd (mouse_poll out_null m))"
  by (auto simp: mouse_ok_def mouse_poll_def)

text \<open>What can happen to the driver.\<close>

inductive mstep :: "'d bus \<Rightarrow> mouse \<Rightarrow> mouse \<Rightarrow> bool" for b where
  irq: "mouse_irq b d m = (m', d') \<Longrightarrow> mstep b m m'"
| bounds: "mstep b m (mouse_set_bounds w h m)"
| init: "mouse_init b d m = Some (m', d') \<Longrightarrow> mstep b m m'"
| take: "mouse_poll n m = (r, m') \<Longrightarrow> mstep b m m'"

lemma mstep_ok: "mstep b m m' \<Longrightarrow> mouse_ok m \<Longrightarrow> mouse_ok m'"
proof (induction rule: mstep.induct)
  case (irq d m m' d')
  then show ?case using irq_ok [of m b d] by simp
next
  case (take n m r m')
  then show ?case using poll_ok [of m n] by simp
qed (auto intro: set_bounds_ok mouse_init_ok)

lemma msteps_ok: "(mstep b)\<^sup>*\<^sup>* m m' \<Longrightarrow> mouse_ok m \<Longrightarrow> mouse_ok m'"
  by (induction rule: rtranclp_induct) (auto intro: mstep_ok)

subsection \<open>Streams of packets\<close>

text \<open>Reference: the pointer after a packet with buttons \<open>b\<close> and movement \<open>dx\<close>, \<open>dy\<close>.\<close>

definition moved :: "byte \<times> byte \<times> byte \<Rightarrow> int \<times> int \<Rightarrow> int \<times> int \<Rightarrow> int \<times> int" where
  "moved pk = (\<lambda>(w, h) (x, y). case pk of (_, dx, dy) \<Rightarrow> (clamp w (x + sint dx), clamp h (y - sint dy)))"

definition feed_bytes :: "byte list \<Rightarrow> mouse \<Rightarrow> mouse" where
  "feed_bytes bs = fold (mouse_irq_handler 0x20) bs"

lemma feed_bytes_simps [simp]:
  "feed_bytes [] m = m" "feed_bytes (x # xs) m = feed_bytes xs (mouse_irq_handler 0x20 x m)"
  "feed_bytes (xs @ ys) m = feed_bytes ys (feed_bytes xs m)"
  by (simp_all add: feed_bytes_def)

definition same_screen :: "mouse \<Rightarrow> mouse \<Rightarrow> bool" where
  "same_screen m m' \<longleftrightarrow> screen_w m' = screen_w m \<and> screen_h m' = screen_h m"

lemma packet_moves:
  assumes "length (packet m) = 3" "packet_index m = 0" "b AND 0x08 \<noteq> 0"
  shows "let m' = feed_bytes [b, dx, dy] m in
     (mouse_x m', mouse_y m') = moved (b, dx, dy) (screen_w m, screen_h m) (mouse_x m, mouse_y m) \<and>
     same_screen m m' \<and> length (packet m') = 3 \<and> packet_index m' = 0 \<and>
     mouse_buttons m' = b AND 0x07 \<and> mouse_updated m'"
  using assms by (simp add: mouse_irq_handler_def move_pointer_def moved_def same_screen_def Let_def nth_list_update)

lemma noise_ignored:
  "packet_index m = 0 \<Longrightarrow> \<forall>x \<in> set xs. x AND 0x08 = 0 \<Longrightarrow> feed_bytes xs m = m"
  by (induction xs) (auto simp: mouse_irq_handler_def)

lemma packets_move:
  assumes "length (packet m) = 3" "packet_index m = 0" "\<forall>(b, dx, dy) \<in> set pks. b AND 0x08 \<noteq> 0"
  shows "let m' = feed_bytes (concat (map (\<lambda>(b, dx, dy). [b, dx, dy]) pks)) m in
     (mouse_x m', mouse_y m') = fold (\<lambda>pk. moved pk (screen_w m, screen_h m)) pks (mouse_x m, mouse_y m) \<and> same_screen m m'"
  using assms
proof (induction pks arbitrary: m)
  case Nil
  then show ?case by (simp add: same_screen_def)
next
  case (Cons pk pks)
  obtain b dx dy where pk: "pk = (b, dx, dy)" by (cases pk)
  let ?m = "feed_bytes [b, dx, dy] m"
  have one: "(mouse_x ?m, mouse_y ?m) = moved pk (screen_w m, screen_h m) (mouse_x m, mouse_y m)"
      "same_screen m ?m" "length (packet ?m) = 3" "packet_index ?m = 0"
    using packet_moves [of m b dx dy] Cons.prems pk by (auto simp: Let_def)
  have rest: "\<forall>(b, dx, dy) \<in> set pks. b AND 0x08 \<noteq> 0" using Cons.prems by auto
  show ?case
    using Cons.IH [OF one(3,4) rest] one(1,2) pk by (simp add: Let_def same_screen_def)
qed

text \<open>
  The pointer is always on the screen: from the initial state, after any sequence of
  interrupts with arbitrary bytes, changes of the screen size, initialisations and polls,
  \<open>0 \<le> mouse_x < screen_w\<close> and \<open>0 \<le> mouse_y < screen_h\<close> and the packet buffer is not overrun.
\<close>

definition mouse_boot :: mouse where
  "mouse_boot = \<lparr>mouse_x = 0, mouse_y = 0, mouse_buttons = 0, mouse_dx = 0, mouse_dy = 0, mouse_updated = False,
     screen_w = 800, screen_h = 600, packet = replicate 3 0, packet_index = 0\<rparr>"

lemma pointer_on_screen:
  assumes "(mstep b)\<^sup>*\<^sup>* mouse_boot m"
  shows "mouse_ok m"
  by (rule msteps_ok [OF assms]) (simp add: mouse_boot_def mouse_ok_def)

definition script_bus :: "byte list bus" where
  "script_bus = \<lparr>inb = (\<lambda>p d. case d of [] \<Rightarrow> (0, []) | v # d \<Rightarrow> (v, d)), outb = (\<lambda>_ _ d. d),
     inw = (\<lambda>_ d. (0, d)), outw = (\<lambda>_ _ d. d)\<rparr>"

lemma pointer_on_screen_witness: "mouse_ok (mouse_set_bounds 640 480 (mouse_irq_handler 0x20 0x08 mouse_boot))"
proof -
  have "mouse_irq script_bus [0x20, 0x08] mouse_boot = (mouse_irq_handler 0x20 0x08 mouse_boot, [])"
    by (simp add: mouse_irq_def script_bus_def)
  then have "(mstep script_bus)\<^sup>*\<^sup>* mouse_boot (mouse_set_bounds 640 480 (mouse_irq_handler 0x20 0x08 mouse_boot))"
    by (meson mstep.irq mstep.bounds rtranclp.rtrancl_into_rtrancl rtranclp.rtrancl_refl)
  then show ?thesis by (rule pointer_on_screen)
qed

end
