(* ===== verification/Keyboard.thy ===== *)
theory Keyboard
  imports Ports
begin

text \<open>
  The PS/2 keyboard driver, \<open>kernel/keyboard.c\<close>: the interrupt handler that turns scancodes into
  characters and puts them into a ring buffer, the readers of the buffer, line input, and the
  initialisation of the controller.

  The handler interrupts the readers at any point. \<open>kstep\<close> interleaves the handler with the single
  memory accesses of \<open>dequeue_char\<close>; the buffer is shown to be a FIFO queue that loses nothing it
  accepted.
\<close>

subsection \<open>The ring buffer\<close>

abbreviation (input) KBD_BUF_SIZE :: nat where "KBD_BUF_SIZE \<equiv> 256"

record kbd =
  kbd_buf :: "nat \<Rightarrow> char"
  kbd_head :: u32
  kbd_tail :: u32
  shift_down :: bool
  extended_key :: bool

definition enqueue_char :: "char \<Rightarrow> kbd \<Rightarrow> kbd" where
  "enqueue_char c k =
     (let next = (kbd_head k + 1) mod 256 in
      if next = kbd_tail k then k
      else k\<lparr>kbd_buf := (kbd_buf k)(unat (kbd_head k) := c), kbd_head := next\<rparr>)"

definition dequeue_char :: "kbd \<Rightarrow> char option \<times> kbd" where
  "dequeue_char k =
     (if kbd_head k = kbd_tail k then (None, k)
      else (Some (kbd_buf k (unat (kbd_tail k))), k\<lparr>kbd_tail := (kbd_tail k + 1) mod 256\<rparr>))"

definition keyboard_flush :: "kbd \<Rightarrow> kbd" where
  "keyboard_flush k = k\<lparr>kbd_head := 0, kbd_tail := 0, extended_key := False\<rparr>"

text \<open>\<open>out\<close> is null when \<^const>\<open>None\<close>; the character stored through it is the result.\<close>

definition keyboard_try_getchar :: "bool \<Rightarrow> kbd \<Rightarrow> char option \<times> kbd" where
  "keyboard_try_getchar out_null k = (if out_null then (None, k) else dequeue_char k)"

subsection \<open>Scancodes\<close>

abbreviation (input) KEY_UP :: char where "KEY_UP \<equiv> CHR 0x80"
abbreviation (input) KEY_DOWN :: char where "KEY_DOWN \<equiv> CHR 0x81"
abbreviation (input) KEY_LEFT :: char where "KEY_LEFT \<equiv> CHR 0x82"
abbreviation (input) KEY_RIGHT :: char where "KEY_RIGHT \<equiv> CHR 0x83"
abbreviation (input) KEY_HOME :: char where "KEY_HOME \<equiv> CHR 0x84"
abbreviation (input) KEY_END :: char where "KEY_END \<equiv> CHR 0x85"
abbreviation (input) KEY_PGUP :: char where "KEY_PGUP \<equiv> CHR 0x86"
abbreviation (input) KEY_PGDN :: char where "KEY_PGDN \<equiv> CHR 0x87"
abbreviation (input) KEY_DELETE :: char where "KEY_DELETE \<equiv> CHR 0x88"

definition map_normal :: string where
  "map_normal =
     [NUL, CHR 0x1B] @ ''1234567890-='' @ [CHR 0x08, CHR 0x09] @ ''qwertyuiop[]'' @ [CHR 0x0A, NUL] @
     ''asdfghjkl;'' @ [CHR 0x27, CHR 0x60, NUL, CHR 0x5C] @ ''zxcvbnm,./'' @ [NUL] @ ''*'' @ [NUL] @ '' '' @
     replicate 70 NUL"

definition map_shift :: string where
  "map_shift =
     [NUL, CHR 0x1B] @ ''!@#$%^&*()_+'' @ [CHR 0x08, CHR 0x09] @ ''QWERTYUIOP{}'' @ [CHR 0x0A, NUL] @
     ''ASDFGHJKL:'' @ [CHR 0x22, CHR 0x7E, NUL, CHR 0x7C] @ ''ZXCVBNM<>?'' @ [NUL] @ ''*'' @ [NUL] @ '' '' @
     replicate 70 NUL"

definition extended_char :: "byte \<Rightarrow> char" where
  "extended_char sc =
     (if sc = 0x48 then KEY_UP else if sc = 0x50 then KEY_DOWN else if sc = 0x4B then KEY_LEFT
      else if sc = 0x4D then KEY_RIGHT else if sc = 0x47 then KEY_HOME else if sc = 0x4F then KEY_END
      else if sc = 0x49 then KEY_PGUP else if sc = 0x51 then KEY_PGDN else if sc = 0x53 then KEY_DELETE
      else NUL)"

text \<open>The handler after \<open>scancode = inb(PS2_DATA_PORT)\<close>.\<close>

definition keyboard_irq_handler :: "byte \<Rightarrow> kbd \<Rightarrow> kbd" where
  "keyboard_irq_handler scancode k =
     (if scancode = 0xE0 then k\<lparr>extended_key := True\<rparr>
      else if scancode = 0x2A \<or> scancode = 0x36 then k\<lparr>shift_down := True, extended_key := False\<rparr>
      else if scancode = 0xAA \<or> scancode = 0xB6 then k\<lparr>shift_down := False, extended_key := False\<rparr>
      else if scancode AND 0x80 \<noteq> 0 then k\<lparr>extended_key := False\<rparr>
      else let (ch, k) =
          (if extended_key k then (extended_char scancode, k\<lparr>extended_key := False\<rparr>)
           else (if shift_down k then map_shift ! unat scancode else map_normal ! unat scancode, k)) in
        if ch \<noteq> NUL then enqueue_char ch k else k)"

subsection \<open>Line input\<close>

text \<open>
  \<open>keyboard_readline\<close> works on the characters \<open>keyboard_getchar\<close> returns one after the other; \<open>inp\<close>
  are those it will return. The result is the buffer, what was echoed with \<open>vga_putc\<close> and the
  characters not consumed, or \<^const>\<open>None\<close> while it still waits for input. A store past the buffer
  would show as an error: \<open>Some (Inl ())\<close>.
\<close>

fun readline_loop :: "nat \<Rightarrow> nat \<Rightarrow> string \<Rightarrow> string \<Rightarrow> string \<Rightarrow> (unit + string \<times> string \<times> string) option" where
  "readline_loop max_len i buf echo [] = None"
| "readline_loop max_len i buf echo (c # inp) =
     (if c = CHR 0x0D then readline_loop max_len i buf echo inp
      else if c = CHR 0x0A then
        if i < length buf then Some (Inr (buf[i := NUL], echo @ [CHR 0x0A], inp)) else Some (Inl ())
      else if c = CHR 0x08 then
        if i > 0 then readline_loop max_len (i - 1) buf (echo @ [CHR 0x08]) inp
        else readline_loop max_len i buf echo inp
      else if i + 1 < max_len \<and> 32 \<le> ord c \<and> ord c \<le> 126 then
        if i < length buf then readline_loop max_len (i + 1) (buf[i := c]) (echo @ [c]) inp else Some (Inl ())
      else readline_loop max_len i buf echo inp)"

definition keyboard_readline :: "nat \<Rightarrow> string \<Rightarrow> string \<Rightarrow> (unit + string \<times> string \<times> string) option" where
  "keyboard_readline max_len buf inp =
     (if max_len = 0 then Some (Inr (buf, [], inp)) else readline_loop max_len 0 buf [] inp)"

subsection \<open>The controller\<close>

definition ps2_wait_read :: "'d bus \<Rightarrow> 'd \<Rightarrow> 'd option" where
  "ps2_wait_read b d = map_option snd (poll b 0x64 (\<lambda>v. v AND 0x01 \<noteq> 0) d)"

definition ps2_wait_write :: "'d bus \<Rightarrow> 'd \<Rightarrow> 'd option" where
  "ps2_wait_write b d = map_option snd (poll b 0x64 (\<lambda>v. v AND 0x02 = 0) d)"

definition ps2_write_cmd :: "'d bus \<Rightarrow> byte \<Rightarrow> 'd \<Rightarrow> 'd option" where
  "ps2_write_cmd b cmd d = do { d \<leftarrow> ps2_wait_write b d; Some (outb b 0x64 cmd d) }"

definition ps2_read_data :: "'d bus \<Rightarrow> 'd \<Rightarrow> (byte \<times> 'd) option" where
  "ps2_read_data b d = do { d \<leftarrow> ps2_wait_read b d; Some (inb b 0x60 d) }"

definition ps2_write_data :: "'d bus \<Rightarrow> byte \<Rightarrow> 'd \<Rightarrow> 'd option" where
  "ps2_write_data b val d = do { d \<leftarrow> ps2_wait_write b d; Some (outb b 0x60 val d) }"

definition status_bits :: "byte \<Rightarrow> byte" where
  "status_bits status = (((status AND NOT 0x10) AND NOT 0x20) OR 0x01) AND NOT 0x40"

definition keyboard_init :: "'d bus \<Rightarrow> 'd \<Rightarrow> kbd \<Rightarrow> (kbd \<times> 'd) option" where
  "keyboard_init b d k =
     do {
       d \<leftarrow> ps2_write_cmd b 0xAE d;
       d \<leftarrow> ps2_write_cmd b 0x20 d;
       (status, d) \<leftarrow> ps2_read_data b d;
       d \<leftarrow> ps2_write_cmd b 0x60 d;
       d \<leftarrow> ps2_write_data b (status_bits status) d;
       d \<leftarrow> ps2_write_data b 0xF0 d;
       (_, d) \<leftarrow> ps2_read_data b d;
       d \<leftarrow> ps2_write_data b 0x01 d;
       (_, d) \<leftarrow> ps2_read_data b d;
       d \<leftarrow> ps2_write_data b 0xF4 d;
       (_, d) \<leftarrow> ps2_read_data b d;
       Some (k\<lparr>kbd_head := 0, kbd_tail := 0, shift_down := False, extended_key := False\<rparr>, d)
     }"

subsection \<open>Queues of bounded length\<close>

text \<open>The contract of a bounded FIFO queue that drops what does not fit.\<close>

locale bounded_queue =
  fixes cap :: nat
    and ok :: "'s \<Rightarrow> bool"
    and contents :: "'s \<Rightarrow> 'a list"
    and enq :: "'a \<Rightarrow> 's \<Rightarrow> 's"
    and deq :: "'s \<Rightarrow> 'a option \<times> 's"
  assumes enq_ok: "ok s \<Longrightarrow> ok (enq a s)"
    and enq_contents: "ok s \<Longrightarrow> contents (enq a s) = (if length (contents s) < cap then contents s @ [a] else contents s)"
    and deq_ok: "ok s \<Longrightarrow> ok (snd (deq s))"
    and deq_contents: "ok s \<Longrightarrow> fst (deq s) = (case contents s of [] \<Rightarrow> None | x # _ \<Rightarrow> Some x) \<and>
      contents (snd (deq s)) = tl (contents s)"
begin

lemma fold_enq:
  "ok s \<Longrightarrow> ok (fold enq xs s) \<and> contents (fold enq xs s) = contents s @ take (cap - length (contents s)) xs"
proof (induction xs arbitrary: s)
  case (Cons x xs)
  have IH: "ok (fold enq xs (enq x s)) \<and>
    contents (fold enq xs (enq x s)) = contents (enq x s) @ take (cap - length (contents (enq x s))) xs"
    using Cons.IH [OF enq_ok [OF Cons.prems]] .
  show ?case
  proof (cases "length (contents s) < cap")
    case True
    then have "cap - length (contents s) = Suc (cap - length (contents s @ [x]))" by simp
    then show ?thesis using IH True enq_contents [OF Cons.prems, of x] by simp
  next
    case False
    then show ?thesis using IH enq_contents [OF Cons.prems, of x] by simp
  qed
qed simp

end

subsection \<open>The ring buffer is a bounded queue\<close>

definition kbd_ok :: "kbd \<Rightarrow> bool" where
  "kbd_ok k \<longleftrightarrow> unat (kbd_head k) < KBD_BUF_SIZE \<and> unat (kbd_tail k) < KBD_BUF_SIZE"

definition kbd_count :: "kbd \<Rightarrow> nat" where
  "kbd_count k = (unat (kbd_head k) + KBD_BUF_SIZE - unat (kbd_tail k)) mod KBD_BUF_SIZE"

definition kbd_queue :: "kbd \<Rightarrow> string" where
  "kbd_queue k = map (\<lambda>i. kbd_buf k ((unat (kbd_tail k) + i) mod KBD_BUF_SIZE)) [0..<kbd_count k]"

lemma unat_next: "unat h < 256 \<Longrightarrow> unat ((h + 1) mod 256 :: u32) = (unat h + 1) mod 256"
  by (simp add: unat_mod_distrib unat_word_ariths)

text \<open>The arithmetic of the indices, without remainders.\<close>

lemma ring_count: "h < 256 \<Longrightarrow> t < 256 \<Longrightarrow> (h + 256 - t) mod 256 = (if t \<le> h then h - t else h + 256 - t)" for h t :: nat
  by (auto simp: mod_if)

lemma ring_index: "t < 256 \<Longrightarrow> i \<le> 256 \<Longrightarrow> (t + i) mod 256 = (if t + i < 256 then t + i else t + i - 256)" for t i :: nat
  by (auto simp: mod_if)

lemma kbd_count_eq:
  "kbd_ok k \<Longrightarrow> kbd_count k = (if unat (kbd_tail k) \<le> unat (kbd_head k) then unat (kbd_head k) - unat (kbd_tail k)
     else unat (kbd_head k) + 256 - unat (kbd_tail k))"
  unfolding kbd_count_def kbd_ok_def by (simp add: ring_count)

lemma kbd_count_less: "kbd_count k < 256"
  by (simp add: kbd_count_def)

lemma length_kbd_queue [simp]: "length (kbd_queue k) = kbd_count k"
  by (simp add: kbd_queue_def)

lemma next_eq_tail:
  assumes "kbd_ok k"
  shows "(kbd_head k + 1) mod 256 = kbd_tail k \<longleftrightarrow> kbd_count k = KBD_BUF_SIZE - 1"
proof -
  have "(kbd_head k + 1) mod 256 = kbd_tail k \<longleftrightarrow> (unat (kbd_head k) + 1) mod 256 = unat (kbd_tail k)"
    using assms unat_next [of "kbd_head k"] by (simp add: word_unat_eq_iff kbd_ok_def)
  also have "\<dots> \<longleftrightarrow> kbd_count k = 255"
    using assms kbd_count_eq [OF assms] ring_index [of "unat (kbd_head k)" 1] by (auto simp: kbd_ok_def split: if_splits)
  finally show ?thesis by simp
qed

lemma enqueue_ok: "kbd_ok k \<Longrightarrow> kbd_ok (enqueue_char c k)"
  using unat_next [of "kbd_head k"] by (simp add: enqueue_char_def kbd_ok_def Let_def)

lemma enqueue_queue:
  assumes k: "kbd_ok k"
  shows "kbd_queue (enqueue_char c k) = (if kbd_count k < KBD_BUF_SIZE - 1 then kbd_queue k @ [c] else kbd_queue k)"
proof (cases "kbd_count k = 255")
  case True
  then show ?thesis using next_eq_tail [OF k] by (simp add: enqueue_char_def)
next
  case False
  let ?h = "unat (kbd_head k)" and ?t = "unat (kbd_tail k)" and ?k = "enqueue_char c k"
  have b: "?h < 256" "?t < 256" using k by (simp_all add: kbd_ok_def)
  have lt: "kbd_count k < 255" using False kbd_count_less [of k] by simp
  have e: "?k = k\<lparr>kbd_buf := (kbd_buf k)(?h := c), kbd_head := (kbd_head k + 1) mod 256\<rparr>"
    using next_eq_tail [OF k] False by (simp add: enqueue_char_def Let_def)
  have cnt: "kbd_count ?k = Suc (kbd_count k)"
    using b lt unat_next [OF b(1)] kbd_count_eq [OF k] kbd_count_eq [OF enqueue_ok [OF k], of c] ring_index [OF b(1), of 1]
    by (auto simp: e split: if_splits)
  have pos: "(?t + kbd_count k) mod 256 = ?h"
    using b lt kbd_count_eq [OF k] ring_index [OF b(2), of "kbd_count k"] by (auto split: if_splits)
  have old: "(?t + i) mod 256 \<noteq> ?h" if "i < kbd_count k" for i
    using that b lt kbd_count_eq [OF k] ring_index [OF b(2), of i] by (auto split: if_splits)
  have "kbd_queue ?k = map (\<lambda>i. ((kbd_buf k)(?h := c)) ((?t + i) mod 256)) [0..<Suc (kbd_count k)]"
    using cnt by (simp add: kbd_queue_def e)
  then show ?thesis using lt pos old by (simp add: kbd_queue_def)
qed

lemma dequeue_ok: "kbd_ok k \<Longrightarrow> kbd_ok (snd (dequeue_char k))"
  using unat_next [of "kbd_tail k"] by (simp add: dequeue_char_def kbd_ok_def)

text \<open>Advancing the tail drops the first character.\<close>

lemma advance_queue:
  assumes k: "kbd_ok k" and ne: "kbd_head k \<noteq> kbd_tail k"
  shows "kbd_queue k = kbd_buf k (unat (kbd_tail k)) # kbd_queue (k\<lparr>kbd_tail := (kbd_tail k + 1) mod 256\<rparr>)"
proof -
  let ?h = "unat (kbd_head k)" and ?t = "unat (kbd_tail k)" and ?k = "k\<lparr>kbd_tail := (kbd_tail k + 1) mod 256\<rparr>"
  have b: "?h < 256" "?t < 256" "?h \<noteq> ?t" using k ne by (simp_all add: kbd_ok_def word_unat_eq_iff)
  have cnt: "kbd_count k = Suc (kbd_count ?k)"
  proof -
    have "kbd_ok ?k" using k unat_next [OF b(2)] by (simp add: kbd_ok_def)
    then show ?thesis
      using b unat_next [OF b(2)] kbd_count_eq [OF k] kbd_count_eq [of ?k] ring_index [OF b(2), of 1] by (auto split: if_splits)
  qed
  have ix: "((?t + 1) mod 256 + i) mod 256 = (?t + Suc i) mod 256" for i by (simp add: mod_simps)
  have "kbd_queue k = kbd_buf k (?t mod 256) # map (\<lambda>i. kbd_buf k ((?t + Suc i) mod 256)) [0..<kbd_count ?k]"
    unfolding kbd_queue_def cnt upt_conv_Cons [OF zero_less_Suc] by (simp add: map_Suc_upt [symmetric] comp_def del: upt_Suc)
  then show ?thesis using b unat_next [OF b(2)] ix by (simp add: kbd_queue_def)
qed

lemma queue_empty_iff: "kbd_ok k \<Longrightarrow> kbd_queue k = [] \<longleftrightarrow> kbd_head k = kbd_tail k"
  using kbd_count_eq [of k] by (auto simp: kbd_queue_def kbd_ok_def word_unat_eq_iff split: if_splits)

interpretation kq: bounded_queue "KBD_BUF_SIZE - 1" kbd_ok kbd_queue enqueue_char dequeue_char
proof (unfold_locales, goal_cases)
  case (2 s a)
  then show ?case using enqueue_queue by simp
next
  case (4 s)
  show ?case
  proof (cases "kbd_head s = kbd_tail s")
    case True
    then show ?thesis using queue_empty_iff [OF 4] by (simp add: dequeue_char_def)
  next
    case False
    then show ?thesis using advance_queue [OF 4 False] by (simp add: dequeue_char_def)
  qed
qed (simp_all add: enqueue_ok dequeue_ok)

subsection \<open>The handler and the readers interleaved\<close>

text \<open>What one scancode types, given the flags.\<close>

definition typed :: "byte \<Rightarrow> kbd \<Rightarrow> string" where
  "typed sc k =
     (if sc = 0xE0 \<or> sc = 0x2A \<or> sc = 0x36 \<or> sc AND 0x80 \<noteq> 0 then []
      else let ch = (if extended_key k then extended_char sc
                     else if shift_down k then map_shift ! unat sc else map_normal ! unat sc) in
        if ch = NUL then [] else [ch])"

lemma kbd_queue_flags [simp]:
  "kbd_queue (k\<lparr>extended_key := x\<rparr>) = kbd_queue k" "kbd_queue (k\<lparr>shift_down := y\<rparr>) = kbd_queue k"
  "kbd_ok (k\<lparr>extended_key := x\<rparr>) = kbd_ok k" "kbd_ok (k\<lparr>shift_down := y\<rparr>) = kbd_ok k"
  "kbd_count (k\<lparr>extended_key := x\<rparr>) = kbd_count k"
  by (simp_all add: kbd_queue_def kbd_count_def kbd_ok_def)

lemma handler_ok: "kbd_ok k \<Longrightarrow> kbd_ok (keyboard_irq_handler sc k)"
  by (auto simp: keyboard_irq_handler_def Let_def enqueue_ok)

lemma release_codes: "(0xAA :: byte) AND 0x80 \<noteq> 0" "(0xB6 :: byte) AND 0x80 \<noteq> 0"
  by simp_all

lemma handler_queue:
  assumes "kbd_ok k"
  shows "kbd_queue (keyboard_irq_handler sc k) =
    kbd_queue k @ (if kbd_count k < KBD_BUF_SIZE - 1 then typed sc k else [])"
proof (cases "sc = 0xE0 \<or> sc = 0x2A \<or> sc = 0x36 \<or> sc AND 0x80 \<noteq> 0")
  case True
  then show ?thesis by (auto simp: keyboard_irq_handler_def typed_def)
next
  case False
  then have "sc \<noteq> 0xAA" "sc \<noteq> 0xB6" using release_codes by auto
  then show ?thesis
    using False assms by (auto simp: keyboard_irq_handler_def typed_def Let_def enqueue_queue)
qed

text \<open>
  \<open>dequeue_char\<close> in the three memory accesses it makes: the test of the indices, the load of the
  character and the store of the tail. \<open>accepted\<close> and \<open>delivered\<close> record, for the statement only,
  the characters the handler put into the buffer and those the reader returned.
\<close>

datatype reader = Idle | Checked | Taken char

record kmachine =
  kb :: kbd
  reader :: reader
  accepted :: string
  delivered :: string

inductive kstep :: "kmachine \<Rightarrow> kmachine \<Rightarrow> bool" where
  irq: "kstep m (m\<lparr>kb := keyboard_irq_handler sc (kb m),
      accepted := accepted m @ drop (kbd_count (kb m)) (kbd_queue (keyboard_irq_handler sc (kb m)))\<rparr>)"
| check: "reader m = Idle \<Longrightarrow> kbd_head (kb m) \<noteq> kbd_tail (kb m) \<Longrightarrow> kstep m (m\<lparr>reader := Checked\<rparr>)"
| load: "reader m = Checked \<Longrightarrow> kstep m (m\<lparr>reader := Taken (kbd_buf (kb m) (unat (kbd_tail (kb m))))\<rparr>)"
| store: "reader m = Taken c \<Longrightarrow>
    kstep m (m\<lparr>kb := (kb m)\<lparr>kbd_tail := (kbd_tail (kb m) + 1) mod 256\<rparr>, reader := Idle, delivered := delivered m @ [c]\<rparr>)"

definition kinv :: "kmachine \<Rightarrow> bool" where
  "kinv m \<longleftrightarrow> kbd_ok (kb m) \<and> accepted m = delivered m @ kbd_queue (kb m) \<and>
     (case reader m of Idle \<Rightarrow> True | Checked \<Rightarrow> kbd_queue (kb m) \<noteq> []
      | Taken c \<Rightarrow> \<exists>q. kbd_queue (kb m) = c # q)"

lemma kstep_inv:
  assumes "kstep m m'" "kinv m"
  shows "kinv m'"
  using assms
proof cases
  case (irq sc)
  have ok: "kbd_ok (kb m)" using assms(2) by (simp add: kinv_def)
  obtain t where t: "kbd_queue (keyboard_irq_handler sc (kb m)) = kbd_queue (kb m) @ t"
    using handler_queue [OF ok] by blast
  then show ?thesis
    using assms(2) irq handler_ok [OF ok] by (auto simp: kinv_def split: reader.splits)
next
  case check
  then show ?thesis using assms(2) queue_empty_iff by (auto simp: kinv_def)
next
  case load
  then have ok: "kbd_ok (kb m)" "kbd_head (kb m) \<noteq> kbd_tail (kb m)"
    using assms(2) queue_empty_iff by (auto simp: kinv_def)
  then show ?thesis using assms(2) load advance_queue [OF ok] by (simp add: kinv_def)
next
  case (store c)
  then have ok: "kbd_ok (kb m)" and ne: "kbd_head (kb m) \<noteq> kbd_tail (kb m)"
    using assms(2) queue_empty_iff [of "kb m"] by (auto simp: kinv_def)
  have "kbd_ok ((kb m)\<lparr>kbd_tail := (kbd_tail (kb m) + 1) mod 256\<rparr>)"
    using dequeue_ok [OF ok] ne by (simp add: dequeue_char_def)
  then show ?thesis using assms(2) store advance_queue [OF ok ne] by (auto simp: kinv_def)
qed

lemma ksteps_inv: "kstep\<^sup>*\<^sup>* m m' \<Longrightarrow> kinv m \<Longrightarrow> kinv m'"
  by (induction rule: rtranclp_induct) (auto intro: kstep_inv)

subsection \<open>Line editing\<close>

fun line_edit :: "nat \<Rightarrow> string \<Rightarrow> string \<Rightarrow> string" where
  "line_edit n l [] = l"
| "line_edit n l (c # inp) =
     (if c = CHR 0x0A then l
      else if c = CHR 0x08 then line_edit n (butlast l) inp
      else if length l + 1 < n \<and> 32 \<le> ord c \<and> ord c \<le> 126 then line_edit n (l @ [c]) inp
      else line_edit n l inp)"

lemma take_update_Suc: "i < length buf \<Longrightarrow> take (Suc i) (buf[i := c]) = take i buf @ [c]"
  by (simp add: take_Suc_conv_app_nth)

lemma line_edit_cstring: "cstring l \<Longrightarrow> cstring (line_edit n l inp)"
  by (induction n l inp rule: line_edit.induct) (auto simp: cstring_def dest: in_set_butlastD printable_not_NUL)

lemma line_edit_length: "length l < n \<Longrightarrow> length (line_edit n l inp) < n"
  by (induction n l inp rule: line_edit.induct) auto

lemma readline_loop_spec:
  assumes "CHR 0x0A \<in> set inp" "max_len \<le> length buf" "i < max_len"
  shows "\<exists>buf' echo'. readline_loop max_len i buf echo inp =
      Some (Inr (buf', echo', tl (dropWhile (\<lambda>c. c \<noteq> CHR 0x0A) inp))) \<and>
    length buf' = length buf \<and>
    (let l = line_edit max_len (take i buf) inp in take (length l) buf' = l \<and> buf' ! length l = NUL)"
  using assms
proof (induction inp arbitrary: i buf echo)
  case (Cons c inp)
  have li: "length (take i buf) = i" using Cons.prems by simp
  consider (nl) "c = CHR 0x0A" | (bs) "c = CHR 0x08" "0 < i" | (bs0) "c = CHR 0x08" "i = 0"
    | (put) "c \<noteq> CHR 0x0A" "c \<noteq> CHR 0x08" "c \<noteq> CHR 0x0D" "i + 1 < max_len" "32 \<le> ord c" "ord c \<le> 126"
    | (skip) "c \<noteq> CHR 0x0A" "c \<noteq> CHR 0x08" "c = CHR 0x0D \<or> \<not> (i + 1 < max_len \<and> 32 \<le> ord c \<and> ord c \<le> 126)"
    by blast
  then show ?case
  proof cases
    case nl
    then show ?thesis using Cons.prems li by simp
  next
    case bs
    have "butlast (take i buf) = take (i - 1) buf" using Cons.prems by (simp add: butlast_take)
    then show ?thesis using Cons.IH [of buf "i - 1" "echo @ [CHR 0x08]"] Cons.prems bs by simp
  next
    case bs0
    then show ?thesis using Cons.IH [of buf 0 echo] Cons.prems by simp
  next
    case put
    then have "take (i + 1) (buf[i := c]) = take i buf @ [c]" using Cons.prems by (simp add: take_Suc_conv_app_nth)
    then show ?thesis
      using Cons.IH [of "buf[i := c]" "i + 1" "echo @ [c]"] Cons.prems put li by simp
  next
    case skip
    then show ?thesis using Cons.IH [of buf i echo] Cons.prems li by auto
  qed
qed simp

subsection \<open>Properties\<close>

text \<open>
  Property C18. However the interrupt handler and the accesses of the reader interleave, the keyboard
  buffer is a FIFO queue: the characters accepted so far are those the reader has returned, in the
  same order, followed by those still in the buffer, and the buffer holds at most 255.
\<close>

theorem keyboard_fifo:
  assumes "kstep\<^sup>*\<^sup>* m m'" "kbd_ok (kb m)" "reader m = Idle" "accepted m = delivered m @ kbd_queue (kb m)"
  shows "accepted m' = delivered m' @ kbd_queue (kb m') \<and> length (kbd_queue (kb m')) < KBD_BUF_SIZE"
  using ksteps_inv [OF assms(1)] assms(2-4) kbd_count_less by (simp add: kinv_def)

definition empty_kbd :: kbd where
  "empty_kbd = \<lparr>kbd_buf = (\<lambda>_. NUL), kbd_head = 0, kbd_tail = 0, shift_down = False, extended_key = False\<rparr>"

theorem keyboard_fifo_witness:
  "\<exists>m'. kstep\<^sup>*\<^sup>* \<lparr>kb = empty_kbd, reader = Idle, accepted = [], delivered = []\<rparr> m' \<and>
     kbd_queue (kb m') = ''a'' \<and> accepted m' = delivered m' @ kbd_queue (kb m')"
proof -
  let ?m = "\<lparr>kb = empty_kbd, reader = Idle, accepted = [], delivered = []\<rparr>"
  have ok: "kbd_ok empty_kbd" "kbd_queue empty_kbd = []" "kbd_count empty_kbd = 0"
    by (simp_all add: empty_kbd_def kbd_ok_def kbd_queue_def kbd_count_def)
  have ty: "typed 0x1E empty_kbd = ''a''"
    by (simp add: typed_def empty_kbd_def map_normal_def nth_append)
  define m where "m = ?m\<lparr>kb := keyboard_irq_handler 0x1E (kb ?m),
      accepted := accepted ?m @ drop (kbd_count (kb ?m)) (kbd_queue (keyboard_irq_handler 0x1E (kb ?m)))\<rparr>"
  have st: "kstep\<^sup>*\<^sup>* ?m m" unfolding m_def by (rule r_into_rtranclp) (rule kstep.irq)
  have q: "kbd_queue (kb m) = ''a''" using handler_queue [OF ok(1), of "0x1E"] ok ty by (simp add: m_def)
  show ?thesis using keyboard_fifo [OF st] ok q st by auto
qed

text \<open>
  Property C29. \<open>keyboard_readline\<close> returns once a newline is typed, with the edited line as a
  NUL-terminated string of fewer than \<open>max_len\<close> characters, and never stores past the buffer.
\<close>

theorem keyboard_readline_spec:
  assumes "CHR 0x0A \<in> set inp" "max_len \<le> length buf" "0 < max_len"
  shows "\<exists>buf' echo. keyboard_readline max_len buf inp =
      Some (Inr (buf', echo, tl (dropWhile (\<lambda>c. c \<noteq> CHR 0x0A) inp))) \<and> length buf' = length buf \<and>
    takeWhile (\<lambda>c. c \<noteq> NUL) buf' = line_edit max_len [] inp \<and> length (line_edit max_len [] inp) < max_len"
proof -
  let ?l = "line_edit max_len [] inp"
  obtain buf' echo where r: "readline_loop max_len 0 buf [] inp = Some (Inr (buf', echo, tl (dropWhile (\<lambda>c. c \<noteq> CHR 0x0A) inp)))"
    "length buf' = length buf" "take (length ?l) buf' = ?l" "buf' ! length ?l = NUL"
    using readline_loop_spec [OF assms(1,2,3), of "[]"] by (auto simp: Let_def)
  have n: "length ?l < max_len" using line_edit_length [of "[]" max_len inp] assms(3) by simp
  have "buf' = ?l @ NUL # drop (Suc (length ?l)) buf'"
    using r(2-4) n assms(2) by (metis append_take_drop_id Cons_nth_drop_Suc order.strict_trans2)
  moreover have "cstring ?l" by (simp add: line_edit_cstring)
  ultimately have "takeWhile (\<lambda>c. c \<noteq> NUL) buf' = ?l"
    using takeWhile_cstring by metis
  then show ?thesis using r n assms(3) by (auto simp: keyboard_readline_def)
qed

theorem keyboard_readline_spec_witness:
  "\<exists>buf' echo. keyboard_readline 4 (replicate 4 NUL) (''lx'' @ [CHR 0x08] @ ''sabc'' @ [CHR 0x0A] @ ''q'') =
     Some (Inr (buf', echo, ''q'')) \<and> takeWhile (\<lambda>c. c \<noteq> NUL) buf' = ''lsa''"
proof -
  let ?i = "''lx'' @ [CHR 0x08] @ ''sabc'' @ [CHR 0x0A] @ ''q''"
  have "line_edit 4 [] ?i = ''lsa''" "tl (dropWhile (\<lambda>c. c \<noteq> CHR 0x0A) ?i) = ''q''" by simp_all
  then show ?thesis using keyboard_readline_spec [of ?i 4 "replicate 4 NUL"] by auto
qed

end
