(* ===== verification/Fat_Layout.thy ===== *)
theory Fat_Layout
  imports Bytes
begin

text \<open>
  The on-disk layout of the FAT16 volume of \<open>kernel/fs.c\<close> (lines 8 to 267): the geometry
  constants, the boot sector, the file allocation table as a byte buffer with 16-bit little-endian
  cells, the 32-byte directory entries, and the 8.3 file names.
\<close>

subsection \<open>Geometry\<close>

abbreviation (input) FAT_LBA_START :: u32 where "FAT_LBA_START \<equiv> 4096"
abbreviation (input) FAT_TOTAL_SECTORS :: u32 where "FAT_TOTAL_SECTORS \<equiv> 8192"
abbreviation (input) FAT_SECTORS_PER_CLUSTER :: u32 where "FAT_SECTORS_PER_CLUSTER \<equiv> 1"
abbreviation (input) FAT_RESERVED_SECTORS :: u32 where "FAT_RESERVED_SECTORS \<equiv> 1"
abbreviation (input) FAT_FAT_COUNT :: u32 where "FAT_FAT_COUNT \<equiv> 1"
abbreviation (input) FAT_ROOT_ENTRIES :: u32 where "FAT_ROOT_ENTRIES \<equiv> 128"
abbreviation (input) FAT_SECTORS_PER_FAT :: u32 where "FAT_SECTORS_PER_FAT \<equiv> 32"

definition FAT_ROOT_DIR_SECTORS :: u32 where
  "FAT_ROOT_DIR_SECTORS = (FAT_ROOT_ENTRIES * 32 + 511) div 512"

definition FAT_FIRST_DATA_SECTOR :: u32 where
  "FAT_FIRST_DATA_SECTOR =
     FAT_RESERVED_SECTORS + (FAT_FAT_COUNT * FAT_SECTORS_PER_FAT) + FAT_ROOT_DIR_SECTORS"

definition FAT_DATA_SECTORS :: u32 where
  "FAT_DATA_SECTORS = FAT_TOTAL_SECTORS - FAT_FIRST_DATA_SECTOR"

definition FAT_CLUSTER_COUNT :: u32 where
  "FAT_CLUSTER_COUNT = FAT_DATA_SECTORS div FAT_SECTORS_PER_CLUSTER"

abbreviation (input) FAT_CLUSTER_MIN :: nat where "FAT_CLUSTER_MIN \<equiv> 2"

definition FAT_CLUSTER_MAX :: nat where
  "FAT_CLUSTER_MAX = unat (2 + FAT_CLUSTER_COUNT - 1)"

abbreviation (input) FAT16_EOC :: u16 where "FAT16_EOC \<equiv> 0xFFFF"
abbreviation (input) FAT_ATTR_ARCHIVE :: byte where "FAT_ATTR_ARCHIVE \<equiv> 0x20"
abbreviation (input) FS_ATTR_DIRECTORY :: byte where "FS_ATTR_DIRECTORY \<equiv> 0x10"
abbreviation (input) FS_MAX_FILES :: nat where "FS_MAX_FILES \<equiv> 32"
abbreviation (input) FS_MAX_NAME :: nat where "FS_MAX_NAME \<equiv> 23"
abbreviation (input) FS_MAX_FILE_SIZE :: nat where "FS_MAX_FILE_SIZE \<equiv> 4096"
abbreviation (input) FS_MAX_PATH :: nat where "FS_MAX_PATH \<equiv> 128"

definition root_lba :: u32 where
  "root_lba = FAT_LBA_START + FAT_RESERVED_SECTORS + (FAT_FAT_COUNT * FAT_SECTORS_PER_FAT)"

definition data_lba :: u32 where
  "data_lba = FAT_LBA_START + FAT_FIRST_DATA_SECTOR"

definition cluster_lba :: "u16 \<Rightarrow> u32" where
  "cluster_lba cluster = data_lba + (ucast cluster - 2) * FAT_SECTORS_PER_CLUSTER"

lemma geometry [simp]:
  "FAT_ROOT_DIR_SECTORS = 8" "FAT_FIRST_DATA_SECTOR = 41" "FAT_DATA_SECTORS = 8151"
  "FAT_CLUSTER_COUNT = 8151" "FAT_CLUSTER_MAX = 8152" "root_lba = 4129" "data_lba = 4137"
  by (simp_all add: FAT_ROOT_DIR_SECTORS_def FAT_FIRST_DATA_SECTOR_def FAT_DATA_SECTORS_def
      FAT_CLUSTER_COUNT_def FAT_CLUSTER_MAX_def root_lba_def data_lba_def)

text \<open>The clusters that exist: \<open>c >= FAT_CLUSTER_MIN && c <= FAT_CLUSTER_MAX\<close>.\<close>

definition in_range :: "u16 \<Rightarrow> bool" where
  "in_range c \<longleftrightarrow> FAT_CLUSTER_MIN \<le> unat c \<and> unat c \<le> FAT_CLUSTER_MAX"

lemma unat_cluster_lba: "FAT_CLUSTER_MIN \<le> unat c \<Longrightarrow> unat (cluster_lba c) = 4135 + unat c"
proof -
  assume c: "FAT_CLUSTER_MIN \<le> unat c"
  have b: "unat c < 65536" using unsigned_less [of c, where ?'a = nat] by simp
  have u: "unat (ucast c :: u32) = unat c" using b by (simp add: unsigned_ucast_eq take_bit_nat_eq_self)
  have "unat (ucast c - 2 :: u32) = unat c - 2"
    using c by (simp add: unat_sub word_le_nat_alt u)
  then show ?thesis
    using c b by (simp add: cluster_lba_def unat_word_ariths u)
qed

subsection \<open>Boot sector\<close>

text \<open>
  \<open>boot_sector\<close> is the structure \<open>bs\<close> that \<open>write_boot_sector\<close> fills in, at the byte offsets
  of the packed \<open>fat16_boot_sector_t\<close>.
\<close>

definition boot_sector :: buffer where
  "boot_sector =
     (put16 510 0xAA55 \<circ> put_chars 54 ''FAT16   '' \<circ> put_chars 43 ''OSUVOLUME  '' \<circ>
      put32 39 0x20260206 \<circ> put8 38 0x29 \<circ> put8 36 0x80 \<circ> put32 32 0 \<circ>
      put32 28 FAT_LBA_START \<circ> put16 26 16 \<circ> put16 24 63 \<circ>
      put16 22 (ucast FAT_SECTORS_PER_FAT) \<circ> put8 21 0xF8 \<circ>
      put16 19 (ucast FAT_TOTAL_SECTORS) \<circ> put16 17 (ucast FAT_ROOT_ENTRIES) \<circ>
      put8 16 (ucast FAT_FAT_COUNT) \<circ> put16 14 (ucast FAT_RESERVED_SECTORS) \<circ>
      put8 13 (ucast FAT_SECTORS_PER_CLUSTER) \<circ> put16 11 512 \<circ>
      put_chars 3 ''MINIOS  '' \<circ> put8 2 0x90 \<circ> put8 1 0x3C \<circ> put8 0 0xEB)
     (memset (\<lambda>_. 0) 0 0 512)"

definition valid_boot :: "buffer \<Rightarrow> bool" where
  "valid_boot bs =
     (if get16 bs 510 \<noteq> 0xAA55 then False
      else if get16 bs 11 \<noteq> 512 then False
      else if bs 13 \<noteq> ucast FAT_SECTORS_PER_CLUSTER then False
      else if get16 bs 14 \<noteq> ucast FAT_RESERVED_SECTORS then False
      else if bs 16 \<noteq> ucast FAT_FAT_COUNT then False
      else if get16 bs 17 \<noteq> ucast FAT_ROOT_ENTRIES then False
      else if get16 bs 19 \<noteq> ucast FAT_TOTAL_SECTORS then False
      else if get16 bs 22 \<noteq> ucast FAT_SECTORS_PER_FAT then False
      else True)"

lemma valid_boot_cong: "(\<And>k. k < 512 \<Longrightarrow> b k = b' k) \<Longrightarrow> valid_boot b = valid_boot b'"
  by (simp add: valid_boot_def get16_def)

lemma valid_boot_sector: "valid_boot boot_sector"
  by (simp add: valid_boot_def boot_sector_def get16_def put8_def put16_def put32_def put_chars_def
      memcpy_eq)

subsection \<open>The file allocation table\<close>

definition fat_get :: "buffer \<Rightarrow> u16 \<Rightarrow> u16" where
  "fat_get fat cluster =
     (let off = unat cluster * 2 in ucast (fat off) OR push_bit 8 (ucast (fat (off + 1))))"

definition fat_set :: "u16 \<Rightarrow> u16 \<Rightarrow> buffer \<Rightarrow> buffer" where
  "fat_set cluster val fat =
     (let off = unat cluster * 2 in
      fat(off := ucast (val AND 0xFF), off + 1 := ucast (drop_bit 8 val AND 0xFF)))"

lemma and_ff: "(ucast (v AND 0xFF) :: byte) = ucast v" for v :: u16
proof -
  have m: "(0xFF :: u16) = mask 8" by (simp add: mask_eq_exp_minus_1)
  show ?thesis unfolding m by (rule bit_word_eqI) (auto simp: bit_simps)
qed

lemma fat_get_set: "fat_get (fat_set c v fat) d = (if c = d then v else fat_get fat d)"
proof (cases "c = d")
  case True
  then show ?thesis by (simp add: fat_get_def fat_set_def Let_def and_ff le16_join)
next
  case False
  then have "unat c \<noteq> unat d" by (simp add: word_unat_eq_iff)
  then have "unat d * 2 \<noteq> unat c * 2" "unat d * 2 \<noteq> unat c * 2 + 1" "unat d * 2 + 1 \<noteq> unat c * 2"
    "unat d * 2 + 1 \<noteq> unat c * 2 + 1" by presburger+
  then show ?thesis using False by (simp add: fat_get_def fat_set_def Let_def)
qed

lemma fat_get_set_same [layout_simps, simp]: "fat_get (fat_set c v fat) c = v"
  by (simp add: fat_get_set)

lemma fat_get_set_other [layout_simps]: "c \<noteq> d \<Longrightarrow> fat_get (fat_set c v fat) d = fat_get fat d"
  by (simp add: fat_get_set)

text \<open>Every cluster the code follows indexes inside \<open>fat_buf\<close>, which has 32 * 512 bytes.\<close>

lemma fat_offset_in_bounds: "in_range c \<Longrightarrow> unat c * 2 + 1 < 32 * 512"
  by (simp add: in_range_def)

lemma fat_get_cong: "(\<And>k. k < 16384 \<Longrightarrow> f k = g k) \<Longrightarrow> in_range c \<Longrightarrow> fat_get f c = fat_get g c"
  using fat_offset_in_bounds [of c] by (simp add: fat_get_def Let_def)

subsection \<open>Directory entries\<close>

record fat_dir_entry =
  e_name :: string \<comment> \<open>8 characters\<close>
  e_ext :: string \<comment> \<open>3 characters\<close>
  e_attr :: byte
  e_ntres :: byte
  e_crt_time_tenth :: byte
  e_crt_time :: u16
  e_crt_date :: u16
  e_lst_acc_date :: u16
  e_fst_clus_hi :: u16
  e_wrt_time :: u16
  e_wrt_date :: u16
  e_fst_clus_lo :: u16
  e_file_size :: u32

definition entry_ok :: "fat_dir_entry \<Rightarrow> bool" where
  "entry_ok e \<longleftrightarrow> length (e_name e) = 8 \<and> length (e_ext e) = 3"

definition encode_entry :: "fat_dir_entry \<Rightarrow> byte list" where
  "encode_entry e =
     map byte_of (e_name e) @ map byte_of (e_ext e) @
     [e_attr e, e_ntres e, e_crt_time_tenth e] @ le16 (e_crt_time e) @ le16 (e_crt_date e) @
     le16 (e_lst_acc_date e) @ le16 (e_fst_clus_hi e) @ le16 (e_wrt_time e) @
     le16 (e_wrt_date e) @ le16 (e_fst_clus_lo e) @ le32 (e_file_size e)"

definition decode_entry :: "buffer \<Rightarrow> fat_dir_entry" where
  "decode_entry p =
     \<lparr>e_name = map (\<lambda>k. char_of_byte (p k)) [0..<8],
      e_ext = map (\<lambda>k. char_of_byte (p (8 + k))) [0..<3],
      e_attr = p 11, e_ntres = p 12, e_crt_time_tenth = p 13, e_crt_time = get16 p 14,
      e_crt_date = get16 p 16, e_lst_acc_date = get16 p 18, e_fst_clus_hi = get16 p 20,
      e_wrt_time = get16 p 22, e_wrt_date = get16 p 24, e_fst_clus_lo = get16 p 26,
      e_file_size = get32 p 28\<rparr>"

text \<open>\<open>ent[i]\<close> of a directory buffer cast to \<open>fat_dir_entry_t *\<close>, read and stored.\<close>

definition ent :: "buffer \<Rightarrow> nat \<Rightarrow> fat_dir_entry" where
  "ent buf i = decode_entry (\<lambda>k. buf (32 * i + k))"

definition put_ent :: "nat \<Rightarrow> fat_dir_entry \<Rightarrow> buffer \<Rightarrow> buffer" where
  "put_ent i e buf = (\<lambda>k. if k div 32 = i then encode_entry e ! (k mod 32) else buf k)"

text \<open>An entry after \<open>memset(&ent[i], 0, sizeof(fat_dir_entry_t))\<close>.\<close>

definition zero_entry :: fat_dir_entry where
  "zero_entry =
     \<lparr>e_name = replicate 8 NUL, e_ext = replicate 3 NUL, e_attr = 0, e_ntres = 0,
      e_crt_time_tenth = 0, e_crt_time = 0, e_crt_date = 0, e_lst_acc_date = 0,
      e_fst_clus_hi = 0, e_wrt_time = 0, e_wrt_date = 0, e_fst_clus_lo = 0, e_file_size = 0\<rparr>"

abbreviation lead :: "fat_dir_entry \<Rightarrow> byte" where
  "lead e \<equiv> byte_of (e_name e ! 0)"

lemma length_encode_entry: "entry_ok e \<Longrightarrow> length (encode_entry e) = 32"
  by (simp add: encode_entry_def entry_ok_def le16_def le32_def)

lemma entry_ok_decode [simp]: "entry_ok (decode_entry p)"
  by (simp add: entry_ok_def decode_entry_def)

lemma entry_ok_ent [simp]: "entry_ok (ent buf i)"
  by (simp add: ent_def)

lemma entry_ok_zero [simp]: "entry_ok zero_entry"
  by (simp add: entry_ok_def zero_entry_def)

lemma decode_encode_entry:
  assumes "entry_ok e"
  shows "decode_entry (\<lambda>k. encode_entry e ! k) = e"
proof -
  have n: "length (e_name e) = 8" "length (e_ext e) = 3" using assms by (simp_all add: entry_ok_def)
  have [simp]: "map (\<lambda>k. char_of_byte (encode_entry e ! k)) [0..<8] = e_name e"
    by (rule nth_equalityI) (simp_all add: n encode_entry_def nth_append)
  have [simp]: "map (\<lambda>k. char_of_byte (encode_entry e ! (8 + k))) [0..<3] = e_ext e"
    by (rule nth_equalityI) (simp_all add: n encode_entry_def nth_append)
  show ?thesis
    by (rule fat_dir_entry.equality)
      (simp_all add: decode_entry_def, simp_all add: encode_entry_def n nth_append get16_def
        get32_def le16_def le32_def le16_join le32_join)
qed

lemma ent_put_same [simp]: "entry_ok e \<Longrightarrow> ent (put_ent i e buf) i = e"
proof -
  assume e: "entry_ok e"
  have "decode_entry (\<lambda>k. put_ent i e buf (32 * i + k)) = decode_entry (\<lambda>k. encode_entry e ! k)"
    by (simp add: decode_entry_def put_ent_def get16_def get32_def)
  with e show ?thesis by (simp add: ent_def decode_encode_entry)
qed

lemma ent_put_other [simp]: "i \<noteq> j \<Longrightarrow> ent (put_ent i e buf) j = ent buf j"
  by (simp add: ent_def decode_entry_def put_ent_def get16_def get32_def)

lemma ent_cong: "(\<And>k. k < 32 * Suc i \<Longrightarrow> b k = b' k) \<Longrightarrow> ent b i = ent b' i"
  by (simp add: ent_def decode_entry_def get16_def get32_def)

subsection \<open>8.3 names\<close>

definition to_upper_char :: "char \<Rightarrow> char" where
  "to_upper_char c = (if 97 \<le> ord c \<and> ord c \<le> 122 then char_of (ord c - 32) else c)"

definition is_valid_file_char :: "char \<Rightarrow> bool" where
  "is_valid_file_char c =
     (if 65 \<le> ord c \<and> ord c \<le> 90 then True
      else if 48 \<le> ord c \<and> ord c \<le> 57 then True
      else if c = CHR ''_'' \<or> c = CHR ''-'' \<or> c = CHR ''$'' then True
      else False)"

text \<open>
  The two loops of \<open>fat_name_from_input\<close>. The first copies the base name up to a dot or the end
  and also returns where it stopped; the second copies the extension.
\<close>

fun name_base_loop :: "string \<Rightarrow> nat \<Rightarrow> string \<Rightarrow> (string \<times> nat \<times> string) option" where
  "name_base_loop out base_len [] = Some (out, base_len, [])"
| "name_base_loop out base_len (ch # inp) =
     (if ch = NUL \<or> ch = CHR ''.'' then Some (out, base_len, ch # inp)
      else let c = to_upper_char ch in
        if \<not> is_valid_file_char c \<or> base_len \<ge> 8 then None
        else name_base_loop (out[base_len := c]) (base_len + 1) inp)"

fun name_ext_loop :: "string \<Rightarrow> nat \<Rightarrow> string \<Rightarrow> string option" where
  "name_ext_loop out ext_len [] = Some out"
| "name_ext_loop out ext_len (ch # inp) =
     (if ch = NUL then Some out
      else let c = to_upper_char ch in
        if \<not> is_valid_file_char c \<or> ext_len \<ge> 3 then None
        else name_ext_loop (out[8 + ext_len := c]) (ext_len + 1) inp)"

definition fat_name_from_input :: "string \<Rightarrow> string option" where
  "fat_name_from_input inp =
     (case name_base_loop (replicate 11 CHR '' '') 0 inp of
        None \<Rightarrow> None
      | Some (out, base_len, rest) \<Rightarrow>
          if base_len = 0 then None
          else if chd rest = CHR ''.'' then name_ext_loop out 0 (tl rest)
          else Some out)"

text \<open>\<open>out[p++] = c\<close> under the guard \<open>p < FS_MAX_NAME\<close>.\<close>

definition out_char :: "string \<Rightarrow> char \<Rightarrow> string" where
  "out_char out c = (if length out < FS_MAX_NAME then out @ [c] else out)"

fun copy_to_space :: "string \<Rightarrow> string \<Rightarrow> string" where
  "copy_to_space out [] = out"
| "copy_to_space out (c # s) = (if c = CHR '' '' then out else copy_to_space (out_char out c) s)"

definition fat_name_to_printable :: "fat_dir_entry \<Rightarrow> string" where
  "fat_name_to_printable e =
     (let out = copy_to_space [] (take 8 (e_name e)) in
      if e_ext e ! 0 \<noteq> CHR '' '' then copy_to_space (out_char out (CHR ''.'')) (take 3 (e_ext e))
      else out)"

definition valid_name :: "string \<Rightarrow> bool" where
  "valid_name name = (fat_name_from_input name \<noteq> None)"

text \<open>What the loops compute: upper case, padded with blanks.\<close>

definition pad :: "nat \<Rightarrow> string \<Rightarrow> string" where
  "pad n s = s @ replicate (n - length s) CHR '' ''"

definition name_chars :: "string \<Rightarrow> bool" where
  "name_chars s \<longleftrightarrow> list_all (\<lambda>c. is_valid_file_char (to_upper_char c)) s"

lemma list_update_pad:
  "length out = k \<Longrightarrow> k < n \<Longrightarrow> (out @ replicate (n - k) x)[k := c] = (out @ [c]) @ replicate (n - Suc k) x"
  by (cases "n - k") (auto simp: list_update_append Suc_diff_Suc)

lemma replicate_update_0: "k < n \<Longrightarrow> (replicate (n - k) x)[0 := c] = c # replicate (n - Suc k) x"
  by (cases "n - k") (auto simp: Suc_diff_Suc)

lemma name_base_loop_eq:
  assumes "cstring inp"
  shows "length pre \<le> 8 \<Longrightarrow>
    name_base_loop (pre @ replicate (11 - length pre) CHR '' '') (length pre) inp =
     (let b = takeWhile (\<lambda>c. c \<noteq> CHR ''.'') inp in
      if name_chars b \<and> length pre + length b \<le> 8
      then Some (pre @ map to_upper_char b @ replicate (11 - (length pre + length b)) CHR '' '',
                 length pre + length b, dropWhile (\<lambda>c. c \<noteq> CHR ''.'') inp)
      else None)"
  using assms
proof (induction inp arbitrary: pre)
  case Nil
  then show ?case by (simp add: name_chars_def)
next
  case (Cons c inp)
  show ?case
  proof (cases "c \<noteq> CHR ''.'' \<and> is_valid_file_char (to_upper_char c) \<and> length pre < 8")
    case True
    then have "name_base_loop (pre @ replicate (11 - length pre) CHR '' '') (length pre) (c # inp) =
      name_base_loop ((pre @ [to_upper_char c]) @ replicate (11 - length (pre @ [to_upper_char c])) CHR '' '')
        (length (pre @ [to_upper_char c])) inp"
      using Cons.prems by (simp add: list_update_pad [of pre "length pre" 11])
    also have "\<dots> = (let b = takeWhile (\<lambda>c. c \<noteq> CHR ''.'') inp in
      if name_chars b \<and> length (pre @ [to_upper_char c]) + length b \<le> 8
      then Some ((pre @ [to_upper_char c]) @ map to_upper_char b @
                   replicate (11 - (length (pre @ [to_upper_char c]) + length b)) CHR '' '',
                 length (pre @ [to_upper_char c]) + length b, dropWhile (\<lambda>c. c \<noteq> CHR ''.'') inp)
      else None)"
      using True Cons.prems by (intro Cons.IH) simp_all
    finally show ?thesis using True by (simp add: Let_def name_chars_def)
  next
    case False
    with Cons.prems show ?thesis by (auto simp: name_chars_def Let_def)
  qed
qed

lemma name_ext_loop_eq:
  assumes "cstring inp" "length base = 8"
  shows "length pre \<le> 3 \<Longrightarrow>
    name_ext_loop (base @ pre @ replicate (3 - length pre) CHR '' '') (length pre) inp =
     (if name_chars inp \<and> length pre + length inp \<le> 3
      then Some (base @ pad 3 (pre @ map to_upper_char inp)) else None)"
  using assms
proof (induction inp arbitrary: pre)
  case Nil
  then show ?case by (simp add: name_chars_def pad_def)
next
  case (Cons c inp)
  show ?case
  proof (cases "is_valid_file_char (to_upper_char c) \<and> length pre < 3")
    case True
    then have "name_ext_loop (base @ pre @ replicate (3 - length pre) CHR '' '') (length pre) (c # inp) =
      name_ext_loop (base @ (pre @ [to_upper_char c]) @ replicate (3 - length (pre @ [to_upper_char c])) CHR '' '')
        (length (pre @ [to_upper_char c])) inp"
      using Cons.prems by (simp add: list_update_append replicate_update_0)
    also have "\<dots> = (if name_chars inp \<and> length (pre @ [to_upper_char c]) + length inp \<le> 3
      then Some (base @ pad 3 ((pre @ [to_upper_char c]) @ map to_upper_char inp)) else None)"
      using True Cons.prems by (intro Cons.IH) simp_all
    finally show ?thesis using True by (simp add: name_chars_def)
  next
    case False
    with Cons.prems show ?thesis by (auto simp: name_chars_def Let_def)
  qed
qed

definition dir_name :: "string \<Rightarrow> string \<Rightarrow> string" where
  "dir_name b x = pad 8 (map to_upper_char b) @ pad 3 (map to_upper_char x)"

lemma length_dir_name: "length b \<le> 8 \<Longrightarrow> length x \<le> 3 \<Longrightarrow> length (dir_name b x) = 11"
  by (simp add: dir_name_def pad_def)

lemma fat_name_from_input_eq:
  assumes "cstring inp"
  shows "fat_name_from_input inp =
    (let b = takeWhile (\<lambda>c. c \<noteq> CHR ''.'') inp; x = tl (dropWhile (\<lambda>c. c \<noteq> CHR ''.'') inp) in
     if b \<noteq> [] \<and> name_chars b \<and> length b \<le> 8 \<and> name_chars x \<and> length x \<le> 3
     then Some (dir_name b x) else None)"
proof -
  define b where "b = takeWhile (\<lambda>c. c \<noteq> CHR ''.'') inp"
  define r where "r = dropWhile (\<lambda>c. c \<noteq> CHR ''.'') inp"
  have "inp = b @ r" by (simp add: b_def r_def)
  with assms have cr: "cstring r" by simp
  have r: "r = [] \<or> r = CHR ''.'' # tl r"
    unfolding r_def by (cases "dropWhile (\<lambda>c. c \<noteq> CHR ''.'') inp") (auto dest: dropWhile_eq_Cons_conv [THEN iffD1])
  have base: "name_base_loop (replicate 11 CHR '' '') 0 inp =
    (if name_chars b \<and> length b \<le> 8
     then Some (map to_upper_char b @ replicate (11 - length b) CHR '' '', length b, r) else None)"
    using name_base_loop_eq [OF assms, of "[]"] by (simp add: Let_def b_def r_def)
  have spl: "length b \<le> 8 \<Longrightarrow> map to_upper_char b @ replicate (11 - length b) CHR '' '' =
      pad 8 (map to_upper_char b) @ [] @ replicate 3 CHR '' ''"
    by (simp add: pad_def replicate_add [symmetric])
  have ext: "name_ext_loop (pad 8 (map to_upper_char b) @ [] @ replicate 3 CHR '' '') 0 (tl r) =
      (if name_chars (tl r) \<and> length (tl r) \<le> 3 then Some (dir_name b (tl r)) else None)"
    if "length b \<le> 8"
  proof -
    have "cstring (tl r)" using cr by (cases r) simp_all
    with that show ?thesis
      using name_ext_loop_eq [of "tl r" "pad 8 (map to_upper_char b)" "[]"]
      by (simp add: pad_def dir_name_def)
  qed
  show ?thesis
  proof (cases "r = []")
    case True
    then show ?thesis
      unfolding fat_name_from_input_def base
      by (fold b_def r_def) (auto simp: spl Let_def name_chars_def dir_name_def pad_def)
  next
    case False
    with r have c: "chd r = CHR ''.''" by (metis chd_simps(2))
    show ?thesis
      unfolding fat_name_from_input_def base
      by (fold b_def r_def) (auto simp: spl ext c Let_def simp del: append_Nil)
  qed
qed

lemma valid_char_facts:
  assumes "is_valid_file_char c"
  shows "c \<noteq> CHR '' ''" "c \<noteq> CHR ''.''" "c \<noteq> NUL" "to_upper_char c = c" "ord c < 128" "c \<noteq> CHR 0xE5"
  using assms by (auto simp: is_valid_file_char_def to_upper_char_def split: if_splits)

lemma to_upper_idem [simp]: "to_upper_char (to_upper_char c) = to_upper_char c"
  by (auto simp: to_upper_char_def)

lemma name_chars_upper: "name_chars s \<Longrightarrow> name_chars (map to_upper_char s)"
  by (auto simp: name_chars_def list_all_iff)

lemma upper_no_blank:
  "name_chars s \<Longrightarrow> c \<in> set (map to_upper_char s) \<Longrightarrow> is_valid_file_char c"
  by (auto simp: name_chars_def list_all_iff)

lemma copy_to_space_eq:
  "length out + length s \<le> FS_MAX_NAME \<Longrightarrow>
     copy_to_space out s = out @ takeWhile (\<lambda>c. c \<noteq> CHR '' '') s"
  by (induction s arbitrary: out) (auto simp: out_char_def)

lemma takeWhile_pad: "\<forall>c \<in> set s. c \<noteq> CHR '' '' \<Longrightarrow> takeWhile (\<lambda>c. c \<noteq> CHR '' '') (pad n s) = s"
  by (simp add: pad_def takeWhile_append2 takeWhile_replicate)

text \<open>The name of an entry made from \<open>f11\<close> prints as the upper-case input.\<close>

lemma printable_dir_name:
  assumes b: "name_chars b" "length b \<le> 8" and x: "name_chars x" "length x \<le> 3"
    and e: "e_name e = take 8 (dir_name b x)" "e_ext e = drop 8 (dir_name b x)"
  shows "fat_name_to_printable e =
    map to_upper_char b @ (if x = [] then [] else CHR ''.'' # map to_upper_char x)"
proof -
  have n: "e_name e = pad 8 (map to_upper_char b)" "e_ext e = pad 3 (map to_upper_char x)"
    using b x e by (simp_all add: dir_name_def pad_def)
  have l: "length (e_name e) = 8" "length (e_ext e) = 3" using b x by (simp_all add: n pad_def)
  have tb: "takeWhile (\<lambda>c. c \<noteq> CHR '' '') (e_name e) = map to_upper_char b"
    unfolding n using b upper_no_blank valid_char_facts(1) by (intro takeWhile_pad) blast
  have tx: "takeWhile (\<lambda>c. c \<noteq> CHR '' '') (e_ext e) = map to_upper_char x"
    unfolding n using x upper_no_blank valid_char_facts(1) by (intro takeWhile_pad) blast
  have e0: "e_ext e ! 0 = CHR '' '' \<longleftrightarrow> x = []"
    using x by (cases x) (auto simp: n pad_def name_chars_def valid_char_facts)
  have "copy_to_space [] (e_name e) = map to_upper_char b"
    using l by (simp add: copy_to_space_eq tb)
  moreover have "copy_to_space (out_char (map to_upper_char b) CHR ''.'') (e_ext e) =
      map to_upper_char b @ CHR ''.'' # map to_upper_char x"
    using b l by (simp add: copy_to_space_eq out_char_def tx)
  ultimately show ?thesis
    using l e0 by (auto simp: fat_name_to_printable_def Let_def)
qed

lemma from_input_SomeD:
  assumes "cstring n" "fat_name_from_input n = Some f"
  obtains b x where "b \<noteq> []" "name_chars b" "length b \<le> 8" "name_chars x" "length x \<le> 3" "f = dir_name b x"
  using assms by (auto simp: fat_name_from_input_eq Let_def split: if_splits)

lemma from_input_canonical:
  assumes b: "b \<noteq> []" "name_chars b" "length b \<le> 8" and x: "name_chars x" "length x \<le> 3"
  shows "fat_name_from_input (map to_upper_char b @ (if x = [] then [] else CHR ''.'' # map to_upper_char x))
    = Some (dir_name b x)"
proof -
  let ?n = "map to_upper_char b @ (if x = [] then [] else CHR ''.'' # map to_upper_char x)"
  have vb: "\<forall>c \<in> set (map to_upper_char b). c \<noteq> CHR ''.'' \<and> c \<noteq> NUL"
    and vx: "\<forall>c \<in> set (map to_upper_char x). c \<noteq> NUL"
    using b x by (auto simp: name_chars_def list_all_iff dest: valid_char_facts(2,3))
  have "cstring ?n" using vb vx by (auto simp: cstring_def)
  moreover have "takeWhile (\<lambda>c. c \<noteq> CHR ''.'') ?n = map to_upper_char b"
    by (subst takeWhile_append2) (use vb in auto)
  moreover have "tl (dropWhile (\<lambda>c. c \<noteq> CHR ''.'') ?n) = map to_upper_char x"
    by (subst dropWhile_append2) (use vb in auto)
  ultimately show ?thesis
    using b x by (simp add: fat_name_from_input_eq Let_def name_chars_upper dir_name_def comp_def)
qed

lemma from_input_length: "cstring n \<Longrightarrow> fat_name_from_input n = Some f \<Longrightarrow> length f = 11"
  by (erule from_input_SomeD) (auto simp: length_dir_name)

lemma from_input_lead:
  assumes "cstring n" "fat_name_from_input n = Some f"
  shows "byte_of (f ! 0) \<noteq> 0" "byte_of (f ! 0) \<noteq> 0xE5" "f ! 0 \<noteq> CHR ''.''"
proof -
  from assms obtain b x where f: "b \<noteq> []" "name_chars b" "f = dir_name b x"
    by (auto elim: from_input_SomeD)
  then obtain c b' where "b = c # b'" by (cases b) auto
  then have v: "is_valid_file_char (f ! 0)"
    using f by (simp add: dir_name_def pad_def name_chars_def)
  have "ord (f ! 0) \<noteq> 0" "ord (f ! 0) < 128" using valid_char_facts(3,5) [OF v] by auto
  then show "byte_of (f ! 0) \<noteq> 0" "byte_of (f ! 0) \<noteq> 0xE5"
    by (simp_all add: word_unat_eq_iff)
  show "f ! 0 \<noteq> CHR ''.''" using valid_char_facts(2) [OF v] .
qed

subsection \<open>Properties\<close>

text \<open>
  \<open>fat_name_from_input\<close> accepts exactly the names with a base of one to eight and an
  extension of at most three letters, digits or \<open>_-$\<close>, and turns an accepted name into the
  upper-case, blank-padded eleven characters of a directory entry.
\<close>

lemma fat_name_from_input_spec:
  assumes "cstring inp"
  shows "fat_name_from_input inp =
    (let b = takeWhile (\<lambda>c. c \<noteq> CHR ''.'') inp; x = tl (dropWhile (\<lambda>c. c \<noteq> CHR ''.'') inp) in
     if b \<noteq> [] \<and> name_chars b \<and> length b \<le> 8 \<and> name_chars x \<and> length x \<le> 3
     then Some (pad 8 (map to_upper_char b) @ pad 3 (map to_upper_char x)) else None)"
  using fat_name_from_input_eq [OF assms] by (simp add: dir_name_def Let_def)

lemma fat_name_from_input_spec_witness:
  "cstring ''notes.tx'' \<and> fat_name_from_input ''notes.tx'' = Some ''NOTES   TX ''"
proof -
  have "pad 8 (map to_upper_char ''notes'') @ pad 3 (map to_upper_char ''tx'') = ''NOTES   TX ''"
    "name_chars ''notes''" "name_chars ''tx''"
    by (simp_all add: name_chars_def is_valid_file_char_def to_upper_char_def pad_def list_eval)
  then show ?thesis using fat_name_from_input_spec [of "''notes.tx''"] by (simp add: Let_def)
qed

text \<open>
  Property C35. The printable form of a directory entry created from an accepted name is itself an
  accepted name and denotes the same entry: what \<open>ls\<close> shows can be typed back.
\<close>

theorem printable_name_roundtrip:
  assumes "cstring inp" "fat_name_from_input inp = Some f"
    and "e_name e = take 8 f" "e_ext e = drop 8 f"
  shows "fat_name_from_input (fat_name_to_printable e) = Some f"
proof -
  obtain b x where f: "b \<noteq> []" "name_chars b" "length b \<le> 8" "name_chars x" "length x \<le> 3" "f = dir_name b x"
    using from_input_SomeD [OF assms(1,2)] by blast
  have "fat_name_to_printable e = map to_upper_char b @ (if x = [] then [] else CHR ''.'' # map to_upper_char x)"
    using f assms(3,4) by (intro printable_dir_name) simp_all
  then show ?thesis using from_input_canonical f by simp
qed

theorem printable_name_roundtrip_witness:
  "fat_name_from_input ''a-1.py'' = Some ''A-1     PY '' \<and>
   fat_name_from_input (fat_name_to_printable (zero_entry\<lparr>e_name := ''A-1     '', e_ext := ''PY ''\<rparr>))
     = Some ''A-1     PY ''"
proof -
  have i: "fat_name_from_input ''a-1.py'' = Some ''A-1     PY ''"
    by (simp add: fat_name_from_input_eq name_chars_def dir_name_def is_valid_file_char_def
        to_upper_char_def pad_def Let_def list_eval)
  show ?thesis
    using printable_name_roundtrip [OF _ i, of "zero_entry\<lparr>e_name := ''A-1     '', e_ext := ''PY ''\<rparr>"] i
    by simp
qed

end
