(* ===== verification/Drive.thy ===== *)
theory Drive
  imports Kstring
begin

text \<open>
  The block device the filesystem sees through \<open>disk_read_sectors\<close> and \<open>disk_write_sectors\<close>: an
  array of 512-byte sectors, moved one at a time, any one of which the drive may refuse with an
  error status (\<open>ata_poll\<close> returns -1). Which transfers fail is up to the drive: \<open>fault\<close> is an
  arbitrary schedule indexed by the number of transfers attempted so far.
\<close>

record drive =
  sectors :: "nat \<Rightarrow> buffer"
  fault :: "nat \<Rightarrow> bool"
  transfers :: nat

text \<open>The loops over \<open>s\<close> with \<open>n\<close> sectors left to move.\<close>

fun read_from :: "nat \<Rightarrow> nat \<Rightarrow> nat \<Rightarrow> buffer \<Rightarrow> drive \<Rightarrow> int \<times> buffer \<times> drive" where
  "read_from lba 0 s buf d = (0, buf, d)"
| "read_from lba (Suc n) s buf d =
     (if fault d (transfers d) then (- 1, buf, d\<lparr>transfers := Suc (transfers d)\<rparr>)
      else read_from lba n (Suc s) (memcpy buf (s * 512) (sectors d (lba + s)) 0 512)
             (d\<lparr>transfers := Suc (transfers d)\<rparr>))"

fun write_from :: "nat \<Rightarrow> nat \<Rightarrow> nat \<Rightarrow> buffer \<Rightarrow> drive \<Rightarrow> int \<times> drive" where
  "write_from lba 0 s buf d = (0, d)"
| "write_from lba (Suc n) s buf d =
     (if fault d (transfers d) then (- 1, d\<lparr>transfers := Suc (transfers d)\<rparr>)
      else write_from lba n (Suc s) buf
             (d\<lparr>sectors := (sectors d)(lba + s := memcpy (sectors d (lba + s)) 0 buf (s * 512) 512),
                transfers := Suc (transfers d)\<rparr>))"

definition drive_read :: "u32 \<Rightarrow> nat \<Rightarrow> buffer \<Rightarrow> drive \<Rightarrow> int \<times> buffer \<times> drive" where
  "drive_read lba count buf d = read_from (unat lba) count 0 buf d"

definition drive_write :: "u32 \<Rightarrow> nat \<Rightarrow> buffer \<Rightarrow> drive \<Rightarrow> int \<times> drive" where
  "drive_write lba count buf d = write_from (unat lba) count 0 buf d"

text \<open>A drive that refuses no further transfer.\<close>

definition healthy :: "drive \<Rightarrow> bool" where
  "healthy d \<longleftrightarrow> (\<forall>n \<ge> transfers d. \<not> fault d n)"

lemma healthy_step:
  "healthy d \<Longrightarrow> \<not> fault d (transfers d)"
  "healthy d \<Longrightarrow> healthy (d\<lparr>transfers := Suc (transfers d)\<rparr>)"
  "healthy d \<Longrightarrow> healthy (d\<lparr>sectors := m, transfers := Suc (transfers d)\<rparr>)"
  by (simp_all add: healthy_def)

subsection \<open>Reading\<close>

lemma read_from_frame:
  "read_from lba n s buf d = (r, buf', d') \<Longrightarrow>
     sectors d' = sectors d \<and> fault d' = fault d \<and> transfers d \<le> transfers d' \<and> (r = 0 \<or> r = - 1)"
  by (induction n arbitrary: s buf d) (fastforce split: if_splits)+

lemma read_from_ok:
  "read_from lba n s buf d = (0, buf', d') \<Longrightarrow>
     buf' k = (if s * 512 \<le> k \<and> k < (s + n) * 512 then sectors d (lba + k div 512) (k mod 512) else buf k)"
proof (induction n arbitrary: s buf d)
  case 0
  then show ?case by auto
next
  case (Suc n)
  let ?b = "memcpy buf (s * 512) (sectors d (lba + s)) 0 512"
  from Suc.prems have rest: "read_from lba n (Suc s) ?b (d\<lparr>transfers := Suc (transfers d)\<rparr>) = (0, buf', d')"
    by (simp split: if_splits)
  have b: "?b k = (if k div 512 = s then sectors d (lba + s) (k mod 512) else buf k)"
  proof -
    have "s * 512 \<le> k \<and> k < s * 512 + 512 \<longleftrightarrow> k div 512 = s" by auto
    moreover have "k div 512 = s \<Longrightarrow> k - s * 512 = k mod 512" by (simp add: minus_div_mult_eq_mod [symmetric])
    ultimately show ?thesis by (simp add: memcpy_eq)
  qed
  have "k div 512 = s \<Longrightarrow> s * 512 \<le> k \<and> k < (s + Suc n) * 512"
    "\<not> k div 512 = s \<Longrightarrow> (Suc s * 512 \<le> k \<and> k < (Suc s + n) * 512) = (s * 512 \<le> k \<and> k < (s + Suc n) * 512)"
    "k div 512 = s \<Longrightarrow> \<not> (Suc s * 512 \<le> k)"
    by auto
  then show ?case using Suc.IH [OF rest] b by auto
qed

lemma read_from_healthy: "healthy d \<Longrightarrow> read_from lba n s buf d = (r, buf', d') \<Longrightarrow> r = 0 \<and> healthy d'"
proof (induction n arbitrary: s buf d)
  case (Suc n)
  from Suc.prems show ?case by (intro Suc.IH [OF healthy_step(2)]) (simp_all add: healthy_step)
qed simp

lemma drive_read_frame:
  assumes "drive_read lba n buf d = (r, buf', d')"
  shows "sectors d' = sectors d" "fault d' = fault d" "r = 0 \<or> r = - 1" "transfers d \<le> transfers d'"
  using read_from_frame [of "unat lba" n 0 buf d r buf' d'] assms by (simp_all add: drive_read_def)

lemma drive_read_ok:
  assumes "drive_read lba n buf d = (0, buf', d')"
  shows "buf' k = (if k < n * 512 then sectors d (unat lba + k div 512) (k mod 512) else buf k)"
  using read_from_ok [of "unat lba" n 0 buf d buf' d' k] assms by (simp add: drive_read_def)

lemma drive_read_healthy:
  assumes "healthy d" "drive_read lba n buf d = (r, buf', d')"
  shows "r = 0" "healthy d'"
  using read_from_healthy [of d "unat lba" n 0 buf r buf' d'] assms by (simp_all add: drive_read_def)

subsection \<open>Writing\<close>

lemma write_from_frame:
  "write_from lba n s buf d = (r, d') \<Longrightarrow>
     fault d' = fault d \<and> (r = 0 \<or> r = - 1) \<and> transfers d \<le> transfers d' \<and>
     (\<forall>l. \<not> (lba + s \<le> l \<and> l < lba + s + n) \<longrightarrow> sectors d' l = sectors d l)"
proof (induction n arbitrary: s d)
  case 0
  then show ?case by simp
next
  case (Suc n)
  show ?case
  proof (cases "fault d (transfers d)")
    case True
    with Suc.prems show ?thesis by auto
  next
    case False
    with Suc.prems Suc.IH [of "Suc s"] show ?thesis by fastforce
  qed
qed

lemma write_from_ok:
  "write_from lba n s buf d = (0, d') \<Longrightarrow> lba + s \<le> l \<Longrightarrow> l < lba + s + n \<Longrightarrow> k < 512 \<Longrightarrow>
     sectors d' l k = buf ((l - lba) * 512 + k)"
proof (induction n arbitrary: s d)
  case 0
  then show ?case by simp
next
  case (Suc n)
  let ?d = "d\<lparr>sectors := (sectors d)(lba + s := memcpy (sectors d (lba + s)) 0 buf (s * 512) 512),
              transfers := Suc (transfers d)\<rparr>"
  from Suc.prems have rest: "write_from lba n (Suc s) buf ?d = (0, d')" by (simp split: if_splits)
  show ?case
  proof (cases "l = lba + s")
    case True
    then have "sectors d' l = sectors ?d l" using write_from_frame [OF rest] by simp
    with True Suc.prems show ?thesis by (simp add: memcpy_eq)
  next
    case False
    with Suc.prems show ?thesis by (intro Suc.IH [OF rest]) simp_all
  qed
qed

lemma write_from_healthy: "healthy d \<Longrightarrow> write_from lba n s buf d = (r, d') \<Longrightarrow> r = 0 \<and> healthy d'"
proof (induction n arbitrary: s d)
  case (Suc n)
  from Suc.prems show ?case by (intro Suc.IH [OF healthy_step(3)]) (simp_all add: healthy_step)
qed simp

lemma drive_write_frame:
  assumes "drive_write lba n buf d = (r, d')"
  shows "fault d' = fault d" "r = 0 \<or> r = - 1" "transfers d \<le> transfers d'"
    "\<not> (unat lba \<le> l \<and> l < unat lba + n) \<Longrightarrow> sectors d' l = sectors d l"
  using write_from_frame [of "unat lba" n 0 buf d r d'] assms by (simp_all add: drive_write_def)

lemma drive_write_ok:
  assumes "drive_write lba n buf d = (0, d')" "unat lba \<le> l" "l < unat lba + n" "k < 512"
  shows "sectors d' l k = buf ((l - unat lba) * 512 + k)"
  using write_from_ok [of "unat lba" n 0 buf d d' l k] assms by (simp add: drive_write_def)

lemma drive_write_healthy:
  assumes "healthy d" "drive_write lba n buf d = (r, d')"
  shows "r = 0" "healthy d'"
  using write_from_healthy [of d "unat lba" n 0 buf r d'] assms by (simp_all add: drive_write_def)

end
