(* ===== verification/Fat_Chain.thy ===== *)
theory Fat_Chain
  imports Fat_Layout Drive
begin

text \<open>
  Cluster allocation and cluster chains, \<open>kernel/fs.c\<close> lines 311 to 411. The table
  (\<open>fat_buf\<close>), the read cache and the drive are passed and returned explicitly.
\<close>

subsection \<open>Operations\<close>

lemma unat_Suc_cluster: "unat c \<le> 8152 \<Longrightarrow> unat (c + 1) = Suc (unat c)" for c :: u16
  by (simp add: unat_word_ariths)

function alloc_from :: "u16 \<Rightarrow> buffer \<Rightarrow> u16 \<times> buffer" where
  "alloc_from c fat =
     (if unat c \<le> FAT_CLUSTER_MAX
      then if fat_get fat c = 0 then (c, fat_set c FAT16_EOC fat) else alloc_from (c + 1) fat
      else (0, fat))"
  by pat_completeness auto
termination
  by (relation "measure (\<lambda>(c, fat). 8153 - unat c)") (auto simp: unat_Suc_cluster)

definition alloc_cluster :: "buffer \<Rightarrow> u16 \<times> buffer" where
  "alloc_cluster fat = alloc_from 2 fat"

definition used_clusters :: "buffer \<Rightarrow> u16 set" where
  "used_clusters fat = {d. in_range d \<and> fat_get fat d \<noteq> 0}"

lemma used_clusters_free:
  "in_range c \<Longrightarrow> fat_get fat c \<noteq> 0 \<Longrightarrow> card (used_clusters (fat_set c 0 fat)) < card (used_clusters fat)"
  by (rule psubset_card_mono) (auto simp: used_clusters_def fat_get_set split: if_splits)

function free_chain :: "u16 \<Rightarrow> buffer \<Rightarrow> buffer" where
  "free_chain c fat =
     (if in_range c
      then let next = fat_get fat c; fat' = fat_set c 0 fat in
        if 0xFFF8 \<le> next \<or> next = 0 then fat' else free_chain next fat'
      else fat)"
  by pat_completeness auto
termination
  by (relation "measure (\<lambda>(c, fat). card (used_clusters fat))") (auto simp: used_clusters_free)

text \<open>
  \<open>load_loop\<close> is the loop of \<open>load_cluster_chain\<close>; \<open>read_cache\<close> is \<open>cache\<close>, and the result is
  the return code, the cache and the drive.
\<close>

function load_loop :: "buffer \<Rightarrow> nat \<Rightarrow> nat \<Rightarrow> u16 \<Rightarrow> buffer \<Rightarrow> drive \<Rightarrow> int \<times> buffer \<times> drive" where
  "load_loop fat sz copied c cache d =
     (if in_range c \<and> copied < sz
      then case drive_read (cluster_lba c) 1 (\<lambda>_. 0) d of (r, sec, d') \<Rightarrow>
        if r \<noteq> 0 then (- 1, cache, d')
        else let take = (if sz - copied > 512 then 512 else sz - copied);
                 cache' = memcpy cache copied sec 0 take;
                 copied' = copied + take;
                 next = fat_get fat c in
          if 0xFFF8 \<le> next \<or> next = 0 then (int copied', cache'(copied' := 0), d')
          else load_loop fat sz copied' next cache' d'
      else (int copied, cache(copied := 0), d))"
  by pat_completeness auto
termination
  by (relation "measure (\<lambda>(fat, sz, copied, c, cache, d). sz - copied)") auto

definition load_cluster_chain :: "buffer \<Rightarrow> u16 \<Rightarrow> u32 \<Rightarrow> buffer \<Rightarrow> drive \<Rightarrow> int \<times> buffer \<times> drive" where
  "load_cluster_chain fat first sz cache d =
     load_loop fat (if unat sz > FS_MAX_FILE_SIZE then FS_MAX_FILE_SIZE else unat sz) 0 first cache d"

text \<open>
  \<open>write_loop\<close> is the loop of \<open>write_cluster_chain\<close>; the result is the return code, the cluster
  stored through \<open>first_out\<close> (0 when the code returns early), the table and the drive.
\<close>

function write_loop :: "buffer \<Rightarrow> nat \<Rightarrow> u16 \<Rightarrow> u16 \<Rightarrow> nat \<Rightarrow> buffer \<Rightarrow> drive \<Rightarrow> int \<times> u16 \<times> buffer \<times> drive" where
  "write_loop data sz first prev written fat d =
     (if written < sz
      then case alloc_cluster fat of (c, fat1) \<Rightarrow>
        if c = 0 then (- 1, 0, if first \<noteq> 0 then free_chain first fat1 else fat1, d)
        else let first' = (if first = 0 then c else first);
                 fat2 = (if prev \<noteq> 0 then fat_set prev c fat1 else fat1);
                 fat3 = fat_set c FAT16_EOC fat2;
                 take = (if sz - written > 512 then 512 else sz - written);
                 sec = memcpy (memset (\<lambda>_. 0) 0 0 512) 0 data written take in
          case drive_write (cluster_lba c) 1 sec d of (r, d') \<Rightarrow>
            if r \<noteq> 0 then (- 1, 0, free_chain first' fat3, d')
            else write_loop data sz first' c (written + take) fat3 d'
      else (0, first, fat, d))"
  by pat_completeness auto
termination
  by (relation "measure (\<lambda>(data, sz, first, prev, written, fat, d). sz - written)") auto

definition write_cluster_chain :: "buffer \<Rightarrow> nat \<Rightarrow> buffer \<Rightarrow> drive \<Rightarrow> int \<times> u16 \<times> buffer \<times> drive" where
  "write_cluster_chain data sz fat d =
     (if sz = 0 then (0, 0, fat, d) else write_loop data sz 0 0 0 fat d)"

declare alloc_from.simps [simp del] free_chain.simps [simp del] load_loop.simps [simp del]
  write_loop.simps [simp del]

subsection \<open>Allocation\<close>

lemma alloc_from_spec:
  "alloc_from c fat = (a, fat') \<Longrightarrow> FAT_CLUSTER_MIN \<le> unat c \<Longrightarrow>
     (a = 0 \<and> fat' = fat \<and> (\<forall>d. unat c \<le> unat d \<and> unat d \<le> FAT_CLUSTER_MAX \<longrightarrow> fat_get fat d \<noteq> 0)) \<or>
     (in_range a \<and> unat c \<le> unat a \<and> fat_get fat a = 0 \<and> fat' = fat_set a FAT16_EOC fat \<and>
      (\<forall>d. unat c \<le> unat d \<and> unat d < unat a \<longrightarrow> fat_get fat d \<noteq> 0))"
proof (induction c fat rule: alloc_from.induct)
  case (1 c fat)
  show ?case
  proof (cases "unat c \<le> 8152 \<and> fat_get fat c \<noteq> 0")
    case True
    then have step: "alloc_from (c + 1) fat = (a, fat')"
      using "1.prems" by (simp add: alloc_from.simps [of c])
    have s: "unat (c + 1) = Suc (unat c)" using True by (simp add: unat_Suc_cluster)
    have le: "unat c \<le> unat d \<longleftrightarrow> d = c \<or> Suc (unat c) \<le> unat d" for d
      by (metis Suc_leI le_neq_implies_less order_refl less_or_eq_imp_le Suc_le_eq word_unat_eq_iff)
    show ?thesis
      using "1.IH" [OF _ _ step] True "1.prems"(2) s by (auto simp: le)
  next
    case False
    then show ?thesis
      using "1.prems" by (subst (asm) alloc_from.simps) (auto simp: in_range_def split: if_splits)
  qed
qed

lemma alloc_cluster_spec:
  assumes "alloc_cluster fat = (a, fat')"
  shows "(a = 0 \<and> fat' = fat \<and> (\<forall>d. in_range d \<longrightarrow> fat_get fat d \<noteq> 0)) \<or>
     (in_range a \<and> fat_get fat a = 0 \<and> fat' = fat_set a FAT16_EOC fat \<and>
      (\<forall>d. in_range d \<and> unat d < unat a \<longrightarrow> fat_get fat d \<noteq> 0))"
  using alloc_from_spec [of 2 fat a fat'] assms by (auto simp: alloc_cluster_def in_range_def)

lemma in_range_nz: "in_range c \<Longrightarrow> c \<noteq> 0"
  by (auto simp: in_range_def)

lemma in_range_not_eoc: "in_range c \<Longrightarrow> \<not> 0xFFF8 \<le> c"
  by (simp add: in_range_def word_le_nat_alt)

subsection \<open>Chains\<close>

text \<open>
  \<open>chain fat cs\<close>: following the table from the first cluster of \<open>cs\<close> visits exactly \<open>cs\<close> and
  ends at an end-of-chain mark.
\<close>

fun chain :: "buffer \<Rightarrow> u16 list \<Rightarrow> bool" where
  "chain fat [] = False"
| "chain fat [c] = (in_range c \<and> 0xFFF8 \<le> fat_get fat c)"
| "chain fat (c # d # cs) = (in_range c \<and> fat_get fat c = d \<and> chain fat (d # cs))"

lemma chain_nonempty: "chain fat cs \<Longrightarrow> cs \<noteq> []"
  by auto

lemma chain_in_range: "chain fat cs \<Longrightarrow> c \<in> set cs \<Longrightarrow> in_range c"
  by (induction fat cs rule: chain.induct) auto

lemma chain_hd_in_range: "chain fat cs \<Longrightarrow> in_range (hd cs)"
  by (cases cs) (auto dest: chain_in_range)

lemma chain_used: "chain fat cs \<Longrightarrow> c \<in> set cs \<Longrightarrow> fat_get fat c \<noteq> 0"
proof (induction fat cs rule: chain.induct)
  case (3 fat c d cs)
  then have "in_range d" using chain_in_range [of fat "d # cs" d] by auto
  with 3 show ?case by (auto dest: in_range_nz)
qed auto

lemma chain_unique: "chain fat (c # xs) \<Longrightarrow> chain fat (c # ys) \<Longrightarrow> xs = ys"
proof (induction xs arbitrary: c ys)
  case Nil
  then show ?case
    by (cases ys) (auto dest!: chain_hd_in_range in_range_not_eoc)
next
  case (Cons x xs)
  then show ?case
    using chain_hd_in_range [of fat "x # xs"] in_range_not_eoc [of x] by (cases ys) auto
qed

lemma chain_suffix: "chain fat (xs @ c # ys) \<Longrightarrow> chain fat (c # ys)"
proof (induction xs)
  case (Cons x xs)
  then show ?case by (cases "xs @ c # ys") auto
qed simp

lemma chain_distinct: "chain fat cs \<Longrightarrow> distinct cs"
proof (induction cs)
  case (Cons c cs)
  have "c \<notin> set cs"
  proof
    assume "c \<in> set cs"
    then obtain xs ys where cs: "cs = xs @ c # ys" by (auto simp: in_set_conv_decomp)
    then have "chain fat (c # ys)" using chain_suffix [of fat "c # xs" c ys] Cons.prems by simp
    then have "ys = cs" using chain_unique Cons.prems by blast
    then have "length ys = length cs" by simp
    with cs show False by simp
  qed
  moreover have "distinct cs"
    using Cons by (cases cs) auto
  ultimately show ?case by simp
qed simp

lemma chain_cong:
  "(\<And>c. c \<in> set cs \<Longrightarrow> fat_get f c = fat_get g c) \<Longrightarrow> chain f cs = chain g cs"
  by (induction f cs rule: chain.induct) auto

lemma free_chain_spec:
  "chain fat (c # cs) \<Longrightarrow>
     fat_get (free_chain c fat) d = (if d \<in> set (c # cs) then 0 else fat_get fat d)"
proof (induction cs arbitrary: c fat)
  case Nil
  then show ?case by (subst free_chain.simps) (simp add: Let_def fat_get_set)
next
  case (Cons x cs)
  then have nx: "fat_get fat c = x" "in_range x" "in_range c" "\<not> 0xFFF8 \<le> x" "x \<noteq> 0"
    using chain_hd_in_range [of fat "x # cs"] by (auto dest: in_range_not_eoc in_range_nz)
  have "c \<notin> set (x # cs)" using chain_distinct [OF Cons.prems] by simp
  then have "chain (fat_set c 0 fat) (x # cs) = chain fat (x # cs)"
    by (intro chain_cong) (auto simp: fat_get_set)
  then have ch: "chain (fat_set c 0 fat) (x # cs)" using Cons.prems by simp
  have "free_chain c fat = free_chain x (fat_set c 0 fat)"
    by (subst free_chain.simps) (simp add: nx Let_def)
  then show ?case using Cons.IH [OF ch] by (simp add: fat_get_set)
qed

lemma chain_snoc:
  assumes "chain fat cs" "c \<notin> set cs" "in_range c"
    and "\<And>d. d \<in> set (butlast cs) \<Longrightarrow> fat_get fat' d = fat_get fat d"
    and "fat_get fat' (last cs) = c" "0xFFF8 \<le> fat_get fat' c"
  shows "chain fat' (cs @ [c])"
  using assms
proof (induction fat cs rule: chain.induct)
  case (3 fat a b cs)
  then show ?case by (auto split: if_splits)
qed auto

subsection \<open>Writing a chain\<close>

text \<open>The byte at position \<open>k\<close> of the \<open>i\<close>-th sector of a file, zero-padded.\<close>

definition file_byte :: "buffer \<Rightarrow> nat \<Rightarrow> nat \<Rightarrow> nat \<Rightarrow> byte" where
  "file_byte data sz i k = (if 512 * i + k < sz then data (512 * i + k) else 0)"

text \<open>
  What has been built once the clusters \<open>cs\<close> have been taken from the table \<open>fat0\<close> and the
  drive content \<open>m0\<close>: they were free, they are linked in order, nothing else in the table moved, and
  they hold the data while every other sector is as it was.
\<close>

definition links :: "buffer \<Rightarrow> u16 list \<Rightarrow> buffer \<Rightarrow> bool" where
  "links fat0 cs fat \<longleftrightarrow>
     (\<forall>c \<in> set cs. in_range c \<and> fat_get fat0 c = 0) \<and> (cs \<noteq> [] \<longrightarrow> chain fat cs) \<and>
     (\<forall>c. c \<notin> set cs \<longrightarrow> fat_get fat c = fat_get fat0 c)"

definition stored :: "buffer \<Rightarrow> nat \<Rightarrow> (nat \<Rightarrow> buffer) \<Rightarrow> u16 list \<Rightarrow> (nat \<Rightarrow> buffer) \<Rightarrow> bool" where
  "stored data sz m0 cs m \<longleftrightarrow>
     (\<forall>i < length cs. \<forall>k < 512. m (unat (cluster_lba (cs ! i))) k = file_byte data sz i k) \<and>
     (\<forall>l. l \<notin> (\<lambda>c. unat (cluster_lba c)) ` set cs \<longrightarrow> m l = m0 l)"

lemma links_Nil [simp]: "links fat [] fat"
  by (simp add: links_def)

lemma stored_Nil [simp]: "stored data sz m [] m"
  by (simp add: stored_def)

lemma links_chain: "links fat0 cs fat \<Longrightarrow> cs \<noteq> [] \<Longrightarrow> chain fat cs"
  by (simp add: links_def)

lemma links_snoc:
  assumes "links fat0 cs fat" "in_range c" "fat_get fat c = 0"
    and fat': "fat' = fat_set c FAT16_EOC
      (if (if cs = [] then 0 else last cs) \<noteq> 0 then fat_set (last cs) c (fat_set c FAT16_EOC fat)
       else fat_set c FAT16_EOC fat)"
  shows "links fat0 (cs @ [c]) fat'"
proof -
  have new: "c \<notin> set cs" using assms chain_used by (cases "cs = []") (auto simp: links_def)
  then have c0: "fat_get fat0 c = 0" using assms by (simp add: links_def)
  show ?thesis
  proof (cases "cs = []")
    case True
    then show ?thesis using assms c0 by (auto simp: links_def fat_get_set)
  next
    case False
    then have ch: "chain fat cs" using assms by (simp add: links_def)
    have l: "last cs \<in> set cs" using False by simp
    then have nz: "last cs \<noteq> 0" "last cs \<noteq> c" using chain_in_range [OF ch] in_range_nz new by blast+
    have f: "fat' = fat_set c FAT16_EOC (fat_set (last cs) c (fat_set c FAT16_EOC fat))"
      using False nz by (simp add: fat')
    have bl: "d \<in> set (butlast cs) \<Longrightarrow> d \<noteq> last cs" for d
      using chain_distinct [OF ch] False
      by (metis append_butlast_last_id distinct_append disjoint_iff list.set_intros(1))
    have "chain fat' (cs @ [c])"
    proof (rule chain_snoc [OF ch new assms(2)])
      fix d
      assume d: "d \<in> set (butlast cs)"
      then have "d \<noteq> c" using new in_set_butlastD by fastforce
      with bl [OF d] show "fat_get fat' d = fat_get fat d" by (simp add: f fat_get_set)
    qed (use nz in \<open>simp_all add: f fat_get_set\<close>)
    moreover have "\<forall>d. d \<notin> set (cs @ [c]) \<longrightarrow> fat_get fat' d = fat_get fat0 d"
      using assms(1) l by (auto simp: f fat_get_set links_def)
    ultimately show ?thesis using assms c0 by (auto simp: links_def)
  qed
qed

lemma cluster_lba_inj:
  assumes "in_range c" "in_range d" "unat (cluster_lba c) = unat (cluster_lba d)"
  shows "c = d"
  using assms by (simp add: unat_cluster_lba in_range_def word_unat_eq_iff)

lemma stored_snoc:
  assumes st: "stored data sz m0 cs m" and r: "\<forall>d \<in> set cs. in_range d" "in_range c" "c \<notin> set cs"
    and m': "\<And>l. l \<noteq> unat (cluster_lba c) \<Longrightarrow> m' l = m l"
    and sec: "\<And>k. k < 512 \<Longrightarrow> m' (unat (cluster_lba c)) k = file_byte data sz (length cs) k"
  shows "stored data sz m0 (cs @ [c]) m'"
proof -
  have ne: "unat (cluster_lba d) \<noteq> unat (cluster_lba c)" if "d \<in> set cs" for d
    using cluster_lba_inj [of d c] that r by auto
  have "m' (unat (cluster_lba ((cs @ [c]) ! i))) k = file_byte data sz i k"
    if "i < length (cs @ [c])" "k < 512" for i k
    using that st sec m' ne by (cases "i = length cs") (auto simp: nth_append stored_def)
  moreover have "m' l = m0 l" if "l \<notin> (\<lambda>c. unat (cluster_lba c)) ` set (cs @ [c])" for l
    using that st m' by (auto simp: stored_def)
  ultimately show ?thesis unfolding stored_def by blast
qed

lemma links_free:
  assumes "links fat0 cs fat" "cs \<noteq> []"
  shows "fat_get (free_chain (hd cs) fat) c = fat_get fat0 c"
proof -
  have ch: "chain fat (hd cs # tl cs)" using assms by (simp add: links_def)
  have s: "set (hd cs # tl cs) = set cs" using assms(2) by simp
  show ?thesis using free_chain_spec [OF ch, of c] assms(1) unfolding s links_def by auto
qed

definition free_clusters :: "buffer \<Rightarrow> u16 set" where
  "free_clusters fat = {c. in_range c \<and> fat_get fat c = 0}"

lemma links_full:
  assumes "links fat0 cs fat" "\<forall>c. in_range c \<longrightarrow> fat_get fat c \<noteq> 0"
  shows "card (free_clusters fat0) \<le> length cs"
proof -
  have "free_clusters fat0 \<subseteq> set cs" using assms by (auto simp: free_clusters_def links_def)
  then have "card (free_clusters fat0) \<le> card (set cs)" by (intro card_mono) simp_all
  also have "\<dots> \<le> length cs" by (rule card_length)
  finally show ?thesis .
qed

lemma links_free_lba:
  "links fat0 cs fat \<Longrightarrow> (\<lambda>c. unat (cluster_lba c)) ` set cs \<subseteq> (\<lambda>c. unat (cluster_lba c)) ` free_clusters fat0"
  by (auto simp: links_def free_clusters_def)

text \<open>
  The outcomes of a write that started from \<open>fat0\<close> and the drive content \<open>m0\<close>: a complete
  file, or a table as it was with at most free clusters overwritten.
\<close>

definition write_done :: "buffer \<Rightarrow> nat \<Rightarrow> buffer \<Rightarrow> (nat \<Rightarrow> buffer) \<Rightarrow> u16 list \<Rightarrow> u16 \<Rightarrow> buffer \<Rightarrow> drive \<Rightarrow> bool" where
  "write_done data sz fat0 m0 cs first fat d \<longleftrightarrow>
     links fat0 cs fat \<and> stored data sz m0 cs (sectors d) \<and> first = (if cs = [] then 0 else hd cs) \<and>
     sz \<le> 512 * length cs \<and> 512 * length cs < sz + 512"

definition write_undone :: "buffer \<Rightarrow> (nat \<Rightarrow> buffer) \<Rightarrow> buffer \<Rightarrow> drive \<Rightarrow> bool" where
  "write_undone fat0 m0 fat d \<longleftrightarrow>
     (\<forall>c. fat_get fat c = fat_get fat0 c) \<and>
     (\<forall>l. l \<notin> (\<lambda>c. unat (cluster_lba c)) ` free_clusters fat0 \<longrightarrow> sectors d l = m0 l)"

lemma write_undoneI:
  assumes "links fat0 cs fat" "cs \<noteq> []" "\<And>l. l \<notin> (\<lambda>c. unat (cluster_lba c)) ` set cs \<Longrightarrow> sectors d l = m0 l"
  shows "write_undone fat0 m0 (free_chain (hd cs) fat) d"
  unfolding write_undone_def using links_free [OF assms(1,2)] links_free_lba [OF assms(1)] assms(3)
  by blast

lemma write_sector_byte:
  assumes "w = 512 * i" "w < sz" "tk = (if sz - w > 512 then 512 else sz - w)" "k < 512"
  shows "memcpy (memset (\<lambda>_. 0) 0 0 512) 0 data w tk k = file_byte data sz i k"
  using assms by (auto simp: memcpy_eq memset_eq file_byte_def)

text \<open>The state of the loop: \<open>cs\<close> are the clusters written so far.\<close>

definition write_inv :: "buffer \<Rightarrow> nat \<Rightarrow> buffer \<Rightarrow> (nat \<Rightarrow> buffer) \<Rightarrow> u16 list \<Rightarrow> u16 \<Rightarrow> u16 \<Rightarrow> nat \<Rightarrow> buffer \<Rightarrow> drive \<Rightarrow> bool" where
  "write_inv data sz fat0 m0 cs first prev written fat d \<longleftrightarrow>
     links fat0 cs fat \<and> stored data sz m0 cs (sectors d) \<and>
     first = (if cs = [] then 0 else hd cs) \<and> prev = (if cs = [] then 0 else last cs) \<and>
     (if written < sz then written = 512 * length cs
      else sz \<le> 512 * length cs \<and> 512 * length cs < sz + 512)"

lemma write_inv_first: "write_inv data sz fat0 m0 cs first prev w fat d \<Longrightarrow> first \<noteq> 0 \<longleftrightarrow> cs \<noteq> []"
  using chain_hd_in_range [of fat cs] in_range_nz [of "hd cs"] by (auto simp: write_inv_def links_def)

lemma write_loop_end: "\<not> written < sz \<Longrightarrow> write_loop data sz first prev written fat d = (0, first, fat, d)"
  by (subst write_loop.simps) simp

lemma write_loop_full:
  "written < sz \<Longrightarrow> alloc_cluster fat = (0, fat1) \<Longrightarrow> write_loop data sz first prev written fat d =
     (- 1, 0, if first \<noteq> 0 then free_chain first fat1 else fat1, d)"
  by (subst write_loop.simps) simp

lemma write_loop_step:
  assumes "written < sz" "alloc_cluster fat = (c, fat1)" "c \<noteq> 0"
    and "first' = (if first = 0 then c else first)"
    and "fat3 = fat_set c FAT16_EOC (if prev \<noteq> 0 then fat_set prev c fat1 else fat1)"
    and "tk = (if sz - written > 512 then 512 else sz - written)"
    and "drive_write (cluster_lba c) 1 (memcpy (memset (\<lambda>_. 0) 0 0 512) 0 data written tk) d = (r, d')"
  shows "write_loop data sz first prev written fat d =
    (if r \<noteq> 0 then (- 1, 0, free_chain first' fat3, d')
     else write_loop data sz first' c (written + tk) fat3 d')"
  using assms by (subst write_loop.simps) (simp add: Let_def)

lemma write_full_undone:
  assumes inv: "write_inv data sz fat0 m0 cs first prev written fat d" and w: "written < sz"
    and full: "\<forall>c. in_range c \<longrightarrow> fat_get fat c \<noteq> 0"
  shows "write_undone fat0 m0 (if first \<noteq> 0 then free_chain first fat else fat) d"
    and "512 * card (free_clusters fat0) < sz"
proof -
  have st: "links fat0 cs fat" "stored data sz m0 cs (sectors d)" "first = (if cs = [] then 0 else hd cs)"
    "written = 512 * length cs"
    using inv w by (simp_all add: write_inv_def)
  show "512 * card (free_clusters fat0) < sz"
    using links_full [OF st(1) full] st(4) w by linarith
  show "write_undone fat0 m0 (if first \<noteq> 0 then free_chain first fat else fat) d"
  proof (cases "cs = []")
    case True
    then show ?thesis using st by (simp add: write_undone_def links_def stored_def)
  next
    case False
    then show ?thesis
      using write_inv_first [OF inv] st write_undoneI [OF st(1) False, of d m0] by (simp add: stored_def)
  qed
qed

text \<open>One turn of the loop that got cluster \<open>c\<close>.\<close>

lemma write_step_inv:
  assumes inv: "write_inv data sz fat0 m0 cs first prev written fat d" and w: "written < sz"
    and c: "in_range c" "fat_get fat c = 0" "fat1 = fat_set c FAT16_EOC fat"
    and first': "first' = (if first = 0 then c else first)"
    and fat3: "fat3 = fat_set c FAT16_EOC (if prev \<noteq> 0 then fat_set prev c fat1 else fat1)"
    and tk: "tk = (if sz - written > 512 then 512 else sz - written)"
    and dw: "drive_write (cluster_lba c) 1 (memcpy (memset (\<lambda>_. 0) 0 0 512) 0 data written tk) d = (r, d')"
  shows "r \<noteq> 0 \<Longrightarrow> write_undone fat0 m0 (free_chain first' fat3) d'"
    and "r = 0 \<Longrightarrow> write_inv data sz fat0 m0 (cs @ [c]) first' c (written + tk) fat3 d'"
proof -
  have st: "links fat0 cs fat" "stored data sz m0 cs (sectors d)" "written = 512 * length cs"
    and fp: "first = (if cs = [] then 0 else hd cs)" "prev = (if cs = [] then 0 else last cs)"
    using inv w by (simp_all add: write_inv_def)
  have lk: "links fat0 (cs @ [c]) fat3"
    using links_snoc [OF st(1) c(1,2)] fp(2) c(3) fat3 by (auto split: if_splits)
  have f1: "first' = hd (cs @ [c])"
    using write_inv_first [OF inv] fp(1) first' by (cases "cs = []") auto
  have frame: "sectors d' l = sectors d l" if "l \<noteq> unat (cluster_lba c)" for l
    using drive_write_frame(4) [OF dw, of l] that by auto
  show "write_undone fat0 m0 (free_chain first' fat3) d'"
    unfolding f1 by (rule write_undoneI [OF lk]) (use frame st(2) in \<open>auto simp: stored_def\<close>)
  have new: "c \<notin> set cs" using c(2) st(1) chain_used by (cases "cs = []") (auto simp: links_def)
  have rng: "\<forall>d \<in> set cs. in_range d" using st(1) by (simp add: links_def)
  assume r: "r = 0"
  have sec: "sectors d' (unat (cluster_lba c)) k = file_byte data sz (length cs) k" if "k < 512" for k
    using drive_write_ok [of "cluster_lba c" 1 _ d d'] dw r that write_sector_byte [OF st(3) w tk that]
    by simp
  have "stored data sz m0 (cs @ [c]) (sectors d')"
    using stored_snoc [OF st(2) rng c(1) new frame sec] by blast
  then show "write_inv data sz fat0 m0 (cs @ [c]) first' c (written + tk) fat3 d'"
    using lk f1 st(3) w tk by (auto simp: write_inv_def)
qed

definition write_outcome :: "buffer \<Rightarrow> nat \<Rightarrow> buffer \<Rightarrow> drive \<Rightarrow> int \<Rightarrow> u16 \<Rightarrow> buffer \<Rightarrow> drive \<Rightarrow> bool" where
  "write_outcome data sz fat0 d0 r first fat d \<longleftrightarrow>
     ((r = 0 \<and> (\<exists>cs. write_done data sz fat0 (sectors d0) cs first fat d)) \<or>
      (r = - 1 \<and> write_undone fat0 (sectors d0) fat d)) \<and>
     (healthy d0 \<longrightarrow> healthy d \<and> (r = 0 \<or> 512 * card (free_clusters fat0) < sz))"

lemma write_loop_outcome:
  assumes "write_loop data sz first prev written fat d = (r, f, fat', d')"
    and "write_inv data sz fat0 (sectors d0) cs first prev written fat d" "healthy d0 \<longrightarrow> healthy d"
  shows "write_outcome data sz fat0 d0 r f fat' d'"
  using assms
proof (induction "sz - written" arbitrary: first prev written fat d cs rule: less_induct)
  case less
  note eq = less.prems(1) and inv = less.prems(2)
  show ?case
  proof (cases "written < sz")
    case False
    then have res: "(r, f, fat', d') = (0, first, fat, d)" using eq by (simp add: write_loop_end)
    have "write_done data sz fat0 (sectors d0) cs first fat d"
      using inv False unfolding write_inv_def write_done_def by simp
    then show ?thesis using res less.prems(3) unfolding write_outcome_def by blast
  next
    case True
    obtain c fat1 where a: "alloc_cluster fat = (c, fat1)" by force
    show ?thesis
    proof (cases "c = 0")
      case c0: True
      with alloc_cluster_spec [OF a] have full: "fat1 = fat" "\<forall>d. in_range d \<longrightarrow> fat_get fat d \<noteq> 0"
        by (auto dest: in_range_nz)
      show ?thesis
        using eq write_full_undone [OF inv True full(2)] less.prems(3) a c0 full(1)
        by (auto simp: write_loop_full [OF True] write_outcome_def split: if_splits)
    next
      case False
      with alloc_cluster_spec [OF a] have c: "in_range c" "fat_get fat c = 0" "fat1 = fat_set c FAT16_EOC fat"
        by auto
      define tk where "tk = (if sz - written > 512 then 512 else sz - written)"
      obtain r1 d1 where dw:
        "drive_write (cluster_lba c) 1 (memcpy (memset (\<lambda>_. 0) 0 0 512) 0 data written tk) d = (r1, d1)"
        by force
      note step = write_step_inv [OF inv True c refl refl tk_def dw]
        and unfold = write_loop_step [OF True a False refl refl tk_def dw]
      have h: "healthy d0 \<longrightarrow> r1 = 0 \<and> healthy d1" using less.prems(3) drive_write_healthy [OF _ dw] by auto
      show ?thesis
      proof (cases "r1 = 0")
        case T: True
        have "sz - (written + tk) < sz - written" using True by (auto simp: tk_def)
        from less.hyps [OF this _ step(2) [OF T]] show ?thesis using eq unfold T h by simp
      next
        case F: False
        then show ?thesis using eq unfold step(1) h by (auto simp: write_outcome_def)
      qed
    qed
  qed
qed

lemma write_cluster_chain_outcome:
  assumes "write_cluster_chain data sz fat d = (r, f, fat', d')"
  shows "write_outcome data sz fat d r f fat' d'"
proof (cases "sz = 0")
  case True
  then have "write_done data sz fat (sectors d) [] f fat' d'"
    using assms by (simp add: write_cluster_chain_def write_done_def)
  with True assms show ?thesis by (auto simp: write_cluster_chain_def write_outcome_def)
next
  case False
  then have "write_inv data sz fat (sectors d) [] 0 0 0 fat d" by (simp add: write_inv_def)
  then show ?thesis
    using assms False write_loop_outcome [of data sz 0 0 0 fat d] by (simp add: write_cluster_chain_def)
qed

subsection \<open>Loading a chain\<close>

lemma load_loop_stop:
  "\<not> (in_range c \<and> copied < sz) \<Longrightarrow> load_loop fat sz copied c cache d = (int copied, cache(copied := 0), d)"
  by (subst load_loop.simps) auto

lemma load_loop_step:
  assumes "in_range c" "copied < sz" "drive_read (cluster_lba c) 1 (\<lambda>_. 0) d = (r, sec, d')"
    and "tk = (if sz - copied > 512 then 512 else sz - copied)"
  shows "load_loop fat sz copied c cache d =
    (if r \<noteq> 0 then (- 1, cache, d')
     else if 0xFFF8 \<le> fat_get fat c \<or> fat_get fat c = 0
     then (int (copied + tk), (memcpy cache copied sec 0 tk)(copied + tk := 0), d')
     else load_loop fat sz (copied + tk) (fat_get fat c) (memcpy cache copied sec 0 tk) d')"
  using assms by (subst load_loop.simps) (simp add: Let_def)

text \<open>
  For any table, cyclic ones included: the loop ends, moves at most \<open>sz\<close> bytes and leaves the cache
  alone past position \<open>sz\<close>, the drive content alone altogether.
\<close>

lemma load_loop_bounds:
  assumes "load_loop fat sz copied c cache d = (r, cache', d')" "copied \<le> sz"
  shows "(r = - 1 \<or> int copied \<le> r \<and> r \<le> int sz \<and> cache' (nat r) = 0) \<and> (\<forall>k > sz. cache' k = cache k) \<and>
    sectors d' = sectors d \<and> (healthy d \<longrightarrow> healthy d' \<and> r \<noteq> - 1)"
  using assms
proof (induction "sz - copied" arbitrary: copied c cache d rule: less_induct)
  case less
  show ?case
  proof (cases "in_range c \<and> copied < sz")
    case False
    then show ?thesis using less.prems by (auto simp: load_loop_stop)
  next
    case True
    define tk where "tk = (if sz - copied > 512 then 512 else sz - copied)"
    have tk: "copied + tk \<le> sz" "sz - (copied + tk) < sz - copied" using True by (auto simp: tk_def)
    obtain r1 sec d1 where rd: "drive_read (cluster_lba c) 1 (\<lambda>_. 0) d = (r1, sec, d1)" by (metis prod_cases3)
    note fr = drive_read_frame [OF rd] and h = drive_read_healthy [OF _ rd]
    note step = load_loop_step [OF conjunct1 [OF True] conjunct2 [OF True] rd tk_def, of fat cache]
    let ?m = "memcpy cache copied sec 0 tk"
    have m: "\<forall>k > sz. ?m k = cache k" using tk by (auto simp: memcpy_eq)
    consider "r1 \<noteq> 0" | "r1 = 0" "0xFFF8 \<le> fat_get fat c \<or> fat_get fat c = 0"
      | "r1 = 0" "\<not> (0xFFF8 \<le> fat_get fat c \<or> fat_get fat c = 0)"
      by blast
    then show ?thesis
    proof cases
      case 1
      then show ?thesis using step less.prems(1) fr h by auto
    next
      case 2
      then have "r = int (copied + tk)" "cache' = ?m(copied + tk := 0)" "d' = d1"
        using step less.prems(1) by simp_all
      then show ?thesis using tk m fr h by auto
    next
      case 3
      then have "load_loop fat sz (copied + tk) (fat_get fat c) ?m d1 = (r, cache', d')"
        using step less.prems(1) by simp
      from less.hyps [OF tk(2) this tk(1)] show ?thesis using tk m fr h by auto
    qed
  qed
qed

lemma load_loop_content:
  assumes "load_loop fat sz copied c cache d = (r, cache', d')" "chain fat (c # cs)"
    and "copied < sz" "sz \<le> copied + 512 * length (c # cs)" "r \<noteq> - 1"
  shows "r = int sz \<and> (\<forall>k < copied. cache' k = cache k) \<and> (\<forall>k. copied \<le> k \<and> k < sz \<longrightarrow>
    cache' k = sectors d (unat (cluster_lba ((c # cs) ! ((k - copied) div 512)))) ((k - copied) mod 512))"
  using assms
proof (induction cs arbitrary: copied c cache d)
  case Nil
  define tk where "tk = (if sz - copied > 512 then 512 else sz - copied)"
  obtain r1 sec d1 where rd: "drive_read (cluster_lba c) 1 (\<lambda>_. 0) d = (r1, sec, d1)" by (metis prod_cases3)
  have c: "in_range c" "0xFFF8 \<le> fat_get fat c" using Nil.prems by auto
  note step = load_loop_step [OF c(1) Nil.prems(3) rd tk_def, of fat cache]
  have r1: "r1 = 0" using step Nil.prems(1,5) by (auto split: if_splits)
  have tk: "copied + tk = sz" "tk \<le> 512" using Nil.prems by (auto simp: tk_def)
  have res: "r = int sz" "cache' = (memcpy cache copied sec 0 tk)(sz := 0)"
    using step r1 c tk Nil.prems(1) by auto
  have sec: "k < 512 \<Longrightarrow> sec k = sectors d (unat (cluster_lba c)) k" for k
    using drive_read_ok [of "cluster_lba c" 1 _ d sec d1 k] rd r1 by simp
  show ?case using res tk sec by (auto simp: memcpy_eq)
next
  case (Cons x cs)
  define tk where "tk = (if sz - copied > 512 then 512 else sz - copied)"
  obtain r1 sec d1 where rd: "drive_read (cluster_lba c) 1 (\<lambda>_. 0) d = (r1, sec, d1)" by (metis prod_cases3)
  have c: "in_range c" "fat_get fat c = x" "chain fat (x # cs)" "\<not> 0xFFF8 \<le> x" "x \<noteq> 0" "in_range x"
    using Cons.prems(2) chain_hd_in_range [of fat "x # cs"] by (auto dest: in_range_not_eoc in_range_nz)
  note step = load_loop_step [OF c(1) Cons.prems(3) rd tk_def, of fat cache]
  have r1: "r1 = 0" using step Cons.prems(1,5) by (auto split: if_splits)
  let ?m = "memcpy cache copied sec 0 tk"
  have rest: "load_loop fat sz (copied + tk) x ?m d1 = (r, cache', d')"
    using step r1 c Cons.prems(1) by simp
  have sec: "k < 512 \<Longrightarrow> sec k = sectors d (unat (cluster_lba c)) k" for k
    using drive_read_ok [of "cluster_lba c" 1 _ d sec d1 k] rd r1 by simp
  show ?case
  proof (cases "copied + tk < sz")
    case True
    then have tk: "tk = 512" by (auto simp: tk_def split: if_splits)
    have IH: "r = int sz \<and> (\<forall>k < copied + tk. cache' k = ?m k) \<and> (\<forall>k. copied + tk \<le> k \<and> k < sz \<longrightarrow>
      cache' k = sectors d1 (unat (cluster_lba ((x # cs) ! ((k - (copied + tk)) div 512)))) ((k - (copied + tk)) mod 512))"
      using Cons.prems(4,5) tk True by (intro Cons.IH [OF rest c(3)]) simp_all
    have "cache' k = sectors d (unat (cluster_lba ((c # x # cs) ! ((k - copied) div 512)))) ((k - copied) mod 512)"
      if k: "copied \<le> k" "k < sz" for k
    proof (cases "k < copied + 512")
      case T: True
      then show ?thesis using IH k sec tk by (simp add: memcpy_eq)
    next
      case F: False
      define j where "j = k - (copied + 512)"
      have "k - copied = 512 + j" using F by (simp add: j_def)
      moreover have "(512 + j) div 512 = Suc (j div 512)" by simp
      ultimately show ?thesis
        using IH F k drive_read_frame(1) [OF rd] by (simp add: tk j_def [symmetric])
    qed
    then show ?thesis using IH tk by (auto simp: memcpy_eq)
  next
    case False
    then have tk: "copied + tk = sz" "tk \<le> 512" using Cons.prems(3) by (auto simp: tk_def split: if_splits)
    then have "r = int sz" "cache' = ?m(sz := 0)" using rest by (simp_all add: load_loop_stop)
    then show ?thesis using tk sec by (auto simp: memcpy_eq)
  qed
qed

text \<open>A file as it lies on the drive: the clusters \<open>cs\<close> hold the \<open>sz\<close> bytes of \<open>data\<close>.\<close>

definition file_on :: "buffer \<Rightarrow> (nat \<Rightarrow> buffer) \<Rightarrow> u16 list \<Rightarrow> buffer \<Rightarrow> nat \<Rightarrow> bool" where
  "file_on fat m cs data sz \<longleftrightarrow> chain fat cs \<and> sz \<le> 512 * length cs \<and>
     (\<forall>k < sz. m (unat (cluster_lba (cs ! (k div 512)))) (k mod 512) = data k)"

lemma write_done_file_on:
  assumes "write_done data sz fat0 m0 cs f fat d" "0 < sz"
  shows "file_on fat (sectors d) cs data sz" "f = hd cs" "cs \<noteq> []"
proof -
  show ne: "cs \<noteq> []" using assms by (auto simp: write_done_def)
  then show "f = hd cs" using assms by (simp add: write_done_def)
  have st: "stored data sz m0 cs (sectors d)" "sz \<le> 512 * length cs"
    using assms by (simp_all add: write_done_def)
  have "sectors d (unat (cluster_lba (cs ! (k div 512)))) (k mod 512) = data k" if "k < sz" for k
  proof -
    have "k div 512 < length cs" using that st(2) by (simp add: div_less_iff_less_mult)
    then show ?thesis using st(1) that by (simp add: stored_def file_byte_def)
  qed
  then show "file_on fat (sectors d) cs data sz"
    using assms ne st(2) by (simp add: file_on_def write_done_def links_def)
qed

lemma load_file:
  assumes f: "file_on fat (sectors d) cs data sz" and sz: "0 < sz" "sz \<le> FS_MAX_FILE_SIZE" "unat n = sz"
    and ld: "load_cluster_chain fat (hd cs) n cache d = (r, cache', d')"
  shows "r = - 1 \<or> r = int sz \<and> (\<forall>k < sz. cache' k = data k) \<and> cache' sz = 0"
    and "healthy d \<Longrightarrow> healthy d' \<and> r \<noteq> - 1" and "sectors d' = sectors d"
proof -
  have ch: "chain fat (hd cs # tl cs)" using f by (cases cs) (auto simp: file_on_def)
  have cs: "hd cs # tl cs = cs" using f by (cases cs) (auto simp: file_on_def)
  have lp: "load_loop fat sz 0 (hd cs) cache d = (r, cache', d')"
    using ld sz by (simp add: load_cluster_chain_def)
  note b = load_loop_bounds [OF lp le0]
  have "r = int sz \<and> (\<forall>k < sz. cache' k = data k)" if "r \<noteq> - 1"
    using load_loop_content [OF lp ch sz(1) _ that] f by (auto simp: cs file_on_def)
  then show "r = - 1 \<or> r = int sz \<and> (\<forall>k < sz. cache' k = data k) \<and> cache' sz = 0"
    using b by auto
  show "healthy d \<Longrightarrow> healthy d' \<and> r \<noteq> - 1" "sectors d' = sectors d" using b by simp_all
qed

lemma write_enough_space:
  assumes "healthy d" "sz \<le> 512 * card (free_clusters fat)"
  shows "fst (write_cluster_chain data sz fat d) = 0"
proof -
  obtain r f fat' d' where w: "write_cluster_chain data sz fat d = (r, f, fat', d')"
    by (metis prod_cases4)
  show ?thesis
    using write_cluster_chain_outcome [OF w] assms w by (auto simp: write_outcome_def)
qed

text \<open>The table as \<open>fat_format\<close> leaves it, and a drive of zeros, for concrete instances.\<close>

definition empty_fat :: buffer where
  "empty_fat = fat_set 1 FAT16_EOC (fat_set 0 0xFFF8 (memset (\<lambda>_. 0) 0 0 16384))"

definition blank_drive :: drive where
  "blank_drive = \<lparr>sectors = (\<lambda>_ _. 0), fault = (\<lambda>_. False), transfers = 0\<rparr>"

lemma healthy_blank: "healthy blank_drive"
  by (simp add: healthy_def blank_drive_def)

lemma fat_get_empty_fat: "in_range c \<Longrightarrow> fat_get empty_fat c = 0"
proof -
  assume c: "in_range c"
  then have "c \<noteq> 0" "c \<noteq> 1" by (auto simp: in_range_def)
  then have "fat_get empty_fat c = fat_get (memset (\<lambda>_. 0) 0 0 16384) c"
    by (simp add: empty_fat_def fat_get_set)
  then show ?thesis by (simp add: fat_get_def memset_eq)
qed

lemma card_free_empty_fat: "2 \<le> card (free_clusters empty_fat)"
proof -
  have "in_range 2" "in_range 3" by (simp_all add: in_range_def)
  then have "{2, 3} \<subseteq> free_clusters empty_fat"
    using fat_get_empty_fat [of 2] fat_get_empty_fat [of 3] by (simp add: free_clusters_def)
  then have "card {2 :: u16, 3} \<le> card (free_clusters empty_fat)" by (intro card_mono) simp_all
  then show ?thesis by simp
qed

subsection \<open>Properties\<close>

text \<open>
  Property C8. Reading back what was written: after a successful \<open>write_cluster_chain\<close> of a
  non-empty file, \<open>load_cluster_chain\<close> from the cluster it returned either reports a drive error or
  fills the read cache with exactly the bytes written, and on a drive without errors it does the
  latter.
\<close>

theorem write_then_load:
  assumes "write_cluster_chain data sz fat d = (0, first, fat', d')" "0 < sz" "sz \<le> FS_MAX_FILE_SIZE"
    and "load_cluster_chain fat' first (word_of_nat sz) cache d' = (r, cache', d'')"
  shows "(r = - 1 \<or> r = int sz \<and> (\<forall>k < sz. cache' k = data k) \<and> cache' sz = 0) \<and>
    (healthy d \<longrightarrow> r = int sz)"
proof -
  obtain cs where wd: "write_done data sz fat (sectors d) cs first fat' d'" and h: "healthy d \<longrightarrow> healthy d'"
    using write_cluster_chain_outcome [OF assms(1)] by (auto simp: write_outcome_def)
  note f = write_done_file_on [OF wd assms(2)]
  have u: "unat (word_of_nat sz :: u32) = sz" using assms(3) by (simp add: unat_of_nat)
  note l = load_file [OF f(1) assms(2,3) u, of cache r cache' d'']
  show ?thesis using l(1,2) h assms(4) f(2) by auto
qed

theorem write_then_load_witness:
  "\<exists>first fat' d' cache' d''. write_cluster_chain (\<lambda>k. word_of_nat k) 700 empty_fat blank_drive = (0, first, fat', d') \<and>
     load_cluster_chain fat' first 700 (\<lambda>_. 0) d' = (700, cache', d'') \<and> cache' 600 = 88"
proof -
  obtain r first fat' d' where w: "write_cluster_chain (\<lambda>k. word_of_nat k) 700 empty_fat blank_drive = (r, first, fat', d')"
    by (metis prod_cases4)
  have "r = 0"
    using write_enough_space [OF healthy_blank, of 700 empty_fat "\<lambda>k. word_of_nat k"] card_free_empty_fat w by simp
  obtain r' cache' d'' where l: "load_cluster_chain fat' first (word_of_nat 700) (\<lambda>_. 0) d' = (r', cache', d'')"
    by (metis prod_cases3)
  have "(r' = - 1 \<or> r' = int 700 \<and> (\<forall>k < 700. cache' k = word_of_nat k) \<and> cache' 700 = 0) \<and>
    (healthy blank_drive \<longrightarrow> r' = int 700)"
    using write_then_load [OF _ _ _ l] w \<open>r = 0\<close> by simp
  then show ?thesis using w l \<open>r = 0\<close> healthy_blank by auto
qed

text \<open>
  Property C9. A failed \<open>write_cluster_chain\<close> leaks nothing: every cell of the table is as it was
  before the call, and no sector that belongs to an allocated cluster, to the boot sector, the table
  or the root directory was written.
\<close>

theorem write_failure_restores:
  assumes "write_cluster_chain data sz fat d = (r, first, fat', d')" "r \<noteq> 0"
  shows "(\<forall>c. fat_get fat' c = fat_get fat c) \<and>
    (\<forall>l. l \<notin> (\<lambda>c. unat (cluster_lba c)) ` {c. in_range c \<and> fat_get fat c = 0} \<longrightarrow> sectors d' l = sectors d l)"
  using write_cluster_chain_outcome [OF assms(1)] assms(2)
  by (simp add: write_outcome_def write_undone_def free_clusters_def)

text \<open>A drive that refuses its second transfer.\<close>

theorem write_failure_restores_witness:
  "\<exists>r first fat' d'. write_cluster_chain (\<lambda>_. 65) 600 empty_fat (blank_drive\<lparr>fault := \<lambda>n. n = 1\<rparr>) = (r, first, fat', d') \<and>
     r = - 1 \<and> fat_get fat' 2 = 0 \<and> sectors d' 4096 = (\<lambda>_. 0)"
proof -
  let ?d = "blank_drive\<lparr>fault := \<lambda>n. n = 1\<rparr>"
  have a2: "alloc_cluster empty_fat = (2, fat_set 2 FAT16_EOC empty_fat)"
    unfolding alloc_cluster_def by (subst alloc_from.simps) (simp add: fat_get_empty_fat in_range_def)
  define f2 where "f2 = fat_set 2 FAT16_EOC (fat_set 2 FAT16_EOC empty_fat)"
  have a3: "alloc_cluster f2 = (3, fat_set 3 FAT16_EOC f2)"
    unfolding alloc_cluster_def f2_def
    by (subst alloc_from.simps, subst alloc_from.simps) (simp add: fat_get_empty_fat fat_get_set in_range_def)
  obtain r first fat' d' where w: "write_cluster_chain (\<lambda>_. 65) 600 empty_fat ?d = (r, first, fat', d')"
    by (metis prod_cases4)
  have "r = - 1"
    using w a2 a3 unfolding write_cluster_chain_def
    by (simp add: write_loop.simps drive_write_def blank_drive_def Let_def f2_def)
  moreover have "(4096 :: nat) \<notin> (\<lambda>c. unat (cluster_lba c)) ` {c. in_range c \<and> fat_get empty_fat c = 0}"
    by (auto simp: in_range_def unat_cluster_lba)
  ultimately show ?thesis
    using write_failure_restores [OF w] w by (auto simp: fat_get_empty_fat in_range_def blank_drive_def)
qed

text \<open>
  On a drive without errors \<open>write_cluster_chain\<close> succeeds whenever there are enough
  free clusters for the data.
\<close>

lemma write_succeeds_if_space:
  assumes "healthy d" "sz \<le> 512 * card {c. in_range c \<and> fat_get fat c = 0}"
  shows "fst (write_cluster_chain data sz fat d) = 0"
  using write_enough_space assms by (simp add: free_clusters_def)

lemma write_succeeds_if_space_witness:
  "healthy blank_drive \<and> fst (write_cluster_chain (\<lambda>_. 65) 1024 empty_fat blank_drive) = 0"
  using write_succeeds_if_space [of blank_drive 1024 empty_fat "\<lambda>_. 65"] healthy_blank card_free_empty_fat
  by (simp add: free_clusters_def)

text \<open>
  Property C34. For every table, including one with a cyclic or otherwise corrupt chain, every
  starting cluster and every recorded size, \<open>load_cluster_chain\<close> ends, returns -1 or a length of at
  most \<open>FS_MAX_FILE_SIZE\<close>, writes nothing past \<open>read_cache[FS_MAX_FILE_SIZE]\<close> and changes no
  sector.
\<close>

theorem load_cluster_chain_safe:
  assumes "load_cluster_chain fat first n cache d = (r, cache', d')"
  shows "(r = - 1 \<or> 0 \<le> r \<and> r \<le> int FS_MAX_FILE_SIZE \<and> cache' (nat r) = 0) \<and>
    (\<forall>k > FS_MAX_FILE_SIZE. cache' k = cache k) \<and> sectors d' = sectors d"
proof -
  define sz where "sz = (if unat n > FS_MAX_FILE_SIZE then FS_MAX_FILE_SIZE else unat n)"
  have "load_loop fat sz 0 first cache d = (r, cache', d')" "sz \<le> FS_MAX_FILE_SIZE"
    using assms by (simp_all add: load_cluster_chain_def sz_def)
  then show ?thesis using load_loop_bounds [of fat sz 0 first cache d r cache' d'] by force
qed

theorem load_cluster_chain_safe_witness:
  "\<exists>r cache' d'. load_cluster_chain (fat_set 2 2 empty_fat) 2 1000000 (\<lambda>_. 1) blank_drive = (r, cache', d') \<and>
     r \<le> 4096 \<and> cache' 4097 = 1"
proof -
  obtain r cache' d' where l: "load_cluster_chain (fat_set 2 2 empty_fat) 2 1000000 (\<lambda>_. 1) blank_drive = (r, cache', d')"
    by (metis prod_cases3)
  show ?thesis using load_cluster_chain_safe [OF l] l by auto
qed

text \<open>
  \<open>free_chain\<close> started at the head of a chain frees exactly the clusters of that chain.
\<close>

lemma free_chain_frees_exactly:
  assumes "chain fat (c # cs)"
  shows "fat_get (free_chain c fat) d = (if d \<in> set (c # cs) then 0 else fat_get fat d)"
  using assms by (rule free_chain_spec)

lemma free_chain_frees_exactly_witness:
  "chain (fat_set 2 5 (fat_set 5 FAT16_EOC empty_fat)) [2, 5] \<and>
   fat_get (free_chain 2 (fat_set 2 5 (fat_set 5 FAT16_EOC empty_fat))) 5 = 0"
proof -
  have "chain (fat_set 2 5 (fat_set 5 FAT16_EOC empty_fat)) [2, 5]"
    by (simp add: fat_get_set in_range_def)
  then show ?thesis using free_chain_frees_exactly [of _ 2 "[5]" 5] by simp
qed

end
