(* ===== verification/Fs.thy ===== *)
theory Fs
  imports Fat_Chain
begin

text \<open>
  The filesystem operations of \<open>kernel/fs.c\<close>. The static variables of that file are the fields of
  the record \<open>fs\<close>, together with the drive behind them; an operation takes the state last and
  returns its C result with the new state. A pointer result is an option, \<^const>\<open>None\<close> for the
  null pointer. Data to be written is a buffer and a length.
\<close>

record fs =
  fat_buf :: buffer
  root_buf :: buffer
  read_cache :: buffer
  fs_ready :: bool
  current_dir_cluster :: u16
  current_path :: string \<comment> \<open>the 128 cells of the array\<close>
  dir_buf :: buffer
  disk :: drive

subsection \<open>Transfers of the metadata\<close>

definition write_boot_sector :: "fs \<Rightarrow> int \<times> fs" where
  "write_boot_sector s = (case drive_write FAT_LBA_START 1 boot_sector (disk s) of (r, d) \<Rightarrow> (r, s\<lparr>disk := d\<rparr>))"

definition flush_fat :: "fs \<Rightarrow> int \<times> fs" where
  "flush_fat s =
     (case drive_write (FAT_LBA_START + FAT_RESERVED_SECTORS) (unat FAT_SECTORS_PER_FAT) (fat_buf s) (disk s) of
        (r, d) \<Rightarrow> (r, s\<lparr>disk := d\<rparr>))"

definition flush_root :: "fs \<Rightarrow> int \<times> fs" where
  "flush_root s =
     (case drive_write root_lba (unat FAT_ROOT_DIR_SECTORS) (root_buf s) (disk s) of
        (r, d) \<Rightarrow> (r, s\<lparr>disk := d\<rparr>))"

definition fat_format :: "fs \<Rightarrow> int \<times> fs" where
  "fat_format s =
     (case write_boot_sector s of (r, s) \<Rightarrow>
      if r \<noteq> 0 then (- 1, s)
      else let s = s\<lparr>fat_buf := fat_set 1 FAT16_EOC (fat_set 0 0xFFF8 (memset (fat_buf s) 0 0 16384))\<rparr> in
      case flush_fat s of (r, s) \<Rightarrow>
      if r \<noteq> 0 then (- 1, s)
      else let s = s\<lparr>root_buf := memset (root_buf s) 0 0 4096\<rparr> in
      case flush_root s of (r, s) \<Rightarrow>
      if r \<noteq> 0 then (- 1, s) else (0, s))"

text \<open>
  The two reads that end \<open>fs_init\<close>, and \<open>fs_init\<close> itself. The boot sector is read into the local
  \<open>bs\<close>, whose bytes are unspecified before the call; they are not looked at when the read fails.
\<close>

definition fs_load :: "fs \<Rightarrow> fs" where
  "fs_load s =
     (case drive_read (FAT_LBA_START + FAT_RESERVED_SECTORS) (unat FAT_SECTORS_PER_FAT) (fat_buf s) (disk s) of
      (r, b, d) \<Rightarrow> let s = s\<lparr>fat_buf := b, disk := d\<rparr> in
      if r \<noteq> 0 then s
      else case drive_read root_lba (unat FAT_ROOT_DIR_SECTORS) (root_buf s) (disk s) of
      (r, b, d) \<Rightarrow> let s = s\<lparr>root_buf := b, disk := d\<rparr> in
      if r \<noteq> 0 then s else s\<lparr>fs_ready := True\<rparr>)"

definition fs_init :: "fs \<Rightarrow> fs" where
  "fs_init s =
     (let s = s\<lparr>fs_ready := False\<rparr> in
      case drive_read FAT_LBA_START 1 (\<lambda>_. 0) (disk s) of (r, bs, d) \<Rightarrow>
      let s = s\<lparr>disk := d\<rparr> in
      if r \<noteq> 0 \<or> \<not> valid_boot bs
      then case fat_format s of (r, s) \<Rightarrow> if r \<noteq> 0 then s else fs_load s
      else fs_load s)"

subsection \<open>Directories\<close>

text \<open>
  \<open>current_dir_entries\<close> loads a subdirectory into \<open>dir_buf\<close> and returns whether the pointer is
  non-null; \<open>cur_buf\<close> is the buffer it points into.
\<close>

definition current_dir_entries :: "fs \<Rightarrow> bool \<times> fs" where
  "current_dir_entries s =
     (if current_dir_cluster s = 0 then (True, s)
      else case drive_read (cluster_lba (current_dir_cluster s)) 1 (dir_buf s) (disk s) of
        (r, b, d) \<Rightarrow> (r = 0, s\<lparr>dir_buf := b, disk := d\<rparr>))"

definition cur_buf :: "fs \<Rightarrow> buffer" where
  "cur_buf s = (if current_dir_cluster s = 0 then root_buf s else dir_buf s)"

definition set_ent :: "nat \<Rightarrow> fat_dir_entry \<Rightarrow> fs \<Rightarrow> fs" where
  "set_ent i e s =
     (if current_dir_cluster s = 0 then s\<lparr>root_buf := put_ent i e (root_buf s)\<rparr>
      else s\<lparr>dir_buf := put_ent i e (dir_buf s)\<rparr>)"

definition max_entries :: "u16 \<Rightarrow> nat" where
  "max_entries c = (if c = 0 then FS_MAX_FILES else 16)"

definition name_matches :: "fat_dir_entry \<Rightarrow> string \<Rightarrow> bool" where
  "name_matches e f11 \<longleftrightarrow>
     memcmp (\<lambda>k. byte_of (cget (e_name e) k)) (\<lambda>k. byte_of (cget f11 k)) 8 = 0 \<and>
     memcmp (\<lambda>k. byte_of (cget (e_ext e) k)) (\<lambda>k. byte_of (cget f11 (8 + k))) 3 = 0"

text \<open>
  The search loop shared by \<open>find_entry\<close> and \<open>find_entry_in_current\<close>, with \<open>n\<close> entries left
  from \<open>i\<close> on: the index found or -1, and \<open>first_free\<close>.
\<close>

fun scan :: "buffer \<Rightarrow> string \<Rightarrow> nat \<Rightarrow> nat \<Rightarrow> int \<Rightarrow> int \<times> int" where
  "scan buf f11 0 i first_free = (- 1, first_free)"
| "scan buf f11 (Suc n) i first_free =
     (let e = ent buf i in
      if lead e = 0 \<or> lead e = 0xE5 then
        let first_free = (if first_free < 0 then int i else first_free) in
        if lead e = 0 then (- 1, first_free) else scan buf f11 n (Suc i) first_free
      else if e_attr e = 0x0F then scan buf f11 n (Suc i) first_free
      else if name_matches e f11 then (int i, first_free)
      else scan buf f11 n (Suc i) first_free)"

text \<open>The results are the index and the value of \<open>*free_idx\<close>, which every caller sets to -1 first.\<close>

definition find_entry :: "string \<Rightarrow> fs \<Rightarrow> int \<times> int" where
  "find_entry name s =
     (case fat_name_from_input name of
        None \<Rightarrow> (- 1, - 1)
      | Some f11 \<Rightarrow> scan (root_buf s) f11 FS_MAX_FILES 0 (- 1))"

definition find_entry_in_current :: "string \<Rightarrow> fs \<Rightarrow> int \<times> int \<times> fs" where
  "find_entry_in_current name s =
     (case fat_name_from_input name of
        None \<Rightarrow> (- 1, - 1, s)
      | Some f11 \<Rightarrow>
          case current_dir_entries s of (ok, s) \<Rightarrow>
          if \<not> ok then (- 1, - 1, s)
          else case scan (cur_buf s) f11 (max_entries (current_dir_cluster s)) 0 (- 1) of
            (idx, free_idx) \<Rightarrow> (idx, free_idx, s))"

definition flush_current_dir :: "fs \<Rightarrow> int \<times> fs" where
  "flush_current_dir s =
     (if current_dir_cluster s = 0 then flush_root s
      else case drive_write (cluster_lba (current_dir_cluster s)) 1 (dir_buf s) (disk s) of
        (r, d) \<Rightarrow> (r, s\<lparr>disk := d\<rparr>))"

text \<open>
  The end of every operation that changed both: the table is flushed, then the directory, and
  either failure returns the error of that operation.
\<close>

definition flush_both :: "int \<Rightarrow> fs \<Rightarrow> int \<times> fs" where
  "flush_both err s =
     (case flush_fat s of (r, s) \<Rightarrow>
      if r \<noteq> 0 then (err, s)
      else case flush_current_dir s of (r, s) \<Rightarrow>
      if r \<noteq> 0 then (err, s) else (0, s))"

text \<open>A cleared entry with its name and attribute stored.\<close>

definition new_entry :: "string \<Rightarrow> byte \<Rightarrow> fat_dir_entry" where
  "new_entry f11 attr = zero_entry\<lparr>e_name := take 8 f11, e_ext := take 3 (drop 8 f11), e_attr := attr\<rparr>"

subsection \<open>Files\<close>

definition fs_touch :: "string \<Rightarrow> fs \<Rightarrow> int \<times> fs" where
  "fs_touch name s =
     (if \<not> fs_ready s \<or> \<not> valid_name name then (- 1, s)
      else case find_entry_in_current name s of (idx, free_idx, s) \<Rightarrow>
      if idx \<ge> 0 then (0, s)
      else if free_idx < 0 then (- 2, s)
      else let f11 = the (fat_name_from_input name) in
      case current_dir_entries s of (ok, s) \<Rightarrow>
      if \<not> ok then (- 1, s)
      else flush_current_dir
        (set_ent (nat free_idx) ((new_entry f11 FAT_ATTR_ARCHIVE)\<lparr>e_fst_clus_lo := 0, e_file_size := 0\<rparr>) s))"

definition fs_remove :: "string \<Rightarrow> fs \<Rightarrow> int \<times> fs" where
  "fs_remove name s =
     (if \<not> fs_ready s then (- 1, s)
      else case find_entry_in_current name s of (idx, _, s) \<Rightarrow>
      if idx < 0 then (- 1, s)
      else case current_dir_entries s of (ok, s) \<Rightarrow>
      if \<not> ok then (- 1, s)
      else let e = ent (cur_buf s) (nat idx); first = e_fst_clus_lo e;
               s = (if unat first \<ge> FAT_CLUSTER_MIN then s\<lparr>fat_buf := free_chain first (fat_buf s)\<rparr> else s);
               s = set_ent (nat idx) (e\<lparr>e_name := (e_name e)[0 := CHR 0xE5], e_file_size := 0, e_fst_clus_lo := 0\<rparr>) s in
      flush_both (- 2) s)"

text \<open>
  \<open>write_entry\<close> is \<open>fs_write_raw\<close> from the point where the entry \<open>idx\<close> exists.
\<close>

definition write_entry :: "nat \<Rightarrow> buffer \<Rightarrow> nat \<Rightarrow> fs \<Rightarrow> int \<times> fs" where
  "write_entry idx data len s =
     (let e = ent (cur_buf s) idx;
          s = (if unat (e_fst_clus_lo e) \<ge> FAT_CLUSTER_MIN
               then set_ent idx (e\<lparr>e_fst_clus_lo := 0\<rparr>) (s\<lparr>fat_buf := free_chain (e_fst_clus_lo e) (fat_buf s)\<rparr>)
               else s) in
      case write_cluster_chain data len (fat_buf s) (disk s) of (r, first, fat, d) \<Rightarrow>
      let s = s\<lparr>fat_buf := fat, disk := d\<rparr> in
      if r \<noteq> 0 then (- 3, s)
      else let s = set_ent idx ((ent (cur_buf s) idx)\<lparr>e_fst_clus_lo := first, e_file_size := word_of_nat len\<rparr>) s in
      flush_both (- 4) s)"

definition fs_write_raw :: "string \<Rightarrow> buffer \<Rightarrow> nat \<Rightarrow> fs \<Rightarrow> int \<times> fs" where
  "fs_write_raw name data len s =
     (if \<not> fs_ready s \<or> \<not> valid_name name \<or> len > FS_MAX_FILE_SIZE then (- 1, s)
      else case find_entry_in_current name s of (idx, free_idx, s) \<Rightarrow>
      case current_dir_entries s of (ok, s) \<Rightarrow>
      if \<not> ok then (- 1, s)
      else if idx < 0 then
        if free_idx < 0 then (- 2, s)
        else let f11 = the (fat_name_from_input name) in
          write_entry (nat free_idx) data len (set_ent (nat free_idx) (new_entry f11 FAT_ATTR_ARCHIVE) s)
      else write_entry (nat idx) data len s)"

text \<open>The bytes of a C string, including its terminator.\<close>

definition text_bytes :: "string \<Rightarrow> buffer" where
  "text_bytes text = (\<lambda>k. byte_of (cget text k))"

definition fs_write :: "string \<Rightarrow> string \<Rightarrow> fs \<Rightarrow> int \<times> fs" where
  "fs_write name text s = fs_write_raw name (text_bytes text) (strlen text) s"

text \<open>\<open>fs_read_ptr\<close> returns \<open>read_cache\<close> and its length through \<open>len\<close>, or null.\<close>

definition fs_read_ptr :: "string \<Rightarrow> fs \<Rightarrow> nat option \<times> fs" where
  "fs_read_ptr name s =
     (if \<not> fs_ready s then (None, s)
      else case find_entry_in_current name s of (idx, _, s) \<Rightarrow>
      if idx < 0 then (None, s)
      else case current_dir_entries s of (ok, s) \<Rightarrow>
      if \<not> ok then (None, s)
      else let e = ent (cur_buf s) (nat idx); sz = e_file_size e; first = e_fst_clus_lo e in
      if sz = 0 \<or> unat first < FAT_CLUSTER_MIN then (Some 0, s\<lparr>read_cache := (read_cache s)(0 := 0)\<rparr>)
      else case load_cluster_chain (fat_buf s) first sz (read_cache s) (disk s) of (got, cache, d) \<Rightarrow>
      let s = s\<lparr>read_cache := cache, disk := d\<rparr> in
      if got < 0 then (None, s) else (Some (nat got), s))"

text \<open>
  In \<open>fs_append\<close> the source of the first copy is \<open>read_cache\<close> itself, or the empty string with
  length 0.
\<close>

definition fs_append :: "string \<Rightarrow> string \<Rightarrow> fs \<Rightarrow> int \<times> fs" where
  "fs_append name text s =
     (if \<not> fs_ready s then (- 1, s)
      else case fs_read_ptr name s of (old, s) \<Rightarrow>
      let old_len = (case old of None \<Rightarrow> 0 | Some n \<Rightarrow> n); add = strlen text in
      if old_len + add > FS_MAX_FILE_SIZE then (- 1, s)
      else let c0 = (case old of None \<Rightarrow> memcpy (read_cache s) 0 (text_bytes []) 0 old_len
                               | Some _ \<Rightarrow> memcpy (read_cache s) 0 (read_cache s) 0 old_len);
               c1 = memcpy c0 old_len (text_bytes text) 0 add;
               s = s\<lparr>read_cache := c1(old_len + add := 0)\<rparr> in
      fs_write_raw name (read_cache s) (old_len + add) s)"

subsection \<open>Listings\<close>

text \<open>
  The listing loops. The two listings differ in which dot entries they pass over: \<open>fs_list_entry\<close>
  skips names that begin with a dot followed by a blank or a dot, \<open>fs_list_dir_entry\<close> every name
  that begins with a dot.
\<close>

fun list_scan :: "(fat_dir_entry \<Rightarrow> bool) \<Rightarrow> buffer \<Rightarrow> nat \<Rightarrow> nat \<Rightarrow> nat \<Rightarrow> nat \<Rightarrow> fat_dir_entry option" where
  "list_scan skip buf index 0 i seen = None"
| "list_scan skip buf index (Suc n) i seen =
     (let e = ent buf i in
      if lead e = 0 then None
      else if lead e = 0xE5 \<or> e_attr e = 0x0F then list_scan skip buf index n (Suc i) seen
      else if skip e then list_scan skip buf index n (Suc i) seen
      else if seen = index then Some e
      else list_scan skip buf index n (Suc i) (Suc seen))"

definition fs_list_entry :: "nat \<Rightarrow> fs \<Rightarrow> (string \<times> u32) option \<times> fs" where
  "fs_list_entry index s =
     (if \<not> fs_ready s then (None, s)
      else case current_dir_entries s of (ok, s) \<Rightarrow>
      if \<not> ok then (None, s)
      else (map_option (\<lambda>e. (fat_name_to_printable e, e_file_size e))
        (list_scan (\<lambda>e. e_name e ! 0 = CHR ''.'' \<and> (e_name e ! 1 = CHR '' '' \<or> e_name e ! 1 = CHR ''.''))
          (cur_buf s) index (max_entries (current_dir_cluster s)) 0 0), s))"

definition is_directory :: "fat_dir_entry \<Rightarrow> bool" where
  "is_directory e \<longleftrightarrow> e_attr e AND FS_ATTR_DIRECTORY \<noteq> 0"

definition fs_list_dir_entry :: "nat \<Rightarrow> fs \<Rightarrow> (string \<times> u32 \<times> bool) option \<times> fs" where
  "fs_list_dir_entry index s =
     (if \<not> fs_ready s then (None, s)
      else case current_dir_entries s of (ok, s) \<Rightarrow>
      if \<not> ok then (None, s)
      else (map_option (\<lambda>e. (fat_name_to_printable e, e_file_size e, is_directory e))
        (list_scan (\<lambda>e. e_name e ! 0 = CHR ''.'')
          (cur_buf s) index (max_entries (current_dir_cluster s)) 0 0), s))"

subsection \<open>Directory operations\<close>

text \<open>The cluster image \<open>new_dir\<close> with its two entries.\<close>

definition new_dir :: "u16 \<Rightarrow> u16 \<Rightarrow> buffer" where
  "new_dir dir_cluster parent =
     put_ent 1 (zero_entry\<lparr>e_name := ''..      '', e_ext := ''   '', e_attr := FS_ATTR_DIRECTORY, e_fst_clus_lo := parent\<rparr>)
      (put_ent 0 (zero_entry\<lparr>e_name := ''.       '', e_ext := ''   '', e_attr := FS_ATTR_DIRECTORY, e_fst_clus_lo := dir_cluster\<rparr>)
        (memset (\<lambda>_. 0) 0 0 512))"

definition fs_mkdir :: "string \<Rightarrow> fs \<Rightarrow> int \<times> fs" where
  "fs_mkdir name s =
     (if \<not> fs_ready s \<or> \<not> valid_name name then (- 1, s)
      else case find_entry_in_current name s of (idx, free_idx, s) \<Rightarrow>
      if idx \<ge> 0 then (- 1, s)
      else if free_idx < 0 then (- 2, s)
      else case alloc_cluster (fat_buf s) of (dir_cluster, fat) \<Rightarrow>
      let s = s\<lparr>fat_buf := fat\<rparr> in
      if dir_cluster = 0 then (- 3, s)
      else case drive_write (cluster_lba dir_cluster) 1 (new_dir dir_cluster (current_dir_cluster s)) (disk s) of (r, d) \<Rightarrow>
      let s = s\<lparr>disk := d\<rparr> in
      if r \<noteq> 0 then (- 4, s\<lparr>fat_buf := free_chain dir_cluster (fat_buf s)\<rparr>)
      else case current_dir_entries s of (ok, s) \<Rightarrow>
      if \<not> ok then (- 5, s)
      else let f11 = the (fat_name_from_input name);
               s = set_ent (nat free_idx)
                 ((new_entry f11 FS_ATTR_DIRECTORY)\<lparr>e_fst_clus_lo := dir_cluster, e_file_size := 0\<rparr>) s in
      flush_both (- 6) s)"

text \<open>The emptiness check of \<open>fs_rmdir\<close>: \<open>n\<close> entries left from \<open>i\<close> on.\<close>

fun dir_empty :: "buffer \<Rightarrow> nat \<Rightarrow> nat \<Rightarrow> bool" where
  "dir_empty buf 0 i = True"
| "dir_empty buf (Suc n) i =
     (let l = lead (ent buf i) in
      if l = 0 then True
      else if l \<noteq> 0xE5 then False
      else dir_empty buf n (Suc i))"

definition fs_rmdir :: "string \<Rightarrow> fs \<Rightarrow> int \<times> fs" where
  "fs_rmdir name s =
     (if \<not> fs_ready s then (- 1, s)
      else case find_entry_in_current name s of (idx, _, s) \<Rightarrow>
      if idx < 0 then (- 1, s)
      else case current_dir_entries s of (ok, s) \<Rightarrow>
      if \<not> ok then (- 1, s)
      else let e = ent (cur_buf s) (nat idx) in
      if \<not> is_directory e then (- 2, s)
      else let dir_cluster = e_fst_clus_lo e in
      case drive_read (cluster_lba dir_cluster) 1 (\<lambda>_. 0) (disk s) of (r, check_buf, d) \<Rightarrow>
      let s = s\<lparr>disk := d\<rparr> in
      if r \<noteq> 0 then (- 3, s)
      else if \<not> dir_empty check_buf 14 2 then (- 4, s)
      else let s = s\<lparr>fat_buf := free_chain dir_cluster (fat_buf s)\<rparr>;
               s = set_ent (nat idx) (e\<lparr>e_name := (e_name e)[0 := CHR 0xE5], e_fst_clus_lo := 0\<rparr>) s in
      flush_both (- 5) s)"

text \<open>
  \<open>last_slash\<close> is the index the loop over \<open>current_path\<close> leaves in the pointer of that name.
\<close>

fun last_slash :: "string \<Rightarrow> nat \<Rightarrow> nat \<Rightarrow> nat" where
  "last_slash [] i pos = pos"
| "last_slash (c # p) i pos =
     (if c = NUL then pos else last_slash p (Suc i) (if c = CHR ''/'' then i else pos))"

definition path_up :: "string \<Rightarrow> string" where
  "path_up path =
     (let k = last_slash path 0 0 in
      if k = 0 then path[1 := NUL] else path[k := NUL])"

text \<open>
  \<open>path_down\<close> appends a component; the store of the component happens only when it fits, so
  \<^const>\<open>strcpy\<close> never reports an overrun there.
\<close>

definition path_down :: "string \<Rightarrow> string \<Rightarrow> string" where
  "path_down path printable =
     (let plen = strlen path;
          (path, plen) = (if plen > 1 \<and> plen < FS_MAX_PATH - 1 then (path[plen := CHR ''/''], plen + 1) else (path, plen));
          nlen = strlen printable in
      if plen + nlen < FS_MAX_PATH
      then case strcpy (drop plen path) printable of
          Some tail \<Rightarrow> take plen path @ tail
        | None \<Rightarrow> path
      else path)"

definition chdir_up :: "fs \<Rightarrow> int \<times> fs" where
  "chdir_up s =
     (if current_dir_cluster s = 0 then (0, s)
      else case current_dir_entries s of (ok, s) \<Rightarrow>
      if \<not> ok then (- 2, s)
      else (0, s\<lparr>current_dir_cluster := e_fst_clus_lo (ent (cur_buf s) 1),
                current_path := path_up (current_path s)\<rparr>))"

definition chdir_down :: "string \<Rightarrow> fs \<Rightarrow> int \<times> fs" where
  "chdir_down path s =
     (case find_entry_in_current path s of (idx, _, s) \<Rightarrow>
      if idx < 0 then (- 3, s)
      else case current_dir_entries s of (ok, s) \<Rightarrow>
      if \<not> ok then (- 4, s)
      else let e = ent (cur_buf s) (nat idx) in
      if \<not> is_directory e then (- 5, s)
      else (0, s\<lparr>current_dir_cluster := e_fst_clus_lo e,
                current_path := path_down (current_path s) (fat_name_to_printable e)\<rparr>))"

definition fs_chdir :: "string option \<Rightarrow> fs \<Rightarrow> int \<times> fs" where
  "fs_chdir path s =
     (case path of
        None \<Rightarrow> (- 1, s)
      | Some path \<Rightarrow>
          if \<not> fs_ready s then (- 1, s)
          else let absolute = (chd path = CHR ''/'');
                   s = (if absolute then s\<lparr>current_dir_cluster := 0, current_path := (current_path s)[0 := CHR ''/'', 1 := NUL]\<rparr> else s);
                   path = (if absolute then tl path else path) in
          if absolute \<and> chd path = NUL then (0, s)
          else if strcmp path ''..'' = 0 then chdir_up s
          else chdir_down path s)"

definition fs_getcwd :: "fs \<Rightarrow> string \<times> fs" where
  "fs_getcwd s =
     (let s = (if current_path s ! 0 = NUL then s\<lparr>current_path := (current_path s)[0 := CHR ''/'', 1 := NUL]\<rparr> else s) in
      (takeWhile (\<lambda>c. c \<noteq> NUL) (current_path s), s))"

definition fs_is_dir :: "string \<Rightarrow> fs \<Rightarrow> bool \<times> fs" where
  "fs_is_dir name s =
     (if \<not> fs_ready s then (False, s)
      else case find_entry_in_current name s of (idx, _, s) \<Rightarrow>
      if idx < 0 then (False, s)
      else case current_dir_entries s of (ok, s) \<Rightarrow>
      if \<not> ok then (False, s)
      else (is_directory (ent (cur_buf s) (nat idx)), s))"

end
