(* ===== verification/Fs_Spec.thy ===== *)
theory Fs_Spec
  imports Fs
begin

text \<open>
  What the filesystem promises: the current directory is a finite map from 8.3 names to byte
  strings. \<open>layout\<close> relates a directory, a table and the drive content to such a map, \<open>fs_rel\<close>
  lifts it to the state of \<open>kernel/fs.c\<close>, and the operations are shown to act on the map as
  insertion, deletion and lookup.
\<close>

subsection \<open>Looking at a directory\<close>

definition dir_view :: "fs \<Rightarrow> buffer" where
  "dir_view s = (if current_dir_cluster s = 0 then root_buf s
     else sectors (disk s) (unat (cluster_lba (current_dir_cluster s))))"

text \<open>Steps that move only the scratch buffer of the directory code and transfer counts.\<close>

definition quiet :: "fs \<Rightarrow> fs \<Rightarrow> bool" where
  "quiet s s' \<longleftrightarrow> s' = s\<lparr>dir_buf := dir_buf s', disk := disk s'\<rparr> \<and>
     sectors (disk s') = sectors (disk s) \<and> (healthy (disk s) \<longrightarrow> healthy (disk s'))"

lemma quiet_refl [simp]: "quiet s s"
  by (simp add: quiet_def)

lemma quiet_trans [trans]: "quiet s t \<Longrightarrow> quiet t u \<Longrightarrow> quiet s u"
  unfolding quiet_def by (cases s; cases t; cases u) simp

lemma quiet_simps:
  assumes "quiet s s'"
  shows "fat_buf s' = fat_buf s" "root_buf s' = root_buf s" "read_cache s' = read_cache s"
    "fs_ready s' = fs_ready s" "current_dir_cluster s' = current_dir_cluster s"
    "current_path s' = current_path s" "sectors (disk s') = sectors (disk s)" "dir_view s' = dir_view s"
  using assms unfolding quiet_def dir_view_def by (cases s; cases s'; simp)+

lemma quiet_healthy: "quiet s s' \<Longrightarrow> healthy (disk s) \<Longrightarrow> healthy (disk s')"
  by (simp add: quiet_def)

lemma current_dir_entries_spec:
  assumes "current_dir_entries s = (ok, s')"
  shows "quiet s s'" "healthy (disk s) \<Longrightarrow> ok"
    and "ok \<Longrightarrow> i < max_entries (current_dir_cluster s) \<Longrightarrow> ent (cur_buf s') i = ent (dir_view s) i"
proof -
  have "quiet s s' \<and> (healthy (disk s) \<longrightarrow> ok) \<and>
    (ok \<longrightarrow> i < max_entries (current_dir_cluster s) \<longrightarrow> ent (cur_buf s') i = ent (dir_view s) i)"
  proof (cases "current_dir_cluster s = 0")
    case True
    then show ?thesis using assms by (auto simp: current_dir_entries_def cur_buf_def dir_view_def)
  next
    case False
    obtain r b d where rd: "drive_read (cluster_lba (current_dir_cluster s)) 1 (dir_buf s) (disk s) = (r, b, d)"
      by (metis prod_cases3)
    have s': "s' = s\<lparr>dir_buf := b, disk := d\<rparr>" "ok = (r = 0)"
      using assms False rd by (simp_all add: current_dir_entries_def)
    have "ent b i = ent (dir_view s) i" if "r = 0" "i < 16"
    proof (rule ent_cong)
      fix k
      assume "k < 32 * Suc i"
      then have "k < 512" using that by simp
      then show "b k = dir_view s k"
        using drive_read_ok [of _ 1 "dir_buf s" "disk s" b d k] rd that False by (simp add: dir_view_def)
    qed
    then show ?thesis
      using s' drive_read_frame [OF rd] drive_read_healthy [OF _ rd] False
      by (auto simp: quiet_def cur_buf_def max_entries_def)
  qed
  then show "quiet s s'" "healthy (disk s) \<Longrightarrow> ok"
    "ok \<Longrightarrow> i < max_entries (current_dir_cluster s) \<Longrightarrow> ent (cur_buf s') i = ent (dir_view s) i"
    by auto
qed

subsection \<open>The search loop\<close>

definition live :: "fat_dir_entry \<Rightarrow> bool" where
  "live e \<longleftrightarrow> lead e \<noteq> 0 \<and> lead e \<noteq> 0xE5 \<and> e_attr e \<noteq> 0x0F"

definition name_of :: "fat_dir_entry \<Rightarrow> string" where
  "name_of e = e_name e @ e_ext e"

lemma name_matches_iff: "entry_ok e \<Longrightarrow> length f = 11 \<Longrightarrow> name_matches e f \<longleftrightarrow> name_of e = f"
proof -
  assume e: "entry_ok e" and f: "length f = 11"
  have n: "(\<forall>k < 8. cget (e_name e) k = cget f k) \<longleftrightarrow> e_name e = take 8 f"
    using e f by (auto simp: list_eq_iff_nth_eq entry_ok_def)
  have x: "(\<forall>k < 3. cget (e_ext e) k = cget f (8 + k)) \<longleftrightarrow> e_ext e = drop 8 f"
    using e f by (auto simp: list_eq_iff_nth_eq entry_ok_def)
  have "e_name e @ e_ext e = f \<longleftrightarrow> e_name e = take 8 f \<and> e_ext e = drop 8 f"
    using e by (metis append_eq_conv_conj entry_ok_def)
  then show ?thesis by (simp add: name_matches_def memcmp_eq_0 name_of_def n x)
qed

text \<open>One turn of the loop: the end of the directory, an entry passed over, or the entry wanted.\<close>

lemma scan_step:
  assumes "scan buf f (Suc n) i ff = (r, ff')"
  obtains (stop) "lead (ent buf i) = 0" "r = - 1" "ff' = (if ff < 0 then int i else ff)"
  | (pass) "lead (ent buf i) \<noteq> 0" "\<not> (live (ent buf i) \<and> name_matches (ent buf i) f)"
      "scan buf f n (Suc i) (if lead (ent buf i) = 0xE5 \<and> ff < 0 then int i else ff) = (r, ff')"
  | (found) "live (ent buf i)" "name_matches (ent buf i) f" "r = int i" "ff' = ff"
  using assms by (auto simp: live_def Let_def split: if_splits)

lemma nat_cut: "i \<le> j \<longleftrightarrow> j = i \<or> Suc i \<le> j" for i j :: nat
  by auto

lemma scan_found:
  "scan buf f n i ff = (r, ff') \<Longrightarrow> 0 \<le> r \<Longrightarrow>
     i \<le> nat r \<and> nat r < i + n \<and> live (ent buf (nat r)) \<and> name_matches (ent buf (nat r)) f \<and>
     (\<forall>j. i \<le> j \<and> j < nat r \<longrightarrow> lead (ent buf j) \<noteq> 0)"
proof (induction n arbitrary: i ff)
  case (Suc n)
  from Suc.prems(1) show ?case
  proof (cases rule: scan_step)
    case pass
    from Suc.IH [OF pass(3) Suc.prems(2)] pass(1) show ?thesis by (auto simp: nat_cut [of i])
  qed (use Suc.prems in auto)
qed simp

lemma scan_missing:
  "scan buf f n i ff = (r, ff') \<Longrightarrow> r < 0 \<Longrightarrow>
     (\<And>j k. j \<le> k \<Longrightarrow> k < i + n \<Longrightarrow> lead (ent buf j) = 0 \<Longrightarrow> lead (ent buf k) = 0) \<Longrightarrow>
     i \<le> j \<Longrightarrow> j < i + n \<Longrightarrow> live (ent buf j) \<Longrightarrow> \<not> name_matches (ent buf j) f"
proof (induction n arbitrary: i ff)
  case (Suc n)
  from Suc.prems(1) show ?case
  proof (cases rule: scan_step)
    case stop
    then show ?thesis using Suc.prems(3) [of i j] Suc.prems(4-6) by (auto simp: live_def)
  next
    case pass
    have zt: "\<And>j k. j \<le> k \<Longrightarrow> k < Suc i + n \<Longrightarrow> lead (ent buf j) = 0 \<Longrightarrow> lead (ent buf k) = 0"
      using Suc.prems(3) by simp
    show ?thesis
    proof (cases "j = i")
      case False
      then show ?thesis using Suc.prems by (intro Suc.IH [OF pass(3) _ zt]) simp_all
    qed (use pass Suc.prems in auto)
  qed (use Suc.prems in auto)
qed simp

lemma scan_free:
  "scan buf f n i ff = (r, ff') \<Longrightarrow> 0 \<le> ff' \<Longrightarrow>
     ff' = ff \<or> (i \<le> nat ff' \<and> nat ff' < i + n \<and> \<not> live (ent buf (nat ff')) \<and>
       (\<forall>j. i \<le> j \<and> j < nat ff' \<longrightarrow> lead (ent buf j) \<noteq> 0))"
proof (induction n arbitrary: i ff)
  case (Suc n)
  from Suc.prems(1) show ?case
  proof (cases rule: scan_step)
    case pass
    from Suc.IH [OF pass(3) Suc.prems(2)] show ?thesis
    proof (cases "lead (ent buf i) = 0xE5 \<and> ff < 0")
      case False
      then show ?thesis using Suc.IH [OF pass(3) Suc.prems(2)] pass(1) by (auto simp: nat_cut [of i])
    next
      case True
      then show ?thesis
        using Suc.IH [OF pass(3) Suc.prems(2)] pass(1) by (auto simp: nat_cut [of i] live_def)
    qed
  qed (auto simp: live_def)
qed simp

lemma scan_first_free: "scan buf f n i ff = (r, ff') \<Longrightarrow> 0 \<le> ff \<Longrightarrow> 0 \<le> ff'"
proof (induction n arbitrary: i ff)
  case (Suc n)
  from Suc.prems(1) show ?case by (cases rule: scan_step) (use Suc in auto)
qed simp

lemma scan_full:
  "scan buf f n i ff = (r, ff') \<Longrightarrow> r < 0 \<Longrightarrow> ff' < 0 \<Longrightarrow> i \<le> j \<Longrightarrow> j < i + n \<Longrightarrow>
     lead (ent buf j) \<noteq> 0 \<and> lead (ent buf j) \<noteq> 0xE5"
proof (induction n arbitrary: i ff)
  case (Suc n)
  from Suc.prems(1) show ?case
  proof (cases rule: scan_step)
    case stop
    then show ?thesis using Suc.prems by (auto split: if_splits)
  next
    case pass
    have "\<not> (lead (ent buf i) = 0xE5)"
      using scan_first_free [OF pass(3)] Suc.prems(3) by (cases "ff < 0") auto
    then show ?thesis
      using Suc.IH [OF pass(3) Suc.prems(2,3)] Suc.prems(4,5) pass(1) by (auto simp: nat_cut [of i])
  qed (use Suc.prems in auto)
qed simp

subsection \<open>Directories as maps\<close>

text \<open>
  The slots a name can reach: an 8.3 name never begins with a dot, so the entries \<open>.\<close> and \<open>..\<close>
  of a subdirectory are not among them.
\<close>

definition slots :: "nat \<Rightarrow> (nat \<Rightarrow> fat_dir_entry) \<Rightarrow> nat set" where
  "slots n E = {i. i < n \<and> live (E i) \<and> e_name (E i) ! 0 \<noteq> CHR ''.''}"

definition owns :: "buffer \<Rightarrow> fat_dir_entry \<Rightarrow> u16 list \<Rightarrow> bool" where
  "owns fat e cs \<longleftrightarrow>
     (if unat (e_fst_clus_lo e) < FAT_CLUSTER_MIN then cs = []
      else chain fat cs \<and> hd cs = e_fst_clus_lo e \<and> unat (e_file_size e) \<le> 512 * length cs \<and>
        unat (e_file_size e) \<le> FS_MAX_FILE_SIZE)"

definition content :: "(nat \<Rightarrow> buffer) \<Rightarrow> fat_dir_entry \<Rightarrow> u16 list \<Rightarrow> byte list" where
  "content m e cs =
     (if unat (e_fst_clus_lo e) < FAT_CLUSTER_MIN then []
      else map (\<lambda>k. m (unat (cluster_lba (cs ! (k div 512)))) (k mod 512)) [0..<unat (e_file_size e)])"

definition zero_tail :: "nat \<Rightarrow> (nat \<Rightarrow> fat_dir_entry) \<Rightarrow> bool" where
  "zero_tail n E \<longleftrightarrow> (\<forall>j < n. \<forall>i \<le> j. lead (E i) = 0 \<longrightarrow> lead (E j) = 0)"

definition separate :: "nat \<Rightarrow> (nat \<Rightarrow> fat_dir_entry) \<Rightarrow> (nat \<Rightarrow> u16 list) \<Rightarrow> bool" where
  "separate n E cl \<longleftrightarrow> (\<forall>i \<in> slots n E. \<forall>j \<in> slots n E. i \<noteq> j \<longrightarrow>
     set (cl i) \<inter> set (cl j) = {} \<and> name_of (E i) \<noteq> name_of (E j))"

type_synonym file_map = "string \<Rightarrow> byte list option"

definition layout ::
  "nat \<Rightarrow> (nat \<Rightarrow> fat_dir_entry) \<Rightarrow> buffer \<Rightarrow> (nat \<Rightarrow> buffer) \<Rightarrow> u16 \<Rightarrow> (nat \<Rightarrow> u16 list) \<Rightarrow> file_map \<Rightarrow> bool" where
  "layout n E fat m dir cl F \<longleftrightarrow>
     zero_tail n E \<and> separate n E cl \<and>
     (dir \<noteq> 0 \<longrightarrow> in_range dir \<and> fat_get fat dir \<noteq> 0) \<and>
     (\<forall>i \<in> slots n E. owns fat (E i) (cl i) \<and> dir \<notin> set (cl i)) \<and>
     (\<forall>f xs. F f = Some xs \<longleftrightarrow> (\<exists>i \<in> slots n E. name_of (E i) = f \<and> content m (E i) (cl i) = xs))"

lemma layout_cong:
  assumes "\<And>i. i < n \<Longrightarrow> E i = E' i"
  shows "layout n E fat m dir cl F = layout n E' fat m dir cl F"
proof -
  have s: "slots n E = slots n E'" using assms by (auto simp: slots_def)
  have e: "i \<in> slots n E' \<Longrightarrow> E i = E' i" for i using assms by (simp add: slots_def)
  have "zero_tail n E = zero_tail n E'" using assms by (auto simp: zero_tail_def)
  then show ?thesis by (simp add: layout_def s separate_def e cong: bex_cong ball_cong)
qed

lemma owns_cong: "(\<And>c. c \<in> set cs \<Longrightarrow> fat_get fat' c = fat_get fat c) \<Longrightarrow> owns fat' e cs = owns fat e cs"
  using chain_cong [of cs fat' fat] by (simp add: owns_def)

lemma owns_in_range: "owns fat e cs \<Longrightarrow> c \<in> set cs \<Longrightarrow> in_range c \<and> fat_get fat c \<noteq> 0"
  by (auto simp: owns_def chain_in_range chain_used split: if_splits)

lemma content_cong:
  assumes "owns fat e cs" "\<And>c k. c \<in> set cs \<Longrightarrow> k < 512 \<Longrightarrow> m' (unat (cluster_lba c)) k = m (unat (cluster_lba c)) k"
  shows "content m' e cs = content m e cs"
proof -
  have "m' (unat (cluster_lba (cs ! (k div 512)))) (k mod 512) = m (unat (cluster_lba (cs ! (k div 512)))) (k mod 512)"
    if "k < unat (e_file_size e)" "\<not> unat (e_fst_clus_lo e) < 2" for k
  proof -
    have "k div 512 < length cs" using that assms(1) by (simp add: owns_def div_less_iff_less_mult)
    then show ?thesis using assms(2) by simp
  qed
  then show ?thesis by (simp add: content_def)
qed

lemma layout_slotD:
  assumes "layout n E fat m dir cl F" "i \<in> slots n E"
  shows "owns fat (E i) (cl i)" "dir \<notin> set (cl i)" "F (name_of (E i)) = Some (content m (E i) (cl i))"
  using assms by (auto simp: layout_def)

lemma layout_None:
  assumes "layout n E fat m dir cl F" "\<And>i. i \<in> slots n E \<Longrightarrow> name_of (E i) \<noteq> f"
  shows "F f = None"
  using assms by (cases "F f") (auto simp: layout_def)

text \<open>
  The files of the directory other than the one in slot \<open>i\<close> are untouched by a change of the table
  and of the drive.
\<close>

definition keeps ::
  "nat \<Rightarrow> nat \<Rightarrow> (nat \<Rightarrow> fat_dir_entry) \<Rightarrow> (nat \<Rightarrow> u16 list) \<Rightarrow> buffer \<Rightarrow> (nat \<Rightarrow> buffer) \<Rightarrow> buffer \<Rightarrow> (nat \<Rightarrow> buffer) \<Rightarrow> bool" where
  "keeps n i E cl fat m fat' m' \<longleftrightarrow> (\<forall>j \<in> slots n E. j \<noteq> i \<longrightarrow> (\<forall>c \<in> set (cl j).
     fat_get fat' c = fat_get fat c \<and> (\<forall>k < 512. m' (unat (cluster_lba c)) k = m (unat (cluster_lba c)) k)))"

lemma keepsD:
  assumes "keeps n i E cl fat m fat' m'" "layout n E fat m dir cl F" "j \<in> slots n E" "j \<noteq> i"
  shows "owns fat' (E j) (cl j)" "content m' (E j) (cl j) = content m (E j) (cl j)"
proof -
  note o = layout_slotD(1) [OF assms(2,3)]
  show "owns fat' (E j) (cl j)"
    using o assms owns_cong [of "cl j" fat' fat] by (auto simp: keeps_def)
  show "content m' (E j) (cl j) = content m (E j) (cl j)"
    using assms by (intro content_cong [OF o]) (auto simp: keeps_def)
qed

text \<open>Storing the file \<open>e\<close>, made of the clusters \<open>cs\<close>, in slot \<open>i\<close>.\<close>

lemma layout_store:
  assumes L: "layout n E fat m dir cl F"
    and i: "i < n" "\<And>j. j < i \<Longrightarrow> lead (E j) \<noteq> 0"
    and e: "live e" "e_name e ! 0 \<noteq> CHR ''.''"
    and nm: "\<And>j. j \<in> slots n E \<Longrightarrow> name_of (E j) = name_of e \<longleftrightarrow> j = i"
    and own: "owns fat' e cs" "dir \<notin> set cs" "dir \<noteq> 0 \<Longrightarrow> fat_get fat' dir \<noteq> 0"
    and sep: "\<And>j. j \<in> slots n E \<Longrightarrow> j \<noteq> i \<Longrightarrow> set cs \<inter> set (cl j) = {}"
    and k: "keeps n i E cl fat m fat' m'"
  shows "layout n (E(i := e)) fat' m' dir (cl(i := cs)) (F(name_of e \<mapsto> content m' e cs))"
proof -
  let ?E = "E(i := e)" and ?cl = "cl(i := cs)"
  have s: "slots n ?E = insert i (slots n E)" using i e by (auto simp: slots_def)
  have zt: "zero_tail n ?E"
    using L i e by (auto simp: layout_def zero_tail_def live_def le_less)
  have sp: "separate n ?E ?cl"
  proof -
    have "set (?cl j) \<inter> set (?cl k) = {} \<and> name_of (?E j) \<noteq> name_of (?E k)"
      if "j \<in> slots n ?E" "k \<in> slots n ?E" "j \<noteq> k" for j k
    proof (cases "j = i \<or> k = i")
      case True
      then show ?thesis using that sep [of j] sep [of k] nm [of j] nm [of k] by (auto simp: s)
    next
      case False
      then show ?thesis using that L by (auto simp: layout_def separate_def s)
    qed
    then show ?thesis by (simp add: separate_def)
  qed
  have ow: "owns fat' (?E j) (?cl j) \<and> dir \<notin> set (?cl j)" if "j \<in> slots n ?E" for j
    using that own keepsD(1) [OF k L] layout_slotD(2) [OF L] by (auto simp: s)
  have mp: "(F(name_of e \<mapsto> content m' e cs)) f = Some xs \<longleftrightarrow>
    (\<exists>j \<in> slots n ?E. name_of (?E j) = f \<and> content m' (?E j) (?cl j) = xs)" for f xs
  proof (cases "f = name_of e")
    case True
    then show ?thesis using nm by (auto simp: s)
  next
    case False
    then have "(\<exists>j \<in> slots n ?E. name_of (?E j) = f \<and> content m' (?E j) (?cl j) = xs) \<longleftrightarrow>
      (\<exists>j \<in> slots n E. name_of (E j) = f \<and> content m (E j) (cl j) = xs)"
      using keepsD(2) [OF k L] nm unfolding s by (auto split: if_splits)
    then show ?thesis using False L by (simp add: layout_def)
  qed
  show ?thesis unfolding layout_def using zt sp ow mp own(3) L by (auto simp: layout_def)
qed

text \<open>Deleting the file in slot \<open>i\<close>.\<close>

lemma layout_drop:
  assumes L: "layout n E fat m dir cl F" and i: "i \<in> slots n E"
    and e: "lead e = 0xE5" and dir: "dir \<noteq> 0 \<Longrightarrow> fat_get fat' dir \<noteq> 0"
    and k: "keeps n i E cl fat m fat' m'"
  shows "layout n (E(i := e)) fat' m' dir cl (F(name_of (E i) := None))"
proof -
  let ?E = "E(i := e)"
  have s: "slots n ?E = slots n E - {i}" using e by (auto simp: slots_def live_def)
  have zt: "zero_tail n ?E"
    using L i e by (auto simp: layout_def zero_tail_def slots_def live_def)
  have sp: "separate n ?E cl" using L unfolding separate_def layout_def s by auto
  have ow: "owns fat' (?E j) (cl j) \<and> dir \<notin> set (cl j)" if "j \<in> slots n ?E" for j
    using that keepsD(1) [OF k L] layout_slotD(2) [OF L] by (auto simp: s)
  have u: "j \<in> slots n E \<Longrightarrow> name_of (E j) = name_of (E i) \<longleftrightarrow> j = i" for j
    using L i by (auto simp: layout_def separate_def)
  have mp: "(F(name_of (E i) := None)) f = Some xs \<longleftrightarrow>
    (\<exists>j \<in> slots n ?E. name_of (?E j) = f \<and> content m' (?E j) (cl j) = xs)" for f xs
  proof (cases "f = name_of (E i)")
    case True
    then show ?thesis using u by (auto simp: s)
  next
    case False
    then have "(\<exists>j \<in> slots n ?E. name_of (?E j) = f \<and> content m' (?E j) (cl j) = xs) \<longleftrightarrow>
      (\<exists>j \<in> slots n E. name_of (E j) = f \<and> content m (E j) (cl j) = xs)"
      using keepsD(2) [OF k L] unfolding s by auto
    then show ?thesis using False L by (simp add: layout_def)
  qed
  show ?thesis unfolding layout_def using zt sp ow mp dir L by (auto simp: layout_def)
qed

subsection \<open>The state of the filesystem\<close>

lemma set_ent_simps [simp, fs_simps]:
  "cur_buf (set_ent i e s) = put_ent i e (cur_buf s)"
  "fat_buf (set_ent i e s) = fat_buf s" "read_cache (set_ent i e s) = read_cache s"
  "fs_ready (set_ent i e s) = fs_ready s" "current_dir_cluster (set_ent i e s) = current_dir_cluster s"
  "current_path (set_ent i e s) = current_path s" "disk (set_ent i e s) = disk s"
  by (simp_all add: set_ent_def cur_buf_def)

lemma cur_buf_simps [simp, fs_simps]:
  "cur_buf (s\<lparr>fat_buf := f\<rparr>) = cur_buf s" "cur_buf (s\<lparr>disk := d\<rparr>) = cur_buf s"
  "cur_buf (s\<lparr>fat_buf := f, disk := d\<rparr>) = cur_buf s"
  by (simp_all add: cur_buf_def)

lemma set_ent_update:
  "set_ent i e (s\<lparr>fat_buf := f\<rparr>) = (set_ent i e s)\<lparr>fat_buf := f\<rparr>"
  "set_ent i e (s\<lparr>disk := d\<rparr>) = (set_ent i e s)\<lparr>disk := d\<rparr>"
  by (simp_all add: set_ent_def)

text \<open>The parts of the volume that are on the drive as they are in memory.\<close>

definition region_is :: "nat \<Rightarrow> nat \<Rightarrow> buffer \<Rightarrow> (nat \<Rightarrow> buffer) \<Rightarrow> bool" where
  "region_is lba n b m \<longleftrightarrow> (\<forall>k < n * 512. m (lba + k div 512) (k mod 512) = b k)"

definition synced :: "fs \<Rightarrow> bool" where
  "synced s \<longleftrightarrow> valid_boot (sectors (disk s) 4096) \<and>
     region_is 4097 32 (fat_buf s) (sectors (disk s)) \<and> region_is 4129 8 (root_buf s) (sectors (disk s))"

definition root_synced :: "fs \<Rightarrow> bool" where
  "root_synced s \<longleftrightarrow> valid_boot (sectors (disk s) 4096) \<and> region_is 4129 8 (root_buf s) (sectors (disk s))"

lemma synced_root: "synced s \<Longrightarrow> root_synced s"
  by (simp add: synced_def root_synced_def)

lemma region_is_frame:
  assumes "\<And>l. lba \<le> l \<Longrightarrow> l < lba + n \<Longrightarrow> m' l = m l"
  shows "region_is lba n b m' = region_is lba n b m"
  using assms by (auto simp: region_is_def div_less_iff_less_mult)

lemma drive_write_region:
  assumes "drive_write lba n b d = (0, d')"
  shows "region_is (unat lba) n b (sectors d')"
proof -
  have "sectors d' (unat lba + k div 512) (k mod 512) = b k" if "k < n * 512" for k
    using drive_write_ok [OF assms, of "unat lba + k div 512" "k mod 512"] that
    by (simp add: div_less_iff_less_mult)
  then show ?thesis by (simp add: region_is_def)
qed

lemma flush_fat_spec:
  assumes "flush_fat s = (r, s')"
  shows "s' = s\<lparr>disk := disk s'\<rparr>" "r = 0 \<Longrightarrow> region_is 4097 32 (fat_buf s) (sectors (disk s'))"
    "\<not> (4097 \<le> l \<and> l < 4129) \<Longrightarrow> sectors (disk s') l = sectors (disk s) l"
    "healthy (disk s) \<Longrightarrow> r = 0 \<and> healthy (disk s')"
proof -
  obtain d where w: "drive_write 4097 32 (fat_buf s) (disk s) = (r, d)" and s': "s' = s\<lparr>disk := d\<rparr>"
    using assms by (auto simp: flush_fat_def split: prod.splits)
  show "s' = s\<lparr>disk := disk s'\<rparr>" by (simp add: s')
  show "r = 0 \<Longrightarrow> region_is 4097 32 (fat_buf s) (sectors (disk s'))"
    using drive_write_region [of 4097 32 "fat_buf s" "disk s" d] w s' by simp
  show "\<not> (4097 \<le> l \<and> l < 4129) \<Longrightarrow> sectors (disk s') l = sectors (disk s) l"
    using drive_write_frame(4) [OF w] s' by simp
  show "healthy (disk s) \<Longrightarrow> r = 0 \<and> healthy (disk s')" using drive_write_healthy [OF _ w] s' by simp
qed

definition dir_lba :: "u16 \<Rightarrow> nat" where
  "dir_lba dir = (if dir = 0 then 4129 else unat (cluster_lba dir))"

definition dir_sectors :: "u16 \<Rightarrow> nat" where
  "dir_sectors dir = (if dir = 0 then 8 else 1)"

lemma flush_current_dir_spec:
  assumes "flush_current_dir s = (r, s')"
  shows "s' = s\<lparr>disk := disk s'\<rparr>"
    "r = 0 \<Longrightarrow> region_is (dir_lba (current_dir_cluster s)) (dir_sectors (current_dir_cluster s)) (cur_buf s) (sectors (disk s'))"
    "\<not> (dir_lba (current_dir_cluster s) \<le> l \<and> l < dir_lba (current_dir_cluster s) + dir_sectors (current_dir_cluster s)) \<Longrightarrow>
       sectors (disk s') l = sectors (disk s) l"
    "healthy (disk s) \<Longrightarrow> r = 0 \<and> healthy (disk s')"
proof -
  define lba where "lba = (if current_dir_cluster s = 0 then 4129 else cluster_lba (current_dir_cluster s))"
  obtain d where w: "drive_write lba (dir_sectors (current_dir_cluster s)) (cur_buf s) (disk s) = (r, d)"
    and s': "s' = s\<lparr>disk := d\<rparr>"
    using assms by (auto simp: flush_current_dir_def flush_root_def dir_sectors_def cur_buf_def lba_def
        split: prod.splits if_splits)
  have l: "unat lba = dir_lba (current_dir_cluster s)" by (simp add: lba_def dir_lba_def)
  show "s' = s\<lparr>disk := disk s'\<rparr>" by (simp add: s')
  show "r = 0 \<Longrightarrow> region_is (dir_lba (current_dir_cluster s)) (dir_sectors (current_dir_cluster s)) (cur_buf s) (sectors (disk s'))"
    using drive_write_region [of lba _ "cur_buf s" "disk s" d] w s' l by simp
  show "\<not> (dir_lba (current_dir_cluster s) \<le> l \<and> l < dir_lba (current_dir_cluster s) + dir_sectors (current_dir_cluster s)) \<Longrightarrow>
       sectors (disk s') l = sectors (disk s) l" for l
    using drive_write_frame(4) [OF w] s' by (simp add: l)
  show "healthy (disk s) \<Longrightarrow> r = 0 \<and> healthy (disk s')" using drive_write_healthy [OF _ w] s' by simp
qed

text \<open>After the directory was flushed, looking at it shows what was in the buffer.\<close>

lemma flushed_view:
  assumes "region_is (dir_lba dir) (dir_sectors dir) b (sectors (disk s))" "dir = current_dir_cluster s"
    and "dir = 0 \<Longrightarrow> root_buf s = b" and "i < max_entries dir"
  shows "ent (dir_view s) i = ent b i"
proof (rule ent_cong)
  fix k
  assume "k < 32 * Suc i"
  then have "k < 512" if "dir \<noteq> 0" using assms(4) that by (simp add: max_entries_def)
  then show "dir_view s k = b k"
    using assms by (auto simp: dir_view_def region_is_def dir_lba_def dir_sectors_def split: if_splits)
qed

text \<open>Everything outside the table, the root directory and the current directory.\<close>

definition data_frame :: "u16 \<Rightarrow> (nat \<Rightarrow> buffer) \<Rightarrow> (nat \<Rightarrow> buffer) \<Rightarrow> bool" where
  "data_frame dir m m' \<longleftrightarrow> m' 4096 = m 4096 \<and> (dir \<noteq> 0 \<longrightarrow> (\<forall>l. 4129 \<le> l \<and> l < 4137 \<longrightarrow> m' l = m l)) \<and>
     (\<forall>c. in_range c \<and> c \<noteq> dir \<longrightarrow> m' (unat (cluster_lba c)) = m (unat (cluster_lba c)))"

lemma lba_of_cluster: "in_range c \<Longrightarrow> 4137 \<le> unat (cluster_lba c)"
  by (simp add: unat_cluster_lba in_range_def)

lemma flush_both_spec:
  assumes fl: "flush_both err s = (r, s')" and err: "err \<noteq> 0"
    and dir: "current_dir_cluster s \<noteq> 0 \<longrightarrow> in_range (current_dir_cluster s)"
  shows "s' = s\<lparr>disk := disk s'\<rparr>" "r = 0 \<or> r = err" "healthy (disk s) \<Longrightarrow> r = 0 \<and> healthy (disk s')"
    "data_frame (current_dir_cluster s) (sectors (disk s)) (sectors (disk s'))"
    "r = 0 \<Longrightarrow> region_is 4097 32 (fat_buf s) (sectors (disk s'))"
    "r = 0 \<Longrightarrow> region_is (dir_lba (current_dir_cluster s)) (dir_sectors (current_dir_cluster s)) (cur_buf s) (sectors (disk s'))"
proof -
  obtain r1 s1 where f: "flush_fat s = (r1, s1)" by force
  obtain r2 s2 where g: "flush_current_dir s1 = (r2, s2)" by force
  have res: "if r1 \<noteq> 0 then r = err \<and> s' = s1 else s' = s2 \<and> r = (if r2 \<noteq> 0 then err else 0)"
    using fl f g by (auto simp: flush_both_def split: if_splits)
  note F = flush_fat_spec [OF f] and G = flush_current_dir_spec [OF g]
  have c: "current_dir_cluster s1 = current_dir_cluster s" "cur_buf s1 = cur_buf s"
    by (subst F(1); simp)+
  have s2: "s2 = s\<lparr>disk := disk s2\<rparr>" by (subst G(1), subst F(1)) simp
  show "s' = s\<lparr>disk := disk s'\<rparr>" using res F(1) s2 by (auto split: if_splits)
  show "r = 0 \<or> r = err" using res by (auto split: if_splits)
  show "healthy (disk s) \<Longrightarrow> r = 0 \<and> healthy (disk s')" using res F(4) G(4) by (auto split: if_splits)
  have d1: "data_frame (current_dir_cluster s) (sectors (disk s)) (sectors (disk s1))"
    by (auto simp: data_frame_def F(3) dest: lba_of_cluster)
  have d2: "data_frame (current_dir_cluster s) (sectors (disk s1)) (sectors (disk s2))"
  proof -
    have "sectors (disk s2) (unat (cluster_lba x)) = sectors (disk s1) (unat (cluster_lba x))"
      if "in_range x" "x \<noteq> current_dir_cluster s" for x
      using that dir lba_of_cluster [of x] cluster_lba_inj [of x "current_dir_cluster s"]
      by (intro G(3)) (auto simp: c dir_lba_def dir_sectors_def split: if_splits)
    then show ?thesis
      using dir by (auto simp: data_frame_def G(3) c dir_lba_def dir_sectors_def dest: lba_of_cluster)
  qed
  show "data_frame (current_dir_cluster s) (sectors (disk s)) (sectors (disk s'))"
    using d1 d2 res by (auto simp: data_frame_def split: if_splits)
  assume r: "r = 0"
  then have z: "r1 = 0" "r2 = 0" "s' = s2" using res err by (auto split: if_splits)
  have "region_is 4097 32 (fat_buf s) (sectors (disk s2)) = region_is 4097 32 (fat_buf s) (sectors (disk s1))"
    using dir lba_of_cluster [of "current_dir_cluster s"]
    by (intro region_is_frame) (auto simp: G(3) c dir_lba_def dir_sectors_def)
  then show "region_is 4097 32 (fat_buf s) (sectors (disk s'))" using F(2) z by simp
  show "region_is (dir_lba (current_dir_cluster s)) (dir_sectors (current_dir_cluster s)) (cur_buf s) (sectors (disk s'))"
    using G(2) z c by simp
qed

subsection \<open>The simulation relation\<close>

abbreviation dir_ents :: "fs \<Rightarrow> nat \<Rightarrow> fat_dir_entry" where
  "dir_ents s \<equiv> ent (dir_view s)"

abbreviation dir_size :: "fs \<Rightarrow> nat" where
  "dir_size s \<equiv> max_entries (current_dir_cluster s)"

definition fs_layout :: "fs \<Rightarrow> (nat \<Rightarrow> u16 list) \<Rightarrow> file_map \<Rightarrow> bool" where
  "fs_layout s cl F \<longleftrightarrow>
     layout (dir_size s) (dir_ents s) (fat_buf s) (sectors (disk s)) (current_dir_cluster s) cl F"

definition fs_rel :: "fs \<Rightarrow> file_map \<Rightarrow> bool" where
  "fs_rel s F \<longleftrightarrow> fs_ready s \<and> (\<exists>cl. fs_layout s cl F)"

lemma fs_layout_quiet: "quiet s s' \<Longrightarrow> fs_layout s' cl F = fs_layout s cl F"
  by (simp add: fs_layout_def quiet_simps)

lemma fs_rel_quiet: "quiet s s' \<Longrightarrow> fs_rel s' F = fs_rel s F"
  by (simp add: fs_rel_def fs_layout_quiet quiet_simps)

lemma find_spec:
  assumes nm: "cstring name" "fat_name_from_input name = Some f"
    and zt: "zero_tail (dir_size s) (dir_ents s)"
    and fe: "find_entry_in_current name s = (idx, ff, s')"
  shows "quiet s s'"
    "0 \<le> idx \<Longrightarrow> nat idx \<in> slots (dir_size s) (dir_ents s) \<and> name_of (dir_ents s (nat idx)) = f \<and>
       (\<forall>j < nat idx. lead (dir_ents s j) \<noteq> 0)"
    "idx < 0 \<Longrightarrow> 0 \<le> ff \<or> healthy (disk s) \<Longrightarrow> i \<in> slots (dir_size s) (dir_ents s) \<Longrightarrow> name_of (dir_ents s i) \<noteq> f"
    "0 \<le> ff \<Longrightarrow> nat ff < dir_size s \<and> \<not> live (dir_ents s (nat ff)) \<and> (\<forall>j < nat ff. lead (dir_ents s j) \<noteq> 0)"
    "idx < 0 \<Longrightarrow> ff < 0 \<Longrightarrow> healthy (disk s) \<Longrightarrow> j < dir_size s \<Longrightarrow>
       lead (dir_ents s j) \<noteq> 0 \<and> lead (dir_ents s j) \<noteq> 0xE5"
proof -
  obtain ok s1 where ce: "current_dir_entries s = (ok, s1)" by force
  note C = current_dir_entries_spec [OF ce]
  have s': "s' = s1" using fe ce nm by (auto simp: find_entry_in_current_def split: if_splits prod.splits)
  show "quiet s s'" using C(1) s' by simp
  have dc: "current_dir_cluster s1 = current_dir_cluster s" using quiet_simps [OF C(1)] by simp
  let ?n = "dir_size s" and ?E = "dir_ents s" and ?C = "ent (cur_buf s1)"
  have sc: "if ok then scan (cur_buf s1) f ?n 0 (- 1) = (idx, ff) else idx = - 1 \<and> ff = - 1"
    using fe ce nm dc by (auto simp: find_entry_in_current_def split: if_splits prod.splits)
  have eq: "ok \<Longrightarrow> j < ?n \<Longrightarrow> ?C j = ?E j" for j using C(3) by blast
  have len: "length f = 11" using from_input_length nm by blast
  have mt: "name_matches (?E j) f \<longleftrightarrow> name_of (?E j) = f" for j using name_matches_iff len by simp
  show "nat idx \<in> slots ?n ?E \<and> name_of (?E (nat idx)) = f \<and> (\<forall>j < nat idx. lead (?E j) \<noteq> 0)" if "0 \<le> idx"
  proof -
    have ok: "ok" using sc that by (auto split: if_splits)
    then have S: "nat idx < ?n" "live (?C (nat idx))" "name_matches (?C (nat idx)) f" "\<forall>j < nat idx. lead (?C j) \<noteq> 0"
      using scan_found [of "cur_buf s1" f ?n 0 "- 1" idx ff] sc that by auto
    have nf: "name_of (?E (nat idx)) = f" using S eq ok mt by simp
    have "e_name (?E (nat idx)) ! 0 = f ! 0"
      using entry_ok_ent [of "dir_view s" "nat idx"] by (simp add: nf [symmetric] name_of_def nth_append entry_ok_def)
    then show ?thesis
      using S nf eq [OF ok] from_input_lead(3) [OF nm] by (auto simp: slots_def)
  qed
  show "name_of (?E i) \<noteq> f" if "idx < 0" "0 \<le> ff \<or> healthy (disk s)" "i \<in> slots ?n ?E" for i
  proof -
    have ok: "ok" using sc that C(2) by (auto split: if_splits)
    have z: "lead (?C k) = 0" if "j \<le> k" "k < 0 + ?n" "lead (?C j) = 0" for j k
      using zt eq [OF ok, of j] eq [OF ok, of k] that by (simp add: zero_tail_def)
    have "\<not> name_matches (?C i) f"
      using sc that ok eq [OF ok, of i]
      by (intro scan_missing [of "cur_buf s1" f ?n 0 "- 1" idx ff, OF _ _ z]) (auto simp: slots_def)
    then show ?thesis using eq [OF ok, of i] mt that by (simp add: slots_def)
  qed
  show "nat ff < ?n \<and> \<not> live (?E (nat ff)) \<and> (\<forall>j < nat ff. lead (?E j) \<noteq> 0)" if "0 \<le> ff"
  proof -
    have ok: "ok" using sc that by (auto split: if_splits)
    then show ?thesis using scan_free [of "cur_buf s1" f ?n 0 "- 1" idx ff] sc that eq [OF ok] by auto
  qed
  show "lead (?E j) \<noteq> 0 \<and> lead (?E j) \<noteq> 0xE5" if "idx < 0" "ff < 0" "healthy (disk s)" "j < ?n" for j
  proof -
    have ok: "ok" using C(2) that by simp
    then show ?thesis using scan_full [of "cur_buf s1" f ?n 0 "- 1" idx ff j] sc that eq [OF ok] by auto
  qed
qed

lemma find_invalid:
  "fat_name_from_input name = None \<Longrightarrow> find_entry_in_current name s = (- 1, - 1, s)"
  by (simp add: find_entry_in_current_def)

subsection \<open>Storing into a slot\<close>

text \<open>
  Slot \<open>idx\<close> is where a file called \<open>name_of e\<close> belongs, and \<open>cs\<close> are the clusters it has now:
  it is the slot of the existing file, or a free slot and no file has that name.
\<close>

definition slot_for :: "fs \<Rightarrow> (nat \<Rightarrow> u16 list) \<Rightarrow> nat \<Rightarrow> fat_dir_entry \<Rightarrow> u16 list \<Rightarrow> bool" where
  "slot_for s cl idx e cs \<longleftrightarrow> idx < dir_size s \<and> (\<forall>j < idx. lead (dir_ents s j) \<noteq> 0) \<and>
     live e \<and> e_name e ! 0 \<noteq> CHR ''.'' \<and> entry_ok e \<and>
     (\<forall>j \<in> slots (dir_size s) (dir_ents s). name_of (dir_ents s j) = name_of e \<longleftrightarrow> j = idx) \<and>
     owns (fat_buf s) e cs \<and> current_dir_cluster s \<notin> set cs \<and>
     (\<forall>j \<in> slots (dir_size s) (dir_ents s). j \<noteq> idx \<longrightarrow> set cs \<inter> set (cl j) = {})"

lemma slot_for_existing:
  assumes "fs_layout s cl F" "idx \<in> slots (dir_size s) (dir_ents s)" "\<forall>j < idx. lead (dir_ents s j) \<noteq> 0"
  shows "slot_for s cl idx (dir_ents s idx) (cl idx)"
  using assms unfolding slot_for_def fs_layout_def layout_def separate_def by (auto simp: slots_def)

lemma new_entry_facts:
  assumes "cstring name" "fat_name_from_input name = Some f" "attr \<noteq> 0x0F"
  shows "entry_ok (new_entry f attr)" "live (new_entry f attr)" "name_of (new_entry f attr) = f"
    "e_name (new_entry f attr) ! 0 \<noteq> CHR ''.''" "e_fst_clus_lo (new_entry f attr) = 0"
    "e_file_size (new_entry f attr) = 0" "e_attr (new_entry f attr) = attr"
proof -
  have l: "length f = 11" using assms from_input_length by blast
  then have "take 3 (drop 8 f) = drop 8 f" by simp
  moreover have "take 8 f ! 0 = f ! 0" by simp
  ultimately show "entry_ok (new_entry f attr)" "live (new_entry f attr)" "name_of (new_entry f attr) = f"
    "e_name (new_entry f attr) ! 0 \<noteq> CHR ''.''" "e_fst_clus_lo (new_entry f attr) = 0"
    "e_file_size (new_entry f attr) = 0" "e_attr (new_entry f attr) = attr"
    using from_input_lead [OF assms(1,2)] assms(3) l
    by (simp_all add: new_entry_def zero_entry_def entry_ok_def live_def name_of_def)
qed

lemma slot_for_new:
  assumes "fs_layout s cl F" "cstring name" "fat_name_from_input name = Some f" "attr \<noteq> 0x0F"
    and "idx < dir_size s" "\<not> live (dir_ents s idx)" "\<forall>j < idx. lead (dir_ents s j) \<noteq> 0"
    and "\<And>i. i \<in> slots (dir_size s) (dir_ents s) \<Longrightarrow> name_of (dir_ents s i) \<noteq> f"
  shows "slot_for s cl idx (new_entry f attr) []"
  using assms new_entry_facts [OF assms(2-4)]
  by (auto simp: slot_for_def slots_def owns_def)

lemma store_layout:
  assumes L: "fs_layout s cl F" and sl: "slot_for s cl idx e cs"
    and dir: "current_dir_cluster s' = current_dir_cluster s"
    and view: "\<And>i. i < dir_size s \<Longrightarrow> dir_ents s' i = (if i = idx then e' else dir_ents s i)"
    and e': "live e'" "name_of e' = name_of e" "e_name e' ! 0 \<noteq> CHR ''.''" "owns (fat_buf s') e' cs'"
    and fresh: "\<And>c. c \<in> set cs' \<Longrightarrow> c \<in> set cs \<or> fat_get (fat_buf s) c = 0"
    and fat: "\<And>c. c \<notin> set cs \<Longrightarrow> c \<notin> set cs' \<Longrightarrow> fat_get (fat_buf s') c = fat_get (fat_buf s) c"
    and data: "\<And>c k. in_range c \<Longrightarrow> c \<notin> set cs' \<Longrightarrow> c \<noteq> current_dir_cluster s \<Longrightarrow> k < 512 \<Longrightarrow>
      sectors (disk s') (unat (cluster_lba c)) k = sectors (disk s) (unat (cluster_lba c)) k"
  shows "\<exists>cl'. fs_layout s' cl' (F(name_of e \<mapsto> content (sectors (disk s')) e' cs'))"
proof -
  let ?n = "dir_size s" and ?E = "dir_ents s" and ?d = "current_dir_cluster s"
  have lay: "layout ?n ?E (fat_buf s) (sectors (disk s)) ?d cl F" using L by (simp add: fs_layout_def)
  have du: "?d \<noteq> 0 \<Longrightarrow> in_range ?d \<and> fat_get (fat_buf s) ?d \<noteq> 0" "?d \<notin> set cs"
    using lay sl by (simp_all add: layout_def slot_for_def)
  have d': "?d \<notin> set cs'"
    using du fresh [of ?d] owns_in_range [OF e'(4), of ?d] in_range_nz [of ?d] by blast
  have used: "in_range c \<and> fat_get (fat_buf s) c \<noteq> 0 \<and> c \<noteq> ?d" if "j \<in> slots ?n ?E" "c \<in> set (cl j)" for j c
    using owns_in_range [OF layout_slotD(1) [OF lay that(1)] that(2)] layout_slotD(2) [OF lay that(1)] that by auto
  have sep: "set cs' \<inter> set (cl j) = {}" if "j \<in> slots ?n ?E" "j \<noteq> idx" for j
    using that fresh used [OF that(1)] sl unfolding slot_for_def by blast
  have k: "keeps ?n idx ?E cl (fat_buf s) (sectors (disk s)) (fat_buf s') (sectors (disk s'))"
    unfolding keeps_def
  proof (intro ballI impI conjI allI)
    fix j c k
    assume j: "j \<in> slots ?n ?E" "j \<noteq> idx" and c: "c \<in> set (cl j)"
    have "c \<notin> set cs" "c \<notin> set cs'" using sl sep j c by (auto simp: slot_for_def)
    then show "fat_get (fat_buf s') c = fat_get (fat_buf s) c"
      "k < 512 \<Longrightarrow> sectors (disk s') (unat (cluster_lba c)) k = sectors (disk s) (unat (cluster_lba c)) k"
      using fat data used [OF j(1) c] by auto
  qed
  have "layout ?n (?E(idx := e')) (fat_buf s') (sectors (disk s')) ?d (cl(idx := cs'))
      (F(name_of e' \<mapsto> content (sectors (disk s')) e' cs'))"
    using sl e' sep k du d' fat [of ?d]
    by (intro layout_store [OF lay]) (auto simp: slot_for_def)
  moreover have "layout ?n (dir_ents s') = layout ?n (?E(idx := e'))"
    using view by (intro ext layout_cong) simp
  ultimately show ?thesis using e'(2) dir by (auto simp: fs_layout_def)
qed

lemma drop_layout:
  assumes L: "fs_layout s cl F" and i: "idx \<in> slots (dir_size s) (dir_ents s)"
    and dir: "current_dir_cluster s' = current_dir_cluster s"
    and view: "\<And>i. i < dir_size s \<Longrightarrow> dir_ents s' i = (if i = idx then e' else dir_ents s i)"
    and e': "lead e' = 0xE5"
    and fat: "\<And>c. c \<notin> set (cl idx) \<Longrightarrow> fat_get (fat_buf s') c = fat_get (fat_buf s) c"
    and data: "\<And>c k. in_range c \<Longrightarrow> c \<noteq> current_dir_cluster s \<Longrightarrow> k < 512 \<Longrightarrow>
      sectors (disk s') (unat (cluster_lba c)) k = sectors (disk s) (unat (cluster_lba c)) k"
  shows "fs_layout s' cl (F(name_of (dir_ents s idx) := None))"
proof -
  let ?n = "dir_size s" and ?E = "dir_ents s" and ?d = "current_dir_cluster s"
  have lay: "layout ?n ?E (fat_buf s) (sectors (disk s)) ?d cl F" using L by (simp add: fs_layout_def)
  have k: "keeps ?n idx ?E cl (fat_buf s) (sectors (disk s)) (fat_buf s') (sectors (disk s'))"
    unfolding keeps_def
  proof (intro ballI impI conjI allI)
    fix j c k
    assume j: "j \<in> slots ?n ?E" "j \<noteq> idx" and c: "c \<in> set (cl j)"
    have "c \<notin> set (cl idx)" using lay i j c by (auto simp: layout_def separate_def)
    then show "fat_get (fat_buf s') c = fat_get (fat_buf s) c" using fat by simp
    show "k < 512 \<Longrightarrow> sectors (disk s') (unat (cluster_lba c)) k = sectors (disk s) (unat (cluster_lba c)) k"
      using data owns_in_range [OF layout_slotD(1) [OF lay j(1)] c] layout_slotD(2) [OF lay j(1)] c by auto
  qed
  have "?d \<notin> set (cl idx)" using layout_slotD(2) [OF lay i] .
  then have "layout ?n (?E(idx := e')) (fat_buf s') (sectors (disk s')) ?d cl (F(name_of (?E idx) := None))"
    using lay e' k i fat [of ?d] by (intro layout_drop [OF lay]) (auto simp: layout_def)
  moreover have "layout ?n (dir_ents s') = layout ?n (?E(idx := e'))"
    using view by (intro ext layout_cong) simp
  ultimately show ?thesis using dir by (simp add: fs_layout_def)
qed

subsection \<open>The current directory being edited\<close>

text \<open>
  \<open>edited s0 idx e s\<close>: since \<open>s0\<close> the directory was loaded and its entry \<open>idx\<close> set to \<open>e\<close>,
  in memory only.
\<close>

definition edited :: "fs \<Rightarrow> nat \<Rightarrow> fat_dir_entry \<Rightarrow> fs \<Rightarrow> bool" where
  "edited s0 idx e s \<longleftrightarrow>
     fat_buf s = fat_buf s0 \<and> fs_ready s = fs_ready s0 \<and> current_dir_cluster s = current_dir_cluster s0 \<and>
     current_path s = current_path s0 \<and> sectors (disk s) = sectors (disk s0) \<and>
     (healthy (disk s0) \<longrightarrow> healthy (disk s)) \<and>
     (current_dir_cluster s0 \<noteq> 0 \<longrightarrow> root_buf s = root_buf s0) \<and>
     (\<forall>j < dir_size s0. ent (cur_buf s) j = (if j = idx then e else dir_ents s0 j))"

lemma editedI:
  assumes "quiet s0 s1" "current_dir_entries s1 = (True, s)"
  shows "edited s0 idx (dir_ents s0 idx) s"
proof -
  note C = current_dir_entries_spec [OF assms(2)]
  have q: "quiet s0 s" using quiet_trans [OF assms(1) C(1)] .
  show ?thesis
    using C(3) quiet_simps [OF q] quiet_simps [OF assms(1)] quiet_healthy [OF q] by (simp add: edited_def)
qed

lemma edited_set:
  assumes "edited s0 idx e s" "entry_ok e'"
  shows "edited s0 idx e' (set_ent idx e' s)"
proof -
  have "root_buf (set_ent idx e' s) = root_buf s" if "current_dir_cluster s0 \<noteq> 0"
    using assms that by (simp add: edited_def set_ent_def)
  then show ?thesis using assms by (auto simp: edited_def)
qed

text \<open>
  The last part of an operation: from the edited directory, a new table and a new drive content
  are put in place and both are flushed.
\<close>

lemma commit_spec:
  assumes ed: "edited s0 idx e s" and d: "current_dir_cluster s0 \<noteq> 0 \<longrightarrow> in_range (current_dir_cluster s0)"
    and fl: "flush_both err (s\<lparr>fat_buf := fat, disk := dr\<rparr>) = (r, s')" "err \<noteq> 0"
  shows "fs_ready s' = fs_ready s0" "current_dir_cluster s' = current_dir_cluster s0" "fat_buf s' = fat"
    "current_path s' = current_path s0"
    "r = 0 \<or> r = err" "healthy dr \<Longrightarrow> r = 0 \<and> healthy (disk s')"
    "in_range c \<Longrightarrow> c \<noteq> current_dir_cluster s0 \<Longrightarrow> sectors (disk s') (unat (cluster_lba c)) = sectors dr (unat (cluster_lba c))"
    "r = 0 \<Longrightarrow> i < dir_size s0 \<Longrightarrow> dir_ents s' i = (if i = idx then e else dir_ents s0 i)"
    "r = 0 \<Longrightarrow> root_synced s0 \<Longrightarrow> (\<And>l. l < 4137 \<Longrightarrow> sectors dr l = sectors (disk s0) l) \<Longrightarrow> synced s'"
proof -
  let ?s = "s\<lparr>fat_buf := fat, disk := dr\<rparr>"
  have dc: "current_dir_cluster ?s = current_dir_cluster s0" using ed by (simp add: edited_def)
  have d': "current_dir_cluster ?s \<noteq> 0 \<longrightarrow> in_range (current_dir_cluster ?s)" using d dc by simp
  note F = flush_both_spec [OF fl d', unfolded dc]
  have s': "s' = s\<lparr>fat_buf := fat, disk := disk s'\<rparr>" by (subst F(1)) simp
  show "fs_ready s' = fs_ready s0" "current_dir_cluster s' = current_dir_cluster s0" "fat_buf s' = fat"
    "current_path s' = current_path s0"
    by (subst s', use ed in \<open>simp add: edited_def\<close>)+
  have cb: "cur_buf s' = cur_buf s" by (subst s') simp
  have c0: "current_dir_cluster s' = current_dir_cluster s0" by (subst s', use ed in \<open>simp add: edited_def\<close>)
  show "r = 0 \<or> r = err" "healthy dr \<Longrightarrow> r = 0 \<and> healthy (disk s')" using F(2,3) by simp_all
  show "in_range c \<Longrightarrow> c \<noteq> current_dir_cluster s0 \<Longrightarrow> sectors (disk s') (unat (cluster_lba c)) = sectors dr (unat (cluster_lba c))"
    using F(4) by (simp add: data_frame_def)
  assume r: "r = 0"
  have reg: "region_is (dir_lba (current_dir_cluster s0)) (dir_sectors (current_dir_cluster s0)) (cur_buf s) (sectors (disk s'))"
    using F(6) [OF r] by simp
  have root: "current_dir_cluster s0 = 0 \<Longrightarrow> root_buf s' = cur_buf s"
    using c0 cb by (simp add: cur_buf_def)
  show "dir_ents s' i = (if i = idx then e else dir_ents s0 i)" if "i < dir_size s0"
    using flushed_view [OF reg c0 [symmetric] root that] ed that by (simp add: edited_def)
  assume sy: "root_synced s0" and low: "\<And>l. l < 4137 \<Longrightarrow> sectors dr l = sectors (disk s0) l"
  have bt: "sectors (disk s') 4096 = sectors (disk s0) 4096" using F(4) low by (simp add: data_frame_def)
  have "region_is 4129 8 (root_buf s') (sectors (disk s'))"
  proof (cases "current_dir_cluster s0 = 0")
    case True
    then show ?thesis using reg root by (simp add: dir_lba_def dir_sectors_def)
  next
    case False
    then have "root_buf s' = root_buf s0" by (subst s', use ed in \<open>simp add: edited_def\<close>)
    moreover have "region_is 4129 8 (root_buf s0) (sectors (disk s')) = region_is 4129 8 (root_buf s0) (sectors (disk s0))"
      using F(4) False low by (intro region_is_frame) (simp add: data_frame_def)
    ultimately show ?thesis using sy by (simp add: root_synced_def)
  qed
  moreover have "region_is 4097 32 (fat_buf s') (sectors (disk s'))"
    using F(5) [OF r] by (subst s') simp
  ultimately show "synced s'" using sy bt by (simp add: synced_def root_synced_def)
qed

text \<open>The end of an operation that changed the directory only.\<close>

lemma flush_dir_commit:
  assumes ed: "edited s0 idx e s" and d: "current_dir_cluster s0 \<noteq> 0 \<longrightarrow> in_range (current_dir_cluster s0)"
    and fl: "flush_current_dir s = (0, s')"
  shows "fs_ready s' = fs_ready s0" "current_dir_cluster s' = current_dir_cluster s0" "fat_buf s' = fat_buf s0"
    "in_range c \<Longrightarrow> c \<noteq> current_dir_cluster s0 \<Longrightarrow>
      sectors (disk s') (unat (cluster_lba c)) = sectors (disk s0) (unat (cluster_lba c))"
    "i < dir_size s0 \<Longrightarrow> dir_ents s' i = (if i = idx then e else dir_ents s0 i)"
    "synced s0 \<longrightarrow> synced s'"
proof -
  have dc: "current_dir_cluster s = current_dir_cluster s0" using ed by (simp add: edited_def)
  note G = flush_current_dir_spec [OF fl, unfolded dc]
  have m: "sectors (disk s) = sectors (disk s0)" using ed by (simp add: edited_def)
  show fb: "fs_ready s' = fs_ready s0" "current_dir_cluster s' = current_dir_cluster s0" "fat_buf s' = fat_buf s0"
    by (subst G(1), use ed in \<open>simp add: edited_def\<close>)+
  have low: "sectors (disk s') l = sectors (disk s0) l"
    if "l < 4129 \<or> current_dir_cluster s0 \<noteq> 0 \<and> l < 4137" for l
    using that G(3) [of l] m d lba_of_cluster [of "current_dir_cluster s0"]
    by (auto simp: dir_lba_def dir_sectors_def split: if_splits)
  show "sectors (disk s') (unat (cluster_lba c)) = sectors (disk s0) (unat (cluster_lba c))"
    if "in_range c" "c \<noteq> current_dir_cluster s0"
    unfolding m [symmetric]
    using that d lba_of_cluster [of c] cluster_lba_inj [of c "current_dir_cluster s0"]
    by (intro G(3)) (auto simp: dir_lba_def dir_sectors_def split: if_splits)
  have cb: "cur_buf s' = cur_buf s" by (subst G(1)) simp
  have root: "current_dir_cluster s0 = 0 \<Longrightarrow> root_buf s' = cur_buf s"
    using fb(2) cb by (simp add: cur_buf_def)
  show "dir_ents s' i = (if i = idx then e else dir_ents s0 i)" if "i < dir_size s0"
    using flushed_view [OF G(2) [OF refl] fb(2) [symmetric] root that] ed that by (simp add: edited_def)
  have "region_is 4129 8 (root_buf s') (sectors (disk s'))" if "synced s0"
  proof (cases "current_dir_cluster s0 = 0")
    case True
    then show ?thesis using G(2) root by (simp add: dir_lba_def dir_sectors_def)
  next
    case False
    then have "root_buf s' = root_buf s0" by (subst G(1), use ed in \<open>simp add: edited_def\<close>)
    moreover have "region_is 4129 8 (root_buf s0) (sectors (disk s')) = region_is 4129 8 (root_buf s0) (sectors (disk s0))"
      using False low by (intro region_is_frame) simp
    ultimately show ?thesis using that by (simp add: synced_def)
  qed
  moreover have "region_is 4097 32 (fat_buf s0) (sectors (disk s')) = region_is 4097 32 (fat_buf s0) (sectors (disk s0))"
    using low by (intro region_is_frame) simp
  ultimately show "synced s0 \<longrightarrow> synced s'" using low [of 4096] fb(3) by (simp add: synced_def)
qed

subsection \<open>Writing a file\<close>

text \<open>The table after the clusters of \<open>e\<close>, if it has any, were freed.\<close>

definition release :: "fat_dir_entry \<Rightarrow> buffer \<Rightarrow> buffer" where
  "release e fat = (if unat (e_fst_clus_lo e) \<ge> FAT_CLUSTER_MIN then free_chain (e_fst_clus_lo e) fat else fat)"

lemma release_spec: "owns fat e cs \<Longrightarrow> fat_get (release e fat) c = (if c \<in> set cs then 0 else fat_get fat c)"
proof (cases "unat (e_fst_clus_lo e) < 2")
  case False
  assume "owns fat e cs"
  then have ch: "chain fat cs" "hd cs = e_fst_clus_lo e" using False by (simp_all add: owns_def)
  then have cs: "e_fst_clus_lo e # tl cs = cs" using chain_nonempty [of fat cs] by (metis list.collapse)
  then show ?thesis
    using free_chain_spec [of fat "e_fst_clus_lo e" "tl cs" c] ch False by (simp add: release_def)
qed (simp add: release_def owns_def)

lemma write_done_facts:
  assumes "write_done data len fat m cs first fat' d"
  shows "c \<in> set cs \<Longrightarrow> in_range c \<and> fat_get fat c = 0" "c \<notin> set cs \<Longrightarrow> fat_get fat' c = fat_get fat c"
    "l \<notin> (\<lambda>c. unat (cluster_lba c)) ` set cs \<Longrightarrow> sectors d l = m l"
    "in_range c \<Longrightarrow> c \<notin> set cs \<Longrightarrow> sectors d (unat (cluster_lba c)) = m (unat (cluster_lba c))"
    "l < 4137 \<Longrightarrow> sectors d l = m l"
proof -
  have lk: "links fat cs fat'" and st: "stored data len m cs (sectors d)" using assms by (simp_all add: write_done_def)
  show f: "c \<in> set cs \<Longrightarrow> in_range c \<and> fat_get fat c = 0" for c using lk by (simp add: links_def)
  show "c \<notin> set cs \<Longrightarrow> fat_get fat' c = fat_get fat c" using lk by (simp add: links_def)
  show g: "l \<notin> (\<lambda>c. unat (cluster_lba c)) ` set cs \<Longrightarrow> sectors d l = m l" for l using st by (simp add: stored_def)
  show "in_range c \<Longrightarrow> c \<notin> set cs \<Longrightarrow> sectors d (unat (cluster_lba c)) = m (unat (cluster_lba c))"
    using f cluster_lba_inj [of c] by (intro g) (auto simp: image_iff)
  show "l < 4137 \<Longrightarrow> sectors d l = m l"
    using f lba_of_cluster by (intro g) (force simp: image_iff)
qed

lemma write_done_owns:
  assumes wd: "write_done data len fat m cs first fat' d" and len: "len \<le> FS_MAX_FILE_SIZE"
    and e: "e_fst_clus_lo e = first" "e_file_size e = word_of_nat len"
    and m': "\<And>c. c \<in> set cs \<Longrightarrow> m' (unat (cluster_lba c)) = sectors d (unat (cluster_lba c))"
  shows "owns fat' e cs \<and> content m' e cs = map data [0..<len]"
proof (cases "len = 0")
  case True
  then have "cs = []" "first = 0" using wd by (auto simp: write_done_def)
  then show ?thesis using True e by (simp add: owns_def content_def)
next
  case False
  have u: "unat (e_file_size e) = len" using len e by (simp add: unat_of_nat)
  have F: "file_on fat' (sectors d) cs data len" "first = hd cs" "cs \<noteq> []"
    using write_done_file_on [OF wd] False by auto
  have ir: "\<not> unat first < 2"
    using F chain_hd_in_range [of fat' cs] by (simp add: file_on_def in_range_def)
  have o: "owns fat' e cs" using F ir e u len by (simp add: owns_def file_on_def)
  have "m' (unat (cluster_lba (cs ! (k div 512)))) (k mod 512) = data k" if "k < len" for k
  proof -
    have "k div 512 < length cs" using that F(1) by (simp add: file_on_def div_less_iff_less_mult)
    then show ?thesis using m' F(1) that by (simp add: file_on_def)
  qed
  then show ?thesis using o ir e u by (simp add: content_def)
qed

lemma write_entry_eq:
  assumes ed: "edited s0 idx e s" and i: "idx < dir_size s0" and e: "entry_ok e"
    and w: "write_cluster_chain data len (release e (fat_buf s0)) (disk s) = (r1, first, fat, d)"
  obtains s1 where "edited s0 idx (e\<lparr>e_fst_clus_lo := first, e_file_size := word_of_nat len\<rparr>) s1"
    "write_entry idx data len s =
      (if r1 \<noteq> 0 then (- 3, (if unat (e_fst_clus_lo e) \<ge> FAT_CLUSTER_MIN then set_ent idx (e\<lparr>e_fst_clus_lo := 0\<rparr>) s else s)
         \<lparr>fat_buf := fat, disk := d\<rparr>)
       else flush_both (- 4) (s1\<lparr>fat_buf := fat, disk := d\<rparr>))"
proof -
  define e1 where "e1 = (if unat (e_fst_clus_lo e) \<ge> 2 then e\<lparr>e_fst_clus_lo := 0\<rparr> else e)"
  define t where "t = (if unat (e_fst_clus_lo e) \<ge> 2 then set_ent idx e1 s else s)"
  define e2 where "e2 = e1\<lparr>e_fst_clus_lo := first, e_file_size := word_of_nat len\<rparr>"
  have ok: "entry_ok e1" "entry_ok e2" using e by (simp_all add: e1_def e2_def entry_ok_def)
  have t: "edited s0 idx e1 t" using edited_set [OF ed ok(1)] ed by (auto simp: t_def e1_def)
  have ce: "ent (cur_buf s) idx = e" "ent (cur_buf t) idx = e1" using ed t i by (simp_all add: edited_def)
  have fb: "fat_buf s = fat_buf s0" using ed by (simp add: edited_def)
  have "write_entry idx data len s =
      (if r1 \<noteq> 0 then (- 3, t\<lparr>fat_buf := fat, disk := d\<rparr>)
       else flush_both (- 4) ((set_ent idx e2 t)\<lparr>fat_buf := fat, disk := d\<rparr>))"
    using w ce by (simp add: write_entry_def Let_def release_def fb t_def e1_def e2_def set_ent_update set_ent_simps
        cur_buf_simps split: if_splits)
  moreover have "e2 = e\<lparr>e_fst_clus_lo := first, e_file_size := word_of_nat len\<rparr>" by (simp add: e2_def e1_def)
  ultimately show thesis
    using edited_set [OF t ok(2)] that [of "set_ent idx e2 t"] by (simp add: t_def e1_def)
qed

lemma write_entry_spec:
  assumes L: "fs_layout s0 cl F" and sl: "slot_for s0 cl idx e cs" and ed: "edited s0 idx e s"
    and len: "len \<le> FS_MAX_FILE_SIZE" and we: "write_entry idx data len s = (r, s')"
  shows "r = 0 \<Longrightarrow> \<exists>cl'. fs_layout s' cl' (F(name_of e \<mapsto> map data [0..<len]))"
    "fs_ready s' = fs_ready s0" "current_dir_cluster s' = current_dir_cluster s0" "current_path s' = current_path s0"
    "r = 0 \<or> r = - 3 \<or> r = - 4"
    "healthy (disk s0) \<Longrightarrow> healthy (disk s') \<and> (r = 0 \<or> r = - 3 \<and> 512 * card (free_clusters (release e (fat_buf s0))) < len)"
    "r = 0 \<Longrightarrow> synced s0 \<Longrightarrow> synced s'"
proof -
  have e: "live e" "entry_ok e" "idx < dir_size s0" "e_name e ! 0 \<noteq> CHR ''.''" "owns (fat_buf s0) e cs"
    using sl by (simp_all add: slot_for_def)
  obtain r1 first fat d where w: "write_cluster_chain data len (release e (fat_buf s0)) (disk s) = (r1, first, fat, d)"
    by (metis prod_cases4)
  let ?e = "e\<lparr>e_fst_clus_lo := first, e_file_size := word_of_nat len\<rparr>"
  obtain s1 where s1: "edited s0 idx ?e s1" and eq: "write_entry idx data len s =
      (if r1 \<noteq> 0 then (- 3, (if unat (e_fst_clus_lo e) \<ge> FAT_CLUSTER_MIN then set_ent idx (e\<lparr>e_fst_clus_lo := 0\<rparr>) s else s)
         \<lparr>fat_buf := fat, disk := d\<rparr>)
       else flush_both (- 4) (s1\<lparr>fat_buf := fat, disk := d\<rparr>))"
    using write_entry_eq [OF ed e(3,2) w] by blast
  have dir: "current_dir_cluster s0 \<noteq> 0 \<longrightarrow> in_range (current_dir_cluster s0)"
    using L by (simp add: fs_layout_def layout_def)
  have out: "write_outcome data len (release e (fat_buf s0)) (disk s) r1 first fat d"
    using write_cluster_chain_outcome [OF w] .
  have m: "sectors (disk s) = sectors (disk s0)" "healthy (disk s0) \<longrightarrow> healthy (disk s)"
    using ed by (simp_all add: edited_def)
  have fl: "r1 = 0 \<Longrightarrow> flush_both (- 4) (s1\<lparr>fat_buf := fat, disk := d\<rparr>) = (r, s')" using eq we by simp
  note C = commit_spec [OF s1 dir fl]
  have bad: "r1 \<noteq> 0 \<Longrightarrow> r = - 3 \<and> s' = (if unat (e_fst_clus_lo e) \<ge> FAT_CLUSTER_MIN then set_ent idx (e\<lparr>e_fst_clus_lo := 0\<rparr>) s else s)
         \<lparr>fat_buf := fat, disk := d\<rparr>" using eq we by simp
  have same: "fs_ready s = fs_ready s0" "current_dir_cluster s = current_dir_cluster s0" "current_path s = current_path s0"
    using ed by (simp_all add: edited_def)
  show "fs_ready s' = fs_ready s0" "current_dir_cluster s' = current_dir_cluster s0" "current_path s' = current_path s0"
    using C(1,2,4) bad same by (cases "r1 = 0"; simp)+
  show "r = 0 \<or> r = - 3 \<or> r = - 4" using C(5) bad by (cases "r1 = 0") auto
  show "healthy (disk s') \<and> (r = 0 \<or> r = - 3 \<and> 512 * card (free_clusters (release e (fat_buf s0))) < len)"
    if "healthy (disk s0)"
    using out m(2) that C(6) bad by (cases "r1 = 0") (auto simp: write_outcome_def)
  assume r: "r = 0"
  then have r1: "r1 = 0" using bad by auto
  note D = C [OF r1, simplified]
  obtain cs' where wd: "write_done data len (release e (fat_buf s0)) (sectors (disk s0)) cs' first fat d"
    using out r1 m(1) by (auto simp: write_outcome_def)
  note W = write_done_facts [OF wd] and R = release_spec [OF e(5)]
  have fresh: "c \<in> set cs \<or> fat_get (fat_buf s0) c = 0" if "c \<in> set cs'" for c
    using W(1) [OF that] R [of c] by (auto split: if_splits)
  have "current_dir_cluster s0 \<notin> set cs'"
    using fresh W(1) [of "current_dir_cluster s0"] L sl in_range_nz [of "current_dir_cluster s0"]
    by (auto simp: fs_layout_def layout_def slot_for_def)
  then have O: "owns fat ?e cs' \<and> content (sectors (disk s')) ?e cs' = map data [0..<len]"
    using D(7) W(1) by (intro write_done_owns [OF wd len]) auto
  have "\<exists>cl'. fs_layout s' cl' (F(name_of e \<mapsto> content (sectors (disk s')) ?e cs'))"
    using e O D r fresh W R
    by (intro store_layout [OF L sl]) (simp_all add: live_def name_of_def)
  then show "\<exists>cl'. fs_layout s' cl' (F(name_of e \<mapsto> map data [0..<len]))" using O by simp
  show "synced s0 \<Longrightarrow> synced s'" using D(9) [OF r] W(5) synced_root by blast
qed

lemma layout_zero_tail: "fs_layout s cl F \<Longrightarrow> zero_tail (dir_size s) (dir_ents s)"
  by (simp add: fs_layout_def layout_def)

lemma fs_layout_lookup:
  assumes "fs_layout s cl F" "i \<in> slots (dir_size s) (dir_ents s)"
  shows "F (name_of (dir_ents s i)) = Some (content (sectors (disk s)) (dir_ents s i) (cl i))"
  using assms layout_slotD(3) by (simp add: fs_layout_def)

lemma fs_layout_absent:
  assumes "fs_layout s cl F" "\<And>i. i \<in> slots (dir_size s) (dir_ents s) \<Longrightarrow> name_of (dir_ents s i) \<noteq> f"
  shows "F f = None"
  using assms layout_None by (simp add: fs_layout_def)

text \<open>Every slot of the directory is taken.\<close>

definition dir_full :: "fs \<Rightarrow> bool" where
  "dir_full s \<longleftrightarrow> (\<forall>j < dir_size s. lead (dir_ents s j) \<noteq> 0 \<and> lead (dir_ents s j) \<noteq> 0xE5)"

lemma fs_write_raw_cases:
  assumes L: "fs_layout s cl F" "fs_ready s" and nm: "cstring name" "fat_name_from_input name = Some f"
    and w: "fs_write_raw name data len s = (r, s')"
  obtains (early) "r = - 1 \<or> r = - 2" "quiet s s'"
      "healthy (disk s) \<Longrightarrow> len > FS_MAX_FILE_SIZE \<or> F f = None \<and> dir_full s"
  | (entry) idx e cs t where "slot_for s cl idx e cs" "edited s idx e t" "name_of e = f" "len \<le> FS_MAX_FILE_SIZE"
      "write_entry idx data len t = (r, s')"
proof -
  obtain idx ff s1 where fe: "find_entry_in_current name s = (idx, ff, s1)" by (metis prod_cases3)
  obtain ok s2 where ce: "current_dir_entries s1 = (ok, s2)" by force
  note S = find_spec [OF nm layout_zero_tail [OF L(1)] fe] and C = current_dir_entries_spec [OF ce]
  have q: "quiet s s2" using quiet_trans [OF S(1) C(1)] .
  have v: "valid_name name" using nm by (simp add: valid_name_def)
  note eq = w [unfolded fs_write_raw_def, simplified L(2) v fe ce, simplified]
  show thesis
  proof (cases "len > FS_MAX_FILE_SIZE")
    case True
    then show ?thesis using eq ce by (intro early) auto
  next
    case len: False
    show ?thesis
    proof (cases "\<not> ok \<or> idx < 0 \<and> ff < 0")
      case True
      have "F f = None \<and> dir_full s" if h: "healthy (disk s)"
      proof -
        have "idx < 0" "ff < 0" using True C(2) quiet_healthy [OF S(1) h] by auto
        then show ?thesis using S(3,5) h fs_layout_absent [OF L(1)] by (simp add: dir_full_def)
      qed
      then show ?thesis using True eq ce len q by (intro early) (auto split: if_splits)
    next
      case False
      then have t: "edited s i (dir_ents s i) s2" for i using editedI [OF S(1)] ce by simp
      show ?thesis
      proof (cases "idx < 0")
        case True
        let ?e = "new_entry f 0x20"
        have sl: "slot_for s cl (nat ff) ?e []"
          using False True S(3,4) by (intro slot_for_new [OF L(1) nm]) auto
        note ne = new_entry_facts [OF nm, of "0x20"]
        show ?thesis
          using eq ce True False len nm(2) ne(3)
          by (intro entry [OF sl edited_set [OF t]]) (simp_all add: ne)
      next
        case T: False
        then show ?thesis
          using eq ce False len S(2) by (intro entry [OF slot_for_existing [OF L(1)] t]) auto
      qed
    qed
  qed
qed

lemma fs_write_raw_success:
  assumes R: "fs_rel s F" and nm: "cstring name" "fat_name_from_input name = Some f"
    and w: "fs_write_raw name data len s = (0, s')"
  shows "fs_rel s' (F(f \<mapsto> map data [0..<len]))" "synced s \<Longrightarrow> synced s'"
    "current_dir_cluster s' = current_dir_cluster s" "healthy (disk s) \<Longrightarrow> healthy (disk s')"
proof -
  obtain cl where L: "fs_layout s cl F" "fs_ready s" using R by (auto simp: fs_rel_def)
  have "fs_rel s' (F(f \<mapsto> map data [0..<len])) \<and> (synced s \<longrightarrow> synced s') \<and>
    current_dir_cluster s' = current_dir_cluster s \<and> (healthy (disk s) \<longrightarrow> healthy (disk s'))"
  proof (cases rule: fs_write_raw_cases [OF L nm w])
    case (2 idx e cs t)
    note W = write_entry_spec [OF L(1) 2(1,2,4,5)]
    show ?thesis using W 2(3) L(2) by (simp add: fs_rel_def)
  qed simp
  then show "fs_rel s' (F(f \<mapsto> map data [0..<len]))" "synced s \<Longrightarrow> synced s'"
    "current_dir_cluster s' = current_dir_cluster s" "healthy (disk s) \<Longrightarrow> healthy (disk s')" by simp_all
qed

subsection \<open>Reading a file\<close>

text \<open>The first \<open>length xs\<close> bytes of the read cache are \<open>xs\<close>, and a zero follows.\<close>

definition cache_holds :: "buffer \<Rightarrow> byte list \<Rightarrow> bool" where
  "cache_holds c xs \<longleftrightarrow> (\<forall>k < length xs. c k = xs ! k) \<and> c (length xs) = 0"

lemma load_content:
  assumes o: "owns fat e cs" "\<not> unat (e_fst_clus_lo e) < 2" "e_file_size e \<noteq> 0"
    and ld: "load_cluster_chain fat (e_fst_clus_lo e) (e_file_size e) cache d = (got, cache', d')"
  shows "got = - 1 \<or> got = int (length (content (sectors d) e cs)) \<and> cache_holds cache' (content (sectors d) e cs)"
    "healthy d \<Longrightarrow> healthy d' \<and> got \<noteq> - 1" "sectors d' = sectors d"
proof -
  define xs where "xs = content (sectors d) e cs"
  have cs: "chain fat cs" "hd cs = e_fst_clus_lo e" "unat (e_file_size e) \<le> 512 * length cs" "unat (e_file_size e) \<le> 4096"
    using o by (simp_all add: owns_def)
  have len: "length xs = unat (e_file_size e)" using o(2) by (simp add: xs_def content_def)
  have f: "file_on fat (sectors d) cs (\<lambda>k. xs ! k) (unat (e_file_size e))"
    using cs o(2) by (simp add: file_on_def xs_def content_def)
  have pos: "0 < unat (e_file_size e)" using o(3) by (simp add: unat_gt_0)
  note l = load_file [OF f pos cs(4) refl ld [folded cs(2)]]
  show "got = - 1 \<or> got = int (length (content (sectors d) e cs)) \<and> cache_holds cache' (content (sectors d) e cs)"
    using l(1) len unfolding xs_def [symmetric] cache_holds_def by auto
  show "healthy d \<Longrightarrow> healthy d' \<and> got \<noteq> - 1" "sectors d' = sectors d" using l(2,3) by simp_all
qed

lemma fs_read_ptr_spec:
  assumes R: "fs_rel s F" and nm: "cstring name" "fat_name_from_input name = Some f"
    and rd: "fs_read_ptr name s = (res, s')"
  shows "case F f of None \<Rightarrow> res = None
    | Some xs \<Rightarrow> (res = None \<and> \<not> healthy (disk s)) \<or> (res = Some (length xs) \<and> cache_holds (read_cache s') xs)"
    "s' = s\<lparr>dir_buf := dir_buf s', disk := disk s', read_cache := read_cache s'\<rparr>"
    "sectors (disk s') = sectors (disk s)" "healthy (disk s) \<Longrightarrow> healthy (disk s')"
proof -
  obtain cl where L: "fs_layout s cl F" "fs_ready s" using R by (auto simp: fs_rel_def)
  obtain idx ff s1 where fe: "find_entry_in_current name s = (idx, ff, s1)" by (metis prod_cases3)
  obtain ok s2 where ce: "current_dir_entries s1 = (ok, s2)" by force
  note S = find_spec [OF nm layout_zero_tail [OF L(1)] fe] and C = current_dir_entries_spec [OF ce]
  have q: "quiet s s2" using quiet_trans [OF S(1) C(1)] .
  note eq = rd [unfolded fs_read_ptr_def, simplified L(2) fe ce, simplified]
  let ?P = "\<lambda>res s'. (case F f of None \<Rightarrow> res = None
    | Some xs \<Rightarrow> (res = None \<and> \<not> healthy (disk s)) \<or> (res = Some (length xs) \<and> cache_holds (read_cache s') xs)) \<and>
    s' = s\<lparr>dir_buf := dir_buf s', disk := disk s', read_cache := read_cache s'\<rparr> \<and>
    sectors (disk s') = sectors (disk s) \<and> (healthy (disk s) \<longrightarrow> healthy (disk s'))"
  have frame: "u = s\<lparr>dir_buf := dir_buf u, disk := disk u, read_cache := read_cache u\<rparr>" if "quiet s u" for u
    using that unfolding quiet_def by (cases s; cases u) simp
  have "?P res s'"
  proof (cases "idx < 0 \<or> \<not> ok")
    case True
    have "F f \<noteq> None \<Longrightarrow> \<not> healthy (disk s)"
      using True S(1,3) C(2) fs_layout_absent [OF L(1)] by (auto simp: quiet_def)
    moreover have "res = None" "s' = (if idx < 0 then s1 else s2)" using eq ce True by (auto split: if_splits)
    ultimately show ?thesis
      using frame [OF S(1)] frame [OF q] quiet_simps(7) [OF S(1)] quiet_simps(7) [OF q] quiet_healthy [OF S(1)] quiet_healthy [OF q]
      by (auto split: option.splits)
  next
    case False
    let ?e = "dir_ents s (nat idx)" and ?c = "cl (nat idx)"
    have sl: "nat idx \<in> slots (dir_size s) (dir_ents s)" "name_of ?e = f" using S(2) False by auto
    have e: "ent (cur_buf s2) (nat idx) = ?e"
      using C(3) False sl quiet_simps(5,8) [OF S(1)] by (auto simp: slots_def)
    have Ff: "F f = Some (content (sectors (disk s)) ?e ?c)" using fs_layout_lookup [OF L(1) sl(1)] sl(2) by simp
    have o: "owns (fat_buf s) ?e ?c" using layout_slotD(1) L(1) sl(1) by (auto simp: fs_layout_def)
    show ?thesis
    proof (cases "e_file_size ?e = 0 \<or> unat (e_fst_clus_lo ?e) < 2")
      case True
      then have "content (sectors (disk s)) ?e ?c = []" by (auto simp: content_def)
      moreover have "res = Some 0" "s' = s2\<lparr>read_cache := (read_cache s2)(0 := 0)\<rparr>"
        using eq ce True False e by (auto simp: Let_def)
      ultimately show ?thesis
        using Ff q frame [OF q] by (cases s; cases s2) (auto simp: cache_holds_def quiet_def)
    next
      case F: False
      obtain got cache d where ld: "load_cluster_chain (fat_buf s2) (e_fst_clus_lo ?e) (e_file_size ?e) (read_cache s2) (disk s2) = (got, cache, d)"
        by (metis prod_cases3)
      have res: "res = (if got < 0 then None else Some (nat got))" "s' = s2\<lparr>read_cache := cache, disk := d\<rparr>"
        using eq ce F False e ld by (auto simp: Let_def split: if_splits)
      have o2: "owns (fat_buf s2) ?e ?c" using o quiet_simps(1) [OF q] by simp
      note lc = load_content [OF o2 _ _ ld] and qs = quiet_simps(7) [OF q] quiet_healthy [OF q]
      show ?thesis using lc F Ff res qs frame [OF q] by (cases s; cases s2) auto
    qed
  qed
  then show "case F f of None \<Rightarrow> res = None
    | Some xs \<Rightarrow> (res = None \<and> \<not> healthy (disk s)) \<or> (res = Some (length xs) \<and> cache_holds (read_cache s') xs)"
    "s' = s\<lparr>dir_buf := dir_buf s', disk := disk s', read_cache := read_cache s'\<rparr>"
    "sectors (disk s') = sectors (disk s)" "healthy (disk s) \<Longrightarrow> healthy (disk s')" by blast+
qed

subsection \<open>Removing and creating entries\<close>

lemma lead_deleted: "entry_ok e \<Longrightarrow> lead (e\<lparr>e_name := (e_name e)[0 := CHR 0xE5], e_fst_clus_lo := c\<rparr>) = 0xE5"
  "entry_ok e \<Longrightarrow> lead (e\<lparr>e_name := (e_name e)[0 := CHR 0xE5], e_file_size := z, e_fst_clus_lo := c\<rparr>) = 0xE5"
  by (simp_all add: entry_ok_def byte_of_def)

text \<open>The common end of \<open>fs_remove\<close> and \<open>fs_rmdir\<close>: slot \<open>idx\<close> is marked deleted and its clusters are freed.\<close>

lemma delete_commit:
  assumes L: "fs_layout s cl F" "fs_ready s" and i: "idx \<in> slots (dir_size s) (dir_ents s)"
    and ed: "edited s idx (dir_ents s idx) t" and e': "lead e' = 0xE5" "entry_ok e'"
    and d: "sectors d = sectors (disk s)"
    and fl: "flush_both err ((set_ent idx e' t)\<lparr>fat_buf := release (dir_ents s idx) (fat_buf s), disk := d\<rparr>) = (0, s')" "err \<noteq> 0"
  shows "fs_rel s' (F(name_of (dir_ents s idx) := None))" "synced s \<Longrightarrow> synced s'"
    "current_dir_cluster s' = current_dir_cluster s" "fat_buf s' = release (dir_ents s idx) (fat_buf s)"
proof -
  have o: "owns (fat_buf s) (dir_ents s idx) (cl idx)" using layout_slotD(1) L(1) i by (auto simp: fs_layout_def)
  have dir: "current_dir_cluster s \<noteq> 0 \<longrightarrow> in_range (current_dir_cluster s)"
    using L by (simp add: fs_layout_def layout_def)
  note C = commit_spec [OF edited_set [OF ed e'(2)] dir fl]
  have "fs_layout s' cl (F(name_of (dir_ents s idx) := None))"
    using C d e' release_spec [OF o] by (intro drop_layout [OF L(1) i]) simp_all
  then show "fs_rel s' (F(name_of (dir_ents s idx) := None))" using C(1) L(2) by (auto simp: fs_rel_def)
  show "synced s \<Longrightarrow> synced s'" using C(9) d synced_root by simp
  show "current_dir_cluster s' = current_dir_cluster s" "fat_buf s' = release (dir_ents s idx) (fat_buf s)"
    using C(2,3) by simp_all
qed

lemma fs_remove_success:
  assumes R: "fs_rel s F" and nm: "cstring name" "fat_name_from_input name = Some f"
    and rm: "fs_remove name s = (r, s')"
  shows "r = 0 \<Longrightarrow> fs_rel s' (F(f := None)) \<and> F f \<noteq> None \<and> (synced s \<longrightarrow> synced s')"
    "healthy (disk s) \<Longrightarrow> F f \<noteq> None \<Longrightarrow> r = 0" "F f = None \<Longrightarrow> r = - 1 \<and> fs_rel s' F"
proof -
  obtain cl where L: "fs_layout s cl F" "fs_ready s" using R by (auto simp: fs_rel_def)
  obtain idx ff s1 where fe: "find_entry_in_current name s = (idx, ff, s1)" by (metis prod_cases3)
  obtain ok s2 where ce: "current_dir_entries s1 = (ok, s2)" by force
  note S = find_spec [OF nm layout_zero_tail [OF L(1)] fe] and C = current_dir_entries_spec [OF ce]
  have q: "quiet s s2" using quiet_trans [OF S(1) C(1)] .
  have "(r = 0 \<longrightarrow> fs_rel s' (F(f := None)) \<and> F f \<noteq> None \<and> (synced s \<longrightarrow> synced s')) \<and>
    (healthy (disk s) \<longrightarrow> F f \<noteq> None \<longrightarrow> r = 0) \<and> (F f = None \<longrightarrow> r = - 1 \<and> fs_rel s' F)"
  proof (cases "idx < 0 \<or> \<not> ok")
    case True
    then have "r = - 1" "s' = (if idx < 0 then s1 else s2)"
      using rm L(2) fe ce by (auto simp: fs_remove_def split: if_splits)
    moreover have "F f \<noteq> None \<Longrightarrow> \<not> healthy (disk s)"
      using True S(1,3) C(2) fs_layout_absent [OF L(1)] by (auto simp: quiet_def)
    ultimately show ?thesis using R fs_rel_quiet [OF S(1)] fs_rel_quiet [OF q] by (cases "F f") auto
  next
    case False
    let ?e = "dir_ents s (nat idx)"
    let ?e' = "?e\<lparr>e_name := (e_name ?e)[0 := CHR 0xE5], e_file_size := 0, e_fst_clus_lo := 0\<rparr>"
    have sl: "nat idx \<in> slots (dir_size s) (dir_ents s)" "name_of ?e = f" using S(2) False by auto
    have ed: "edited s (nat idx) ?e s2" using editedI [OF S(1)] ce False by simp
    have e: "ent (cur_buf s2) (nat idx) = ?e" using ed sl(1) by (simp add: edited_def slots_def)
    have ok: "entry_ok ?e'" using entry_ok_ent [of "dir_view s" "nat idx"] by (simp add: entry_ok_def)
    have fl: "flush_both (- 2) ((set_ent (nat idx) ?e' s2)\<lparr>fat_buf := release ?e (fat_buf s), disk := disk s2\<rparr>) = (r, s')"
    proof -
      have "(set_ent (nat idx) ?e' s2)\<lparr>fat_buf := release ?e (fat_buf s), disk := disk s2\<rparr> =
        set_ent (nat idx) ?e' (if unat (e_fst_clus_lo ?e) \<ge> 2 then s2\<lparr>fat_buf := free_chain (e_fst_clus_lo ?e) (fat_buf s2)\<rparr> else s2)"
        using quiet_simps(1) [OF q] by (simp add: release_def set_ent_def)
      then show ?thesis
        using rm L(2) fe ce False e by (cases "unat (e_fst_clus_lo ?e) \<ge> 2") (simp_all add: fs_remove_def Let_def)
    qed
    note dirr = edited_set [OF ed ok]
    have dc: "current_dir_cluster s \<noteq> 0 \<longrightarrow> in_range (current_dir_cluster s)"
      using L by (simp add: fs_layout_def layout_def)
    note K = commit_spec [OF dirr dc fl]
    have Ff: "F f \<noteq> None" using fs_layout_lookup [OF L(1) sl(1)] sl(2) by simp
    have "fs_rel s' (F(name_of ?e := None)) \<and> (synced s \<longrightarrow> synced s')" if "r = 0"
      using delete_commit(1,2) [OF L sl(1) ed _ ok quiet_simps(7) [OF q] fl [unfolded that]]
        lead_deleted(2) [OF entry_ok_ent] by simp
    then show ?thesis using Ff K(6) sl(2) quiet_healthy [OF q] by auto
  qed
  then show "r = 0 \<Longrightarrow> fs_rel s' (F(f := None)) \<and> F f \<noteq> None \<and> (synced s \<longrightarrow> synced s')"
    "healthy (disk s) \<Longrightarrow> F f \<noteq> None \<Longrightarrow> r = 0" "F f = None \<Longrightarrow> r = - 1 \<and> fs_rel s' F" by blast+
qed

lemma fs_touch_success:
  assumes R: "fs_rel s F" and nm: "cstring name" "fat_name_from_input name = Some f"
    and tc: "fs_touch name s = (0, s')"
  shows "fs_rel s' (if F f = None then F(f \<mapsto> []) else F)" "synced s \<Longrightarrow> synced s'"
proof -
  obtain cl where L: "fs_layout s cl F" "fs_ready s" using R by (auto simp: fs_rel_def)
  obtain idx ff s1 where fe: "find_entry_in_current name s = (idx, ff, s1)" by (metis prod_cases3)
  obtain ok s2 where ce: "current_dir_entries s1 = (ok, s2)" by force
  note S = find_spec [OF nm layout_zero_tail [OF L(1)] fe] and C = current_dir_entries_spec [OF ce]
  have v: "valid_name name" using nm by (simp add: valid_name_def)
  have "fs_rel s' (if F f = None then F(f \<mapsto> []) else F) \<and> (synced s \<longrightarrow> synced s')"
  proof (cases "0 \<le> idx")
    case True
    then have "s' = s1" using tc L(2) v fe by (auto simp: fs_touch_def)
    moreover obtain xs where "F f = Some xs" using S(2) True fs_layout_lookup [OF L(1)] by force
    ultimately show ?thesis
      using R fs_rel_quiet [OF S(1)] quiet_simps [OF S(1)] by (simp add: synced_def)
  next
    case False
    let ?e = "(new_entry f 0x20)\<lparr>e_fst_clus_lo := 0, e_file_size := 0\<rparr>"
    note ne = new_entry_facts [OF nm, of "0x20", simplified]
    have ff: "0 \<le> ff" "ok" and fl: "flush_current_dir (set_ent (nat ff) ?e s2) = (0, s')"
      using tc L(2) v fe ce False nm(2) by (auto simp: fs_touch_def Let_def split: if_splits)
    have n: "?e = new_entry f 0x20" using ne(5,6) by simp
    have sl: "slot_for s cl (nat ff) (new_entry f 0x20) []"
      using False ff S(3,4) by (intro slot_for_new [OF L(1) nm]) auto
    have absent: "F f = None" using S(3) False ff(1) fs_layout_absent [OF L(1)] by simp
    have "edited s (nat ff) (dir_ents s (nat ff)) s2" using editedI [OF S(1)] ce ff(2) by simp
    then have ed: "edited s (nat ff) (new_entry f 0x20) (set_ent (nat ff) ?e s2)" unfolding n by (rule edited_set [OF _ ne(1)])
    have dc: "current_dir_cluster s \<noteq> 0 \<longrightarrow> in_range (current_dir_cluster s)"
      using L by (simp add: fs_layout_def layout_def)
    note T = flush_dir_commit [OF ed dc fl]
    have "\<exists>cl'. fs_layout s' cl' (F(name_of (new_entry f 0x20) \<mapsto> content (sectors (disk s')) (new_entry f 0x20) []))"
      using T ne by (intro store_layout [OF L(1) sl]) (simp_all add: owns_def)
    then show ?thesis using T L(2) absent ne by (simp add: fs_rel_def content_def)
  qed
  then show "fs_rel s' (if F f = None then F(f \<mapsto> []) else F)" "synced s \<Longrightarrow> synced s'" by simp_all
qed

subsection \<open>Appending\<close>

lemma map_upt_add: "map g [0..<m + n] = map g [0..<m] @ map (\<lambda>k. g (m + k)) [0..<n]"
  by (induction n) simp_all

lemma text_bytes_eq: "map (text_bytes t) [0..<length t] = map byte_of t"
  by (rule nth_equalityI) (simp_all add: text_bytes_def)

lemma cache_holds_bytes: "cache_holds c xs \<Longrightarrow> map c [0..<length xs] = xs"
  by (rule nth_equalityI) (simp_all add: cache_holds_def)

lemma fs_rel_read:
  assumes "fs_rel s F" "cstring name" "fat_name_from_input name = Some f" "fs_read_ptr name s = (res, s')"
  shows "fs_rel (s'\<lparr>read_cache := c\<rparr>) F" "synced s \<Longrightarrow> synced (s'\<lparr>read_cache := c\<rparr>)"
proof -
  note P = fs_read_ptr_spec [OF assms]
  have "fat_buf s' = fat_buf s" "root_buf s' = root_buf s" "fs_ready s' = fs_ready s"
    "current_dir_cluster s' = current_dir_cluster s"
    by (subst P(2); simp)+
  moreover from this have "fs_layout (s'\<lparr>read_cache := c\<rparr>) cl F = fs_layout s cl F" for cl
    using P(3) by (simp add: fs_layout_def dir_view_def)
  ultimately show "fs_rel (s'\<lparr>read_cache := c\<rparr>) F" "synced s \<Longrightarrow> synced (s'\<lparr>read_cache := c\<rparr>)"
    using assms(1) P(3) by (simp_all add: fs_rel_def synced_def)
qed

lemma fs_append_success:
  assumes R: "fs_rel s F" and nm: "cstring name" "fat_name_from_input name = Some f"
    and h: "healthy (disk s)" and t: "cstring text" and ap: "fs_append name text s = (0, s')"
  shows "fs_rel s' (F(f \<mapsto> (case F f of None \<Rightarrow> [] | Some xs \<Rightarrow> xs) @ map byte_of text))"
proof -
  obtain res s1 where rd: "fs_read_ptr name s = (res, s1)" by force
  note P = fs_read_ptr_spec [OF R nm rd] and Q = fs_rel_read [OF R nm rd]
  define xs where "xs = (case F f of None \<Rightarrow> [] | Some xs \<Rightarrow> xs)"
  have ol: "(case res of None \<Rightarrow> 0 | Some n \<Rightarrow> n) = length xs" and cx: "map (read_cache s1) [0..<length xs] = xs"
    using P(1) h cache_holds_bytes by (auto simp: xs_def split: option.splits)
  define c where "c = (memcpy (case res of None \<Rightarrow> memcpy (read_cache s1) 0 (text_bytes []) 0 (length xs)
       | Some _ \<Rightarrow> memcpy (read_cache s1) 0 (read_cache s1) 0 (length xs)) (length xs) (text_bytes text) 0 (length text))
     (length xs + length text := 0)"
  have "fs_ready s" using R by (simp add: fs_rel_def)
  then have w: "fs_write_raw name c (length xs + length text) (s1\<lparr>read_cache := c\<rparr>) = (0, s')"
    using ap rd t ol by (cases res) (auto simp: fs_append_def Let_def c_def split: if_splits)
  have "map c [0..<length xs] = map (read_cache s1) [0..<length xs]"
    using ol by (auto simp: c_def memcpy_eq split: option.splits)
  moreover have "map (\<lambda>k. c (length xs + k)) [0..<length text] = map (text_bytes text) [0..<length text]"
    by (auto simp: c_def memcpy_eq)
  ultimately have "map c [0..<length xs + length text] = xs @ map byte_of text"
    by (simp add: map_upt_add cx text_bytes_eq)
  then show ?thesis using fs_write_raw_success(1) [OF Q(1) nm w] by (simp add: xs_def)
qed

end
