(* ===== verification/Fs_Mount.thy ===== *)
theory Fs_Mount
  imports Fs_Spec
begin

text \<open>
  Mounting: \<open>fs_init\<close> formats a volume whose boot sector is not valid, and otherwise brings back the
  files that were there when the volume was last in step with memory (\<open>synced\<close>).
\<close>

subsection \<open>Reading regions back\<close>

lemma drive_read_region:
  assumes "drive_read lba n b d = (0, b', d')" "region_is (unat lba) n c (sectors d)" "k < n * 512"
  shows "b' k = c k"
  using drive_read_ok [OF assms(1), of k] assms(2,3) by (simp add: region_is_def)

lemma region_is_cong: "(\<And>k. k < n * 512 \<Longrightarrow> b k = c k) \<Longrightarrow> region_is lba n b m = region_is lba n c m"
  by (simp add: region_is_def)

lemma fs_load_spec:
  assumes h: "healthy (disk s)" and fat: "region_is 4097 32 fb (sectors (disk s))"
    and root: "region_is 4129 8 rb (sectors (disk s))"
  shows "fs_ready (fs_load s)" "\<And>k. k < 16384 \<Longrightarrow> fat_buf (fs_load s) k = fb k"
    "\<And>k. k < 4096 \<Longrightarrow> root_buf (fs_load s) k = rb k" "sectors (disk (fs_load s)) = sectors (disk s)"
    "healthy (disk (fs_load s))" "current_dir_cluster (fs_load s) = current_dir_cluster s"
    "current_path (fs_load s) = current_path s"
proof -
  obtain r1 b1 d1 where r1: "drive_read 4097 32 (fat_buf s) (disk s) = (r1, b1, d1)" by (metis prod_cases3)
  obtain r2 b2 d2 where r2: "drive_read 4129 8 (root_buf s) d1 = (r2, b2, d2)" by (metis prod_cases3)
  note H1 = drive_read_healthy [OF h r1]
  note H2 = drive_read_healthy [OF H1(2) r2]
  have eq: "fs_load s = s\<lparr>fat_buf := b1, root_buf := b2, disk := d2, fs_ready := True\<rparr>"
    using r1 r2 H1 H2 by (simp add: fs_load_def Let_def)
  have m: "sectors d1 = sectors (disk s)" "sectors d2 = sectors (disk s)"
    using drive_read_frame(1) [OF r1] drive_read_frame(1) [OF r2] by simp_all
  show "fs_ready (fs_load s)" "sectors (disk (fs_load s)) = sectors (disk s)" "healthy (disk (fs_load s))"
    "current_dir_cluster (fs_load s) = current_dir_cluster s" "current_path (fs_load s) = current_path s"
    using eq m H2 by simp_all
  show "fat_buf (fs_load s) k = fb k" if "k < 16384" for k
    using drive_read_region [of 4097 32 "fat_buf s" "disk s" b1 d1 fb k] r1 H1 fat that eq by simp
  show "root_buf (fs_load s) k = rb k" if "k < 4096" for k
    using drive_read_region [of 4129 8 "root_buf s" d1 b2 d2 rb k] r2 H2 root that eq m by simp
qed

subsection \<open>Remounting\<close>

lemma fs_init_valid:
  assumes h: "healthy (disk t)" and v: "valid_boot (sectors (disk t) 4096)"
  obtains d where "fs_init t = fs_load (t\<lparr>fs_ready := False, disk := d\<rparr>)" "healthy d" "sectors d = sectors (disk t)"
proof -
  obtain r bs d where rd: "drive_read 4096 1 (\<lambda>_. 0) (disk t) = (r, bs, d)" by (metis prod_cases3)
  note H = drive_read_healthy [OF h rd]
  have "valid_boot bs = valid_boot (sectors (disk t) 4096)"
    using drive_read_ok [of 4096 1 "\<lambda>_. 0" "disk t" bs d] rd H(1) by (intro valid_boot_cong) simp
  then have "fs_init t = fs_load (t\<lparr>fs_ready := False, disk := d\<rparr>)"
    using rd H(1) v by (simp add: fs_init_def Let_def)
  then show thesis using that H(2) drive_read_frame(1) [OF rd] by blast
qed

lemma chain_in_range_cong:
  assumes "\<And>c. in_range c \<Longrightarrow> fat_get f c = fat_get g c"
  shows "chain f cs = chain g cs"
proof (induction cs rule: induct_list012)
  case (3 c d cs)
  then show ?case using assms by auto
qed (use assms in auto)

lemma layout_fat_cong:
  assumes "\<And>c. in_range c \<Longrightarrow> fat_get f c = fat_get g c"
  shows "layout n E f m dir cl F = layout n E g m dir cl F"
proof -
  have "owns f e cs = owns g e cs" for e cs
    using chain_in_range_cong [OF assms] by (simp add: owns_def)
  then show ?thesis using assms by (auto simp: layout_def)
qed

text \<open>A state that agrees with \<open>s\<close> on the table, the root directory and the drive content.\<close>

lemma fs_rel_reload:
  assumes R: "fs_rel s F" "current_dir_cluster s = 0" and t: "fs_ready t" "current_dir_cluster t = 0"
    and fat: "\<And>k. k < 16384 \<Longrightarrow> fat_buf t k = fat_buf s k" and root: "\<And>k. k < 4096 \<Longrightarrow> root_buf t k = root_buf s k"
    and m: "sectors (disk t) = sectors (disk s)"
  shows "fs_rel t F"
proof -
  obtain cl where L: "fs_layout s cl F" using R by (auto simp: fs_rel_def)
  have f: "layout n E (fat_buf t) = layout n E (fat_buf s)" for n E
    using fat fat_get_cong by (intro ext layout_fat_cong) blast
  have "dir_ents t i = dir_ents s i" if "i < 32" for i
    using that R(2) t(2) root by (intro ent_cong) (simp add: dir_view_def)
  then have "layout 32 (dir_ents t) = layout 32 (dir_ents s)" by (intro ext layout_cong)
  then have "fs_layout t cl F" using L R(2) t(2) m by (simp add: fs_layout_def f max_entries_def)
  then show ?thesis using t by (auto simp: fs_rel_def)
qed

lemma remount:
  assumes R: "fs_rel s F" "synced s" "current_dir_cluster s = 0"
    and t: "disk t = disk s" "healthy (disk s)" "current_dir_cluster t = 0"
  shows "fs_rel (fs_init t) F" "synced (fs_init t)"
proof -
  have sy: "valid_boot (sectors (disk s) 4096)" "region_is 4097 32 (fat_buf s) (sectors (disk s))"
    "region_is 4129 8 (root_buf s) (sectors (disk s))"
    using R(2) by (simp_all add: synced_def)
  obtain d where i: "fs_init t = fs_load (t\<lparr>fs_ready := False, disk := d\<rparr>)" "healthy d" "sectors d = sectors (disk t)"
    using fs_init_valid [of t] t sy(1) by auto
  let ?t = "t\<lparr>fs_ready := False, disk := d\<rparr>"
  have L: "fs_ready (fs_load ?t)" "\<And>k. k < 16384 \<Longrightarrow> fat_buf (fs_load ?t) k = fat_buf s k"
    "\<And>k. k < 4096 \<Longrightarrow> root_buf (fs_load ?t) k = root_buf s k" "sectors (disk (fs_load ?t)) = sectors d"
    "current_dir_cluster (fs_load ?t) = current_dir_cluster t"
    using fs_load_spec [of ?t "fat_buf s" "root_buf s"] i t sy by simp_all
  show "fs_rel (fs_init t) F" unfolding i(1) using L i t R by (intro fs_rel_reload [OF R(1,3)]) simp_all
  have "region_is 4097 32 (fat_buf (fs_load ?t)) = region_is 4097 32 (fat_buf s)"
    "region_is 4129 8 (root_buf (fs_load ?t)) = region_is 4129 8 (root_buf s)"
    using L by (intro ext region_is_cong; simp)+
  then show "synced (fs_init t)" unfolding i(1) synced_def using L(4) i(3) t(1) sy by simp
qed

subsection \<open>Formatting\<close>

lemma lead_zero_buf: "(\<And>k. k < 32 * Suc i \<Longrightarrow> b k = 0) \<Longrightarrow> lead (ent b i) = 0"
  by (simp add: ent_def decode_entry_def)

lemma layout_empty:
  assumes "\<And>i. i < n \<Longrightarrow> lead (E i) = 0" "dir \<noteq> 0 \<longrightarrow> in_range dir \<and> fat_get fat dir \<noteq> 0"
  shows "layout n E fat m dir cl Map.empty"
proof -
  have "slots n E = {}" using assms by (auto simp: slots_def live_def)
  then show ?thesis using assms by (simp add: layout_def separate_def zero_tail_def)
qed

lemma fat_format_spec:
  assumes h: "healthy (disk s)"
  obtains s' fb rb where "fat_format s = (0, s')" "healthy (disk s')" "current_dir_cluster s' = current_dir_cluster s"
    "valid_boot (sectors (disk s') 4096)" "region_is 4097 32 fb (sectors (disk s'))"
    "region_is 4129 8 rb (sectors (disk s'))" "\<And>k. k < 4096 \<Longrightarrow> rb k = 0" "\<And>c. in_range c \<Longrightarrow> fat_get fb c = 0"
proof -
  obtain r0 d0 where w: "drive_write 4096 1 boot_sector (disk s) = (r0, d0)" by force
  note H0 = drive_write_healthy [OF h w]
  let ?fb = "fat_set 1 0xFFFF (fat_set 0 0xFFF8 (memset (fat_buf s) 0 0 16384))"
  let ?s1 = "s\<lparr>disk := d0, fat_buf := ?fb\<rparr>"
  obtain r1 s2 where f: "flush_fat ?s1 = (r1, s2)" by force
  note F = flush_fat_spec [OF f]
  let ?rb = "memset (root_buf s2) 0 0 4096"
  obtain r3 s3 where g: "flush_root (s2\<lparr>root_buf := ?rb\<rparr>) = (r3, s3)" by force
  obtain d3 where wr: "drive_write 4129 8 ?rb (disk s2) = (r3, d3)" and s3: "s3 = s2\<lparr>root_buf := ?rb, disk := d3\<rparr>"
    using g by (auto simp: flush_root_def split: prod.splits)
  have h2: "r1 = 0" "healthy (disk s2)" using F(4) H0(2) by simp_all
  note H3 = drive_write_healthy [OF h2(2) wr]
  have eq: "fat_format s = (0, s3)"
    using w H0(1) f h2(1) g H3(1) by (simp add: fat_format_def write_boot_sector_def Let_def)
  have m3: "l < 4129 \<Longrightarrow> sectors d3 l = sectors (disk s2) l" for l using drive_write_frame(4) [OF wr, of l] by simp
  have "sectors d0 4096 k = boot_sector k" if "k < 512" for k
    using drive_write_ok [of 4096 1 boot_sector "disk s" d0 4096 k] w H0(1) that by simp
  then have vb: "valid_boot (sectors (disk s3) 4096)"
    using valid_boot_cong [of "sectors (disk s3) 4096" boot_sector] valid_boot_sector m3 [of 4096] F(3) [of 4096] s3 by simp
  have rf: "region_is 4097 32 ?fb (sectors (disk s3))"
    using F(2) [OF h2(1)] region_is_frame [of 4097 32 "sectors d3" "sectors (disk s2)" ?fb] m3 s3 by simp
  have rr: "region_is 4129 8 ?rb (sectors (disk s3))"
    using drive_write_region [of 4129 8 ?rb "disk s2" d3] wr H3(1) s3 by simp
  have fz: "fat_get ?fb c = 0" if "in_range c" for c
  proof -
    have "c \<noteq> 0" "c \<noteq> 1" using that by (auto simp: in_range_def)
    then have "fat_get ?fb c = fat_get (memset (fat_buf s) 0 0 16384) c" by (simp add: fat_get_set)
    then show ?thesis using fat_offset_in_bounds [OF that] by (simp add: fat_get_def memset_eq)
  qed
  have "current_dir_cluster s2 = current_dir_cluster s" by (subst F(1)) simp
  then show thesis using that [OF eq _ _ vb rf rr _ fz] H3(2) s3 by (simp add: memset_eq)
qed

lemma fs_init_formats:
  assumes h: "healthy (disk t)" and v: "\<not> valid_boot (sectors (disk t) 4096)" and c: "current_dir_cluster t = 0"
  shows "fs_rel (fs_init t) Map.empty" "synced (fs_init t)" "\<And>c. in_range c \<Longrightarrow> fat_get (fat_buf (fs_init t)) c = 0"
    "healthy (disk (fs_init t))" "current_dir_cluster (fs_init t) = 0"
    "\<And>i. i < 32 \<Longrightarrow> lead (ent (root_buf (fs_init t)) i) = 0"
proof -
  obtain r bs d where rd: "drive_read 4096 1 (\<lambda>_. 0) (disk t) = (r, bs, d)" by (metis prod_cases3)
  note H = drive_read_healthy [OF h rd]
  have "valid_boot bs = valid_boot (sectors (disk t) 4096)"
    using drive_read_ok [of 4096 1 "\<lambda>_. 0" "disk t" bs d] rd H(1) by (intro valid_boot_cong) simp
  then have nb: "\<not> valid_boot bs" using v by simp
  let ?t = "t\<lparr>fs_ready := False, disk := d\<rparr>"
  obtain s' fb rb where f: "fat_format ?t = (0, s')" "healthy (disk s')" "current_dir_cluster s' = current_dir_cluster ?t"
    "valid_boot (sectors (disk s') 4096)" "region_is 4097 32 fb (sectors (disk s'))"
    "region_is 4129 8 rb (sectors (disk s'))" "\<And>k. k < 4096 \<Longrightarrow> rb k = 0" "\<And>c. in_range c \<Longrightarrow> fat_get fb c = 0"
    using fat_format_spec [of ?t] H(2) by auto
  have eq: "fs_init t = fs_load s'" using rd nb f(1) by (simp add: fs_init_def Let_def)
  note L = fs_load_spec [OF f(2,5,6)]
  have dc: "current_dir_cluster (fs_load s') = 0" using L(6) f(3) c by simp
  have ld: "lead (ent (root_buf (fs_load s')) i) = 0" if "i < 32" for i
    using that L(3) f(7) by (intro lead_zero_buf) simp
  then show "\<And>i. i < 32 \<Longrightarrow> lead (ent (root_buf (fs_init t)) i) = 0" using eq by simp
  have "fs_layout (fs_load s') (\<lambda>_. []) Map.empty"
    unfolding fs_layout_def dc using ld dc by (intro layout_empty) (simp_all add: max_entries_def dir_view_def)
  then show "fs_rel (fs_init t) Map.empty" using eq L(1) by (auto simp: fs_rel_def)
  show "synced (fs_init t)"
    unfolding eq synced_def L(4)
    using f(4,5,6) region_is_cong [of 32 "fat_buf (fs_load s')" fb 4097] region_is_cong [of 8 "root_buf (fs_load s')" rb 4129] L(2,3)
    by simp
  show "fat_get (fat_buf (fs_init t)) c = 0" if "in_range c" for c
    using fat_get_cong [of "fat_buf (fs_load s')" fb c] L(2) f(8) that eq by simp
  show "healthy (disk (fs_init t))" "current_dir_cluster (fs_init t) = 0" using L(5) dc eq by simp_all
qed

end
