(* ===== verification/Fs_Dir.thy ===== *)
theory Fs_Dir
  imports Fs_Mount
begin

text \<open>
  Subdirectories and the current path: \<open>fs_mkdir\<close>, \<open>fs_rmdir\<close>, \<open>fs_chdir\<close> and \<open>fs_getcwd\<close>.
\<close>

subsection \<open>The path array\<close>

definition path_ok :: "string \<Rightarrow> bool" where
  "path_ok p \<longleftrightarrow> length p = FS_MAX_PATH \<and> p ! (FS_MAX_PATH - 1) = NUL"

definition cpath :: "string \<Rightarrow> string" where
  "cpath p = takeWhile (\<lambda>c. c \<noteq> NUL) p"

lemma cstring_cpath [simp]: "cstring (cpath p)"
  by (auto simp: cpath_def cstring_def dest: set_takeWhileD)

lemma cpath_decomp:
  assumes "path_ok p"
  obtains rest where "p = cpath p @ NUL # rest" "length (cpath p) < FS_MAX_PATH"
proof -
  have l: "127 < length p" "p ! 127 = NUL" using assms by (simp_all add: path_ok_def)
  have "NUL \<in> set p" using nth_mem [OF l(1)] unfolding l(2) .
  then have "dropWhile (\<lambda>c. c \<noteq> NUL) p \<noteq> []" by (simp add: dropWhile_eq_Nil_conv)
  then obtain rest where d: "dropWhile (\<lambda>c. c \<noteq> NUL) p = NUL # rest"
    using hd_dropWhile [of "\<lambda>c. c \<noteq> NUL" p] by (cases "dropWhile (\<lambda>c. c \<noteq> NUL) p") auto
  have p: "p = cpath p @ NUL # rest" unfolding cpath_def d [symmetric] by simp
  then have "length p = length (cpath p) + Suc (length rest)" by (metis length_append length_Cons)
  then have "length (cpath p) < FS_MAX_PATH" using assms by (simp add: path_ok_def)
  then show thesis using p that by blast
qed

lemma cpath_append [simp]: "cstring q \<Longrightarrow> cpath (q @ NUL # rest) = q"
  by (induction q) (auto simp: cpath_def)

lemma strlen_path: "strlen p = length (cpath p)"
  by (simp add: strlen_eq cpath_def)

lemma last_slash_none: "cstring ys \<Longrightarrow> CHR ''/'' \<notin> set ys \<Longrightarrow> last_slash (ys @ NUL # zs) i pos = pos"
  by (induction ys arbitrary: i) auto

lemma last_slash_eq:
  "cstring xs \<Longrightarrow> cstring ys \<Longrightarrow> CHR ''/'' \<notin> set ys \<Longrightarrow> last_slash (xs @ CHR ''/'' # ys @ NUL # zs) i pos = i + length xs"
  by (induction xs arbitrary: i pos) (auto simp: last_slash_none)

text \<open>Going up drops the last component.\<close>

lemma path_up_root:
  assumes "path_ok p" "cpath p = CHR ''/'' # nm" "CHR ''/'' \<notin> set nm"
  shows "cpath (path_up p) = ''/''"
proof -
  obtain rest where p: "p = CHR ''/'' # nm @ NUL # rest" using cpath_decomp [OF assms(1)] assms(2) by auto
  have "cstring nm" using cstring_cpath [of p] assms(2) by simp
  then have "last_slash p 0 0 = 0" using last_slash_eq [of "[]" nm rest 0 0] assms(3) by (simp add: p)
  then have "path_up p = CHR ''/'' # (nm @ NUL # rest)[0 := NUL]" by (simp add: path_up_def p)
  then show ?thesis by (cases nm) (simp_all add: cpath_def)
qed

lemma path_up_sub:
  assumes "path_ok p" "cpath p = q @ CHR ''/'' # nm" "CHR ''/'' \<notin> set nm" "q \<noteq> []"
  shows "cpath (path_up p) = q"
proof -
  obtain rest where p: "p = q @ CHR ''/'' # nm @ NUL # rest" using cpath_decomp [OF assms(1)] assms(2) by auto
  have c: "cstring nm" "cstring q" using cstring_cpath [of p] assms(2) by simp_all
  then have "last_slash p 0 0 = length q" using last_slash_eq [of q nm rest 0 0] assms(3) by (simp add: p)
  then have "path_up p = q @ NUL # nm @ NUL # rest" using assms(4) by (simp add: path_up_def p)
  then show ?thesis using c by simp
qed

lemma path_ok_update: "path_ok p \<Longrightarrow> i < FS_MAX_PATH - 1 \<Longrightarrow> path_ok (p[i := c])"
  by (simp add: path_ok_def)

lemma path_up_ok:
  assumes "path_ok p"
  shows "path_ok (path_up p)"
proof -
  have "path_ok (p[k := NUL])" for k using assms by (cases "k = 127") (auto simp: path_ok_def nth_list_update)
  then show ?thesis by (simp add: path_up_def Let_def)
qed

text \<open>Going down appends a component when it fits.\<close>

lemma strcpy_from_cpath:
  "i \<le> length (cpath src) \<Longrightarrow> strcpy_from dst src i = strcpy_from dst (cpath src) i"
proof (induction dst src i rule: strcpy_from.induct)
  case (1 dst src i)
  show ?case
  proof (cases "i < length (cpath src)")
    case True
    then have "cpath src ! i = src ! i" "i < length src" "cpath src ! i \<noteq> NUL"
      using takeWhile_nth [of i "\<lambda>c. c \<noteq> NUL" src] nth_mem [OF True] set_takeWhileD [of "cpath src ! i"]
        length_takeWhile_le [of "\<lambda>c. c \<noteq> NUL" src] by (auto simp: cpath_def)
    then show ?thesis
      using 1 True by (subst (1 2) strcpy_from.simps) simp
  next
    case False
    then have i: "i = length (cpath src)" using "1.prems" by simp
    have "cget src i = NUL"
      using nth_length_takeWhile [of "\<lambda>c. c \<noteq> NUL" src] by (cases "i < length src") (auto simp: i cpath_def)
    then show ?thesis using i by (subst (1 2) strcpy_from.simps) simp
  qed
qed

lemma strcpy_cpath: "strcpy dst src = strcpy dst (cpath src)"
  using strcpy_from_cpath [of 0] by (simp add: strcpy_def)

lemma path_down_cpath: "path_down p nm = path_down p (cpath nm)"
  unfolding path_down_def strcpy_cpath [of _ nm, symmetric] strlen_cstring [OF cstring_cpath] strlen_path [of nm] ..

lemma path_down_ok_cstring:
  assumes "path_ok p" "cstring nm"
  shows "path_ok (path_down p nm)"
proof -
  define q where "q = (if length (cpath p) > 1 \<and> length (cpath p) < 127 then (p[length (cpath p) := CHR ''/''], length (cpath p) + 1)
    else (p, length (cpath p)))"
  obtain p1 n where q: "q = (p1, n)" by force
  have p1: "path_ok p1" using q assms(1) by (auto simp: q_def path_ok_update split: if_splits)
  have "path_ok (take n p1 @ t)" if "strcpy (drop n p1) nm = Some t" "n + length nm < 128" for t
  proof -
    have t: "t = nm @ NUL # drop (Suc (length nm)) (drop n p1)"
      using that assms(2) p1 by (simp add: strcpy_eq path_ok_def split: if_splits)
    have l: "length (take n p1) = n" "length p1 = 128" "p1 ! 127 = NUL" using p1 that by (simp_all add: path_ok_def)
    show ?thesis
    proof (cases "n + length nm = 127")
      case True
      then have "127 - n = length nm" by simp
      then show ?thesis using l True by (simp add: path_ok_def t nth_append)
    next
      case False
      then have "127 = n + length nm + Suc (126 - n - length nm)" using that by simp
      then show ?thesis using l that False by (auto simp: path_ok_def t nth_append nth_Cons')
    qed
  qed
  then show ?thesis
    using p1 assms(2) q unfolding path_down_def strlen_path [of p] q_def by (auto simp: Let_def split: option.splits if_splits)
qed

lemma path_down_ok: "path_ok p \<Longrightarrow> path_ok (path_down p nm)"
  using path_down_ok_cstring [of p "cpath nm"] by (simp add: path_down_cpath [of p nm])

lemma path_down_eq:
  assumes "path_ok p" "cstring nm" "cpath p \<noteq> []" "length (cpath p) + 1 + length nm < FS_MAX_PATH"
  shows "cpath (path_down p nm) = (if length (cpath p) > 1 then cpath p @ CHR ''/'' # nm else cpath p @ nm)"
proof -
  obtain rest where p: "p = cpath p @ NUL # rest" using cpath_decomp [OF assms(1)] by blast
  define q where "q = cpath p"
  have cq: "cstring q" by (simp add: q_def)
  have len: "length q + Suc (length rest) = 128"
    using assms(1) p unfolding path_ok_def q_def by (metis length_append length_Cons)
  have p': "p = q @ NUL # rest" using p by (simp add: q_def)
  show ?thesis
  proof (cases "length q > 1")
    case True
    then have u: "p[length q := CHR ''/''] = (q @ ''/'') @ rest" by (simp add: p')
    have "strcpy rest nm = Some (nm @ NUL # drop (Suc (length nm)) rest)"
      using assms(2,4) len unfolding q_def [symmetric] by (simp add: strcpy_eq)
    then have "path_down p nm = (q @ ''/'') @ nm @ NUL # drop (Suc (length nm)) rest"
      using True assms(2,4) len unfolding path_down_def strlen_path [of p] q_def [symmetric] by (simp add: u Let_def)
    then have "path_down p nm = (q @ CHR ''/'' # nm) @ NUL # drop (Suc (length nm)) rest" by simp
    then show ?thesis using True cpath_append [of "q @ CHR ''/'' # nm"] cq assms(2) by (simp add: q_def [symmetric])
  next
    case False
    have "strcpy (NUL # rest) nm = Some (nm @ NUL # drop (length nm) rest)"
      using assms(2,4) len unfolding q_def [symmetric] by (simp add: strcpy_eq)
    then have "path_down p nm = (q @ nm) @ NUL # drop (length nm) rest"
      using False assms(2,4) unfolding path_down_def strlen_path [of p] q_def [symmetric] by (simp add: p' Let_def)
    then show ?thesis using False cpath_append [of "q @ nm"] cq assms(2) by (simp add: q_def [symmetric])
  qed
qed

text \<open>A path as the code builds it: the root, or components each preceded by a slash.\<close>

definition absolute_path :: "string \<Rightarrow> bool" where
  "absolute_path q \<longleftrightarrow> q = ''/'' \<or> length q > 1"

lemma path_down_up:
  assumes "path_ok p" "absolute_path (cpath p)" "cstring nm" "nm \<noteq> []" "CHR ''/'' \<notin> set nm"
    and "length (cpath p) + 1 + length nm < FS_MAX_PATH"
  shows "cpath (path_up (path_down p nm)) = cpath p"
proof -
  have ne: "cpath p \<noteq> []" using assms(2) by (auto simp: absolute_path_def)
  note d = path_down_eq [OF assms(1,3) ne assms(6)] and ok = path_down_ok [OF assms(1), of nm]
  show ?thesis
  proof (cases "length (cpath p) > 1")
    case True
    then show ?thesis using path_up_sub [OF ok, of "cpath p" nm] d assms(5) ne by simp
  next
    case False
    then have "cpath p = ''/''" using assms(2) by (simp add: absolute_path_def)
    then show ?thesis using path_up_root [OF ok, of nm] d assms(5) by simp
  qed
qed

subsection \<open>Making a directory\<close>

text \<open>What \<open>fs_mkdir\<close> leaves: an entry of the new name with the directory attribute and the cluster \<open>c\<close>.\<close>

definition made_dir :: "fs \<Rightarrow> fs \<Rightarrow> string \<Rightarrow> nat \<Rightarrow> u16 \<Rightarrow> bool" where
  "made_dir s s' f idx c \<longleftrightarrow> idx < dir_size s \<and> dir_ents s' idx = (new_entry f FS_ATTR_DIRECTORY)\<lparr>e_fst_clus_lo := c\<rparr> \<and>
     in_range c \<and> fat_get (fat_buf s') c \<noteq> 0 \<and> fat_get (fat_buf s) c = 0 \<and> current_dir_cluster s' = current_dir_cluster s \<and>
     current_path s' = current_path s \<and>
     (\<forall>k < 512. sectors (disk s') (unat (cluster_lba c)) k = new_dir c (current_dir_cluster s) k)"

lemma fs_mkdir_cases:
  assumes R: "fs_layout s cl F" "fs_ready s" and nm: "cstring name" "fat_name_from_input name = Some f"
    and mk: "fs_mkdir name s = (0, s')"
  obtains ff s1 c d s2 where "slot_for s cl ff (new_entry f FS_ATTR_DIRECTORY) []" "F f = None" "quiet s s1"
    "in_range c" "fat_get (fat_buf s) c = 0" "drive_write (cluster_lba c) 1 (new_dir c (current_dir_cluster s)) (disk s1) = (0, d)"
    "current_dir_entries (s1\<lparr>fat_buf := fat_set c FAT16_EOC (fat_buf s), disk := d\<rparr>) = (True, s2)"
    "flush_both (- 6) (set_ent ff ((new_entry f FS_ATTR_DIRECTORY)\<lparr>e_fst_clus_lo := c\<rparr>) s2) = (0, s')"
proof -
  obtain idx ff s1 where fe: "find_entry_in_current name s = (idx, ff, s1)" by (metis prod_cases3)
  note S = find_spec [OF nm layout_zero_tail [OF R(1)] fe]
  have v: "valid_name name" using nm by (simp add: valid_name_def)
  obtain c fat where al: "alloc_cluster (fat_buf s) = (c, fat)" by force
  have fs1: "fat_buf s1 = fat_buf s" "current_dir_cluster s1 = current_dir_cluster s" using quiet_simps [OF S(1)] by simp_all
  obtain r d where w: "drive_write (cluster_lba c) 1 (new_dir c (current_dir_cluster s)) (disk s1) = (r, d)" by force
  obtain ok s2 where ce: "current_dir_entries (s1\<lparr>fat_buf := fat, disk := d\<rparr>) = (ok, s2)" by force
  have g: "idx < 0" "0 \<le> ff" "c \<noteq> 0"
    using mk R(2) v fe al fs1 by (auto simp: fs_mkdir_def split: if_splits)
  have z: "(new_entry f 0x10)\<lparr>e_fst_clus_lo := c, e_file_size := 0\<rparr> = (new_entry f 0x10)\<lparr>e_fst_clus_lo := c\<rparr>"
    by (simp add: new_entry_def zero_entry_def)
  have eq: "r = 0" "ok" "flush_both (- 6) (set_ent (nat ff) ((new_entry f 0x10)\<lparr>e_fst_clus_lo := c\<rparr>) s2) = (0, s')"
    using mk R(2) v fe al fs1 g w ce nm(2) z by (auto simp: fs_mkdir_def Let_def split: if_splits)
  have ac: "in_range c" "fat_get (fat_buf s) c = 0" "fat = fat_set c 0xFFFF (fat_buf s)"
    using alloc_cluster_spec [OF al] g(3) by auto
  have sl: "slot_for s cl (nat ff) (new_entry f 0x10) []"
    using g S(3,4) by (intro slot_for_new [OF R(1) nm]) auto
  have "F f = None" using S(3) g fs_layout_absent [OF R(1)] by simp
  then show thesis using that sl S(1) ac w ce eq by auto
qed

lemma fs_mkdir_success:
  assumes R: "fs_rel s F" and nm: "cstring name" "fat_name_from_input name = Some f"
    and mk: "fs_mkdir name s = (0, s')"
  shows "F f = None" "fs_rel s' (F(f \<mapsto> []))" "synced s \<longrightarrow> synced s'" "\<exists>idx c. made_dir s s' f idx c"
    "healthy (disk s) \<longrightarrow> healthy (disk s')"
proof -
  obtain cl where L: "fs_layout s cl F" "fs_ready s" using R by (auto simp: fs_rel_def)
  obtain ff s1 c d s2 where M: "slot_for s cl ff (new_entry f 0x10) []" "F f = None" "quiet s s1"
    "in_range c" "fat_get (fat_buf s) c = 0" "drive_write (cluster_lba c) 1 (new_dir c (current_dir_cluster s)) (disk s1) = (0, d)"
    "current_dir_entries (s1\<lparr>fat_buf := fat_set c 0xFFFF (fat_buf s), disk := d\<rparr>) = (True, s2)"
    "flush_both (- 6) (set_ent ff ((new_entry f 0x10)\<lparr>e_fst_clus_lo := c\<rparr>) s2) = (0, s')"
    using fs_mkdir_cases [OF L nm mk] by metis
  let ?e = "(new_entry f 0x10)\<lparr>e_fst_clus_lo := c\<rparr>"
  let ?t = "s1\<lparr>fat_buf := fat_set c 0xFFFF (fat_buf s), disk := d\<rparr>"
  note q = quiet_simps [OF M(3)] and ne = new_entry_facts [OF nm, of "0x10", simplified]
  have dir: "current_dir_cluster s \<noteq> 0 \<longrightarrow> in_range (current_dir_cluster s) \<and> c \<noteq> current_dir_cluster s"
    using L(1) M(5) by (auto simp: fs_layout_def layout_def)
  have cd: "c \<noteq> current_dir_cluster s" using dir in_range_nz [OF M(4)] by auto
  have fr: "sectors d l = sectors (disk s) l" if "l \<noteq> unat (cluster_lba c)" for l
    using drive_write_frame(4) [OF M(6), of l] that q(7) by auto
  have view: "dir_view ?t = dir_view s"
    using fr dir M(4) cluster_lba_inj [of "current_dir_cluster s" c] q by (auto simp: dir_view_def)
  have ok: "entry_ok ?e" using ne(1) by (simp add: entry_ok_def)
  have ed: "edited ?t ff ?e (set_ent ff ?e s2)"
    using edited_set [OF editedI [OF quiet_refl M(7)] ok] .
  have tc: "current_dir_cluster ?t \<noteq> 0 \<longrightarrow> in_range (current_dir_cluster ?t)" using dir q(5) by simp
  have "flush_both (- 6) ((set_ent ff ?e s2)\<lparr>fat_buf := fat_buf s2, disk := disk s2\<rparr>) = (0, s')"
    using M(8) by (cases "current_dir_cluster s2 = 0") (simp_all add: set_ent_def)
  note C = commit_spec [OF ed tc this, simplified, unfolded q]
  have s2: "sectors (disk s2) = sectors d" "fat_buf s2 = fat_set c 0xFFFF (fat_buf s)" "healthy d \<longrightarrow> healthy (disk s2)"
    using quiet_simps [OF current_dir_entries_spec(1) [OF M(7)]] quiet_healthy [OF current_dir_entries_spec(1) [OF M(7)]]
    by simp_all
  have new: "sectors (disk s') (unat (cluster_lba c)) k = new_dir c (current_dir_cluster s) k" if "k < 512" for k
    using C(7) [OF M(4)] cd drive_write_ok [OF M(6), of "unat (cluster_lba c)" k] that s2 by simp
  have ents: "dir_ents s' i = (if i = ff then ?e else dir_ents s i)" if "i < dir_size s" for i
    using C(8) that view q(5) by simp
  have fr2: "sectors (disk s') (unat (cluster_lba x)) = sectors (disk s) (unat (cluster_lba x))"
    if "in_range x" "x \<noteq> c" "x \<noteq> current_dir_cluster s" for x
    using C(7) that fr cluster_lba_inj [OF that(1) M(4)] s2 by auto
  have own: "owns (fat_buf s') ?e [c]"
    using M(4) C(3) s2 ne by (auto simp: owns_def in_range_def)
  have "\<exists>cl'. fs_layout s' cl' (F(name_of (new_entry f 0x10) \<mapsto> content (sectors (disk s')) ?e [c]))"
    using C(2,3) own ne M(5) s2 fr2 by (intro store_layout [OF L(1) M(1) _ ents]) (auto simp: live_def name_of_def fat_get_set)
  moreover have "content m ?e [c] = []" for m using ne(6) by (simp add: content_def)
  ultimately show "fs_rel s' (F(f \<mapsto> []))" using C(1) L(2) ne(3) q(4) by (simp add: fs_rel_def)
  show "F f = None" by fact
  have "root_synced ?t" if "synced s"
  proof -
    have "region_is 4129 8 (root_buf s) (sectors d) = region_is 4129 8 (root_buf s) (sectors (disk s))"
      using lba_of_cluster [OF M(4)] by (intro region_is_frame fr) auto
    then show ?thesis
      using that q fr [of 4096] lba_of_cluster [OF M(4)] by (simp add: root_synced_def synced_def)
  qed
  then show "synced s \<longrightarrow> synced s'" using C(9) s2 by simp
  have "made_dir s s' f ff c"
    using M(1,4,5) ents [of ff] C(2,3,4) s2 new by (simp add: made_dir_def slot_for_def q)
  then show "\<exists>idx c. made_dir s s' f idx c" by blast
  show "healthy (disk s) \<longrightarrow> healthy (disk s')"
    using C(6) s2(3) drive_write_healthy [OF _ M(6)] quiet_healthy [OF M(3)] by auto
qed

subsection \<open>Entering and leaving a directory\<close>

lemma is_directory_new: "is_directory ((new_entry f FS_ATTR_DIRECTORY)\<lparr>e_fst_clus_lo := c\<rparr>)"
  by (simp add: is_directory_def new_entry_def)

text \<open>The result of \<open>chdir_down\<close> on a drive without errors.\<close>

lemma chdir_down_found:
  assumes R: "fs_rel s F" "healthy (disk s)" and nm: "cstring name" "fat_name_from_input name = Some f"
    and i: "idx < dir_size s" "live (dir_ents s idx)" "e_name (dir_ents s idx) ! 0 \<noteq> CHR ''.''" "name_of (dir_ents s idx) = f"
    and d: "is_directory (dir_ents s idx)"
  obtains s1 where "quiet s s1"
    "chdir_down name s = (0, s1\<lparr>current_dir_cluster := e_fst_clus_lo (dir_ents s idx),
       current_path := path_down (current_path s) (fat_name_to_printable (dir_ents s idx))\<rparr>)"
proof -
  obtain cl where L: "fs_layout s cl F" "fs_ready s" using R by (auto simp: fs_rel_def)
  obtain j ff s1 where fe: "find_entry_in_current name s = (j, ff, s1)" by (metis prod_cases3)
  obtain ok s2 where ce: "current_dir_entries s1 = (ok, s2)" by force
  note S = find_spec [OF nm layout_zero_tail [OF L(1)] fe] and C = current_dir_entries_spec [OF ce]
  have q: "quiet s s2" using quiet_trans [OF S(1) C(1)] .
  have sl: "idx \<in> slots (dir_size s) (dir_ents s)" using i by (simp add: slots_def)
  have j: "0 \<le> j" using S(3) [OF _ _ sl] R(2) i(4) by force
  have "nat j = idx"
    using S(2) [OF j] sl i(4) L(1) by (auto simp: fs_layout_def layout_def separate_def)
  moreover have "ok" using C(2) quiet_healthy [OF S(1) R(2)] .
  moreover from this have "ent (cur_buf s2) idx = dir_ents s idx"
    using C(3) i(1) quiet_simps(5,8) [OF S(1)] by simp
  ultimately show thesis
    using that [OF q] fe ce j d quiet_simps(6) [OF q] by (simp add: chdir_down_def Let_def)
qed

lemma new_dir_ents:
  "ent (new_dir c parent) 0 = zero_entry\<lparr>e_name := ''.       '', e_ext := ''   '', e_attr := FS_ATTR_DIRECTORY, e_fst_clus_lo := c\<rparr>"
  "ent (new_dir c parent) 1 = zero_entry\<lparr>e_name := ''..      '', e_ext := ''   '', e_attr := FS_ATTR_DIRECTORY, e_fst_clus_lo := parent\<rparr>"
  "2 \<le> i \<Longrightarrow> i < 16 \<Longrightarrow> lead (ent (new_dir c parent) i) = 0"
proof -
  show "ent (new_dir c parent) 0 = zero_entry\<lparr>e_name := ''.       '', e_ext := ''   '', e_attr := FS_ATTR_DIRECTORY, e_fst_clus_lo := c\<rparr>"
    "ent (new_dir c parent) 1 = zero_entry\<lparr>e_name := ''..      '', e_ext := ''   '', e_attr := FS_ATTR_DIRECTORY, e_fst_clus_lo := parent\<rparr>"
    by (simp_all add: new_dir_def entry_ok_def zero_entry_def)
  assume "2 \<le> i" "i < 16"
  then have "lead (ent (new_dir c parent) i) = lead (ent (memset (\<lambda>_. 0) 0 0 512) i)" by (simp add: new_dir_def)
  also have "\<dots> = 0" by (rule lead_zero_buf) (simp add: memset_eq)
  finally show "lead (ent (new_dir c parent) i) = 0" .
qed

text \<open>A directory that holds only the entries \<open>fs_mkdir\<close> put there shows no files.\<close>

lemma new_dir_layout:
  assumes "\<And>i. i < 16 \<Longrightarrow> E i = ent (new_dir c parent) i" "in_range c" "fat_get fat c \<noteq> 0"
  shows "layout 16 E fat m c cl Map.empty"
proof -
  have dots: "lead (E 0) \<noteq> 0" "lead (E 1) \<noteq> 0" "e_name (E 0) ! 0 = CHR ''.''" "e_name (E 1) ! 0 = CHR ''.''"
    using assms(1) new_dir_ents(1,2) [of c parent] by (simp_all add: byte_of_def)
  have z: "lead (E i) = 0" if "2 \<le> i" "i < 16" for i using that new_dir_ents(3) assms(1) by simp
  have lz: "2 \<le> i" if "lead (E i) = 0" for i
  proof (rule ccontr)
    assume "\<not> 2 \<le> i"
    then consider "i = 0" | "i = 1" by linarith
    then show False using dots that by cases auto
  qed
  have "i \<notin> slots 16 E" for i
  proof
    assume "i \<in> slots 16 E"
    then have i: "i < 16" "live (E i)" "e_name (E i) ! 0 \<noteq> CHR ''.''" by (simp_all add: slots_def)
    then have "i < 2" using z [of i] by (cases "2 \<le> i") (auto simp: live_def)
    then consider "i = 0" | "i = 1" by linarith
    then show False using dots i(3) by cases auto
  qed
  then have "slots 16 E = {}" by blast
  moreover have "zero_tail 16 E"
    unfolding zero_tail_def
  proof (intro allI impI)
    fix i j
    assume "j < 16" "i \<le> j" "lead (E i) = 0"
    then show "lead (E j) = 0" using lz [of i] z [of j] by simp
  qed
  ultimately show ?thesis using assms(2,3) by (simp add: layout_def separate_def)
qed

text \<open>The directory is entered, it is empty, and \<open>..\<close> leads back.\<close>

lemma made_dir_enter:
  assumes R: "fs_rel s' F'" "healthy (disk s')" and nm: "cstring name" "fat_name_from_input name = Some f"
    and md: "made_dir s s' f idx c"
  obtains s2 where "chdir_down name s' = (0, s2)" "fs_rel s2 Map.empty" "healthy (disk s2)" "current_dir_cluster s2 = c"
    "current_path s2 = path_down (current_path s') (fat_name_to_printable ((new_entry f FS_ATTR_DIRECTORY)\<lparr>e_fst_clus_lo := c\<rparr>))"
    "fat_buf s2 = fat_buf s'" "root_buf s2 = root_buf s'" "sectors (disk s2) = sectors (disk s')" "fs_ready s2"
proof -
  let ?e = "(new_entry f 0x10)\<lparr>e_fst_clus_lo := c\<rparr>"
  note ne = new_entry_facts [OF nm, of "0x10", simplified]
  have e: "idx < dir_size s'" "dir_ents s' idx = ?e" using md by (simp_all add: made_dir_def)
  have l: "live ?e" "e_name ?e ! 0 \<noteq> CHR ''.''" "name_of ?e = f" using ne by (simp_all add: live_def name_of_def)
  obtain s1 where q: "quiet s' s1" and cd: "chdir_down name s' = (0, s1\<lparr>current_dir_cluster := c,
       current_path := path_down (current_path s') (fat_name_to_printable ?e)\<rparr>)"
    using chdir_down_found [OF R nm e(1)] e(2) l is_directory_new [of c f] by auto
  let ?s2 = "s1\<lparr>current_dir_cluster := c, current_path := path_down (current_path s') (fat_name_to_printable ?e)\<rparr>"
  note qs = quiet_simps [OF q]
  have rdy: "fs_ready s'" using R(1) by (simp add: fs_rel_def)
  have c: "in_range c" "fat_get (fat_buf s') c \<noteq> 0" using md by (simp_all add: made_dir_def)
  have "ent (dir_view ?s2) i = ent (new_dir c (current_dir_cluster s)) i" if "i < 16" for i
    using that md in_range_nz [OF c(1)] qs by (intro ent_cong) (simp add: dir_view_def made_dir_def)
  then have "fs_layout ?s2 (\<lambda>_. []) Map.empty"
    using c in_range_nz [OF c(1)] qs new_dir_layout [of "dir_ents ?s2" c "current_dir_cluster s" "fat_buf s'"]
    by (simp add: fs_layout_def max_entries_def)
  then have "fs_rel ?s2 Map.empty" using rdy qs by (auto simp: fs_rel_def)
  then show thesis using that [OF cd] quiet_healthy [OF q R(2)] qs rdy by simp
qed

lemma made_dir_leave:
  assumes md: "made_dir s s' f idx c" and s2: "current_dir_cluster s2 = c" "sectors (disk s2) = sectors (disk s')" "healthy (disk s2)"
  obtains s3 where "chdir_up s2 = (0, s3)" "current_dir_cluster s3 = current_dir_cluster s"
    "current_path s3 = path_up (current_path s2)" "fat_buf s3 = fat_buf s2" "root_buf s3 = root_buf s2"
    "sectors (disk s3) = sectors (disk s2)" "fs_ready s3 = fs_ready s2" "healthy (disk s3)"
proof -
  obtain ok t where ce: "current_dir_entries s2 = (ok, t)" by force
  note C = current_dir_entries_spec [OF ce]
  have c: "c \<noteq> 0" using md in_range_nz by (auto simp: made_dir_def)
  have "ent (cur_buf t) 1 = ent (dir_view s2) 1" using C(2,3) s2 c by (simp add: max_entries_def)
  also have "\<dots> = ent (new_dir c (current_dir_cluster s)) 1"
    using md s2 c by (intro ent_cong) (simp add: dir_view_def made_dir_def)
  finally have e: "e_fst_clus_lo (ent (cur_buf t) 1) = current_dir_cluster s" by (simp add: new_dir_ents(2) [unfolded One_nat_def])
  note q = quiet_simps [OF C(1)]
  show thesis
    using ce C(2) s2 c e q quiet_healthy [OF C(1)]
    by (intro that [of "t\<lparr>current_dir_cluster := current_dir_cluster s, current_path := path_up (current_path t)\<rparr>"])
      (simp_all add: chdir_up_def)
qed

text \<open>An accepted name is not taken for an absolute path or for \<open>..\<close>.\<close>

lemma from_input_plain:
  assumes "cstring n" "fat_name_from_input n = Some f"
  shows "chd n \<noteq> CHR ''/''" "n \<noteq> ''..''"
proof -
  let ?b = "takeWhile (\<lambda>c. c \<noteq> CHR ''.'') n"
  have b: "?b \<noteq> []" "name_chars ?b"
    using assms(2) fat_name_from_input_eq [OF assms(1)] by (auto simp: Let_def split: if_splits)
  then obtain c r where n: "n = c # r" "c \<noteq> CHR ''.''" by (cases n) (auto split: if_splits)
  then show "n \<noteq> ''..''" by auto
  have "is_valid_file_char (to_upper_char c)" using b(2) n by (simp add: name_chars_def)
  then show "chd n \<noteq> CHR ''/''" using n by (auto simp: is_valid_file_char_def to_upper_char_def split: if_splits)
qed

lemma valid_no_slash: "is_valid_file_char c \<Longrightarrow> c \<noteq> CHR ''/''"
  by (auto simp: is_valid_file_char_def split: if_splits)

lemma printable_facts:
  assumes nm: "cstring n" "fat_name_from_input n = Some f" and e: "e_name e = take 8 f" "e_ext e = take 3 (drop 8 f)"
  shows "cstring (fat_name_to_printable e)" "fat_name_to_printable e \<noteq> []"
    "CHR ''/'' \<notin> set (fat_name_to_printable e)" "length (fat_name_to_printable e) \<le> 12"
proof -
  obtain b x where f: "b \<noteq> []" "name_chars b" "length b \<le> 8" "name_chars x" "length x \<le> 3" "f = dir_name b x"
    using from_input_SomeD [OF nm] by blast
  have "length f = 11" using from_input_length [OF nm] .
  then have p: "fat_name_to_printable e = map to_upper_char b @ (if x = [] then [] else CHR ''.'' # map to_upper_char x)"
    using f e by (intro printable_dir_name) simp_all
  have v: "NUL \<notin> set (map to_upper_char b)" "CHR ''/'' \<notin> set (map to_upper_char b)"
    "NUL \<notin> set (map to_upper_char x)" "CHR ''/'' \<notin> set (map to_upper_char x)"
    using upper_no_blank f(2,4) valid_char_facts(3) valid_no_slash by blast+
  show "cstring (fat_name_to_printable e)" "fat_name_to_printable e \<noteq> []" "CHR ''/'' \<notin> set (fat_name_to_printable e)"
    "length (fat_name_to_printable e) \<le> 12"
    using v f(1,3,5) by (simp_all add: p cstring_def del: set_map)
qed

lemma fs_rel_same:
  assumes "fs_ready t = fs_ready s" "fat_buf t = fat_buf s" "root_buf t = root_buf s" "sectors (disk t) = sectors (disk s)"
    "current_dir_cluster t = current_dir_cluster s"
  shows "fs_rel t F = fs_rel s F"
proof -
  have "dir_view t = dir_view s" using assms by (simp add: dir_view_def)
  then show ?thesis using assms by (simp add: fs_rel_def fs_layout_def)
qed

lemma mkdir_roundtrip:
  assumes R: "fs_rel s F" "healthy (disk s)" and nm: "cstring name" "fat_name_from_input name = Some f"
    and mk: "fs_mkdir name s = (0, s1)"
    and p: "path_ok (current_path s)" "absolute_path (cpath (current_path s))" "length (cpath (current_path s)) + 13 < FS_MAX_PATH"
  obtains s2 s3 where "fs_chdir (Some name) s1 = (0, s2)" "fs_rel s2 Map.empty" "current_dir_cluster s2 \<noteq> 0"
    "fs_chdir (Some ''..'') s2 = (0, s3)" "fs_rel s3 (F(f \<mapsto> []))" "current_dir_cluster s3 = current_dir_cluster s"
    "cpath (current_path s3) = cpath (current_path s)"
proof -
  note M = fs_mkdir_success [OF R(1) nm mk]
  obtain idx c where md: "made_dir s s1 f idx c" using M(4) by blast
  let ?e = "(new_entry f 0x10)\<lparr>e_fst_clus_lo := c\<rparr>"
  have h: "healthy (disk s1)" using M(5) R(2) by simp
  have s1: "current_dir_cluster s1 = current_dir_cluster s" "current_path s1 = current_path s" "c \<noteq> 0" "fs_ready s1"
    using md in_range_nz M(2) by (auto simp: made_dir_def fs_rel_def)
  obtain s2 where s2: "chdir_down name s1 = (0, s2)" "fs_rel s2 Map.empty" "healthy (disk s2)" "current_dir_cluster s2 = c"
    "current_path s2 = path_down (current_path s1) (fat_name_to_printable ?e)"
    "fat_buf s2 = fat_buf s1" "root_buf s2 = root_buf s1" "sectors (disk s2) = sectors (disk s1)" "fs_ready s2"
    using made_dir_enter [OF M(2) h nm md] by metis
  obtain s3 where s3: "chdir_up s2 = (0, s3)" "current_dir_cluster s3 = current_dir_cluster s"
    "current_path s3 = path_up (current_path s2)" "fat_buf s3 = fat_buf s2" "root_buf s3 = root_buf s2"
    "sectors (disk s3) = sectors (disk s2)" "fs_ready s3 = fs_ready s2" "healthy (disk s3)"
    using made_dir_leave [OF md s2(4,8,3)] by metis
  note fp = from_input_plain [OF nm]
  have c1: "fs_chdir (Some name) s1 = (0, s2)"
    using s1(4) s2(1) fp strcmp_eq_0 [OF nm(1), of "''..''"] by (simp add: fs_chdir_def Let_def)
  have c2: "fs_chdir (Some ''..'') s2 = (0, s3)"
    using s2(9) s3(1) strcmp_eq_0 [of "''..''" "''..''"] by (simp add: fs_chdir_def Let_def)
  have r3: "fs_rel s3 (F(f \<mapsto> []))"
    using M(2) fs_rel_same [of s3 s1] s1 s2 s3 by simp
  have pr: "cstring (fat_name_to_printable ?e)" "fat_name_to_printable ?e \<noteq> []"
    "CHR ''/'' \<notin> set (fat_name_to_printable ?e)" "length (fat_name_to_printable ?e) \<le> 12"
    using printable_facts [OF nm, of ?e] by (simp_all add: new_entry_def)
  have "cpath (current_path s3) = cpath (current_path s)"
    unfolding s3(3) s2(5) s1(2) using pr p by (intro path_down_up) simp_all
  then show thesis using that [OF c1 s2(2) _ c2 r3 s3(2)] s2(4) s1(3) by simp
qed

subsection \<open>Removing a directory\<close>

lemma dir_empty_iff:
  assumes "dir_empty b n i" "i \<le> j" "j < i + n" "\<And>k. i \<le> k \<Longrightarrow> k < j \<Longrightarrow> lead (ent b k) \<noteq> 0"
  shows "\<not> live (ent b j)"
  using assms
proof (induction n arbitrary: i)
  case (Suc n)
  show ?case
  proof (cases "j = i")
    case True
    then show ?thesis using Suc.prems(1) by (auto simp: live_def Let_def split: if_splits)
  next
    case False
    have "dir_empty b n (Suc i)"
      using Suc.prems(1,2) Suc.prems(4) [of i] False by (auto simp: Let_def split: if_splits)
    then show ?thesis using Suc.prems False by (intro Suc.IH [of "Suc i"]) simp_all
  qed
qed simp

lemma rmdir_checks:
  assumes R: "fs_rel s F" and nm: "cstring name" "fat_name_from_input name = Some f"
    and rm: "fs_rmdir name s = (0, s')"
  obtains idx cl t d b where "fs_layout s cl F" "fs_ready s" "idx \<in> slots (dir_size s) (dir_ents s)" "name_of (dir_ents s idx) = f"
    "is_directory (dir_ents s idx)" "edited s idx (dir_ents s idx) t"
    "drive_read (cluster_lba (e_fst_clus_lo (dir_ents s idx))) 1 (\<lambda>_. 0) (disk t) = (0, b, d)" "dir_empty b 14 2"
    "flush_both (- 5) (set_ent idx ((dir_ents s idx)\<lparr>e_name := (e_name (dir_ents s idx))[0 := CHR 0xE5], e_fst_clus_lo := 0\<rparr>)
      (t\<lparr>disk := d, fat_buf := free_chain (e_fst_clus_lo (dir_ents s idx)) (fat_buf s)\<rparr>)) = (0, s')"
proof -
  obtain cl where L: "fs_layout s cl F" "fs_ready s" using R by (auto simp: fs_rel_def)
  obtain idx ff s1 where fe: "find_entry_in_current name s = (idx, ff, s1)" by (metis prod_cases3)
  obtain ok s2 where ce: "current_dir_entries s1 = (ok, s2)" by force
  note S = find_spec [OF nm layout_zero_tail [OF L(1)] fe]
  have g: "0 \<le> idx" "ok"
    using rm L(2) fe ce by (auto simp: fs_rmdir_def split: if_splits)
  have ed: "edited s (nat idx) (dir_ents s (nat idx)) s2" using editedI [OF S(1)] ce g(2) by simp
  let ?e = "dir_ents s (nat idx)"
  have sl: "nat idx \<in> slots (dir_size s) (dir_ents s)" "name_of ?e = f" using S(2) g(1) by auto
  have e: "ent (cur_buf s2) (nat idx) = ?e" using ed sl(1) by (simp add: edited_def slots_def)
  obtain r b d where rd: "drive_read (cluster_lba (e_fst_clus_lo ?e)) 1 (\<lambda>_. 0) (disk s2) = (r, b, d)" by (metis prod_cases3)
  have fb: "fat_buf s2 = fat_buf s" using ed by (simp add: edited_def)
  have "is_directory ?e" "r = 0" "dir_empty b 14 2"
    "flush_both (- 5) (set_ent (nat idx) (?e\<lparr>e_name := (e_name ?e)[0 := CHR 0xE5], e_fst_clus_lo := 0\<rparr>)
      (s2\<lparr>disk := d, fat_buf := free_chain (e_fst_clus_lo ?e) (fat_buf s)\<rparr>)) = (0, s')"
    using rm L(2) fe ce g e rd fb by (auto simp: fs_rmdir_def Let_def split: if_splits)
  then show thesis using that L sl ed rd by blast
qed

lemma free_chain_release: "owns fat e cs \<Longrightarrow> free_chain (e_fst_clus_lo e) fat = release e fat"
proof (cases "unat (e_fst_clus_lo e) < 2")
  case True
  then have "\<not> in_range (e_fst_clus_lo e)" by (simp add: in_range_def)
  then show ?thesis using True by (subst free_chain.simps) (simp add: release_def)
qed (simp add: release_def)

lemma set_ent_swap: "set_ent i e (t\<lparr>disk := d, fat_buf := f\<rparr>) = (set_ent i e t)\<lparr>fat_buf := f, disk := d\<rparr>"
  by (cases t) (simp add: set_ent_def)

text \<open>
  A directory is removed only when its cluster shows no live entry after \<open>.\<close> and \<open>..\<close>.
\<close>

lemma fs_rmdir_success:
  assumes R: "fs_rel s F" and nm: "cstring name" "fat_name_from_input name = Some f" and rm: "fs_rmdir name s = (0, s')"
  shows "fs_rel s' (F(f := None))" "synced s \<longrightarrow> synced s'"
    "\<exists>idx \<in> slots (dir_size s) (dir_ents s). name_of (dir_ents s idx) = f \<and> is_directory (dir_ents s idx) \<and>
       (\<forall>j. 2 \<le> j \<and> j < 16 \<and> (\<forall>k. 2 \<le> k \<and> k < j \<longrightarrow> lead (ent (sectors (disk s) (unat (cluster_lba (e_fst_clus_lo (dir_ents s idx))))) k) \<noteq> 0) \<longrightarrow>
         \<not> live (ent (sectors (disk s) (unat (cluster_lba (e_fst_clus_lo (dir_ents s idx))))) j))"
proof -
  obtain idx cl t d b where K: "fs_layout s cl F" "fs_ready s" "idx \<in> slots (dir_size s) (dir_ents s)" "name_of (dir_ents s idx) = f"
    "is_directory (dir_ents s idx)" "edited s idx (dir_ents s idx) t"
    "drive_read (cluster_lba (e_fst_clus_lo (dir_ents s idx))) 1 (\<lambda>_. 0) (disk t) = (0, b, d)" "dir_empty b 14 2"
    "flush_both (- 5) (set_ent idx ((dir_ents s idx)\<lparr>e_name := (e_name (dir_ents s idx))[0 := CHR 0xE5], e_fst_clus_lo := 0\<rparr>)
      (t\<lparr>disk := d, fat_buf := free_chain (e_fst_clus_lo (dir_ents s idx)) (fat_buf s)\<rparr>)) = (0, s')"
    using rmdir_checks [OF assms] by metis
  let ?e = "dir_ents s idx"
  let ?e' = "?e\<lparr>e_name := (e_name ?e)[0 := CHR 0xE5], e_fst_clus_lo := 0\<rparr>"
  have o: "owns (fat_buf s) ?e (cl idx)" using layout_slotD(1) K(1,3) by (auto simp: fs_layout_def)
  have ok: "entry_ok ?e'" using entry_ok_ent [of "dir_view s" idx] by (simp add: entry_ok_def)
  have m: "sectors (disk t) = sectors (disk s)" using K(6) by (simp add: edited_def)
  have fl: "flush_both (- 5) ((set_ent idx ?e' t)\<lparr>fat_buf := release ?e (fat_buf s), disk := d\<rparr>) = (0, s')"
    using K(9) free_chain_release [OF o] by (simp add: set_ent_swap)
  have dm: "sectors d = sectors (disk s)" using drive_read_frame(1) [OF K(7)] m by simp
  note D = delete_commit [OF K(1,2,3,6) _ ok dm fl]
  show "fs_rel s' (F(f := None))" "synced s \<longrightarrow> synced s'" using D lead_deleted(1) [OF entry_ok_ent] K(4) by simp_all
  let ?b = "sectors (disk s) (unat (cluster_lba (e_fst_clus_lo ?e)))"
  have be: "ent b j = ent ?b j" if "j < 16" for j
    using drive_read_ok [OF K(7)] m that by (intro ent_cong) simp
  have "\<not> live (ent ?b j)" if "2 \<le> j" "j < 16" "\<forall>k. 2 \<le> k \<and> k < j \<longrightarrow> lead (ent ?b k) \<noteq> 0" for j
    using dir_empty_iff [OF K(8) that(1)] that be by simp
  then show "\<exists>idx \<in> slots (dir_size s) (dir_ents s). name_of (dir_ents s idx) = f \<and> is_directory (dir_ents s idx) \<and>
       (\<forall>j. 2 \<le> j \<and> j < 16 \<and> (\<forall>k. 2 \<le> k \<and> k < j \<longrightarrow> lead (ent (sectors (disk s) (unat (cluster_lba (e_fst_clus_lo (dir_ents s idx))))) k) \<noteq> 0) \<longrightarrow>
         \<not> live (ent (sectors (disk s) (unat (cluster_lba (e_fst_clus_lo (dir_ents s idx))))) j))"
    using K(3,4,5) by blast
qed

subsection \<open>The path array is never overrun\<close>

text \<open>The copy of a component that passed the length test fits the array.\<close>

lemma strcpy_fits: "path_ok p \<Longrightarrow> n + strlen nm < FS_MAX_PATH \<Longrightarrow> strcpy (drop n p) nm \<noteq> None"
  by (subst strcpy_cpath) (simp add: strcpy_eq strlen_path path_ok_def)

lemma fs_chdir_path_ok:
  assumes "path_ok (current_path s)"
  shows "path_ok (current_path (snd (fs_chdir p s)))"
proof -
  have e: "path_ok (current_path t)" if "current_dir_entries u = (ok, t)" "path_ok (current_path u)" for u ok t
    using that quiet_simps(6) [OF current_dir_entries_spec(1) [OF that(1)]] by simp
  have f: "path_ok (current_path t)" if "find_entry_in_current n u = (i, j, t)" "path_ok (current_path u)" for n u i j t
    using that e by (auto simp: find_entry_in_current_def split: option.splits prod.splits if_splits)
  have u: "path_ok (current_path (snd (chdir_up t)))" if "path_ok (current_path t)" for t
    using e [of t] that path_up_ok by (auto simp: chdir_up_def split: prod.splits)
  have d: "path_ok (current_path (snd (chdir_down n t)))" if "path_ok (current_path t)" for n t
    using f [of n t] e that path_down_ok by (fastforce simp: chdir_down_def Let_def split: prod.splits)
  have r: "path_ok ((current_path s)[0 := CHR ''/'', Suc 0 := NUL])" using assms by (intro path_ok_update) simp_all
  show ?thesis using assms u d r by (auto simp: fs_chdir_def Let_def split: option.splits)
qed

end
