(* ===== verification/Fs_Props.thy ===== *)
theory Fs_Props
  imports Fs_Dir
begin

text \<open>
  The contract of a file store, as the locale \<open>file_store\<close>: the operations act on a map from names
  to byte strings. What follows from the contract alone is proved inside it; \<open>kernel/fs.c\<close>
  provides it, and the properties of the filesystem are stated here.
\<close>

subsection \<open>Sequences of operations\<close>

datatype store_op =
    Write string buffer nat
  | Append string string
  | Touch string
  | Remove string

text \<open>The client's view: run the operations in order, give up at the first error code.\<close>

fun run_ops ::
  "(store_op \<Rightarrow> 's \<Rightarrow> int \<times> 's) \<Rightarrow> store_op list \<Rightarrow> 's \<Rightarrow> 's option" where
  "run_ops exec [] s = Some s"
| "run_ops exec (op # ops) s = (case exec op s of (r, s') \<Rightarrow> if r = 0 then run_ops exec ops s' else None)"

fun op_name :: "store_op \<Rightarrow> string" where
  "op_name (Write n _ _) = n"
| "op_name (Append n _) = n"
| "op_name (Touch n) = n"
| "op_name (Remove n) = n"

fun op_ok :: "store_op \<Rightarrow> bool" where
  "op_ok (Append n t) = (cstring n \<and> cstring t)"
| "op_ok op = cstring (op_name op)"

text \<open>The effect on the map of an operation on the file \<open>f\<close>.\<close>

fun op_effect :: "string \<Rightarrow> store_op \<Rightarrow> file_map \<Rightarrow> file_map" where
  "op_effect f (Write _ d l) F = F(f \<mapsto> map d [0..<l])"
| "op_effect f (Append _ t) F = F(f \<mapsto> (case F f of None \<Rightarrow> [] | Some xs \<Rightarrow> xs) @ map byte_of t)"
| "op_effect f (Touch _) F = (if F f = None then F(f \<mapsto> []) else F)"
| "op_effect f (Remove _) F = F(f := None)"

fun map_ops :: "(string \<Rightarrow> string option) \<Rightarrow> store_op list \<Rightarrow> file_map \<Rightarrow> file_map" where
  "map_ops key [] F = F"
| "map_ops key (op # ops) F =
     map_ops key ops (case key (op_name op) of None \<Rightarrow> F | Some f \<Rightarrow> op_effect f op F)"

locale file_store =
  fixes rel :: "'s \<Rightarrow> file_map \<Rightarrow> bool"
    and sound :: "'s \<Rightarrow> bool"
    and key :: "string \<Rightarrow> string option"
    and exec :: "store_op \<Rightarrow> 's \<Rightarrow> int \<times> 's"
    and fetch :: "string \<Rightarrow> 's \<Rightarrow> nat option \<times> 's"
    and cache :: "'s \<Rightarrow> buffer"
  assumes exec_ok: "rel s F \<Longrightarrow> sound s \<Longrightarrow> op_ok op \<Longrightarrow> exec op s = (0, s') \<Longrightarrow>
      (\<exists>f. key (op_name op) = Some f \<and> rel s' (op_effect f op F)) \<and> sound s'"
    and fetch_ok: "rel s F \<Longrightarrow> sound s \<Longrightarrow> cstring n \<Longrightarrow> key n = Some f \<Longrightarrow> fetch n s = (r, s') \<Longrightarrow>
      (case F f of None \<Rightarrow> r = None | Some xs \<Rightarrow> r = Some (length xs) \<and> cache_holds (cache s') xs) \<and>
      rel s' F \<and> sound s'"
begin

lemma run_refines:
  "rel s F \<Longrightarrow> sound s \<Longrightarrow> list_all op_ok ops \<Longrightarrow> run_ops exec ops s = Some s' \<Longrightarrow>
     rel s' (map_ops key ops F) \<and> sound s'"
proof (induction ops arbitrary: s F)
  case (Cons op ops)
  obtain t where t: "exec op s = (0, t)" "run_ops exec ops t = Some s'"
    using Cons.prems(4) by (auto split: prod.splits if_splits)
  then obtain f where "key (op_name op) = Some f" "rel t (op_effect f op F)" "sound t"
    using exec_ok [of s F op t] Cons.prems by auto
  then show ?case using Cons.IH [of t "op_effect f op F"] Cons.prems(3) t by simp
qed simp

lemma fetch_after_run:
  assumes "rel s F" "sound s" "list_all op_ok ops" "run_ops exec ops s = Some s'" "cstring n" "key n = Some f"
    and "fetch n s' = (r, s'')"
  shows "case map_ops key ops F f of None \<Rightarrow> r = None
    | Some xs \<Rightarrow> r = Some (length xs) \<and> cache_holds (cache s'') xs"
  using fetch_ok [of s' "map_ops key ops F" n f r s''] run_refines [OF assms(1-4)] assms(5-7) by simp

text \<open>Operations on other files do not disturb what was written.\<close>

lemma map_ops_other: "list_all (\<lambda>op. key (op_name op) \<noteq> Some f) ops \<Longrightarrow> map_ops key ops F f = F f"
proof (induction ops arbitrary: F)
  case (Cons op ops)
  then show ?case by (cases op) (auto split: option.splits)
qed simp

lemma fetch_written:
  assumes "rel s F" "sound s" "cstring n" "exec (Write n d l) s = (0, s1)"
    and "list_all op_ok ops" "list_all (\<lambda>op. key (op_name op) \<noteq> key n) ops" "run_ops exec ops s1 = Some s2"
    and "fetch n s2 = (r, s3)"
  shows "r = Some l \<and> (\<forall>k < l. cache s3 k = d k) \<and> cache s3 l = 0"
proof -
  obtain f where f: "key n = Some f" "rel s1 (F(f \<mapsto> map d [0..<l]))" "sound s1"
    using exec_ok [OF assms(1,2) _ assms(4)] assms(3) by auto
  have "map_ops key ops (F(f \<mapsto> map d [0..<l])) f = Some (map d [0..<l])"
    using assms(6) f(1) by (subst map_ops_other) auto
  then show ?thesis
    using fetch_after_run [OF f(2,3) assms(5,7,3) f(1) assms(8)] by (auto simp: cache_holds_def)
qed

end

subsection \<open>The filesystem is a file store\<close>

fun fs_exec :: "store_op \<Rightarrow> fs \<Rightarrow> int \<times> fs" where
  "fs_exec (Write n d l) s = fs_write_raw n d l s"
| "fs_exec (Append n t) s = fs_append n t s"
| "fs_exec (Touch n) s = fs_touch n s"
| "fs_exec (Remove n) s = fs_remove n s"

definition fs_sound :: "fs \<Rightarrow> bool" where
  "fs_sound s \<longleftrightarrow> healthy (disk s)"

text \<open>Without a drive error no operation makes the drive unhealthy.\<close>

lemma quiet_find: "find_entry_in_current name s = (i, j, t) \<Longrightarrow> healthy (disk s) \<Longrightarrow> healthy (disk t)"
  using current_dir_entries_spec(1) [of s] quiet_healthy
  by (auto simp: find_entry_in_current_def split: option.splits prod.splits if_splits)

lemma quiet_entries: "current_dir_entries s = (ok, t) \<Longrightarrow> healthy (disk s) \<Longrightarrow> healthy (disk t)"
  using current_dir_entries_spec(1) quiet_healthy by blast

lemma flush_fat_healthy: "flush_fat s = (r, t) \<Longrightarrow> healthy (disk s) \<Longrightarrow> healthy (disk t)"
  using flush_fat_spec(4) by blast

lemma flush_current_dir_healthy: "flush_current_dir s = (r, t) \<Longrightarrow> healthy (disk s) \<Longrightarrow> healthy (disk t)"
  using flush_current_dir_spec(4) by blast

lemma flush_both_healthy: "flush_both e s = (r, t) \<Longrightarrow> healthy (disk s) \<Longrightarrow> healthy (disk t)"
  by (auto simp: flush_both_def split: prod.splits if_splits dest: flush_fat_healthy flush_current_dir_healthy)

lemma write_chain_healthy: "write_cluster_chain d l f s = (r, c, g, t) \<Longrightarrow> healthy s \<Longrightarrow> healthy t"
  using write_cluster_chain_outcome by (simp add: write_outcome_def)

lemma write_entry_healthy: "write_entry i d l s = (r, t) \<Longrightarrow> healthy (disk s) \<Longrightarrow> healthy (disk t)"
  by (auto simp: write_entry_def Let_def split: prod.splits if_splits dest!: flush_both_healthy write_chain_healthy)

lemma fs_write_raw_healthy: "fs_write_raw n d l s = (r, t) \<Longrightarrow> healthy (disk s) \<Longrightarrow> healthy (disk t)"
  by (auto simp: fs_write_raw_def Let_def split: prod.splits if_splits dest!: quiet_find quiet_entries write_entry_healthy)

lemma fs_remove_healthy: "fs_remove n s = (r, t) \<Longrightarrow> healthy (disk s) \<Longrightarrow> healthy (disk t)"
  by (auto simp: fs_remove_def Let_def split: prod.splits if_splits dest!: quiet_find quiet_entries flush_both_healthy)

lemma fs_touch_healthy: "fs_touch n s = (r, t) \<Longrightarrow> healthy (disk s) \<Longrightarrow> healthy (disk t)"
  by (auto simp: fs_touch_def Let_def split: prod.splits if_splits dest!: quiet_find quiet_entries flush_current_dir_healthy)

lemma load_chain_healthy: "load_cluster_chain f c n b s = (r, b', t) \<Longrightarrow> healthy s \<Longrightarrow> healthy t"
  using load_loop_bounds [OF _ le0] by (fastforce simp: load_cluster_chain_def)

lemma fs_read_ptr_healthy: "fs_read_ptr n s = (r, t) \<Longrightarrow> healthy (disk s) \<Longrightarrow> healthy (disk t)"
  by (auto simp: fs_read_ptr_def Let_def split: prod.splits if_splits dest!: quiet_find quiet_entries load_chain_healthy)

lemma fs_append_healthy: "fs_append n x s = (r, t) \<Longrightarrow> healthy (disk s) \<Longrightarrow> healthy (disk t)"
  by (auto simp: fs_append_def Let_def split: prod.splits if_splits dest!: fs_read_ptr_healthy fs_write_raw_healthy)

lemma fs_exec_healthy: "fs_exec op s = (r, t) \<Longrightarrow> healthy (disk s) \<Longrightarrow> healthy (disk t)"
  by (cases op) (auto dest: fs_write_raw_healthy fs_append_healthy fs_touch_healthy fs_remove_healthy)

lemma fs_exec_key:
  assumes "fs_exec op s = (0, t)"
  obtains f where "fat_name_from_input (op_name op) = Some f"
proof (cases "fat_name_from_input (op_name op)")
  case None
  then have v: "\<not> valid_name (op_name op)" by (simp add: valid_name_def)
  have "\<not> fs_write_raw n d l u = (0, t)" if "\<not> valid_name n" for n d l u using that by (simp add: fs_write_raw_def)
  then have False
    using assms None v by (cases op)
      (auto simp: fs_append_def fs_touch_def fs_remove_def find_entry_in_current_def Let_def split: if_splits prod.splits)
  then show ?thesis ..
qed (use that in blast)

lemma fs_exec_refines:
  assumes R: "fs_rel s F" "healthy (disk s)" and ok: "op_ok op" and ex: "fs_exec op s = (0, s')"
  shows "\<exists>f. fat_name_from_input (op_name op) = Some f \<and> fs_rel s' (op_effect f op F)"
proof -
  obtain f where f: "fat_name_from_input (op_name op) = Some f" using fs_exec_key [OF ex] by blast
  have "fs_rel s' (op_effect f op F)"
  proof (cases op)
    case (Write n d l)
    then show ?thesis using fs_write_raw_success(1) [OF R(1), of n f d l s'] f ok ex by simp
  next
    case (Append n t)
    then show ?thesis using fs_append_success [OF R(1) _ _ R(2), of n f t s'] f ok ex by simp
  next
    case (Touch n)
    then show ?thesis using fs_touch_success(1) [OF R(1), of n f s'] f ok ex by simp
  next
    case (Remove n)
    then show ?thesis using fs_remove_success(1) [OF R(1), of n f 0 s'] f ok ex by simp
  qed
  then show ?thesis using f by blast
qed

interpretation fstore: file_store fs_rel fs_sound fat_name_from_input fs_exec fs_read_ptr read_cache
proof (unfold_locales, goal_cases)
  case (1 s F op s')
  then show ?case using fs_exec_refines fs_exec_healthy by (auto simp: fs_sound_def)
next
  case (2 s F n f r s')
  note P = fs_read_ptr_spec [OF 2(1,3,4,5)]
  have "fs_rel s' F" using fs_rel_read(1) [OF 2(1,3,4,5), of "read_cache s'"] by simp
  then show ?case using P(1,4) 2(2) by (auto simp: fs_sound_def split: option.splits)
qed

subsection \<open>Keeping the drive in step\<close>

lemma fs_append_synced:
  assumes R: "fs_rel s F" and nm: "cstring name" "fat_name_from_input name = Some f"
    and sy: "synced s" and ap: "fs_append name text s = (0, s')"
  shows "synced s'" "current_dir_cluster s' = current_dir_cluster s"
proof -
  obtain res s1 where rd: "fs_read_ptr name s = (res, s1)" by force
  note Q = fs_rel_read [OF R nm rd] and P = fs_read_ptr_spec [OF R nm rd]
  obtain c l where w: "fs_write_raw name c l (s1\<lparr>read_cache := c\<rparr>) = (0, s')"
    using ap rd R by (auto simp: fs_append_def fs_rel_def Let_def split: if_splits)
  show "synced s'" using fs_write_raw_success(2) [OF Q(1) nm w] Q(2) sy by blast
  have "current_dir_cluster s1 = current_dir_cluster s" by (subst P(2)) simp
  then show "current_dir_cluster s' = current_dir_cluster s" using fs_write_raw_success(3) [OF Q(1) nm w] by simp
qed

lemma flush_both_dir: "flush_both e s = (r, t) \<Longrightarrow> current_dir_cluster t = current_dir_cluster s"
  by (auto simp: flush_both_def flush_fat_def flush_current_dir_def flush_root_def split: prod.splits if_splits)

lemma current_dir_entries_dir: "current_dir_entries s = (ok, t) \<Longrightarrow> current_dir_cluster t = current_dir_cluster s"
  using quiet_simps(5) [OF current_dir_entries_spec(1)] .

lemma find_dir: "find_entry_in_current n s = (i, j, t) \<Longrightarrow> current_dir_cluster t = current_dir_cluster s"
  by (auto simp: find_entry_in_current_def split: option.splits prod.splits if_splits dest: current_dir_entries_dir)

lemma fs_remove_dir: "fs_remove n s = (r, t) \<Longrightarrow> current_dir_cluster t = current_dir_cluster s"
  by (auto simp: fs_remove_def Let_def split: prod.splits if_splits dest!: flush_both_dir find_dir current_dir_entries_dir)

lemma fs_touch_dir: "fs_touch n s = (r, t) \<Longrightarrow> current_dir_cluster t = current_dir_cluster s"
  by (auto simp: fs_touch_def flush_current_dir_def flush_root_def Let_def split: prod.splits if_splits
      dest!: find_dir current_dir_entries_dir)

lemma fs_exec_synced:
  assumes R: "fs_rel s F" "synced s" and ok: "op_ok op" and ex: "fs_exec op s = (0, s')"
  shows "synced s' \<and> current_dir_cluster s' = current_dir_cluster s"
proof -
  obtain f where f: "fat_name_from_input (op_name op) = Some f" using fs_exec_key [OF ex] by blast
  show ?thesis
  proof (cases op)
    case (Write n d l)
    then show ?thesis using fs_write_raw_success(2,3) [OF R(1), of n f d l s'] f ok ex R(2) by simp
  next
    case (Append n t)
    then show ?thesis using fs_append_synced [OF R(1) _ _ R(2), of n f t s'] f ok ex by simp
  next
    case (Touch n)
    then show ?thesis using fs_touch_success(2) [OF R(1), of n f s'] fs_touch_dir [of n s 0 s'] f ok ex R(2) by simp
  next
    case (Remove n)
    then show ?thesis using fs_remove_success(1) [OF R(1), of n f 0 s'] fs_remove_dir [of n s 0 s'] f ok ex R(2) by simp
  qed
qed

lemma run_synced:
  "fs_rel s F \<Longrightarrow> healthy (disk s) \<Longrightarrow> synced s \<Longrightarrow> list_all op_ok ops \<Longrightarrow> run_ops fs_exec ops s = Some s' \<Longrightarrow>
     synced s' \<and> current_dir_cluster s' = current_dir_cluster s"
proof (induction ops arbitrary: s F)
  case (Cons op ops)
  obtain t where t: "fs_exec op s = (0, t)" "run_ops fs_exec ops t = Some s'"
    using Cons.prems(5) by (auto split: prod.splits if_splits)
  obtain f where "fs_rel t (op_effect f op F)" using fs_exec_refines [OF Cons.prems(1,2) _ t(1)] Cons.prems(4) by auto
  then show ?case
    using Cons.IH [of t "op_effect f op F"] Cons.prems t fs_exec_synced [OF Cons.prems(1,3) _ t(1)]
      fs_exec_healthy [OF t(1)] by simp
qed simp

subsection \<open>When a write succeeds\<close>

lemma free_clusters_release: "owns fat e cs \<Longrightarrow> free_clusters fat \<subseteq> free_clusters (release e fat)"
  by (auto simp: free_clusters_def release_spec)

lemma write_raw_total:
  assumes R: "fs_rel s F" "healthy (disk s)" and nm: "cstring name" "fat_name_from_input name = Some f"
    and len: "len \<le> FS_MAX_FILE_SIZE" "len \<le> 512 * card (free_clusters (fat_buf s))"
    and slot: "F f \<noteq> None \<or> \<not> dir_full s"
  shows "fst (fs_write_raw name data len s) = 0"
proof -
  obtain cl where L: "fs_layout s cl F" "fs_ready s" using R by (auto simp: fs_rel_def)
  obtain r s' where w: "fs_write_raw name data len s = (r, s')" by force
  have "r = 0"
  proof (cases rule: fs_write_raw_cases [OF L nm w])
    case 1
    then show ?thesis using R(2) len slot by auto
  next
    case (2 idx e cs t)
    note W = write_entry_spec(6) [OF L(1) 2(1,2,4,5) R(2)]
    have "owns (fat_buf s) e cs" using 2(1) by (simp add: slot_for_def)
    then have "card (free_clusters (fat_buf s)) \<le> card (free_clusters (release e (fat_buf s)))"
      by (intro card_mono free_clusters_release) simp_all
    then show ?thesis using W len(2) by linarith
  qed
  then show ?thesis using w by simp
qed

text \<open>A machine that boots with a blank drive, for concrete instances.\<close>

definition blank_machine :: fs where
  "blank_machine = \<lparr>fat_buf = (\<lambda>_. 0), root_buf = (\<lambda>_. 0), read_cache = (\<lambda>_. 0), fs_ready = False,
     current_dir_cluster = 0, current_path = replicate 128 NUL, dir_buf = (\<lambda>_. 0), disk = blank_drive\<rparr>"

lemma blank_machine_facts:
  "healthy (disk blank_machine)" "\<not> valid_boot (sectors (disk blank_machine) 4096)" "current_dir_cluster blank_machine = 0"
  by (simp_all add: blank_machine_def healthy_blank, simp add: blank_drive_def valid_boot_def get16_def)

lemmas booted = fs_init_formats [OF blank_machine_facts]

lemma booted_space: "9 \<le> card (free_clusters (fat_buf (fs_init blank_machine)))" "\<not> dir_full (fs_init blank_machine)"
proof -
  have r: "in_range c" if "c \<in> {2, 3, 4, 5, 6, 7, 8, 9, 10}" for c :: u16 using that by (auto simp: in_range_def)
  have "{2, 3, 4, 5, 6, 7, 8, 9, 10} \<subseteq> free_clusters (fat_buf (fs_init blank_machine))"
    using booted(3) r by (auto simp: free_clusters_def simp del: insert_iff)
  then have "card {2, 3, 4, 5, 6, 7, 8, 9, 10 :: u16} \<le> card (free_clusters (fat_buf (fs_init blank_machine)))"
    by (intro card_mono) simp_all
  then show "9 \<le> card (free_clusters (fat_buf (fs_init blank_machine)))" by simp
  show "\<not> dir_full (fs_init blank_machine)"
    using booted(5) booted(6) [of 0] by (auto simp: dir_full_def max_entries_def dir_view_def intro!: exI [of _ "0 :: nat"])
qed

lemma key_a: "cstring ''a.txt''" "fat_name_from_input ''a.txt'' = Some ''A       TXT''"
  by (simp_all add: fat_name_from_input_eq name_chars_def dir_name_def is_valid_file_char_def
      to_upper_char_def pad_def Let_def list_eval)

lemma booted_write: "fst (fs_write_raw ''a.txt'' d 700 (fs_init blank_machine)) = 0"
  using booted_space by (intro write_raw_total [OF booted(1,4) key_a]) simp_all

lemma booted_run:
  obtains s where "run_ops fs_exec [Write ''a.txt'' d 700] (fs_init blank_machine) = Some s"
  using booted_write [of d] that by (cases "fs_write_raw ''a.txt'' d 700 (fs_init blank_machine)") auto

subsection \<open>Properties\<close>

text \<open>
  Property C1. The filesystem refines a map from 8.3 names to byte strings: after any sequence of
  writes, appends, touches and removals that all returned 0, reading a name gives exactly the bytes
  that the same sequence leaves at that name in the map, and no file where the map has none.
\<close>

theorem fs_trace_refinement:
  assumes "fs_rel s F" "healthy (disk s)" "list_all op_ok ops" "run_ops fs_exec ops s = Some s'"
    and "cstring n" "fat_name_from_input n = Some f" "fs_read_ptr n s' = (r, s'')"
  shows "case map_ops fat_name_from_input ops F f of None \<Rightarrow> r = None
    | Some xs \<Rightarrow> r = Some (length xs) \<and> (\<forall>k < length xs. read_cache s'' k = xs ! k)"
  using fstore.fetch_after_run [of s F ops s' n f r s''] assms
  by (auto simp: fs_sound_def cache_holds_def split: option.splits)

theorem fs_trace_refinement_witness:
  "\<exists>s s'. run_ops fs_exec [Write ''a.txt'' (\<lambda>k. word_of_nat k) 700] (fs_init blank_machine) = Some s \<and>
     fs_read_ptr ''a.txt'' s = (Some 700, s') \<and> read_cache s' 600 = 88"
proof -
  obtain s where s: "run_ops fs_exec [Write ''a.txt'' (\<lambda>k. word_of_nat k) 700] (fs_init blank_machine) = Some s"
    using booted_run by blast
  obtain r s' where r: "fs_read_ptr ''a.txt'' s = (r, s')" by force
  have m: "map_ops fat_name_from_input [Write ''a.txt'' (\<lambda>k. word_of_nat k) 700] Map.empty ''A       TXT'' =
      Some (map (\<lambda>k. word_of_nat k) [0..<700])" using key_a by simp
  have "list_all op_ok [Write ''a.txt'' (\<lambda>k. word_of_nat k) 700]" by simp
  from fs_trace_refinement [OF booted(1,4) this s key_a r]
  have "r = Some 700 \<and> (\<forall>k < 700. read_cache s' k = word_of_nat k)" unfolding m by simp
  then show ?thesis using s r by auto
qed

text \<open>
  Property C6. Durability: whatever a sequence of successful operations left in the root directory is
  there again after a reboot. \<open>t\<close> is any machine that starts \<open>fs_init\<close> in the root directory on the
  same drive.
\<close>

theorem fs_survives_reboot:
  assumes "fs_rel s F" "healthy (disk s)" "synced s" "current_dir_cluster s = 0"
    and "list_all op_ok ops" "run_ops fs_exec ops s = Some s'"
    and "disk t = disk s'" "current_dir_cluster t = 0"
  shows "fs_rel (fs_init t) (map_ops fat_name_from_input ops F) \<and> synced (fs_init t)"
proof -
  have r: "fs_rel s' (map_ops fat_name_from_input ops F)" "healthy (disk s')"
    using fstore.run_refines [of s F ops s'] assms by (simp_all add: fs_sound_def)
  have y: "synced s'" "current_dir_cluster s' = 0" using run_synced [of s F ops s'] assms by simp_all
  show ?thesis using remount [OF r(1) y assms(7) r(2) assms(8)] by simp
qed

theorem fs_survives_reboot_witness:
  "\<exists>s. run_ops fs_exec [Write ''a.txt'' (\<lambda>_. 65) 700] (fs_init blank_machine) = Some s \<and>
     fs_rel (fs_init (blank_machine\<lparr>disk := disk s\<rparr>)) [''A       TXT'' \<mapsto> replicate 700 65]"
proof -
  let ?ops = "[Write ''a.txt'' (\<lambda>_. 65) 700]"
  obtain s where s: "run_ops fs_exec ?ops (fs_init blank_machine) = Some s" using booted_run by blast
  have m: "map_ops fat_name_from_input ?ops Map.empty = [''A       TXT'' \<mapsto> replicate 700 65]"
    using key_a by (simp add: map_replicate_const)
  have "fs_rel (fs_init (blank_machine\<lparr>disk := disk s\<rparr>)) (map_ops fat_name_from_input ?ops Map.empty) \<and>
      synced (fs_init (blank_machine\<lparr>disk := disk s\<rparr>))"
    by (rule fs_survives_reboot [OF booted(1,4,2,5) _ s]) (simp_all add: blank_machine_def)
  then show ?thesis using s m by auto
qed

text \<open>
  Property C33. A write of at most \<open>FS_MAX_FILE_SIZE\<close> bytes under a valid name returns 0 whenever the
  drive has no errors, the free clusters hold the data, and the file exists or the directory has room.
\<close>

theorem fs_write_raw_succeeds:
  assumes "fs_rel s F" "healthy (disk s)" "cstring name" "fat_name_from_input name = Some f"
    and "len \<le> FS_MAX_FILE_SIZE" "len \<le> 512 * card (free_clusters (fat_buf s))" "F f \<noteq> None \<or> \<not> dir_full s"
  shows "fst (fs_write_raw name data len s) = 0"
  by (rule write_raw_total [OF assms])

theorem fs_write_raw_succeeds_witness:
  "fst (fs_write_raw ''a.txt'' (\<lambda>_. 66) 4096 (fs_init blank_machine)) = 0"
  using booted_space by (intro fs_write_raw_succeeds [OF booted(1,4) key_a]) simp_all

text \<open>
  Mounting a drive with no valid boot sector formats it: the mounted volume is ready, has
  no files, every cluster is free, and the drive holds the same table and root directory.
\<close>

lemma fs_init_formats_blank:
  assumes "healthy (disk t)" "\<not> valid_boot (sectors (disk t) 4096)" "current_dir_cluster t = 0"
  shows "fs_ready (fs_init t) \<and> fs_rel (fs_init t) Map.empty \<and> synced (fs_init t) \<and>
    (\<forall>c. in_range c \<longrightarrow> fat_get (fat_buf (fs_init t)) c = 0)"
  using fs_init_formats [OF assms] by (auto simp: fs_rel_def)

lemma fs_init_formats_blank_witness: "fs_ready (fs_init blank_machine)"
  using fs_init_formats_blank [OF blank_machine_facts] by simp

lemma flush_both_total: "healthy (disk u) \<Longrightarrow> fst (flush_both e u) = 0"
  using flush_fat_spec(4) [of u] flush_current_dir_spec(4) by (auto simp: flush_both_def split: prod.splits)

text \<open>
  Property C20. A directory made by \<open>fs_mkdir\<close> can be entered, shows no files, and \<open>cd ..\<close> leads
  back to the directory it was made in, which now lists it; the printed path is the same again.
\<close>

theorem mkdir_chdir_roundtrip:
  assumes "fs_rel s F" "healthy (disk s)" "cstring name" "fat_name_from_input name = Some f"
    and "fs_mkdir name s = (0, s1)" "path_ok (current_path s)" "absolute_path (cpath (current_path s))"
    and "length (cpath (current_path s)) + 13 < FS_MAX_PATH"
  shows "\<exists>s2 s3. fs_chdir (Some name) s1 = (0, s2) \<and> fs_rel s2 Map.empty \<and> current_dir_cluster s2 \<noteq> 0 \<and>
    fs_chdir (Some ''..'') s2 = (0, s3) \<and> fs_rel s3 (F(f \<mapsto> [])) \<and>
    current_dir_cluster s3 = current_dir_cluster s \<and> cpath (current_path s3) = cpath (current_path s)"
  using mkdir_roundtrip [OF assms] by metis

lemma fs_mkdir_total:
  assumes R: "fs_rel s F" "healthy (disk s)" and nm: "cstring name" "fat_name_from_input name = Some f"
    and "F f = None" "\<not> dir_full s" "free_clusters (fat_buf s) \<noteq> {}"
  shows "fst (fs_mkdir name s) = 0"
proof -
  obtain cl where L: "fs_layout s cl F" "fs_ready s" using R by (auto simp: fs_rel_def)
  obtain idx ff s1 where fe: "find_entry_in_current name s = (idx, ff, s1)" by (metis prod_cases3)
  note S = find_spec [OF nm layout_zero_tail [OF L(1)] fe]
  have v: "valid_name name" using nm by (simp add: valid_name_def)
  have i: "idx < 0"
    using S(2) assms(5) fs_layout_lookup [OF L(1), of "nat idx"] by (cases "idx < 0") auto
  have ff: "0 \<le> ff" using S(5) i R(2) assms(6) by (cases "0 \<le> ff") (auto simp: dir_full_def)
  obtain c fat where al: "alloc_cluster (fat_buf s) = (c, fat)" by force
  have c: "c \<noteq> 0" using alloc_cluster_spec [OF al] assms(7) in_range_nz by (auto simp: free_clusters_def)
  have fs1: "fat_buf s1 = fat_buf s" "healthy (disk s1)" using quiet_simps [OF S(1)] quiet_healthy [OF S(1) R(2)] by simp_all
  obtain r d where w: "drive_write (cluster_lba c) 1 (new_dir c (current_dir_cluster s1)) (disk s1) = (r, d)" by force
  note W = drive_write_healthy [OF fs1(2) w]
  let ?t = "s1\<lparr>fat_buf := fat, disk := d\<rparr>"
  obtain ok s2 where ce: "current_dir_entries ?t = (ok, s2)" by force
  have h2: "ok" "healthy (disk s2)"
    using current_dir_entries_spec(2) [OF ce] quiet_entries [OF ce] W(2) by simp_all
  show ?thesis
    using L(2) v fe i ff al c w W(1) ce h2 fs1(1) by (simp add: fs_mkdir_def Let_def flush_both_total)
qed

definition booted_cwd :: fs where
  "booted_cwd = (fs_init blank_machine)\<lparr>current_path := CHR ''/'' # replicate 127 NUL\<rparr>"

lemma booted_cwd_facts:
  "fs_rel booted_cwd Map.empty" "healthy (disk booted_cwd)" "path_ok (current_path booted_cwd)"
  "cpath (current_path booted_cwd) = ''/''" "\<not> dir_full booted_cwd" "free_clusters (fat_buf booted_cwd) \<noteq> {}"
proof -
  show "fs_rel booted_cwd Map.empty"
    using booted(1) fs_rel_same [of booted_cwd "fs_init blank_machine"] by (simp add: booted_cwd_def)
  show "healthy (disk booted_cwd)" using booted(4) by (simp add: booted_cwd_def)
  show "path_ok (current_path booted_cwd)" "cpath (current_path booted_cwd) = ''/''"
    by (simp_all add: booted_cwd_def path_ok_def cpath_def replicate_numeral)
  show "\<not> dir_full booted_cwd" using booted_space(2) booted(5) by (simp add: booted_cwd_def dir_full_def dir_view_def)
  show "free_clusters (fat_buf booted_cwd) \<noteq> {}" using booted_space(1) by (auto simp: booted_cwd_def)
qed

theorem mkdir_chdir_roundtrip_witness:
  "\<exists>s1 s2. fs_mkdir ''a.txt'' booted_cwd = (0, s1) \<and> fs_chdir (Some ''a.txt'') s1 = (0, s2) \<and> fs_rel s2 Map.empty"
proof -
  obtain s1 where m: "fs_mkdir ''a.txt'' booted_cwd = (0, s1)"
    using fs_mkdir_total [OF booted_cwd_facts(1,2) key_a] booted_cwd_facts(5,6)
    by (cases "fs_mkdir ''a.txt'' booted_cwd") auto
  have "absolute_path (cpath (current_path booted_cwd))" "length (cpath (current_path booted_cwd)) + 13 < 128"
    by (simp_all add: booted_cwd_facts absolute_path_def)
  from mkdir_chdir_roundtrip [OF booted_cwd_facts(1,2) key_a m booted_cwd_facts(3) this] show ?thesis using m by auto
qed

lemma dir_empty_first: "0 < n \<Longrightarrow> lead (ent b i) = 0 \<Longrightarrow> dir_empty b n i"
  by (cases n) simp_all

text \<open>A directory just made can be removed.\<close>

lemma fs_rmdir_made:
  assumes R: "fs_rel s' F" "healthy (disk s')" and nm: "cstring name" "fat_name_from_input name = Some f"
    and md: "made_dir s s' f idx c"
  shows "fst (fs_rmdir name s') = 0"
proof -
  let ?e = "(new_entry f 0x10)\<lparr>e_fst_clus_lo := c\<rparr>"
  note ne = new_entry_facts [OF nm, of "0x10", simplified]
  obtain cl where L: "fs_layout s' cl F" "fs_ready s'" using R by (auto simp: fs_rel_def)
  have e: "idx < dir_size s'" "dir_ents s' idx = ?e" using md by (simp_all add: made_dir_def)
  have sl: "idx \<in> slots (dir_size s') (dir_ents s')" and nf: "name_of (dir_ents s' idx) = f"
    using e ne by (simp_all add: slots_def live_def name_of_def)
  obtain j ff s1 where fe: "find_entry_in_current name s' = (j, ff, s1)" by (metis prod_cases3)
  obtain ok s2 where ce: "current_dir_entries s1 = (ok, s2)" by force
  note S = find_spec [OF nm layout_zero_tail [OF L(1)] fe] and C = current_dir_entries_spec [OF ce]
  have h: "ok" "healthy (disk s2)" using C(2) quiet_healthy [OF S(1) R(2)] quiet_healthy [OF C(1)] by simp_all
  have j: "0 \<le> j" using S(3) [OF _ _ sl] R(2) nf by force
  have ji: "nat j = idx" using S(2) [OF j] sl nf L(1) by (auto simp: fs_layout_def layout_def separate_def)
  have ed: "edited s' idx ?e s2" using editedI [OF S(1), of s2 idx] ce h(1) e(2) by simp
  have en: "ent (cur_buf s2) idx = ?e" "sectors (disk s2) = sectors (disk s')" using ed e(1) by (simp_all add: edited_def)
  obtain r b d where rd: "drive_read (cluster_lba c) 1 (\<lambda>_. 0) (disk s2) = (r, b, d)" by (metis prod_cases3)
  note H = drive_read_healthy [OF h(2) rd]
  have "ent b 2 = ent (new_dir c (current_dir_cluster s)) 2"
    using drive_read_ok [of "cluster_lba c" 1 "\<lambda>_. 0" "disk s2" b d] rd H(1) md en(2) by (intro ent_cong) (simp add: made_dir_def)
  then have "dir_empty b 14 2" using new_dir_ents(3) [of 2] by (intro dir_empty_first) simp_all
  then show ?thesis
    using L(2) fe ce j ji h(1) en(1) is_directory_new [of c f] rd H
    by (simp add: fs_rmdir_def Let_def flush_both_total)
qed

text \<open>
  Property C21. \<open>fs_rmdir\<close> returns 0 only for a directory that has no live entry besides \<open>.\<close> and
  \<open>..\<close>, and then exactly that name is gone.
\<close>

theorem rmdir_only_empty:
  assumes "fs_rel s F" "cstring name" "fat_name_from_input name = Some f" "fs_rmdir name s = (0, s')"
  shows "fs_rel s' (F(f := None)) \<and>
    (\<exists>idx \<in> slots (dir_size s) (dir_ents s). name_of (dir_ents s idx) = f \<and> is_directory (dir_ents s idx) \<and>
       (\<forall>j. 2 \<le> j \<and> j < 16 \<and> (\<forall>k. 2 \<le> k \<and> k < j \<longrightarrow> lead (ent (sectors (disk s) (unat (cluster_lba (e_fst_clus_lo (dir_ents s idx))))) k) \<noteq> 0) \<longrightarrow>
         \<not> live (ent (sectors (disk s) (unat (cluster_lba (e_fst_clus_lo (dir_ents s idx))))) j)))"
  using fs_rmdir_success [OF assms] by simp

theorem rmdir_only_empty_witness:
  "\<exists>s1 s2. fs_mkdir ''a.txt'' booted_cwd = (0, s1) \<and> fs_rmdir ''a.txt'' s1 = (0, s2) \<and> fs_rel s2 Map.empty"
proof -
  obtain s1 where m: "fs_mkdir ''a.txt'' booted_cwd = (0, s1)"
    using fs_mkdir_total [OF booted_cwd_facts(1,2) key_a] booted_cwd_facts(5,6)
    by (cases "fs_mkdir ''a.txt'' booted_cwd") auto
  note M = fs_mkdir_success [OF booted_cwd_facts(1) key_a m]
  obtain idx c where "made_dir booted_cwd s1 ''A       TXT'' idx c" using M(4) by blast
  then obtain s2 where r: "fs_rmdir ''a.txt'' s1 = (0, s2)"
    using fs_rmdir_made [OF M(2) _ key_a] M(5) booted_cwd_facts(2) by (cases "fs_rmdir ''a.txt'' s1") auto
  have e: "[''A       TXT'' \<mapsto> []](''A       TXT'' := None) = Map.empty" by auto
  show ?thesis using rmdir_only_empty [OF M(2) key_a r, unfolded e] m r by blast
qed

text \<open>
  Whatever is on the drive and whatever path is given, \<open>fs_chdir\<close> keeps
  \<open>current_path\<close> an array of \<open>FS_MAX_PATH\<close> characters that ends in NUL, and the copy of a component
  never runs past its end.
\<close>

lemma chdir_path_safe:
  assumes "path_ok (current_path s)"
  shows "path_ok (current_path (snd (fs_chdir p s))) \<and>
    (\<forall>n nm. n + strlen nm < FS_MAX_PATH \<longrightarrow> strcpy (drop n (current_path (snd (fs_chdir p s)))) nm \<noteq> None)"
  using fs_chdir_path_ok [OF assms] strcpy_fits by blast

lemma chdir_path_safe_witness: "path_ok (current_path (snd (fs_chdir (Some ''/x'') booted_cwd)))"
  using chdir_path_safe [OF booted_cwd_facts(3), of "Some ''/x''"] by simp

end
