(* ===== verification/Vfs.thy ===== *)
theory Vfs
  imports Fs_Props
begin

text \<open>
  The path layer of \<open>kernel/vfs.c\<close>: every operation reduces its path to a single name and calls
  the filesystem. The result of \<open>normalize\<close> is the string left in \<open>name_buf\<close>; a null pointer,
  as argument or result, is \<^const>\<open>None\<close>.
\<close>

subsection \<open>Operations\<close>

fun skip_spaces :: "string \<Rightarrow> string" where
  "skip_spaces [] = []"
| "skip_spaces (c # p) = (if c = CHR '' '' then skip_spaces p else c # p)"

text \<open>
  The copying loops; \<open>p\<close> is the path from index \<open>i\<close> on, and \<open>out\<close> the first \<open>i\<close> characters of
  \<open>name_buf\<close>.
\<close>

fun normalize_loop :: "string \<Rightarrow> nat \<Rightarrow> string \<Rightarrow> string option" where
  "normalize_loop [] i out = (if i = 0 then None else Some out)"
| "normalize_loop (c # p) i out =
     (if c \<noteq> NUL \<and> c \<noteq> CHR '' '' \<and> i < FS_MAX_NAME then
        if c = CHR ''.'' \<and> chd p = CHR ''.'' \<and> (cget p 1 = NUL \<or> cget p 1 = CHR ''/'')
        then normalize_loop p (Suc i) (out @ [c])
        else if c = CHR ''/'' \<or> c = CHR 0x5C then None
        else normalize_loop p (Suc i) (out @ [c])
      else if i = 0 then None else Some out)"

definition normalize :: "string option \<Rightarrow> string option" where
  "normalize path =
     (case path of
        None \<Rightarrow> None
      | Some p \<Rightarrow>
          if chd p = NUL then None
          else let p = skip_spaces p; p = (if chd p = CHR ''/'' then tl p else p) in
          normalize_loop p 0 [])"

fun normalize_dir_loop :: "string \<Rightarrow> nat \<Rightarrow> string \<Rightarrow> string option" where
  "normalize_dir_loop [] i out = (if i = 0 then None else Some out)"
| "normalize_dir_loop (c # p) i out =
     (if c \<noteq> NUL \<and> c \<noteq> CHR '' '' \<and> i < FS_MAX_NAME then normalize_dir_loop p (Suc i) (out @ [c])
      else if i = 0 then None else Some out)"

definition normalize_dir :: "string option \<Rightarrow> string option" where
  "normalize_dir path =
     (case path of
        None \<Rightarrow> None
      | Some p \<Rightarrow>
          if chd p = NUL then None
          else let p = skip_spaces p in
          if chd p = CHR ''/'' then Some p else normalize_dir_loop p 0 [])"

definition vfs_init :: "fs \<Rightarrow> fs" where
  "vfs_init s = fs_init s"

definition vfs_touch :: "string option \<Rightarrow> fs \<Rightarrow> int \<times> fs" where
  "vfs_touch path s = (case normalize path of Some n \<Rightarrow> fs_touch n s | None \<Rightarrow> (- 1, s))"

definition vfs_remove :: "string option \<Rightarrow> fs \<Rightarrow> int \<times> fs" where
  "vfs_remove path s = (case normalize path of Some n \<Rightarrow> fs_remove n s | None \<Rightarrow> (- 1, s))"

definition vfs_write :: "string option \<Rightarrow> string \<Rightarrow> fs \<Rightarrow> int \<times> fs" where
  "vfs_write path text s = (case normalize path of Some n \<Rightarrow> fs_write n text s | None \<Rightarrow> (- 1, s))"

definition vfs_append :: "string option \<Rightarrow> string \<Rightarrow> fs \<Rightarrow> int \<times> fs" where
  "vfs_append path text s = (case normalize path of Some n \<Rightarrow> fs_append n text s | None \<Rightarrow> (- 1, s))"

definition vfs_write_raw :: "string option \<Rightarrow> buffer \<Rightarrow> nat \<Rightarrow> fs \<Rightarrow> int \<times> fs" where
  "vfs_write_raw path data len s = (case normalize path of Some n \<Rightarrow> fs_write_raw n data len s | None \<Rightarrow> (- 1, s))"

definition vfs_read_ptr :: "string option \<Rightarrow> fs \<Rightarrow> nat option \<times> fs" where
  "vfs_read_ptr path s = (case normalize path of Some n \<Rightarrow> fs_read_ptr n s | None \<Rightarrow> (None, s))"

definition vfs_list_entry :: "nat \<Rightarrow> fs \<Rightarrow> (string \<times> u32) option \<times> fs" where
  "vfs_list_entry index s = fs_list_entry index s"

definition vfs_mkdir :: "string option \<Rightarrow> fs \<Rightarrow> int \<times> fs" where
  "vfs_mkdir path s = (case normalize path of Some n \<Rightarrow> fs_mkdir n s | None \<Rightarrow> (- 1, s))"

definition vfs_rmdir :: "string option \<Rightarrow> fs \<Rightarrow> int \<times> fs" where
  "vfs_rmdir path s = (case normalize path of Some n \<Rightarrow> fs_rmdir n s | None \<Rightarrow> (- 1, s))"

definition vfs_chdir :: "string option \<Rightarrow> fs \<Rightarrow> int \<times> fs" where
  "vfs_chdir path s = (case normalize_dir path of Some n \<Rightarrow> fs_chdir (Some n) s | None \<Rightarrow> (- 1, s))"

definition vfs_getcwd :: "fs \<Rightarrow> string \<times> fs" where
  "vfs_getcwd s = fs_getcwd s"

definition vfs_is_dir :: "string option \<Rightarrow> fs \<Rightarrow> bool \<times> fs" where
  "vfs_is_dir path s = (case normalize path of Some n \<Rightarrow> fs_is_dir n s | None \<Rightarrow> (False, s))"

definition vfs_list_dir_entry :: "nat \<Rightarrow> fs \<Rightarrow> (string \<times> u32 \<times> bool) option \<times> fs" where
  "vfs_list_dir_entry index s = fs_list_dir_entry index s"

subsection \<open>What a path denotes\<close>

lemma skip_spaces_eq: "skip_spaces p = dropWhile (\<lambda>c. c = CHR '' '') p"
  by (induction p) auto

text \<open>The first word of a path, cut to the size of \<open>name_buf\<close>.\<close>

definition word_of :: "nat \<Rightarrow> string \<Rightarrow> string" where
  "word_of n p = take n (takeWhile (\<lambda>c. c \<noteq> CHR '' '') p)"

lemma word_of_simps [simp]:
  "word_of n [] = []" "word_of 0 p = []"
  "word_of (Suc n) (c # p) = (if c = CHR '' '' then [] else c # word_of n p)"
  by (simp_all add: word_of_def)

lemma normalize_loop_eq:
  "cstring p \<Longrightarrow> i = length out \<Longrightarrow> i \<le> FS_MAX_NAME \<Longrightarrow>
     normalize_loop p i out =
      (let w = word_of (FS_MAX_NAME - i) p in
       if out @ w = [] \<or> CHR ''/'' \<in> set w \<or> CHR 0x5C \<in> set w then None else Some (out @ w))"
proof (induction p arbitrary: i out)
  case (Cons c p)
  show ?case
  proof (cases "i < 23 \<and> c \<noteq> CHR '' ''")
    case True
    then obtain n where n: "23 - i = Suc n" "23 - Suc i = n" by (metis Suc_diff_Suc)
    have IH: "normalize_loop p (Suc i) (out @ [c]) = (let w = word_of n p in
       if CHR ''/'' \<in> set w \<or> CHR 0x5C \<in> set w then None else Some (out @ c # w))"
      using Cons.IH [of "Suc i" "out @ [c]"] Cons.prems True n by (simp add: Let_def)
    have nn: "c \<noteq> NUL" using Cons.prems(1) by simp
    show ?thesis
    proof (cases "c = CHR ''/'' \<or> c = CHR 0x5C")
      case sep: True
      then have "normalize_loop (c # p) i out = None" using True nn by auto
      moreover have "CHR ''/'' \<in> set (c # word_of n p) \<or> CHR 0x5C \<in> set (c # word_of n p)" using sep by auto
      ultimately show ?thesis using True n(1) by (simp add: Let_def)
    next
      case False
      then have "normalize_loop (c # p) i out = normalize_loop p (Suc i) (out @ [c])" using True nn by simp
      then show ?thesis using True False n(1) IH by (auto simp: Let_def simp del: normalize_loop.simps)
    qed
  next
    case False
    then consider "i = 23" | "c = CHR '' ''" using Cons.prems(3) by linarith
    then show ?thesis
    proof cases
      case 1
      then show ?thesis using Cons.prems(2) by auto
    next
      case 2
      then show ?thesis using Cons.prems(2) by (cases "23 - i") auto
    qed
  qed
qed (simp add: Let_def)

definition strip_path :: "string \<Rightarrow> string" where
  "strip_path p = (let q = dropWhile (\<lambda>c. c = CHR '' '') p in if chd q = CHR ''/'' then tl q else q)"

lemma cstring_dropWhile: "cstring p \<Longrightarrow> cstring (dropWhile P p)"
  by (auto simp: cstring_def dest: set_dropWhileD)

lemma cstring_strip: "cstring p \<Longrightarrow> cstring (strip_path p)"
  using cstring_dropWhile [of p "\<lambda>c. c = CHR '' ''"]
  by (auto simp: strip_path_def Let_def cstring_def dest: list.set_sel(2))
    (metis list.sel(2) list.set_sel(2))

lemma cstring_word_of: "cstring p \<Longrightarrow> cstring (word_of n p)"
  by (auto simp: cstring_def word_of_def dest!: in_set_takeD set_takeWhileD)

lemma normalize_eq:
  assumes "cstring p"
  shows "normalize (Some p) =
    (let w = word_of FS_MAX_NAME (strip_path p) in
     if w = [] \<or> CHR ''/'' \<in> set w \<or> CHR 0x5C \<in> set w then None else Some w)"
proof (cases "p = []")
  case True
  then show ?thesis by (simp add: normalize_def strip_path_def Let_def)
next
  case False
  then have "chd p \<noteq> NUL" using assms by simp
  then show ?thesis
    using normalize_loop_eq [OF cstring_strip [OF assms], of 0 "[]"]
    by (simp add: normalize_def skip_spaces_eq strip_path_def Let_def)
qed

lemma normalize_cstring: "cstring p \<Longrightarrow> normalize (Some p) = Some n \<Longrightarrow> cstring n"
  using cstring_word_of [OF cstring_strip] by (auto simp: normalize_eq Let_def split: if_splits)

subsection \<open>The path layer is a file store\<close>

definition vfs_key :: "string \<Rightarrow> string option" where
  "vfs_key p = (case normalize (Some p) of None \<Rightarrow> None | Some n \<Rightarrow> fat_name_from_input n)"

fun vfs_exec :: "store_op \<Rightarrow> fs \<Rightarrow> int \<times> fs" where
  "vfs_exec (Write n d l) s = vfs_write_raw (Some n) d l s"
| "vfs_exec (Append n t) s = vfs_append (Some n) t s"
| "vfs_exec (Touch n) s = vfs_touch (Some n) s"
| "vfs_exec (Remove n) s = vfs_remove (Some n) s"

text \<open>The operation on the filesystem that an operation on a path becomes.\<close>

fun rename_op :: "string \<Rightarrow> store_op \<Rightarrow> store_op" where
  "rename_op n (Write _ d l) = Write n d l"
| "rename_op n (Append _ t) = Append n t"
| "rename_op n (Touch _) = Touch n"
| "rename_op n (Remove _) = Remove n"

lemma rename_op_facts:
  "op_name (rename_op n op) = n" "op_effect f (rename_op n op) F = op_effect f op F"
  "op_ok op \<Longrightarrow> cstring n \<Longrightarrow> op_ok (rename_op n op)" "op_ok op \<Longrightarrow> cstring (op_name op)"
  by (cases op; simp)+

lemma vfs_exec_eq:
  "vfs_exec op s = (case normalize (Some (op_name op)) of Some n \<Rightarrow> fs_exec (rename_op n op) s | None \<Rightarrow> (- 1, s))"
  by (cases op) (simp_all add: vfs_write_raw_def vfs_append_def vfs_touch_def vfs_remove_def split: option.splits)

interpretation vstore: file_store fs_rel fs_sound vfs_key vfs_exec "\<lambda>p. vfs_read_ptr (Some p)" read_cache
proof (unfold_locales, goal_cases)
  case (1 s F op s')
  then obtain n where n: "normalize (Some (op_name op)) = Some n" "fs_exec (rename_op n op) s = (0, s')"
    by (auto simp: vfs_exec_eq split: option.splits)
  have "op_ok (rename_op n op)" using rename_op_facts(3,4) 1(3) normalize_cstring n(1) by blast
  then show ?case
    using fstore.exec_ok [OF 1(1,2) _ n(2)] n(1) by (auto simp: vfs_key_def rename_op_facts)
next
  case (2 s F p f r s')
  then obtain n where n: "normalize (Some p) = Some n" "fat_name_from_input n = Some f"
    by (auto simp: vfs_key_def split: option.splits)
  then have "fs_read_ptr n s = (r, s')" using 2(5) by (simp add: vfs_read_ptr_def)
  then show ?case using fstore.fetch_ok [OF 2(1,2) normalize_cstring [OF 2(3) n(1)] n(2)] by blast
qed

subsection \<open>Properties\<close>

text \<open>
  What \<open>normalize\<close> computes: leading blanks and one slash are dropped, the next word is
  cut to \<open>FS_MAX_NAME\<close> characters, and a path with a further separator is refused. The branch for
  \<open>..\<close> changes nothing.
\<close>

lemma normalize_spec:
  assumes "cstring p"
  shows "normalize (Some p) =
    (let w = word_of FS_MAX_NAME (strip_path p) in
     if w = [] \<or> CHR ''/'' \<in> set w \<or> CHR 0x5C \<in> set w then None else Some w)"
  by (rule normalize_eq [OF assms])

lemma normalize_spec_witness: "normalize (Some ''  /a.txt x'') = Some ''a.txt'' \<and> normalize (Some ''d/a'') = None"
  using normalize_spec [of "''  /a.txt x''"] normalize_spec [of "''d/a''"]
  by (simp add: strip_path_def word_of_def Let_def)

text \<open>
  Property C17. The path layer keeps the contract of the filesystem: after any sequence of successful
  operations on paths, reading a path gives the bytes the abstract map holds under the name it denotes.
\<close>

theorem vfs_trace_refinement:
  assumes "fs_rel s F" "healthy (disk s)" "list_all op_ok ops" "run_ops vfs_exec ops s = Some s'"
    and "cstring p" "vfs_key p = Some f" "vfs_read_ptr (Some p) s' = (r, s'')"
  shows "case map_ops vfs_key ops F f of None \<Rightarrow> r = None
    | Some xs \<Rightarrow> r = Some (length xs) \<and> (\<forall>k < length xs. read_cache s'' k = xs ! k)"
  using vstore.fetch_after_run [of s F ops s' p f r s''] assms
  by (auto simp: fs_sound_def cache_holds_def split: option.splits)

lemma vfs_key_a: "normalize (Some ''/a.txt'') = Some ''a.txt''" "vfs_key ''/a.txt'' = Some ''A       TXT''"
proof -
  show n: "normalize (Some ''/a.txt'') = Some ''a.txt''"
    by (simp add: normalize_eq strip_path_def word_of_def Let_def)
  show "vfs_key ''/a.txt'' = Some ''A       TXT''" using n key_a(2) by (simp add: vfs_key_def)
qed

theorem vfs_trace_refinement_witness:
  "\<exists>s s'. run_ops vfs_exec [Write ''/a.txt'' (\<lambda>_. 7) 700] (fs_init blank_machine) = Some s \<and>
     vfs_read_ptr (Some ''/a.txt'') s = (Some 700, s') \<and> read_cache s' 600 = 7"
proof -
  let ?ops = "[Write ''/a.txt'' (\<lambda>_. 7) 700]"
  obtain s where s: "run_ops vfs_exec ?ops (fs_init blank_machine) = Some s"
    using booted_write [of "\<lambda>_. 7"] vfs_key_a(1)
    by (cases "fs_write_raw ''a.txt'' (\<lambda>_. 7) 700 (fs_init blank_machine)") (auto simp: vfs_write_raw_def)
  obtain r s' where r: "vfs_read_ptr (Some ''/a.txt'') s = (r, s')" by force
  have m: "map_ops vfs_key ?ops Map.empty ''A       TXT'' = Some (replicate 700 7)"
    using vfs_key_a(2) by (simp add: map_replicate_const)
  have "list_all op_ok ?ops" "cstring ''/a.txt''" by simp_all
  from vfs_trace_refinement [OF booted(1,4) this(1) s this(2) vfs_key_a(2) r]
  have "r = Some 700 \<and> (\<forall>k < 700. read_cache s' k = 7)" unfolding m by simp
  then show ?thesis using s r by auto
qed

end
