(* ===== verification/Memory.thy ===== *)
theory Memory
  imports Prelude
begin

text \<open>
  The kernel heap, \<open>kernel/memory.c\<close>: a bump allocator that only ever moves \<open>heap_curr\<close>
  towards \<open>heap_end\<close>. Addresses and sizes are 32-bit words, so the additions wrap exactly where
  the code's \<open>uintptr_t\<close> arithmetic wraps. The address of the linker symbol \<open>_kernel_end\<close> is
  an argument of \<open>memory_init\<close>.
\<close>

subsection \<open>State and operations\<close>

record heap =
  heap_start :: u32
  heap_end :: u32
  heap_curr :: u32

definition align16 :: "u32 \<Rightarrow> u32" where
  "align16 v = (v + 15) AND NOT 15"

definition memory_init :: "u32 \<Rightarrow> heap \<Rightarrow> heap" where
  "memory_init kernel_end h =
     (let start = align16 kernel_end in
      h\<lparr>heap_start := start, heap_end := 0x00400000, heap_curr := start\<rparr>)"

definition kmalloc :: "u32 \<Rightarrow> heap \<Rightarrow> u32 \<times> heap" where
  "kmalloc sz h =
     (if sz = 0 then (0, h)
      else let begin = align16 (heap_curr h); end = align16 (begin + sz) in
        if end > heap_end h then (0, h)
        else (begin, h\<lparr>heap_curr := end\<rparr>))"

definition memory_heap_start :: "heap \<Rightarrow> u32" where
  "memory_heap_start h = heap_start h"

definition memory_heap_end :: "heap \<Rightarrow> u32" where
  "memory_heap_end h = heap_end h"

definition memory_heap_used :: "heap \<Rightarrow> u32" where
  "memory_heap_used h = heap_curr h - heap_start h"

text \<open>
  A run of allocations against any allocator; the blocks handed out are (address, size) pairs and
  a request answered by the null pointer hands out nothing.
\<close>

fun alloc_run :: "(u32 \<Rightarrow> 'h \<Rightarrow> u32 \<times> 'h) \<Rightarrow> u32 list \<Rightarrow> 'h \<Rightarrow> (nat \<times> nat) list \<times> 'h" where
  "alloc_run alloc [] h = ([], h)"
| "alloc_run alloc (sz # szs) h =
     (let (p, h') = alloc sz h; (bs, h'') = alloc_run alloc szs h' in
      (if p = 0 then bs else (unat p, unat sz) # bs, h''))"

subsection \<open>Alignment\<close>

lemma mask_15: "(15 :: u32) = mask 4"
  by (simp add: mask_eq_exp_minus_1)

lemma and_not_15: "v AND NOT 15 = v - take_bit 4 v" for v :: u32
proof -
  have "v AND NOT 15 = v AND NOT (take_bit 4 v)"
    unfolding mask_15 by (rule bit_eqI) (auto simp: bit_simps)
  also have "\<dots> = v - take_bit 4 v"
    by (rule disjunctive_diff [symmetric]) (simp add: bit_simps)
  finally show ?thesis .
qed

lemma unat_and_not_15: "unat (v AND NOT 15) = unat v div 16 * 16" for v :: u32
proof -
  have m: "unat (take_bit 4 v) = unat v mod 16"
    by (simp only: unsigned_take_bit_eq) (simp add: take_bit_eq_mod)
  have "take_bit 4 v \<le> v"
    by (simp only: word_le_nat_alt m mod_less_eq_dividend)
  then have "unat (v - take_bit 4 v) = unat v - unat v mod 16"
    by (simp only: unat_sub m)
  then show ?thesis
    by (simp only: and_not_15 minus_mod_eq_div_mult)
qed

lemma unat_align16:
  assumes "unat v + 15 < 2 ^ 32"
  shows "unat (align16 v) = (unat v + 15) div 16 * 16"
proof -
  have "unat (v + 15) = unat v + 15"
    using assms by (simp add: unat_word_ariths)
  then show ?thesis by (simp only: align16_def unat_and_not_15)
qed

lemma align16_aligned: "16 dvd unat v \<Longrightarrow> unat v + 15 < 2 ^ 32 \<Longrightarrow> align16 v = v"
  by (simp only: word_unat_eq_iff unat_align16) (auto elim!: dvdE)

subsection \<open>The heap invariant and single allocations\<close>

definition heap_ok :: "heap \<Rightarrow> bool" where
  "heap_ok h \<longleftrightarrow> 16 dvd unat (heap_curr h) \<and> 0 < unat (heap_start h) \<and>
     unat (heap_start h) \<le> unat (heap_curr h) \<and> unat (heap_curr h) \<le> unat (heap_end h) \<and>
     heap_end h = 0x00400000"

lemma memory_init_ok:
  assumes "0 < unat kernel_end" "unat kernel_end \<le> 0x00400000"
  shows "heap_ok (memory_init kernel_end h)"
proof -
  have "unat (align16 kernel_end) = (unat kernel_end + 15) div 16 * 16"
    using assms by (intro unat_align16) simp
  moreover have "(unat kernel_end + 15) div 16 * 16 \<le> 0x00400000" using assms by arith
  moreover have "0 < (unat kernel_end + 15) div 16 * 16" using assms by (simp add: div_greater_zero_iff)
  ultimately show ?thesis by (simp add: heap_ok_def memory_init_def Let_def)
qed

text \<open>The end of the block that serves a request of \<open>n\<close> bytes, over the integers.\<close>

definition block_end :: "heap \<Rightarrow> nat \<Rightarrow> nat" where
  "block_end h n = (unat (heap_curr h) + n + 15) div 16 * 16"

lemma block_end_ge: "unat (heap_curr h) + n \<le> block_end h n"
  unfolding block_end_def by arith

text \<open>A request that does not reach the top of the address space.\<close>

definition fits_address_space :: "u32 \<Rightarrow> bool" where
  "fits_address_space sz \<longleftrightarrow> unat sz + 0x00400000 + 15 < 2 ^ 32"

lemma kmalloc_eq:
  assumes ok: "heap_ok h" and sz: "fits_address_space sz"
  shows "kmalloc sz h =
    (if sz = 0 \<or> 0x00400000 < block_end h (unat sz) then (0, h)
     else (heap_curr h, h\<lparr>heap_curr := word_of_nat (block_end h (unat sz))\<rparr>))"
proof -
  have cur: "unat (heap_curr h) \<le> 0x00400000" "16 dvd unat (heap_curr h)"
    using ok by (auto simp: heap_ok_def)
  have b: "align16 (heap_curr h) = heap_curr h"
    using cur by (intro align16_aligned) simp_all
  have "unat (heap_curr h + sz) = unat (heap_curr h) + unat sz"
    using cur sz by (simp add: unat_word_ariths fits_address_space_def)
  then have e: "unat (align16 (heap_curr h + sz)) = block_end h (unat sz)"
    using cur sz by (subst unat_align16) (simp_all add: fits_address_space_def block_end_def)
  then have "align16 (heap_curr h + sz) = word_of_nat (block_end h (unat sz))"
    by (simp flip: e)
  moreover have "align16 (heap_curr h + sz) > heap_end h \<longleftrightarrow> 0x00400000 < block_end h (unat sz)"
    using ok by (simp add: word_less_nat_alt e heap_ok_def)
  ultimately show ?thesis by (simp add: kmalloc_def b Let_def)
qed

lemma unat_block_end: "block_end h n \<le> 0x00400000 \<Longrightarrow> unat (word_of_nat (block_end h n) :: u32) = block_end h n"
  by (simp add: unat_of_nat)

lemma kmalloc_ok:
  assumes "heap_ok h" "fits_address_space sz"
  shows "heap_ok (snd (kmalloc sz h))"
  using assms block_end_ge [of h "unat sz"]
  by (auto simp: kmalloc_eq heap_ok_def unat_block_end) (simp_all add: block_end_def)

lemma kmalloc_block:
  assumes "heap_ok h" "fits_address_space sz" "kmalloc sz h = (p, h')" "p \<noteq> 0"
  shows "unat (heap_curr h) \<le> unat p" "unat p + unat sz \<le> unat (heap_curr h')"
  using assms block_end_ge [of h "unat sz"]
  by (auto simp: kmalloc_eq unat_block_end split: if_splits)

lemma kmalloc_mono:
  assumes "heap_ok h" "fits_address_space sz"
  shows "unat (heap_curr h) \<le> unat (heap_curr (snd (kmalloc sz h)))"
  using assms block_end_ge [of h "unat sz"]
  by (auto simp: kmalloc_eq unat_block_end)

subsection \<open>Runs of allocations\<close>

definition non_overlapping :: "(nat \<times> nat) list \<Rightarrow> bool" where
  "non_overlapping = sorted_wrt (\<lambda>(p, n) (q, m). p + n \<le> q)"

text \<open>
  The contract of an allocator that hands out memory from a moving frontier: every block lies
  between the old and the new frontier. What a client gets from it is that no two blocks of a run
  share a byte.
\<close>

locale frontier_allocator =
  fixes alloc :: "u32 \<Rightarrow> 'h \<Rightarrow> u32 \<times> 'h"
    and invar :: "'h \<Rightarrow> bool"
    and admissible :: "u32 \<Rightarrow> bool"
    and frontier :: "'h \<Rightarrow> nat"
    and limit :: nat
  assumes invar_alloc: "invar h \<Longrightarrow> admissible sz \<Longrightarrow> invar (snd (alloc sz h))"
    and alloc_block: "invar h \<Longrightarrow> admissible sz \<Longrightarrow> alloc sz h = (p, h') \<Longrightarrow> p \<noteq> 0 \<Longrightarrow>
      frontier h \<le> unat p \<and> unat p + unat sz \<le> frontier h'"
    and frontier_mono: "invar h \<Longrightarrow> admissible sz \<Longrightarrow> frontier h \<le> frontier (snd (alloc sz h))"
    and frontier_limit: "invar h \<Longrightarrow> frontier h \<le> limit"
begin

lemma run_frontier:
  "\<lbrakk>invar h; list_all admissible szs; alloc_run alloc szs h = (bs, h')\<rbrakk> \<Longrightarrow>
     invar h' \<and> frontier h \<le> frontier h' \<and>
     (\<forall>(p, n) \<in> set bs. frontier h \<le> p \<and> p + n \<le> frontier h') \<and> non_overlapping bs"
proof (induction szs arbitrary: h bs h')
  case Nil
  then show ?case by (simp add: non_overlapping_def)
next
  case (Cons sz szs)
  obtain p h1 where a: "alloc sz h = (p, h1)" by force
  obtain bs1 h2 where r: "alloc_run alloc szs h1 = (bs1, h2)" by force
  have inv1: "invar h1" and mono: "frontier h \<le> frontier h1"
    using invar_alloc [of h sz] frontier_mono [of h sz] Cons.prems a by auto
  have IH: "invar h2 \<and> frontier h1 \<le> frontier h2 \<and>
      (\<forall>(p, n) \<in> set bs1. frontier h1 \<le> p \<and> p + n \<le> frontier h2) \<and> non_overlapping bs1"
    using Cons.IH [OF inv1 _ r] Cons.prems(2) by simp
  show ?case
  proof (cases "p = 0")
    case True
    then show ?thesis using IH mono Cons.prems a r by fastforce
  next
    case False
    then have "frontier h \<le> unat p \<and> unat p + unat sz \<le> frontier h1"
      using alloc_block [of h sz p h1] Cons.prems a by auto
    then show ?thesis
      using IH mono Cons.prems a r False by (fastforce simp: non_overlapping_def)
  qed
qed

lemma run_blocks:
  assumes "invar h" "list_all admissible szs" "alloc_run alloc szs h = (bs, h')"
  shows "non_overlapping bs \<and> (\<forall>(p, n) \<in> set bs. frontier h \<le> p \<and> p + n \<le> limit)"
  using run_frontier [OF assms] frontier_limit by fastforce

end

interpretation kheap: frontier_allocator kmalloc heap_ok fits_address_space
  "\<lambda>h. unat (heap_curr h)" "0x00400000"
proof unfold_locales
  fix h sz p h'
  assume "heap_ok h" "fits_address_space sz" "kmalloc sz h = (p, h')" "p \<noteq> 0"
  then show "unat (heap_curr h) \<le> unat p \<and> unat p + unat sz \<le> unat (heap_curr h')"
    using kmalloc_block by blast
qed (simp_all add: kmalloc_ok kmalloc_mono, auto simp: heap_ok_def)

lemma memory_init_curr:
  "0 < unat ke \<Longrightarrow> unat ke \<le> 0x00400000 \<Longrightarrow> unat ke \<le> unat (heap_curr (memory_init ke h))"
  using unat_align16 [of ke] by (simp add: memory_init_def Let_def)

subsection \<open>Properties\<close>



text \<open>
  \<open>kmalloc\<close> does not check that \<open>begin + size\<close> stays below 2^32: a request of
  2^32 - 32 bytes succeeds and moves the heap pointer back by 32, so the next requests hand out
  memory that is already in use.
\<close>

lemma kmalloc_wraps_back:
  assumes "heap_ok h" "32 \<le> unat (heap_curr h)"
  shows "kmalloc 0xFFFFFFE0 h = (heap_curr h, h\<lparr>heap_curr := heap_curr h - 32\<rparr>)"
proof -
  have cur: "unat (heap_curr h) \<le> 0x00400000" "16 dvd unat (heap_curr h)" "heap_end h = 0x00400000"
    using assms(1) by (auto simp: heap_ok_def)
  have b: "align16 (heap_curr h) = heap_curr h"
    using cur by (intro align16_aligned) simp_all
  have m: "heap_curr h + 0xFFFFFFE0 = heap_curr h - 32" by simp
  have u: "unat (heap_curr h - 32) = unat (heap_curr h) - 32"
    using assms(2) by (simp add: unat_sub word_le_nat_alt)
  have e: "align16 (heap_curr h - 32) = heap_curr h - 32"
    using cur by (intro align16_aligned) (auto simp: u intro: dvd_diff_nat)
  have "\<not> heap_curr h - 32 > heap_end h"
    using cur by (simp add: word_less_nat_alt u)
  then show ?thesis
    by (simp only: kmalloc_def Let_def b m e) simp
qed

lemma kmalloc_wraps_back_witness:
  "\<exists>h p. kmalloc 32 (memory_init 0x00100000 \<lparr>heap_start = 0, heap_end = 0, heap_curr = 0\<rparr>) = (p, h) \<and>
     p \<noteq> 0 \<and> fst (kmalloc 32 (snd (kmalloc 0xFFFFFFE0 h))) = p"
proof -
  let ?h = "\<lparr>heap_start = 0x00100000, heap_end = 0x00400000, heap_curr = 0x00100020\<rparr>"
  have k: "kmalloc 32 (memory_init 0x00100000 \<lparr>heap_start = 0, heap_end = 0, heap_curr = 0\<rparr>) = (0x00100000, ?h)"
    by (simp add: kmalloc_def memory_init_def align16_def Let_def)
  have "kmalloc 0xFFFFFFE0 ?h = (0x00100020, ?h\<lparr>heap_curr := 0x00100000\<rparr>)"
    using kmalloc_wraps_back [of ?h] by (simp add: heap_ok_def)
  with k show ?thesis by (simp add: kmalloc_def align16_def Let_def)
qed

end
