(* ===== verification/Disk.thy ===== *)
theory Disk
  imports Drive Bytes Ports
begin

text \<open>
  The ATA driver, \<open>kernel/disk.c\<close>: sector transfers by programmed input and output. The driver runs
  on any port bus; waiting for the status register may go on forever, so its operations return
  options.

  The device is a parameter. What the driver relies on is the command protocol of the ATA standard,
  given by the locale \<open>ata_device\<close>: the ports \<open>0x1F0\<close> to \<open>0x1F7\<close> and \<open>0x3F6\<close> behave, seen through
  \<open>view\<close>, as a register file with busy times and error statuses chosen by the device. Under that
  contract the driver is shown to implement the block device of theory \<open>Drive\<close> that the filesystem
  is verified against.
\<close>

subsection \<open>The driver\<close>

definition ata_delay :: "'d bus \<Rightarrow> 'd \<Rightarrow> 'd" where
  "ata_delay b d =
     (let (_, d) = inb b 0x3F6 d; (_, d) = inb b 0x3F6 d; (_, d) = inb b 0x3F6 d; (_, d) = inb b 0x3F6 d in d)"

text \<open>The second loop of \<open>ata_poll\<close>, from the status last read.\<close>

partial_function (option) drq_loop :: "'d bus \<Rightarrow> byte \<Rightarrow> 'd \<Rightarrow> (int \<times> 'd) option" where
  "drq_loop b status d =
     (if status AND 0x08 \<noteq> 0 then Some (0, d)
      else case inb b 0x1F7 d of (status, d) \<Rightarrow>
        if status AND 0x21 \<noteq> 0 then Some (- 1, d) else drq_loop b status d)"

definition ata_poll :: "'d bus \<Rightarrow> 'd \<Rightarrow> (int \<times> 'd) option" where
  "ata_poll b d =
     (case poll b 0x1F7 (\<lambda>status. status AND 0x80 = 0) d of
        None \<Rightarrow> None
      | Some (status, d) \<Rightarrow> if status AND 0x21 \<noteq> 0 then Some (- 1, d) else drq_loop b status d)"

definition ata_select_lba :: "'d bus \<Rightarrow> u32 \<Rightarrow> byte \<Rightarrow> 'd \<Rightarrow> 'd" where
  "ata_select_lba b lba count d =
     out_all b
       [(0x1F6, ucast (0xE0 OR (drop_bit 24 lba AND 0x0F))), (0x1F2, count), (0x1F3, ucast (lba AND 0xFF)),
        (0x1F4, ucast (drop_bit 8 lba AND 0xFF)), (0x1F5, ucast (drop_bit 16 lba AND 0xFF))] d"

definition disk_init :: "'d \<Rightarrow> 'd" where
  "disk_init d = d"

text \<open>The loops over the words of sector \<open>s\<close>, with \<open>n\<close> words left from word \<open>i\<close> on.\<close>

fun read_words :: "'d bus \<Rightarrow> nat \<Rightarrow> nat \<Rightarrow> nat \<Rightarrow> buffer \<Rightarrow> 'd \<Rightarrow> buffer \<times> 'd" where
  "read_words b s 0 i dst d = (dst, d)"
| "read_words b s (Suc n) i dst d =
     (case inw b 0x1F0 d of (w, d) \<Rightarrow> read_words b s n (Suc i) (put16 (2 * (s * 256 + i)) w dst) d)"

fun write_words :: "'d bus \<Rightarrow> nat \<Rightarrow> nat \<Rightarrow> nat \<Rightarrow> buffer \<Rightarrow> 'd \<Rightarrow> 'd" where
  "write_words b s 0 i src d = d"
| "write_words b s (Suc n) i src d =
     write_words b s n (Suc i) src (outw b 0x1F0 (get16 src (2 * (s * 256 + i))) d)"

text \<open>The loops over the sectors, with \<open>n\<close> sectors left from sector \<open>s\<close> on.\<close>

fun read_sectors_loop :: "'d bus \<Rightarrow> nat \<Rightarrow> nat \<Rightarrow> buffer \<Rightarrow> 'd \<Rightarrow> (int \<times> buffer \<times> 'd) option" where
  "read_sectors_loop b 0 s dst d = Some (0, dst, d)"
| "read_sectors_loop b (Suc n) s dst d =
     (case ata_poll b d of
        None \<Rightarrow> None
      | Some (r, d) \<Rightarrow>
          if r \<noteq> 0 then Some (- 1, dst, d)
          else case read_words b s 256 0 dst d of (dst, d) \<Rightarrow>
            read_sectors_loop b n (Suc s) dst (ata_delay b d))"

fun write_sectors_loop :: "'d bus \<Rightarrow> nat \<Rightarrow> nat \<Rightarrow> buffer \<Rightarrow> 'd \<Rightarrow> (int \<times> 'd) option" where
  "write_sectors_loop b 0 s src d = Some (0, d)"
| "write_sectors_loop b (Suc n) s src d =
     (case ata_poll b d of
        None \<Rightarrow> None
      | Some (r, d) \<Rightarrow>
          if r \<noteq> 0 then Some (- 1, d)
          else write_sectors_loop b n (Suc s) src (ata_delay b (write_words b s 256 0 src d)))"

definition disk_read_sectors :: "'d bus \<Rightarrow> u32 \<Rightarrow> byte \<Rightarrow> buffer \<Rightarrow> 'd \<Rightarrow> (int \<times> buffer \<times> 'd) option" where
  "disk_read_sectors b lba count dst d =
     (if count = 0 then Some (0, dst, d)
      else read_sectors_loop b (unat count) 0 dst (outb b 0x1F7 0x20 (ata_select_lba b lba count d)))"

definition disk_write_sectors :: "'d bus \<Rightarrow> u32 \<Rightarrow> byte \<Rightarrow> buffer \<Rightarrow> 'd \<Rightarrow> (int \<times> 'd) option" where
  "disk_write_sectors b lba count src d =
     (if count = 0 then Some (0, d)
      else write_sectors_loop b (unat count) 0 src (outb b 0x1F7 0x30 (ata_select_lba b lba count d)))"

subsection \<open>The device protocol\<close>

text \<open>
  A device is idle, moves sector data, or shows an error. In \<open>Moving wr lba n i\<close> the sector \<open>lba\<close>
  is being written (\<open>wr\<close>) or read, \<open>n\<close> more follow it and \<open>i\<close> words of it are done. \<open>busy\<close> counts the
  status reads until the device is ready for the next access; how long that takes is up to the
  device (\<open>latency\<close> by the number of the transfer, \<open>settle\<close> after the last word of a write).
\<close>

datatype ata_mode = Idle | Moving bool nat nat nat | Failed

record ata =
  media :: drive
  latency :: "nat \<Rightarrow> nat"
  settle :: nat
  busy :: nat
  reg_drive :: byte
  reg_count :: byte
  reg_lba0 :: byte
  reg_lba1 :: byte
  reg_lba2 :: byte
  mode :: ata_mode

text \<open>The device turns to the next of \<open>n\<close> sectors: it consults its error schedule.\<close>

definition start_sector :: "bool \<Rightarrow> nat \<Rightarrow> nat \<Rightarrow> ata \<Rightarrow> ata" where
  "start_sector wr lba n a =
     (case n of
        0 \<Rightarrow> a\<lparr>mode := Idle, busy := (if wr then settle a else 0)\<rparr>
      | Suc m \<Rightarrow>
          let t = transfers (media a) in
          a\<lparr>media := (media a)\<lparr>transfers := Suc t\<rparr>, busy := latency a t,
            mode := (if fault (media a) t then Failed else Moving wr lba m 0)\<rparr>)"

definition ata_status :: "ata \<Rightarrow> byte" where
  "ata_status a =
     (if busy a > 0 then 0x80
      else case mode a of Idle \<Rightarrow> 0x40 | Moving _ _ _ _ \<Rightarrow> 0x48 | Failed \<Rightarrow> 0x41)"

definition ata_inb :: "ata \<Rightarrow> byte \<times> ata" where
  "ata_inb a = (ata_status a, a\<lparr>busy := busy a - 1\<rparr>)"

definition ata_lba :: "ata \<Rightarrow> nat" where
  "ata_lba a =
     unat (reg_lba0 a) + 256 * unat (reg_lba1 a) + 65536 * unat (reg_lba2 a) + 16777216 * unat (reg_drive a AND 0x0F)"

definition ata_sectors :: "ata \<Rightarrow> nat" where
  "ata_sectors a = (if reg_count a = 0 then 256 else unat (reg_count a))"

text \<open>
  Writes to the registers and commands are taken when no transfer is going on; the drive register
  must select the first drive and block addresses.
\<close>

definition ata_outb :: "u16 \<Rightarrow> byte \<Rightarrow> ata \<Rightarrow> ata" where
  "ata_outb p v a =
     (if busy a > 0 \<or> (mode a \<noteq> Idle \<and> mode a \<noteq> Failed) then a
      else if p = 0x1F2 then a\<lparr>reg_count := v\<rparr>
      else if p = 0x1F3 then a\<lparr>reg_lba0 := v\<rparr>
      else if p = 0x1F4 then a\<lparr>reg_lba1 := v\<rparr>
      else if p = 0x1F5 then a\<lparr>reg_lba2 := v\<rparr>
      else if p = 0x1F6 then a\<lparr>reg_drive := v\<rparr>
      else if p = 0x1F7 \<and> reg_drive a AND 0x50 = 0x40 \<and> (v = 0x20 \<or> v = 0x30)
        then start_sector (v = 0x30) (ata_lba a) (ata_sectors a) a
      else a)"

definition ata_inw :: "ata \<Rightarrow> u16 \<times> ata" where
  "ata_inw a =
     (case mode a of
        Moving wr lba n i \<Rightarrow>
          if wr \<or> busy a > 0 then (0xFFFF, a)
          else (get16 (sectors (media a) lba) (2 * i),
                if i < 255 then a\<lparr>mode := Moving wr lba n (Suc i)\<rparr> else start_sector wr (Suc lba) n a)
      | _ \<Rightarrow> (0xFFFF, a))"

definition ata_outw :: "u16 \<Rightarrow> ata \<Rightarrow> ata" where
  "ata_outw w a =
     (case mode a of
        Moving wr lba n i \<Rightarrow>
          if \<not> wr \<or> busy a > 0 then a
          else let m = media a;
                   a = a\<lparr>media := m\<lparr>sectors := (sectors m)(lba := put16 (2 * i) w (sectors m lba))\<rparr>\<rparr> in
            if i < 255 then a\<lparr>mode := Moving wr lba n (Suc i)\<rparr> else start_sector wr (Suc lba) n a
      | _ \<Rightarrow> a)"

lemma start_sector_mode [simp]: "start_sector wr lba n (a\<lparr>mode := m\<rparr>) = start_sector wr lba n a"
  by (cases n) (simp_all add: start_sector_def Let_def)

lemma start_sector_mode_media [simp]:
  "start_sector wr lba n (a\<lparr>mode := m, media := x\<rparr>) = start_sector wr lba n (a\<lparr>media := x\<rparr>)"
  by (cases n) (simp_all add: start_sector_def Let_def)

lemma start_sector_busy [simp]: "start_sector wr lba n (a\<lparr>busy := k\<rparr>) = start_sector wr lba n a"
  by (cases n) (simp_all add: start_sector_def Let_def)

lemma put16_get16: "put16 off (get16 m k) dst = dst(off := m k, off + 1 := m (k + 1))"
proof -
  have "ucast (get16 m k) = m k" "ucast (drop_bit 8 (get16 m k)) = m (k + 1)"
    by (rule bit_word_eqI, auto simp: get16_def bit_simps dest: bit_imp_le_length)+
  then show ?thesis by (simp add: put16_def)
qed

text \<open>Bytes \<open>2 * i\<close> up to 512 of sector \<open>s\<close> of a buffer replaced by those of \<open>m\<close>.\<close>

definition fill_sector :: "nat \<Rightarrow> nat \<Rightarrow> buffer \<Rightarrow> buffer \<Rightarrow> buffer" where
  "fill_sector s i m dst = (\<lambda>j. if s * 512 + 2 * i \<le> j \<and> j < s * 512 + 512 then m (j - s * 512) else dst j)"

lemma fill_sector_step:
  assumes "i < 256"
  shows "fill_sector s (Suc i) m (put16 (2 * (s * 256 + i)) (get16 m (2 * i)) dst) = fill_sector s i m dst"
proof
  fix j
  consider "j = s * 512 + 2 * i" | "j = s * 512 + 2 * i + 1" | "j < s * 512 + 2 * i \<or> s * 512 + 2 * i + 1 < j" by linarith
  then show "fill_sector s (Suc i) m (put16 (2 * (s * 256 + i)) (get16 m (2 * i)) dst) j = fill_sector s i m dst j"
    by cases (use assms in \<open>auto simp: fill_sector_def put16_get16\<close>)
qed

lemma fill_sector_done: "256 \<le> i \<Longrightarrow> fill_sector s i m dst = dst"
  by (rule ext) (auto simp: fill_sector_def)

lemma fill_sector_memcpy: "fill_sector s 0 m dst = memcpy dst (s * 512) m 0 512"
  by (auto simp: fill_sector_def memcpy_eq)

lemma fill_sector_shift: "fill_sector 0 0 (\<lambda>j. src (s * 512 + j)) m = memcpy m 0 src (s * 512) 512"
  by (auto simp: fill_sector_def memcpy_eq)

lemma get16_shift: "get16 src (2 * (s * 256 + i)) = get16 (\<lambda>j. src (s * 512 + j)) (2 * i)"
  by (simp add: get16_def algebra_simps)

definition ata_ready :: "ata \<Rightarrow> bool" where
  "ata_ready a \<longleftrightarrow> busy a = 0 \<and> (mode a = Idle \<or> mode a = Failed)"

text \<open>Ready but for at most \<open>k\<close> status reads.\<close>

definition ata_settled :: "nat \<Rightarrow> ata \<Rightarrow> bool" where
  "ata_settled k a \<longleftrightarrow> busy a \<le> k \<and> (mode a = Idle \<or> mode a = Failed)"

lemma ata_ready_regs [simp]:
  "ata_ready (a\<lparr>reg_count := v\<rparr>) = ata_ready a" "ata_ready (a\<lparr>reg_lba0 := v\<rparr>) = ata_ready a"
  "ata_ready (a\<lparr>reg_lba1 := v\<rparr>) = ata_ready a" "ata_ready (a\<lparr>reg_lba2 := v\<rparr>) = ata_ready a"
  "ata_ready (a\<lparr>reg_drive := v\<rparr>) = ata_ready a"
  by (simp_all add: ata_ready_def)

lemma drive_bits:
  "(ucast (0xE0 OR (x AND 0x0F) :: u32) :: byte) AND 0x50 = 0x40"
  "(ucast (0xE0 OR (x AND 0x0F) :: u32) :: byte) AND 0x0F = ucast (x AND 0x0F)"
proof -
  have e: "(ucast (0xE0 OR (x AND 0x0F) :: u32) :: byte) = 0xE0 OR (ucast x AND 0x0F)"
    by (rule bit_word_eqI) (auto simp: bit_simps)
  have f: "(ucast (x AND 0x0F) :: byte) = ucast x AND 0x0F"
    by (rule bit_word_eqI) (auto simp: bit_simps)
  show "(ucast (0xE0 OR (x AND 0x0F) :: u32) :: byte) AND 0x50 = 0x40"
    "(ucast (0xE0 OR (x AND 0x0F) :: u32) :: byte) AND 0x0F = ucast (x AND 0x0F)"
    by (simp_all add: e f bit.conj_disj_distrib2 and.assoc)
qed

lemma unat_low_byte: "unat (ucast (x AND 0xFF) :: byte) = unat x mod 256" for x :: u32
proof -
  have "x AND 0xFF = take_bit 8 x" by (simp add: take_bit_eq_mask mask_eq_exp_minus_1)
  then have "unat (x AND 0xFF) = take_bit 8 (unat x)" by (simp add: unsigned_take_bit_eq)
  then show ?thesis by (simp add: unsigned_ucast_eq take_bit_eq_mod)
qed

lemma unat_low_nibble: "unat (ucast (x AND 0x0F) :: byte) = unat x mod 16" for x :: u32
proof -
  have "x AND 0x0F = take_bit 4 x" by (simp add: take_bit_eq_mask mask_eq_exp_minus_1)
  then have "unat (x AND 0x0F) = take_bit 4 (unat x)" by (simp add: unsigned_take_bit_eq)
  then show ?thesis by (simp add: unsigned_ucast_eq take_bit_eq_mod)
qed

lemma unat_drop_bit: "unat (drop_bit k x) = unat x div 2 ^ k" for x :: u32
proof -
  have "unat (drop_bit k x) = drop_bit k (unat x)"
    using unsigned_less [of x, where 'a = nat] by (simp add: unsigned_drop_bit_eq take_bit_nat_eq_self)
  then show ?thesis by (simp add: drop_bit_eq_div)
qed

lemma drive_upd_swap: "(m\<lparr>transfers := t\<rparr>)\<lparr>sectors := x\<rparr> = m\<lparr>sectors := x, transfers := t\<rparr>" for m :: drive
  by (cases m) simp

lemma ata_outb_ready:
  assumes "ata_ready a"
  shows "ata_outb p v a =
     (if p = 0x1F2 then a\<lparr>reg_count := v\<rparr>
      else if p = 0x1F3 then a\<lparr>reg_lba0 := v\<rparr>
      else if p = 0x1F4 then a\<lparr>reg_lba1 := v\<rparr>
      else if p = 0x1F5 then a\<lparr>reg_lba2 := v\<rparr>
      else if p = 0x1F6 then a\<lparr>reg_drive := v\<rparr>
      else if p = 0x1F7 \<and> reg_drive a AND 0x50 = 0x40 \<and> (v = 0x20 \<or> v = 0x30)
        then start_sector (v = 0x30) (ata_lba a) (ata_sectors a) a
      else a)"
proof -
  have "\<not> (busy a > 0 \<or> (mode a \<noteq> Idle \<and> mode a \<noteq> Failed))" using assms by (auto simp: ata_ready_def)
  then show ?thesis unfolding ata_outb_def by (simp only: if_False)
qed

lemma lba_bytes:
  fixes lba :: u32
  assumes "unat lba < 2 ^ 28"
  shows "unat (ucast (lba AND 0xFF) :: byte) + 256 * unat (ucast (drop_bit 8 lba AND 0xFF) :: byte) +
     65536 * unat (ucast (drop_bit 16 lba AND 0xFF) :: byte) +
     16777216 * unat (ucast (0xE0 OR (drop_bit 24 lba AND 0x0F)) AND 0x0F :: byte) = unat lba"
proof -
  define n where "n = unat lba"
  have split: "m = m mod 256 + 256 * (m div 256)" for m :: nat by simp
  have d: "n div 65536 = n div 256 div 256" "n div 16777216 = n div 256 div 256 div 256"
    by (simp_all add: div_mult2_eq [symmetric])
  have top: "n div 16777216 mod 16 = n div 16777216" using assms by (simp add: n_def less_mult_imp_div_less)
  have "n mod 256 + 256 * (n div 256 mod 256) + 65536 * (n div 65536 mod 256) + 16777216 * (n div 16777216) = n"
    using split [of n] split [of "n div 256"] split [of "n div 256 div 256"] unfolding d by linarith
  then show ?thesis using top by (simp add: drive_bits unat_low_byte unat_low_nibble unat_drop_bit n_def)
qed

locale ata_device =
  fixes b :: "'d bus" and view :: "'d \<Rightarrow> ata"
  assumes status_law: "p = 0x1F7 \<or> p = 0x3F6 \<Longrightarrow> fst (inb b p d) = fst (ata_inb (view d))"
    and status_step: "p = 0x1F7 \<or> p = 0x3F6 \<Longrightarrow> view (snd (inb b p d)) = snd (ata_inb (view d))"
    and register_step: "p \<in> {0x1F2, 0x1F3, 0x1F4, 0x1F5, 0x1F6, 0x1F7} \<Longrightarrow> view (outb b p v d) = ata_outb p v (view d)"
    and data_law: "fst (inw b 0x1F0 d) = fst (ata_inw (view d))"
    and data_step: "view (snd (inw b 0x1F0 d)) = snd (ata_inw (view d))"
    and data_out: "view (outw b 0x1F0 w d) = ata_outw w (view d)"
begin

lemma status_cases:
  assumes "p = 0x1F7 \<or> p = 0x3F6"
  obtains d' where "inb b p d = (ata_status (view d), d')" "view d' = (view d)\<lparr>busy := busy (view d) - 1\<rparr>"
proof -
  obtain v d' where e: "inb b p d = (v, d')" by force
  show thesis
    using that [of d'] status_law [OF assms, of d] status_step [OF assms, of d] e by (simp add: ata_inb_def)
qed

text \<open>Polling waits until the device is no longer busy and reports what it then shows.\<close>

lemma poll_ready:
  assumes "busy (view d) = n"
  shows "\<exists>d'. poll b 0x1F7 (\<lambda>status. status AND 0x80 = 0) d = Some (ata_status ((view d)\<lparr>busy := 0\<rparr>), d') \<and>
     view d' = (view d)\<lparr>busy := 0\<rparr>"
  using assms
proof (induction n arbitrary: d)
  case 0
  then show ?case
    by (rule_tac p = "0x1F7" and d = d in status_cases)
      (auto intro!: poll_hit exI simp: ata_status_def split: ata_mode.splits)
next
  case (Suc n)
  obtain d' where d': "inb b 0x1F7 d = (ata_status (view d), d')" "view d' = (view d)\<lparr>busy := busy (view d) - 1\<rparr>"
    by (rule status_cases [of "0x1F7" d]) auto
  have st: "ata_status (view d) = 0x80" using Suc.prems by (simp add: ata_status_def)
  have "poll b 0x1F7 (\<lambda>status. status AND 0x80 = 0) d = poll b 0x1F7 (\<lambda>status. status AND 0x80 = 0) d'"
    by (rule poll_miss [OF d'(1)]) (simp add: st)
  then show ?case using Suc.IH [of d'] Suc.prems d'(2) by (cases "view d") auto
qed

lemma ata_poll_moving:
  assumes "mode (view d) = Moving wr lba n i"
  shows "\<exists>d'. ata_poll b d = Some (0, d') \<and> view d' = (view d)\<lparr>busy := 0\<rparr>"
  using poll_ready [of d "busy (view d)"] assms
  by (auto simp: ata_poll_def ata_status_def drq_loop.simps)

lemma ata_poll_failed:
  assumes "mode (view d) = Failed"
  shows "\<exists>d'. ata_poll b d = Some (- 1, d') \<and> view d' = (view d)\<lparr>busy := 0\<rparr>"
  using poll_ready [of d "busy (view d)"] assms
  by (auto simp: ata_poll_def ata_status_def)

lemma ata_delay_view: "view (ata_delay b d) = (view d)\<lparr>busy := busy (view d) - 4\<rparr>"
proof -
  have step: "view (snd (inb b 0x3F6 d)) = (view d)\<lparr>busy := busy (view d) - 1\<rparr>" for d
    using status_step [of "0x3F6" d] by (simp add: ata_inb_def)
  show ?thesis by (simp add: ata_delay_def case_prod_beta step)
qed

subsection \<open>Sector transfers\<close>

lemma read_words_view:
  assumes "mode (view d) = Moving False lba n i" "busy (view d) = 0" "i + Suc k = 256"
  shows "\<exists>d'. read_words b s (Suc k) i dst d = (fill_sector s i (sectors (media (view d)) lba) dst, d') \<and>
     view d' = start_sector False (Suc lba) n (view d)"
  using assms
proof (induction k arbitrary: i dst d)
  case 0
  obtain w d' where e: "inw b 0x1F0 d = (w, d')" by force
  have i: "i < 256" "256 \<le> Suc i" "\<not> i < 255" using 0 by simp_all
  have "w = get16 (sectors (media (view d)) lba) (2 * i)" "view d' = start_sector False (Suc lba) n (view d)"
    using data_law [of d] data_step [of d] e 0 i(3) by (simp_all add: ata_inw_def)
  then show ?case
    using e fill_sector_step [OF i(1), of s "sectors (media (view d)) lba" dst] i(2)
    by (simp add: fill_sector_done)
next
  case (Suc k)
  let ?m = "sectors (media (view d)) lba"
  obtain w d' where e: "inw b 0x1F0 d = (w, d')" by force
  have w: "w = get16 ?m (2 * i)" and v: "view d' = (view d)\<lparr>mode := Moving False lba n (Suc i)\<rparr>"
    using data_law [of d] data_step [of d] e Suc.prems by (simp_all add: ata_inw_def)
  show ?case
    using Suc.IH [of d' "Suc i" "put16 (2 * (s * 256 + i)) w dst"] Suc.prems e
      fill_sector_step [of i s ?m dst] by (auto simp: v w)
qed

lemma write_words_view:
  assumes "mode (view d) = Moving True lba n i" "busy (view d) = 0" "i + Suc k = 256"
  shows "view (write_words b s (Suc k) i src d) = start_sector True (Suc lba) n
     ((view d)\<lparr>media := (media (view d))\<lparr>sectors := (sectors (media (view d)))
       (lba := fill_sector 0 i (\<lambda>j. src (s * 512 + j)) (sectors (media (view d)) lba))\<rparr>\<rparr>)"
  using assms
proof (induction k arbitrary: i d)
  case 0
  have i: "i < 256" "256 \<le> Suc i" "\<not> i < 255" using 0 by simp_all
  note [simp] = get16_shift [of src s i, simplified]
  show ?case
    using data_out [of "get16 src (2 * (s * 256 + i))" d] 0(1,2) i(3)
      fill_sector_step [OF i(1), of 0 "\<lambda>j. src (s * 512 + j)" "sectors (media (view d)) lba", symmetric] i(2)
    by (simp add: ata_outw_def fill_sector_done fun_upd_def Let_def)
next
  case (Suc k)
  let ?m = "media (view d)"
  let ?d = "outw b 0x1F0 (get16 src (2 * (s * 256 + i))) d"
  have i: "i < 256" "i < 255" using Suc.prems by simp_all
  have v: "view ?d = (view d)\<lparr>media := ?m\<lparr>sectors := (sectors ?m)(lba := put16 (2 * i) (get16 src (2 * (s * 256 + i))) (sectors ?m lba))\<rparr>,
      mode := Moving True lba n (Suc i)\<rparr>"
    using data_out [of "get16 src (2 * (s * 256 + i))" d] Suc.prems i by (simp add: ata_outw_def Let_def)
  note f = fill_sector_step [OF i(1), of 0 "\<lambda>j. src (s * 512 + j)" "sectors ?m lba", folded get16_shift]
  have "view (write_words b s (Suc k) (Suc i) src ?d) = start_sector True (Suc lba) n
     ((view ?d)\<lparr>media := (media (view ?d))\<lparr>sectors := (sectors (media (view ?d)))
       (lba := fill_sector 0 (Suc i) (\<lambda>j. src (s * 512 + j)) (sectors (media (view ?d)) lba))\<rparr>\<rparr>)"
    by (rule Suc.IH) (use Suc.prems v in simp_all)
  then show ?case unfolding v using f by (simp add: fun_upd_def cong: if_cong)
qed

text \<open>
  The loops from a device about to start sector \<open>lba + s\<close>: they end, with the result, the buffer and the
  medium the block device gives.
\<close>

lemma read_loop_refines:
  assumes "view d = (start_sector False (lba + s) n a)\<lparr>busy := k\<rparr>" "n = 0 \<longrightarrow> k = 0"
  shows "\<exists>r dst' d'. read_sectors_loop b n s dst d = Some (r, dst', d') \<and>
     read_from lba n s dst (media a) = (r, dst', media (view d')) \<and> ata_ready (view d')"
  using assms
proof (induction n arbitrary: s dst d a k)
  case 0
  then show ?case by (simp add: start_sector_def ata_ready_def)
next
  case (Suc n)
  show ?case
  proof (cases "fault (media a) (transfers (media a))")
    case True
    then have "mode (view d) = Failed" using Suc.prems by (simp add: start_sector_def Let_def)
    from ata_poll_failed [OF this] obtain d' where "ata_poll b d = Some (- 1, d')" "view d' = (view d)\<lparr>busy := 0\<rparr>" by blast
    then show ?thesis using True Suc.prems by (simp add: start_sector_def ata_ready_def Let_def)
  next
    case False
    then have m: "mode (view d) = Moving False (lba + s) n 0" using Suc.prems by (simp add: start_sector_def Let_def)
    from ata_poll_moving [OF m] obtain d1 where d1: "ata_poll b d = Some (0, d1)" "view d1 = (view d)\<lparr>busy := 0\<rparr>" by blast
    obtain d2 where d2: "read_words b s 256 0 dst d1 = (fill_sector s 0 (sectors (media (view d1)) (lba + s)) dst, d2)"
        "view d2 = start_sector False (Suc (lba + s)) n (view d1)"
      using read_words_view [of d1 "lba + s" n 0 255 s dst] d1 m by auto
    let ?a = "view d1"
    have me: "media ?a = (media a)\<lparr>transfers := Suc (transfers (media a))\<rparr>"
      using d1 Suc.prems by (simp add: start_sector_def Let_def)
    have v: "view (ata_delay b d2) =
        (start_sector False (lba + Suc s) n ?a)\<lparr>busy := busy (start_sector False (Suc (lba + s)) n ?a) - 4\<rparr>"
      using d2(2) by (simp add: ata_delay_view)
    have "n = 0 \<longrightarrow> busy (start_sector False (Suc (lba + s)) n ?a) - 4 = 0" by (simp add: start_sector_def)
    from Suc.IH [OF v this, of "memcpy dst (s * 512) (sectors (media a) (lba + s)) 0 512"]
    show ?thesis using False d1(1) d2(1) me by (simp add: fill_sector_memcpy)
  qed
qed

lemma write_loop_refines:
  assumes "view d = (start_sector True (lba + s) n a)\<lparr>busy := k\<rparr>" "n = 0 \<longrightarrow> k \<le> settle a - 4"
  shows "\<exists>r d'. write_sectors_loop b n s src d = Some (r, d') \<and>
     write_from lba n s src (media a) = (r, media (view d')) \<and> ata_settled (settle a - 4) (view d')"
  using assms
proof (induction n arbitrary: s d a k)
  case 0
  then show ?case by (simp add: start_sector_def ata_settled_def)
next
  case (Suc n)
  show ?case
  proof (cases "fault (media a) (transfers (media a))")
    case True
    then have "mode (view d) = Failed" using Suc.prems by (simp add: start_sector_def Let_def)
    from ata_poll_failed [OF this] obtain d' where "ata_poll b d = Some (- 1, d')" "view d' = (view d)\<lparr>busy := 0\<rparr>" by blast
    then show ?thesis using True Suc.prems by (simp add: start_sector_def ata_settled_def Let_def)
  next
    case False
    then have m: "mode (view d) = Moving True (lba + s) n 0" using Suc.prems by (simp add: start_sector_def Let_def)
    from ata_poll_moving [OF m] obtain d1 where d1: "ata_poll b d = Some (0, d1)" "view d1 = (view d)\<lparr>busy := 0\<rparr>" by blast
    let ?M = "media a"
    let ?sec = "(sectors ?M)(lba + s := memcpy (sectors ?M (lba + s)) 0 src (s * 512) 512)"
    let ?a = "(view d1)\<lparr>media := ?M\<lparr>sectors := ?sec, transfers := Suc (transfers ?M)\<rparr>\<rparr>"
    have me: "media (view d1) = ?M\<lparr>transfers := Suc (transfers ?M)\<rparr>" and st: "settle ?a = settle a"
      using d1 Suc.prems by (simp_all add: start_sector_def Let_def)
    have w: "view (write_words b s 256 0 src d1) = start_sector True (Suc (lba + s)) n ?a"
      using write_words_view [of d1 "lba + s" n 0 255 s src] d1 m me by (simp add: fill_sector_shift drive_upd_swap)
    have v: "view (ata_delay b (write_words b s 256 0 src d1)) =
        (start_sector True (lba + Suc s) n ?a)\<lparr>busy := busy (start_sector True (Suc (lba + s)) n ?a) - 4\<rparr>"
      using w by (simp add: ata_delay_view)
    have "n = 0 \<longrightarrow> busy (start_sector True (Suc (lba + s)) n ?a) - 4 \<le> settle ?a - 4" by (simp add: start_sector_def)
    from Suc.IH [OF v this]
    show ?thesis using False d1(1) me st by simp
  qed
qed

lemma select_command:
  assumes "ata_ready (view d)" "unat lba < 2 ^ 28" "v = 0x20 \<or> v = 0x30" "count \<noteq> 0"
  shows "\<exists>a. view (outb b 0x1F7 v (ata_select_lba b lba count d)) = start_sector (v = 0x30) (unat lba) (unat count) a \<and>
     media a = media (view d) \<and> settle a = settle (view d)"
proof -
  let ?a = "(view d)\<lparr>reg_drive := ucast (0xE0 OR (drop_bit 24 lba AND 0x0F)), reg_count := count, reg_lba0 := ucast (lba AND 0xFF),
    reg_lba1 := ucast (drop_bit 8 lba AND 0xFF), reg_lba2 := ucast (drop_bit 16 lba AND 0xFF)\<rparr>"
  have sel: "view (ata_select_lba b lba count d) = ?a"
    using assms(1) by (simp add: ata_select_lba_def register_step ata_outb_ready)
  have "view (outb b 0x1F7 v (ata_select_lba b lba count d)) = start_sector (v = 0x30) (ata_lba ?a) (ata_sectors ?a) ?a"
    using assms(1,3) by (simp add: register_step ata_outb_ready sel drive_bits)
  then show ?thesis
    using lba_bytes [OF assms(2)] assms(4) by (intro exI [of _ ?a]) (simp add: ata_lba_def ata_sectors_def)
qed

lemma read_refines:
  assumes "ata_ready (view d)" "unat lba < 2 ^ 28"
  shows "\<exists>r dst' d'. disk_read_sectors b lba count dst d = Some (r, dst', d') \<and>
     drive_read lba (unat count) dst (media (view d)) = (r, dst', media (view d')) \<and> ata_ready (view d')"
proof (cases "count = 0")
  case True
  then show ?thesis using assms by (simp add: disk_read_sectors_def drive_read_def)
next
  case False
  obtain a where a: "view (outb b 0x1F7 0x20 (ata_select_lba b lba count d)) = start_sector False (unat lba) (unat count) a"
      "media a = media (view d)"
    using select_command [OF assms, of "0x20" count] False by auto
  have "view (outb b 0x1F7 0x20 (ata_select_lba b lba count d)) =
      (start_sector False (unat lba + 0) (unat count) a)\<lparr>busy := busy (start_sector False (unat lba) (unat count) a)\<rparr>"
    using a(1) by simp
  from read_loop_refines [OF this, of dst]
  show ?thesis using a(2) False by (simp add: disk_read_sectors_def drive_read_def unat_eq_0)
qed

lemma write_refines:
  assumes "ata_ready (view d)" "unat lba < 2 ^ 28"
  shows "\<exists>r d'. disk_write_sectors b lba count src d = Some (r, d') \<and>
     drive_write lba (unat count) src (media (view d)) = (r, media (view d')) \<and>
     ata_settled (settle (view d) - 4) (view d')"
proof (cases "count = 0")
  case True
  then show ?thesis using assms by (auto simp: disk_write_sectors_def drive_write_def ata_ready_def ata_settled_def)
next
  case False
  obtain a where a: "view (outb b 0x1F7 0x30 (ata_select_lba b lba count d)) = start_sector True (unat lba) (unat count) a"
      "media a = media (view d)" "settle a = settle (view d)"
    using select_command [OF assms, of "0x30" count] False by auto
  have "view (outb b 0x1F7 0x30 (ata_select_lba b lba count d)) =
      (start_sector True (unat lba + 0) (unat count) a)\<lparr>busy := busy (start_sector True (unat lba) (unat count) a)\<rparr>"
    using a(1) by simp
  from write_loop_refines [OF this, of src]
  show ?thesis using a(2,3) False by (simp add: disk_write_sectors_def drive_write_def unat_eq_0)
qed

end

text \<open>The protocol itself as a bus, with nothing else connected.\<close>

definition ata_bus :: "ata bus" where
  "ata_bus = \<lparr>inb = (\<lambda>p. ata_inb), outb = ata_outb, inw = (\<lambda>p. ata_inw), outw = (\<lambda>p. ata_outw)\<rparr>"

interpretation reference: ata_device ata_bus "\<lambda>a. a"
  by unfold_locales (simp_all add: ata_bus_def)

text \<open>
  A machine on which the disk shares the bus with another device: whatever answers at the other
  ports does not disturb the protocol.
\<close>

definition with_disk :: "'e bus \<Rightarrow> ('e \<times> ata) bus" where
  "with_disk rest =
     \<lparr>inb = (\<lambda>p (e, a). if p = 0x1F7 \<or> p = 0x3F6 then (case ata_inb a of (v, a) \<Rightarrow> (v, (e, a)))
             else (case inb rest p e of (v, e) \<Rightarrow> (v, (e, a)))),
      outb = (\<lambda>p v (e, a). if 0x1F2 \<le> p \<and> p \<le> 0x1F7 then (e, ata_outb p v a) else (outb rest p v e, a)),
      inw = (\<lambda>p (e, a). if p = 0x1F0 then (case ata_inw a of (w, a) \<Rightarrow> (w, (e, a)))
             else (case inw rest p e of (w, e) \<Rightarrow> (w, (e, a)))),
      outw = (\<lambda>p w (e, a). if p = 0x1F0 then (e, ata_outw w a) else (outw rest p w e, a))\<rparr>"

interpretation shared: ata_device "with_disk rest" snd for rest
  by unfold_locales (auto simp: with_disk_def split: prod.splits)

text \<open>
  Property C15. The driver implements the block device: on every bus whose disk ports follow the ATA
  protocol, whatever the busy times and the errors of the device, a read or write of up to 255
  sectors below block \<open>2 ^ 28\<close> that starts with a ready device ends, and its result, its buffer and
  the sectors of the medium are those of the block device the filesystem is verified against. After
  a read the device is ready again; after a write it may be busy for as long as it takes it to
  settle, less the four status reads of \<open>ata_delay\<close>, since the driver does not wait for the last
  sector.
\<close>

theorem disk_refines_drive:
  assumes "ata_device b view" and "ata_ready (view d)" and "unat lba < 2 ^ 28"
  shows "(\<exists>r dst' d'. disk_read_sectors b lba count dst d = Some (r, dst', d') \<and>
       drive_read lba (unat count) dst (media (view d)) = (r, dst', media (view d')) \<and> ata_ready (view d')) \<and>
     (\<exists>r d'. disk_write_sectors b lba count src d = Some (r, d') \<and>
       drive_write lba (unat count) src (media (view d)) = (r, media (view d')) \<and>
       ata_settled (settle (view d) - 4) (view d'))"
  using ata_device.read_refines [OF assms] ata_device.write_refines [OF assms] by blast

definition sample_disk :: ata where
  "sample_disk = \<lparr>media = \<lparr>sectors = (\<lambda>_ _. 0), fault = (\<lambda>_. False), transfers = 0\<rparr>, latency = (\<lambda>n. n), settle = 3,
     busy = 0, reg_drive = 0, reg_count = 0, reg_lba0 = 0, reg_lba1 = 0, reg_lba2 = 0, mode = Idle\<rparr>"

theorem disk_refines_drive_witness:
  "\<exists>r d'. disk_write_sectors ata_bus 0x12345 2 (\<lambda>_. 7) sample_disk = Some (r, d') \<and>
     drive_write 0x12345 2 (\<lambda>_. 7) (media sample_disk) = (r, media d') \<and> ata_settled 0 d'"
proof -
  have "ata_ready sample_disk" "settle sample_disk = 3" by (simp_all add: ata_ready_def sample_disk_def)
  then show ?thesis
    using disk_refines_drive [OF reference.ata_device_axioms, of sample_disk "0x12345" 2 _ "\<lambda>_. 7"] by simp
qed

text \<open>
  A device that needs longer than those four status reads to settle ignores the registers and the
  command of the next transfer; \<open>ata_poll\<close> then waits forever for data the device was never asked for.
\<close>

lemma drq_loop_idle:
  "drq_loop b status a = Some r \<Longrightarrow> \<not> (b = ata_bus \<and> mode a = Idle \<and> busy a = 0 \<and> status = 0x40)"
  by (rule drq_loop.raw_induct [of "\<lambda>b status a r. \<not> (b = ata_bus \<and> mode a = Idle \<and> busy a = 0 \<and> status = 0x40)"])
    (fastforce simp: ata_bus_def ata_inb_def ata_status_def)+

lemma lost_command:
  assumes "0 < busy a" "mode a = Idle"
  shows "outb ata_bus 0x1F7 0x20 (ata_select_lba ata_bus lba count a) = a \<and> ata_poll ata_bus a = None"
proof
  show "outb ata_bus 0x1F7 0x20 (ata_select_lba ata_bus lba count a) = a"
    using assms by (simp add: ata_bus_def ata_select_lba_def ata_outb_def)
  obtain d' where d': "poll ata_bus 0x1F7 (\<lambda>status. status AND 0x80 = 0) a = Some (0x40, d')" "mode d' = Idle" "busy d' = 0"
    using reference.poll_ready [of a "busy a"] assms by (auto simp: ata_status_def)
  then show "ata_poll ata_bus a = None"
    using drq_loop_idle [of ata_bus "0x40" d'] by (cases "drq_loop ata_bus 0x40 d'") (auto simp: ata_poll_def)
qed

end
