(* ===== verification/Kernel.thy ===== *)
theory Kernel
  imports Syscall V86 Mouse Keyboard Vfs Memory Disk
begin

text \<open>
  The kernel as a whole: the C part of interrupt handling, \<open>isr_handler_c\<close> of \<open>kernel/idt.c\<close>, with the
  handlers the drivers register, and the start of the system, \<open>kmain\<close> of \<open>kernel/kmain.c\<close>.

  The state joins those of the drivers with the descriptor tables and the devices behind the ports.
\<close>

subsection \<open>Handlers\<close>

text \<open>The functions that are ever stored in the table of handlers.\<close>

datatype handler = Timer_handler | Keyboard_handler | Mouse_handler | Syscall_handler

record 'd kernel = machine +
  k_tables :: "handler tables"
  k_v86 :: v86
  k_kbd :: kbd
  k_mouse :: mouse
  k_tss :: tss
  k_tr :: u16
  k_heap :: heap
  k_fs :: fs
  k_dev :: 'd

definition run_handler :: "'d bus \<Rightarrow> handler \<Rightarrow> registers \<Rightarrow> 'd kernel \<Rightarrow> 'd kernel outcome" where
  "run_handler b h r k =
     (case h of
        Timer_handler \<Rightarrow>
          (case timer_irq_handler (m_timer k) (m_sched k) of (t, sw, s) \<Rightarrow>
           let k = k\<lparr>m_timer := t, m_sched := s\<rparr> in if sw = No_switch then Return r k else Switched sw r k)
      | Keyboard_handler \<Rightarrow>
          (case inb b 0x60 (k_dev k) of (scancode, d) \<Rightarrow> Return r (k\<lparr>k_dev := d, k_kbd := keyboard_irq_handler scancode (k_kbd k)\<rparr>))
      | Mouse_handler \<Rightarrow>
          (case mouse_irq b (k_dev k) (k_mouse k) of (m, d) \<Rightarrow> Return r (k\<lparr>k_dev := d, k_mouse := m\<rparr>))
      | Syscall_handler \<Rightarrow> syscall_handler r k)"

definition exception_text :: "registers \<Rightarrow> vga \<Rightarrow> vga" where
  "exception_text r v = the (vga_printf (''EXC %u err=%x'' @ [CHR 0x0A]) [Arg_word (reg_int_no r), Arg_word (reg_err_code r)] v)"

definition call_handler :: "'d bus \<Rightarrow> registers \<Rightarrow> 'd kernel \<Rightarrow> 'd kernel outcome" where
  "call_handler b r k =
     (case handlers (k_tables k) ! unat (reg_int_no r) of
        Some h \<Rightarrow> run_handler b h r k
      | None \<Rightarrow> Return r (if reg_int_no r < 32 then k\<lparr>m_vga := exception_text r (m_vga k)\<rparr> else k))"

definition send_eoi :: "'d bus \<Rightarrow> u32 \<Rightarrow> 'd \<Rightarrow> 'd" where
  "send_eoi b v d =
     (if v \<ge> 32 \<and> v \<le> 47 then outb b 0x20 0x20 (if v \<ge> 40 then outb b 0xA0 0x20 d else d) else d)"

text \<open>The cast of the register frame to an array of words, and back.\<close>

definition words_of :: "registers \<Rightarrow> u32 list" where
  "words_of r =
     [reg_edi r, reg_esi r, reg_ebp r, reg_esp r, reg_ebx r, reg_edx r, reg_ecx r, reg_eax r, reg_gs r, reg_fs r,
      reg_es r, reg_ds r, reg_int_no r, reg_err_code r, reg_eip r, reg_cs r, reg_eflags r]"

definition of_words :: "u32 list \<Rightarrow> registers" where
  "of_words w =
     \<lparr>reg_edi = w ! 0, reg_esi = w ! 1, reg_ebp = w ! 2, reg_esp = w ! 3, reg_ebx = w ! 4, reg_edx = w ! 5, reg_ecx = w ! 6,
      reg_eax = w ! 7, reg_gs = w ! 8, reg_fs = w ! 9, reg_es = w ! 10, reg_ds = w ! 11, reg_int_no = w ! 12,
      reg_err_code = w ! 13, reg_eip = w ! 14, reg_cs = w ! 15, reg_eflags = w ! 16\<rparr>"

text \<open>The end of an interrupt is signalled after the handler returned.\<close>

definition isr_rest :: "'d bus \<Rightarrow> registers \<Rightarrow> 'd kernel \<Rightarrow> 'd kernel outcome" where
  "isr_rest b r k =
     (case call_handler b r k of
        Return r k \<Rightarrow> Return r (k\<lparr>k_dev := send_eoi b (reg_int_no r) (k_dev k)\<rparr>)
      | oc \<Rightarrow> oc)"

definition isr_handler_c :: "'d bus \<Rightarrow> registers \<Rightarrow> 'd kernel \<Rightarrow> 'd kernel outcome" where
  "isr_handler_c b r k =
     (if reg_int_no r = 13 \<and> v86_is_active (k_v86 k) then
        case v86_handle_gpf (words_of r) (k_v86 k) of (handled, w, v) \<Rightarrow>
        if handled then Return (of_words w) (k\<lparr>k_v86 := v\<rparr>) else isr_rest b (of_words w) (k\<lparr>k_v86 := v\<rparr>)
      else isr_rest b r k)"

lemma of_words_of [simp]: "of_words (words_of r) = r"
  by (simp add: of_words_def words_of_def)

subsection \<open>Start of the system\<close>

text \<open>What the linker, the boot loader and the addresses of static data contribute.\<close>

record boot =
  stub_addr :: "nat \<Rightarrow> u32"
  gdt_addr :: u32
  idt_addr :: u32
  tss_addr :: u32
  kernel_stack_end :: u32
  kernel_end :: u32
  mode_info :: vbe_mode_info

definition start_screen :: "vbe_mode_info \<Rightarrow> vga \<Rightarrow> vga" where
  "start_screen info v =
     (let g = (vga_gfx v)\<lparr>gfx_vesa := vesa_init info (gfx_vesa (vga_gfx v))\<rparr>;
          g = (if vesa_enabled (gfx_vesa g) then gfxcon_init g else g) in
      vga_clear (vga_set_color VGA_COLOR_LIGHT_GREEN VGA_COLOR_BLACK (vga_init (v\<lparr>vga_gfx := g\<rparr>))))"

definition banner :: "vga \<Rightarrow> vga" where
  "banner v =
     (let s = gfx_vesa (vga_gfx v);
          v = vga_puts (''OsU 0.1'' @ [CHR 0x0A]) v;
          v = (if vesa_enabled s then
                 vga_puts [CHR 0x0A] (vga_print_dec (ucast (vesa_bpp s)) (vga_puts ''x'' (vga_print_dec (ucast (vesa_height s))
                   (vga_puts ''x'' (vga_print_dec (ucast (vesa_width s)) (vga_puts ''Graphics: '' v))))))
               else v) in
      vga_puts (''Booting kernel...'' @ [CHR 0x0A]) v)"

text \<open>
  \<open>kmain\<close> up to the call of \<open>shell_run\<close>: \<^const>\<open>None\<close> when the keyboard controller never answers. The
  registration of a handler follows the part of the \<open>init\<close> function that its theory models.
\<close>

definition kmain :: "boot \<Rightarrow> 'd bus \<Rightarrow> 'd kernel \<Rightarrow> 'd kernel option" where
  "kmain p b k =
     do {
       let k = k\<lparr>m_vga := banner (start_screen (mode_info p) (m_vga k))\<rparr>;
       let (t, d) = idt_init b (stub_addr p) (gdt_addr p) (idt_addr p) (k_tables k) (k_dev k);
       let t = idt_register_handler 33 Keyboard_handler t;
       (kb, d) \<leftarrow> keyboard_init b d (k_kbd k);
       let k = k\<lparr>k_tables := t, k_kbd := kb, k_heap := memory_init (kernel_end p) (k_heap k)\<rparr>;
       let d = disk_init d;
       let k = k\<lparr>k_fs := vfs_init (k_fs k)\<rparr>;
       (tm, d) \<leftarrow> timer_init b 100 d (m_timer k);
       let k = k\<lparr>m_timer := tm, k_dev := d, k_tables := idt_register_handler 32 Timer_handler (k_tables k)\<rparr>;
       let k = k\<lparr>m_sched := process_init (m_sched k)\<rparr>;
       let (s, t, tr) = tss_init (tss_addr p) (kernel_stack_end p) (k_tables k);
       let k = k\<lparr>k_tss := s, k_tr := tr, k_tables := syscall_init Syscall_handler t, k_v86 := v86_init (k_v86 k)\<rparr>;
       Some (k\<lparr>m_vga := vga_puts (''Ready.'' @ [CHR 0x0A, CHR 0x0A]) (m_vga k)\<rparr>)
     }"

subsection \<open>The invariant of the system\<close>

definition kernel_ok :: "'d kernel \<Rightarrow> bool" where
  "kernel_ok k \<longleftrightarrow> kbd_ok (k_kbd k) \<and> mouse_ok (k_mouse k) \<and> sched_inv (m_sched k) \<and> heap_ok (k_heap k) \<and> tables_ok (k_tables k)"

definition ends_in :: "('k \<Rightarrow> bool) \<Rightarrow> 'k outcome \<Rightarrow> bool" where
  "ends_in P oc = (case oc of Return r k \<Rightarrow> P k | Switched sw r k \<Rightarrow> P k | Halted k \<Rightarrow> P k | Waits \<Rightarrow> True)"

lemma ends_in_simps [simp]:
  "ends_in P (Return r k) = P k" "ends_in P (Switched sw r k) = P k" "ends_in P (Halted k) = P k" "ends_in P Waits"
  by (simp_all add: ends_in_def)

lemma kernel_ok_simps [simp]:
  "kernel_ok (k\<lparr>m_vga := v\<rparr>) = kernel_ok k" "kernel_ok (k\<lparr>m_timer := t\<rparr>) = kernel_ok k" "kernel_ok (k\<lparr>m_mem := mem\<rparr>) = kernel_ok k"
  "kernel_ok (k\<lparr>m_keys := ks\<rparr>) = kernel_ok k" "kernel_ok (k\<lparr>m_wakes := ws\<rparr>) = kernel_ok k" "kernel_ok (k\<lparr>k_dev := d\<rparr>) = kernel_ok k"
  "kernel_ok (k\<lparr>k_v86 := m\<rparr>) = kernel_ok k" "kernel_ok (k\<lparr>k_fs := f\<rparr>) = kernel_ok k"
  by (simp_all add: kernel_ok_def)

lemma kernel_ok_parts:
  "kernel_ok k \<Longrightarrow> sched_inv s \<Longrightarrow> kernel_ok (k\<lparr>m_sched := s\<rparr>)"
  "kernel_ok k \<Longrightarrow> kbd_ok y \<Longrightarrow> kernel_ok (k\<lparr>k_kbd := y\<rparr>)"
  "kernel_ok k \<Longrightarrow> mouse_ok m \<Longrightarrow> kernel_ok (k\<lparr>k_mouse := m\<rparr>)"
  by (simp_all add: kernel_ok_def)

lemma kernel_okD:
  "kernel_ok k \<Longrightarrow> kbd_ok (k_kbd k)" "kernel_ok k \<Longrightarrow> mouse_ok (k_mouse k)" "kernel_ok k \<Longrightarrow> sched_inv (m_sched k)"
  by (simp_all add: kernel_ok_def)

lemma calls_keep:
  "kernel_ok (sys_exit v k) = kernel_ok k" "kernel_ok (snd (sys_write fd buf n k)) = kernel_ok k"
  "kernel_ok k \<Longrightarrow> sys_read fd buf n k = Some (v, k') \<Longrightarrow> kernel_ok k'"
  "kernel_ok k \<Longrightarrow> sys_sleep ms k = Some k' \<Longrightarrow> kernel_ok k'"
  by (auto simp: sys_exit_def sys_write_def sys_read_def sys_sleep_def split: option.splits prod.splits if_splits)

lemma yield_keeps:
  assumes "kernel_ok k"
  shows "kernel_ok (snd (sys_yield k))"
proof -
  obtain sw s where t: "scheduler_tick (m_sched k) = (sw, s)" by force
  then show ?thesis using tick_inv [OF kernel_okD(3) [OF assms] t] assms by (simp add: sys_yield_def kernel_ok_parts)
qed

lemma syscall_keeps:
  assumes "kernel_ok k"
  shows "ends_in kernel_ok (syscall_handler r k)"
proof -
  obtain v k1 where w: "sys_write (reg_ebx r) (reg_ecx r) (reg_edx r) k = (v, k1)" by force
  obtain sw k2 where y: "sys_yield k = (sw, k2)" by force
  have "kernel_ok k1" "kernel_ok k2"
    using calls_keep(2) [of "reg_ebx r" "reg_ecx r" "reg_edx r" k] yield_keeps [OF assms] assms w y by simp_all
  then show ?thesis unfolding syscall_handler_def Let_def w y
    using assms calls_keep(3,4) [OF assms] by (simp add: calls_keep(1) split: option.split prod.split)
qed

lemma handler_keeps:
  assumes "kernel_ok k"
  shows "ends_in kernel_ok (run_handler b h r k)"
proof (cases h)
  case Timer_handler
  obtain sw s where t: "scheduler_tick (m_sched k) = (sw, s)" by force
  have "sched_inv s" by (rule tick_inv [OF kernel_okD(3) [OF assms] t])
  then have "kernel_ok (k\<lparr>m_timer := x, m_sched := s\<rparr>)" for x using assms by (simp add: kernel_ok_parts)
  then show ?thesis by (simp add: run_handler_def Timer_handler timer_irq_handler_def t Let_def)
next
  case Keyboard_handler
  then show ?thesis using assms
    by (auto simp: run_handler_def kernel_ok_parts kernel_okD handler_ok split: prod.splits)
next
  case Mouse_handler
  obtain m d where m: "mouse_irq b (k_dev k) (k_mouse k) = (m, d)" by force
  then have "mouse_ok m" using irq_ok [OF kernel_okD(2) [OF assms], of b "k_dev k"] by simp
  then show ?thesis using assms by (simp add: run_handler_def Mouse_handler m kernel_ok_parts)
qed (simp add: run_handler_def syscall_keeps [OF assms])

lemma isr_rest_keeps: "kernel_ok k \<Longrightarrow> ends_in kernel_ok (isr_rest b r k)"
  using handler_keeps [of k b _ r]
  by (auto simp: isr_rest_def call_handler_def split: option.splits outcome.splits) (metis ends_in_simps)+

lemma isr_keeps: "kernel_ok k \<Longrightarrow> ends_in kernel_ok (isr_handler_c b r k)"
  using isr_rest_keeps [of "k\<lparr>k_v86 := v\<rparr>" b r' for v r'] isr_rest_keeps [of k b r]
  by (auto simp: isr_handler_c_def split: prod.splits)

text \<open>Interrupts one after the other; after a halt nothing follows.\<close>

fun serve :: "'d bus \<Rightarrow> registers list \<Rightarrow> 'd kernel \<Rightarrow> 'd kernel option" where
  "serve b [] k = Some k"
| "serve b (r # rs) k =
     (case isr_handler_c b r k of Return _ k \<Rightarrow> serve b rs k | Switched _ _ k \<Rightarrow> serve b rs k | Halted k \<Rightarrow> Some k | Waits \<Rightarrow> None)"

text \<open>
  Property C12. No sequence of interrupts, whatever their vectors, registers and devices, breaks the
  invariants of the keyboard ring, the mouse, the process table, the heap and the tables, also when some
  of them switch to another process or halt.
\<close>

theorem interrupts_keep_invariant:
  assumes "kernel_ok k" "serve b rs k = Some k'"
  shows "kernel_ok k'"
  using assms
proof (induction rs arbitrary: k)
  case (Cons r rs)
  then show ?case using isr_keeps [OF Cons.prems(1), of b r] by (auto split: outcome.splits)
qed simp

subsection \<open>Acknowledging the controllers\<close>

text \<open>No handler writes to the controllers: whatever runs, they are as before.\<close>

lemma mouse_irq_pics: "snd (snd (mouse_irq (with_pics rest) d m)) = snd d"
proof -
  obtain st d1 where 1: "inb (with_pics rest) 0x64 d = (st, d1)" by (rule prod.exhaust)
  obtain data d2 where 2: "inb (with_pics rest) 0x60 d1 = (data, d2)" by (rule prod.exhaust)
  have "snd d1 = snd d" "snd d2 = snd d1" using pc.view_in [of rest "0x64" d] pc.view_in [of rest "0x60" d1] by (simp_all add: 1 2)
  then show ?thesis by (simp add: mouse_irq_def 1 2)
qed

lemma syscall_dev: "syscall_handler r k = Return r' k' \<Longrightarrow> k_dev k' = k_dev k \<and> reg_int_no r' = reg_int_no r"
  by (auto simp: syscall_handler_def sys_exit_def sys_write_def sys_read_def sys_sleep_def sys_yield_def Let_def
      split: prod.splits option.splits if_splits)

lemma call_pics:
  assumes "call_handler (with_pics rest) r k = Return r' k'"
  shows "snd (k_dev k') = snd (k_dev k) \<and> reg_int_no r' = reg_int_no r"
proof (cases "handlers (k_tables k) ! unat (reg_int_no r)")
  case None
  then show ?thesis using assms by (auto simp: call_handler_def split: if_splits)
next
  case (Some h)
  then have h: "run_handler (with_pics rest) h r k = Return r' k'" using assms by (simp add: call_handler_def)
  show ?thesis
  proof (cases h)
    case Timer_handler
    then show ?thesis using h by (auto simp: run_handler_def Let_def split: prod.splits if_splits)
  next
    case Keyboard_handler
    then show ?thesis using h pc.view_in [of rest "0x60" "k_dev k"]
      by (auto simp: run_handler_def split: prod.splits)
  next
    case Mouse_handler
    then show ?thesis using h mouse_irq_pics [of rest "k_dev k" "k_mouse k"]
      by (auto simp: run_handler_def split: prod.splits)
  next
    case Syscall_handler
    then show ?thesis using h syscall_dev [of r k r' k'] by (simp add: run_handler_def)
  qed
qed

lemma eoi_clears:
  assumes "n < 16" "in_service (master p) = 0" "in_service (slave p) = 0"
  shows "snd (send_eoi (with_pics rest) (word_of_nat (32 + n)) (e, acknowledge n p)) = p"
proof -
  have "n \<in> {0, 1, 2, 3, 4, 5, 6, 7, 8, 9, 10, 11, 12, 13, 14, 15}" using assms(1) by simp presburger
  then show ?thesis using assms(2,3)
    by (elim insertE) (simp_all add: send_eoi_def acknowledge_def pc.view_out pics_out_def pic_command_def)
qed

text \<open>
  Property C7. A hardware interrupt is always completed: when no line is in service, line \<open>n\<close> is
  acknowledged and its handler runs, then at the return both controllers are exactly as before, so that
  the line can interrupt again and no other line stays blocked.
\<close>

theorem irq_completes:
  assumes "n < 16" "irq_vector n p = 32 + n" "in_service (master p) = 0" "in_service (slave p) = 0"
    and "isr_handler_c (with_pics rest) (r\<lparr>reg_int_no := word_of_nat (irq_vector n p)\<rparr>) (k\<lparr>k_dev := (e, acknowledge n p)\<rparr>) = Return r' k'"
  shows "snd (k_dev k') = p"
proof -
  let ?r = "r\<lparr>reg_int_no := word_of_nat (32 + n)\<rparr>" and ?k = "k\<lparr>k_dev := (e, acknowledge n p)\<rparr>"
  have v: "unat (word_of_nat (32 + n) :: u32) = 32 + n" using assms(1) by (subst unat_of_nat) simp
  have "word_of_nat (32 + n) \<noteq> (13 :: u32)"
  proof
    assume a: "word_of_nat (32 + n) = (13 :: u32)"
    show False using v unfolding a by simp
  qed
  then have i: "isr_rest (with_pics rest) ?r ?k = Return r' k'" using assms(2,5) by (simp add: isr_handler_c_def)
  then obtain k1 where c: "call_handler (with_pics rest) ?r ?k = Return r' k1"
    and k': "k' = k1\<lparr>k_dev := send_eoi (with_pics rest) (reg_int_no r') (k_dev k1)\<rparr>"
    by (auto simp: isr_rest_def split: outcome.splits)
  have "snd (k_dev k1) = acknowledge n p" "reg_int_no r' = word_of_nat (32 + n)" using call_pics [OF c] by simp_all
  then show ?thesis using eoi_clears [OF assms(1,3,4), of rest "fst (k_dev k1)"] k' by (metis kernel.select_convs(9) kernel.surjective kernel.update_convs(9) prod.collapse)
qed

subsection \<open>The system after its start\<close>

text \<open>The keyboard and the timer are programmed through ports that are not the controllers'.\<close>

context pic_device begin

lemma in_view: "inb b port d = (v, d') \<Longrightarrow> view d' = view d"
  by (metis snd_conv view_in)

lemma poll_view: "poll b port Q d = Some r \<Longrightarrow> view (snd r) = view d"
  by (rule poll.raw_induct [of "\<lambda>b' port Q d r. b' = b \<longrightarrow> view (snd r) = view d", rule_format])
    (auto dest: in_view split: prod.splits if_splits)

lemma ps2_view:
  "Keyboard.ps2_wait_read b d = Some d' \<Longrightarrow> view d' = view d"
  "Keyboard.ps2_wait_write b d = Some d' \<Longrightarrow> view d' = view d"
  using poll_view by (auto simp: Keyboard.ps2_wait_read_def Keyboard.ps2_wait_write_def)

lemma ps2_data_view:
  "ps2_write_cmd b v d = Some d' \<Longrightarrow> view d' = view d"
  "ps2_write_data b v d = Some d' \<Longrightarrow> view d' = view d"
  "ps2_read_data b d = Some (x, d') \<Longrightarrow> view d' = view d"
proof -
  show "ps2_read_data b d = Some (x, d') \<Longrightarrow> view d' = view d"
    using ps2_view(1) in_view by (auto simp: ps2_read_data_def split: bind_splits)
qed (auto simp: ps2_write_cmd_def ps2_write_data_def view_out pics_out_def dest: ps2_view split: bind_splits)

lemma keyboard_init_view: "keyboard_init b d k = Some (k', d') \<Longrightarrow> view d' = view d"
  unfolding keyboard_init_def by (auto split: bind_splits prod.splits dest!: ps2_data_view)

lemma timer_init_view: "timer_init b f d t = Some (t', d') \<Longrightarrow> view d' = view d"
  by (auto simp: timer_init_def Let_def view_out pics_out_def split: if_splits)

end

text \<open>The table of handlers \<open>kmain\<close> leaves; the mouse handler joins when the desktop starts.\<close>

definition boot_handlers :: "handler option list" where
  "boot_handlers = (replicate 256 None)[33 := Some Keyboard_handler, 32 := Some Timer_handler, 0x80 := Some Syscall_handler]"

lemma kmain_parts:
  assumes "kmain p b k = Some k'"
  obtains t d kb d2 where
    "idt_init b (stub_addr p) (gdt_addr p) (idt_addr p) (k_tables k) (k_dev k) = (t, d)"
    and "keyboard_init b d (k_kbd k) = Some (kb, d2)" and "k_kbd k' = kb"
    and "k_tables k' = syscall_init Syscall_handler (gdt_set_tss (tss_addr p) 103
      (idt_register_handler 32 Timer_handler (idt_register_handler 33 Keyboard_handler t)))"
    and "timer_init b 100 d2 (m_timer k) = Some (m_timer k', k_dev k')"
    and "k_heap k' = memory_init (kernel_end p) (k_heap k)" and "m_sched k' = process_init (m_sched k)"
    and "k_mouse k' = k_mouse k" and "k_fs k' = vfs_init (k_fs k)"
proof -
  obtain t d where i: "idt_init b (stub_addr p) (gdt_addr p) (idt_addr p) (k_tables k) (k_dev k) = (t, d)" by (rule prod.exhaust)
  obtain kb d2 where kb: "keyboard_init b d (k_kbd k) = Some (kb, d2)"
    using assms by (auto simp: kmain_def Let_def i split: bind_splits)
  obtain tm d3 where tm: "timer_init b 100 d2 (m_timer k) = Some (tm, d3)"
    using assms by (auto simp: kmain_def Let_def i kb disk_init_def split: bind_splits prod.splits)
  show thesis using assms
    by (intro that [OF i kb]) (auto simp: kmain_def Let_def i kb tm disk_init_def tss_init_def)
qed

lemma ring3_again:
  assumes "tables_ok t" "idt t ! 128 = idt_gate a KERNEL_CS IDT_FLAG_INT_GATE_USER"
  shows "idt (idt_set_gate_ring3 128 t) = idt t"
proof -
  have "(idt t ! 128)\<lparr>i_flags := IDT_FLAG_INT_GATE_USER\<rparr> = idt t ! 128" by (simp add: assms(2) idt_gate_def)
  then show ?thesis by (simp add: idt_set_gate_ring3_def)
qed

lemma kmain_tables:
  fixes t :: "handler tables"
  assumes "tables_ok t"
    and t'_def: "t' = syscall_init Syscall_handler (gdt_set_tss tss 103 (idt_register_handler 32 Timer_handler
      (idt_register_handler 33 Keyboard_handler (fst (idt_init b stubs ga ia t d)))))"
  shows "tables_ok t'" "handlers t' = boot_handlers" "idt t' = idt (fst (idt_init b stubs ga ia t d))"
proof -
  let ?t = "gdt_set_tss tss 103 (idt_register_handler 32 Timer_handler (idt_register_handler 33 Keyboard_handler (fst (idt_init b stubs ga ia t d))))"
  note i = idt_init_tables [OF assms(1), where b = b and stubs = stubs and ga = ga and ia = ia and d = d]
  have e: "idt ?t = idt (fst (idt_init b stubs ga ia t d))" "length (gdt ?t) = 6" "length (handlers ?t) = 256"
    "handlers ?t = (replicate 256 None)[33 := Some Keyboard_handler, 32 := Some Timer_handler]"
    using i(2,4) by (simp_all add: gdt_set_tss_def gdt_set_gate_def idt_register_handler_def tables_ok_def)
  have "tables_ok (idt_register_handler 128 Syscall_handler ?t)"
    using e i(4) by (simp add: tables_ok_def idt_register_handler_def)
  moreover have "idt (idt_register_handler 128 Syscall_handler ?t) ! 128 = idt_gate (stubs 128) KERNEL_CS IDT_FLAG_INT_GATE_USER"
    using i(1) [of 128] e(1) by (simp add: idt_register_handler_def)
  ultimately have "idt (idt_set_gate_ring3 128 (idt_register_handler 128 Syscall_handler ?t)) = idt (idt_register_handler 128 Syscall_handler ?t)"
    by (rule ring3_again)
  then show t': "idt t' = idt (fst (idt_init b stubs ga ia t d))"
    unfolding t'_def syscall_init_def e(1) [symmetric] by (simp add: idt_register_handler_def)
  show h: "handlers t' = boot_handlers"
    by (simp add: t'_def syscall_init_def idt_set_gate_ring3_def idt_register_handler_def gdt_set_tss_def gdt_set_gate_def i(2) boot_handlers_def)
  have "gdt t' = gdt ?t" by (simp add: t'_def syscall_init_def idt_set_gate_ring3_def idt_register_handler_def)
  then show "tables_ok t'" using e(2) i(4) by (simp add: tables_ok_def t' h boot_handlers_def)
qed

lemma kmain_ok:
  assumes "kmain p (with_pics rest) k = Some k'"
    and "tables_ok (k_tables k)" "mouse_ok (k_mouse k)" "0 < unat (kernel_end p)" "unat (kernel_end p) \<le> 0x00400000"
  shows "kernel_ok k'"
proof -
  obtain t d kb d2 where 1: "idt_init (with_pics rest) (stub_addr p) (gdt_addr p) (idt_addr p) (k_tables k) (k_dev k) = (t, d)"
    and 2: "keyboard_init (with_pics rest) d (k_kbd k) = Some (kb, d2)" "k_kbd k' = kb"
    and 3: "k_tables k' = syscall_init Syscall_handler (gdt_set_tss (tss_addr p) 103
      (idt_register_handler 32 Timer_handler (idt_register_handler 33 Keyboard_handler t)))"
    and 5: "k_heap k' = memory_init (kernel_end p) (k_heap k)" "m_sched k' = process_init (m_sched k)" "k_mouse k' = k_mouse k"
    by (rule kmain_parts [OF assms(1)])
  note kt = kmain_tables [OF assms(2), of "k_tables k'" "tss_addr p" "with_pics rest" "stub_addr p" "gdt_addr p" "idt_addr p" "k_dev k",
      unfolded 1 fst_conv, OF 3]
  have "kbd_ok kb" using 2(1) by (auto simp: keyboard_init_def kbd_ok_def split: bind_splits prod.splits)
  then show ?thesis
    using kt(1) assms(3) init_inv memory_init_ok [OF assms(4,5)] by (simp add: kernel_ok_def 2(2) 5)
qed

text \<open>
  Property C11. When \<open>kmain\<close> reaches the shell, every invariant holds; the timer, the keyboard and the
  system call have their handlers and nothing else has; exactly the vectors with a stub can be entered
  and only the system call from ring 3; the lines of the timer, the keyboard, the cascade and the mouse
  get through, raise the vectors from 32 on, and none is in service.
\<close>

theorem kmain_boots:
  assumes "kmain p (with_pics rest) k = Some k'"
    and "tables_ok (k_tables k)" "mouse_ok (k_mouse k)" "0 < unat (kernel_end p)" "unat (kernel_end p) \<le> 0x00400000"
  shows "kernel_ok k' \<and> handlers (k_tables k') = boot_handlers \<and>
     (\<forall>v < 256. let e = idt (k_tables k') ! v in gate_present e = has_stub v \<and> (gate_present e \<and> gate_dpl e = 3 \<longleftrightarrow> v = 0x80)) \<and>
     (\<forall>n < 16. (unmasked n (snd (k_dev k')) \<longleftrightarrow> n \<in> {0, 1, 2, 12}) \<and> irq_vector n (snd (k_dev k')) = 32 + n) \<and>
     in_service (master (snd (k_dev k'))) = 0 \<and> in_service (slave (snd (k_dev k'))) = 0"
proof -
  obtain t d kb d2 where 1: "idt_init (with_pics rest) (stub_addr p) (gdt_addr p) (idt_addr p) (k_tables k) (k_dev k) = (t, d)"
    and 2: "keyboard_init (with_pics rest) d (k_kbd k) = Some (kb, d2)" "k_kbd k' = kb"
    and 3: "k_tables k' = syscall_init Syscall_handler (gdt_set_tss (tss_addr p) 103
      (idt_register_handler 32 Timer_handler (idt_register_handler 33 Keyboard_handler t)))"
    and 4: "timer_init (with_pics rest) 100 d2 (m_timer k) = Some (m_timer k', k_dev k')"
    by (rule kmain_parts [OF assms(1)])
  note kt = kmain_tables [OF assms(2), of "k_tables k'" "tss_addr p" "with_pics rest" "stub_addr p" "gdt_addr p" "idt_addr p" "k_dev k",
      unfolded 1 fst_conv, OF 3]
  have dev: "snd (k_dev k') = snd d" using pc.timer_init_view [OF 4] pc.keyboard_init_view [OF 2(1)] by simp
  have "kernel_ok k'" by (rule kmain_ok [OF assms])
  moreover have "gate_present (idt (k_tables k') ! v) = has_stub v \<and> (gate_present (idt (k_tables k') ! v) \<and> gate_dpl (idt (k_tables k') ! v) = 3 \<longleftrightarrow> v = 0x80)"
    if "v < 256" for v
    using only_syscall_from_ring3 [OF assms(2) that, of "with_pics rest" "stub_addr p" "gdt_addr p" "idt_addr p" "k_dev k"]
    by (auto simp: Let_def kt(3) 1)
  moreover have "(unmasked n (snd (k_dev k')) \<longleftrightarrow> n \<in> {0, 1, 2, 12}) \<and> irq_vector n (snd (k_dev k')) = 32 + n" if "n < 16" for n
    using irq_wiring [OF assms(2) that 1] dev by simp
  moreover have "in_service (master (snd (k_dev k'))) = 0 \<and> in_service (slave (snd (k_dev k'))) = 0"
    using pc.init_view [of rest "stub_addr p" "gdt_addr p" "idt_addr p" "k_tables k" "k_dev k"] by (simp add: dev 1)
  ultimately show ?thesis using kt(2) unfolding Let_def by blast
qed

subsection \<open>Corners\<close>

lemma exception_text_eq:
  "exception_text r v = vga_puts (''EXC '' @ dec_text (reg_int_no r) @ '' err='' @ hex_text (reg_err_code r) @ [CHR 0x0A]) v"
  by (simp add: exception_text_def vga_printf_fold vga_puts_fold)

text \<open>
  The frame of a fault is read as if it started at \<open>eip\<close>: word 2, taken for the flags, is the saved
  \<open>ebp\<close>. A fault of virtual 8086 mode is not emulated unless \<open>ebp\<close> happens to have bit 17 set, whatever
  the flags say; the message is printed and the program faults again.
\<close>

lemma gpf_reads_ebp:
  assumes "reg_int_no r = 13" "v86_is_active (k_v86 k)" "reg_ebp r AND EFLAGS_VM = 0" "handlers (k_tables k) ! 13 = None"
  shows "isr_handler_c b r k = Return r (k\<lparr>m_vga := exception_text r (m_vga k)\<rparr>)"
proof -
  have "v86_handle_gpf (words_of r) (k_v86 k) = (False, words_of r, k_v86 k)"
    using assms(2,3) by (simp add: v86_handle_gpf_def v86_is_active_def words_of_def)
  then show ?thesis using assms by (simp add: isr_handler_c_def isr_rest_def call_handler_def send_eoi_def)
qed

text \<open>
  The switch of the timer's handler happens before the end of the interrupt is signalled: until the
  interrupted process runs again, line 0 stays in service and blocks every line.
\<close>

lemma switch_before_eoi: "reg_int_no r \<noteq> 13 \<Longrightarrow> isr_handler_c b r k = Switched sw r' k' \<Longrightarrow> k_dev k' = k_dev k"
  by (auto simp: isr_handler_c_def isr_rest_def call_handler_def run_handler_def syscall_handler_def sys_yield_def Let_def
      split: option.splits outcome.splits handler.splits prod.splits if_splits)

subsection \<open>Concrete machines\<close>

text \<open>A machine without graphics whose keyboard controller always has an answer and always takes a byte.\<close>

definition quiet_bus :: "unit bus" where
  "quiet_bus = \<lparr>inb = (\<lambda>port d. (if port = 0x64 then 0x01 else 0xFA, d)), outb = (\<lambda>_ _ d. d), inw = (\<lambda>_ d. (0, d)), outw = (\<lambda>_ _ d. d)\<rparr>"

definition sample_boot :: boot where
  "sample_boot = \<lparr>stub_addr = (\<lambda>v. 0x10000 + word_of_nat v), gdt_addr = 0x5000, idt_addr = 0x6000, tss_addr = 0x7000,
     kernel_stack_end = 0x9000, kernel_end = 0x200000,
     mode_info = \<lparr>vbe_pitch = 0, vbe_width = 0, vbe_height = 0, vbe_bpp = 0, vbe_framebuffer = 0\<rparr>\<rparr>"

definition sample_kernel :: "'d \<Rightarrow> 'd kernel" where
  "sample_kernel d =
     \<lparr>m_vga = text_screen, m_timer = \<lparr>tick_count = 0, tick_frequency = 100\<rparr>, m_sched = process_init two_processes, m_mem = (\<lambda>_. 0),
      m_keys = ''hi'' @ [CHR 0x0A], m_wakes = [1], k_tables = blank_tables\<lparr>handlers := boot_handlers\<rparr>, k_v86 = sample_v86\<lparr>v86_active := False\<rparr>,
      k_kbd = empty_kbd, k_mouse = mouse_boot, k_tss = zero_tss, k_tr = 0,
      k_heap = memory_init 0x200000 \<lparr>heap_start = 0, heap_end = 0, heap_curr = 0\<rparr>, k_fs = blank_machine, k_dev = d\<rparr>"

lemma sample_kernel_ok: "kernel_ok (sample_kernel d)"
  using memory_init_ok [of "0x200000"] init_inv
  by (simp add: kernel_ok_def sample_kernel_def empty_kbd_def kbd_ok_def mouse_boot_def mouse_ok_def tables_ok_def blank_tables_def boot_handlers_def)

theorem interrupts_keep_invariant_witness:
  "\<exists>k. serve quiet_bus (map (\<lambda>n. (of_words (replicate 17 0))\<lparr>reg_int_no := n\<rparr>) [33, 44, 7]) (sample_kernel ()) = Some k \<and> kernel_ok k"
proof -
  let ?rs = "map (\<lambda>n. (of_words (replicate 17 0))\<lparr>reg_int_no := n\<rparr>) [33, 44, 7]"
  have "boot_handlers ! 33 = Some Keyboard_handler" "boot_handlers ! 44 = None" "boot_handlers ! 7 = None" by (simp_all add: boot_handlers_def)
  then have "\<exists>k. serve quiet_bus ?rs (sample_kernel ()) = Some k"
    by (simp add: isr_handler_c_def isr_rest_def call_handler_def run_handler_def sample_kernel_def quiet_bus_def)
  then obtain k where k: "serve quiet_bus ?rs (sample_kernel ()) = Some k" ..
  show ?thesis using k interrupts_keep_invariant [OF sample_kernel_ok k] by (intro exI conjI)
qed

definition boot_pics :: pics where
  "boot_pics = \<lparr>master = \<lparr>stage = 0, needs4 = True, vec_base = 0x20, imr = 0xF8, in_service = 0\<rparr>,
     slave = \<lparr>stage = 0, needs4 = True, vec_base = 0x28, imr = 0xEF, in_service = 0\<rparr>\<rparr>"

theorem irq_completes_witness:
  "\<exists>r k. isr_handler_c (with_pics quiet_bus) ((of_words (replicate 17 0))\<lparr>reg_int_no := word_of_nat (irq_vector 12 boot_pics)\<rparr>)
      ((sample_kernel ((), boot_pics))\<lparr>k_dev := ((), acknowledge 12 boot_pics)\<rparr>) = Return r k \<and> snd (k_dev k) = boot_pics"
proof -
  let ?r = "(of_words (replicate 17 0))\<lparr>reg_int_no := word_of_nat (irq_vector 12 boot_pics)\<rparr>"
  have v: "irq_vector 12 boot_pics = 44" by (simp add: irq_vector_def boot_pics_def)
  have "boot_handlers ! 44 = None" by (simp add: boot_handlers_def)
  then obtain r k where k: "isr_handler_c (with_pics quiet_bus) ?r ((sample_kernel ((), boot_pics))\<lparr>k_dev := ((), acknowledge 12 boot_pics)\<rparr>) = Return r k"
    by (simp add: isr_handler_c_def isr_rest_def call_handler_def v sample_kernel_def)
  show ?thesis using irq_completes [OF _ _ _ _ k] k v by (auto simp: boot_pics_def)
qed

lemma quiet_polls:
  "Keyboard.ps2_wait_read (with_pics quiet_bus) d = Some d" "Keyboard.ps2_wait_write (with_pics quiet_bus) d = Some d"
proof -
  have "inb (with_pics quiet_bus) 0x64 d = (1, d)" by (cases d) (simp add: with_pics_def quiet_bus_def)
  then show "Keyboard.ps2_wait_read (with_pics quiet_bus) d = Some d" "Keyboard.ps2_wait_write (with_pics quiet_bus) d = Some d"
    by (simp_all add: Keyboard.ps2_wait_read_def Keyboard.ps2_wait_write_def poll_hit)
qed

theorem kmain_boots_witness:
  "\<exists>k'. kmain sample_boot (with_pics quiet_bus) (sample_kernel ((), fresh_pics)) = Some k' \<and> handlers (k_tables k') = boot_handlers"
proof -
  have "\<exists>kb d'. keyboard_init (with_pics quiet_bus) d k = Some (kb, d')" for d k
    by (simp add: keyboard_init_def ps2_write_cmd_def ps2_write_data_def ps2_read_data_def quiet_polls split: prod.splits)
  moreover obtain t d where "idt_init (with_pics quiet_bus) (stub_addr sample_boot) (gdt_addr sample_boot) (idt_addr sample_boot)
      (k_tables (sample_kernel ((), fresh_pics))) (k_dev (sample_kernel ((), fresh_pics))) = (t, d)" by (rule prod.exhaust)
  moreover obtain kb d2 where "keyboard_init (with_pics quiet_bus) d (k_kbd (sample_kernel ((), fresh_pics))) = Some (kb, d2)"
    using calculation(1) by blast
  ultimately obtain k' where k': "kmain sample_boot (with_pics quiet_bus) (sample_kernel ((), fresh_pics)) = Some k'"
    by (simp add: kmain_def timer_init_def Let_def tss_init_def)
  show ?thesis using kmain_boots [OF k'] sample_kernel_ok [of "((), fresh_pics)"] k' by (simp add: kernel_ok_def sample_boot_def)
qed

end
