(* ===== verification/Usermode.thy ===== *)
theory Usermode
  imports Kernel "HOL-Library.Signed_Division"
begin

text \<open>
  The user mode demonstration of \<open>kernel/shell.c\<close>: the frame \<open>cmd_usermode\<close> returns to ring 3 with, and
  \<open>user_program\<close>, which does everything by system calls through the interrupt table.
\<close>

subsection \<open>Calls through interrupt \<open>0x80\<close>\<close>

text \<open>\<open>f\<close> sets the registers the program loads; the stub of the vector supplies its number.\<close>

definition int80 :: "'d bus \<Rightarrow> (registers \<Rightarrow> registers) \<Rightarrow> registers \<Rightarrow> 'd kernel \<Rightarrow> 'd kernel outcome" where
  "int80 b f r k = isr_handler_c b ((f r)\<lparr>reg_int_no := 0x80, reg_err_code := 0\<rparr>) k"

fun continue :: "'k outcome \<Rightarrow> (registers \<Rightarrow> 'k \<Rightarrow> 'k outcome) \<Rightarrow> 'k outcome" where
  "continue (Return r k) f = f r k"
| "continue oc f = oc"

definition write_regs :: "u32 \<Rightarrow> u32 \<Rightarrow> registers \<Rightarrow> registers" where
  "write_regs buf n r = r\<lparr>reg_eax := 1, reg_ebx := 1, reg_ecx := buf, reg_edx := n\<rparr>"

text \<open>
  The frame for \<open>iret\<close>: the data segments, the user stack and code segment with ring 3, and the flags with
  interrupts enabled.
\<close>

definition user_frame :: "u32 \<Rightarrow> u32 \<Rightarrow> registers \<Rightarrow> registers \<times> u32 \<times> u32" where
  "user_frame user_esp entry r =
     (r\<lparr>reg_ds := 0x23, reg_es := 0x23, reg_fs := 0x23, reg_gs := 0x23, reg_cs := 0x1B, reg_eip := entry,
        reg_eflags := reg_eflags r OR 0x200\<rparr>, 0x23, user_esp)"

text \<open>The addresses of the four objects on the stack of \<open>user_program\<close>.\<close>

record user_stack =
  at_msg1 :: u32
  at_msg2 :: u32
  at_digit :: u32
  at_nl :: u32

definition hello :: string where
  "hello = ''Hello from user mode!'' @ [CHR 0x0A]"

definition digit_of :: "i32 \<Rightarrow> char" where
  "digit_of pid = char_of_byte (word_of_int (0x30 + sint pid smod 10))"

definition user_program :: "'d bus \<Rightarrow> user_stack \<Rightarrow> registers \<Rightarrow> 'd kernel \<Rightarrow> 'd kernel outcome" where
  "user_program b u r k =
     (let k = k\<lparr>m_mem := store (unat (at_msg2 u)) (''PID: '' @ [NUL]) (store (unat (at_msg1 u)) (hello @ [NUL]) (m_mem k))\<rparr> in
      continue (int80 b (write_regs (at_msg1 u) 22) r k) (\<lambda>r k.
      continue (int80 b (write_regs (at_msg2 u) 5) r k) (\<lambda>r k.
      continue (int80 b (\<lambda>r. r\<lparr>reg_eax := 3\<rparr>) r k) (\<lambda>r k.
      let k = k\<lparr>m_mem := store (unat (at_digit u)) [digit_of (reg_eax r)] (m_mem k)\<rparr> in
      continue (int80 b (write_regs (at_digit u) 1) r k) (\<lambda>r k.
      let k = k\<lparr>m_mem := store (unat (at_nl u)) [CHR 0x0A] (m_mem k)\<rparr> in
      continue (int80 b (write_regs (at_nl u) 1) r k) (\<lambda>r k.
      int80 b (\<lambda>r. r\<lparr>reg_eax := 0, reg_ebx := 0\<rparr>) r k))))))"

subsection \<open>What it shows\<close>

lemma int80_syscall:
  assumes "handlers (k_tables k) ! 0x80 = Some Syscall_handler"
  shows "int80 b f r k = syscall_handler ((f r)\<lparr>reg_int_no := 0x80, reg_err_code := 0\<rparr>) k"
proof (cases "syscall_handler ((f r)\<lparr>reg_int_no := 0x80, reg_err_code := 0\<rparr>) k")
  case (Return r' k')
  then show ?thesis using assms syscall_dev [OF Return]
    by (simp add: int80_def isr_handler_c_def isr_rest_def call_handler_def run_handler_def send_eoi_def)
qed (use assms in \<open>simp_all add: int80_def isr_handler_c_def isr_rest_def call_handler_def run_handler_def\<close>)

lemma int80_write:
  assumes "handlers (k_tables k) ! 0x80 = Some Syscall_handler" "unat buf + unat n \<le> 2 ^ 32" "text_at (m_mem k) (unat buf) (unat n) = t"
  shows "\<exists>r'. int80 b (write_regs buf n) r k = Return r' (k\<lparr>m_vga := vga_puts t (m_vga k)\<rparr>)"
  using write_chars_text [OF assms(2), of "m_mem k"] assms(3)
  by (simp add: int80_syscall [OF assms(1)] syscall_handler_def write_regs_def sys_write_def Let_def)

text \<open>The objects lie in memory without wrapping and do not overlap.\<close>

definition stack_fits :: "user_stack \<Rightarrow> bool" where
  "stack_fits u \<longleftrightarrow> unat (at_msg1 u) + 23 \<le> unat (at_msg2 u) \<and> unat (at_msg2 u) + 6 \<le> unat (at_digit u) \<and>
     unat (at_digit u) < unat (at_nl u) \<and> unat (at_nl u) < 2 ^ 32"

lemma text_at_prefix: "n \<le> length t \<Longrightarrow> text_at (store a t m) a n = take n t"
  by (rule nth_equalityI) (simp_all add: text_at_def store_def)

text \<open>
  Property C23. Wherever its stack lies, the demonstration prints its greeting and the process number
  through the interrupt table, reports its exit and halts the machine: the shell is not reached again.
\<close>

theorem user_program_output:
  assumes "handlers (k_tables k) ! 0x80 = Some Syscall_handler" "stack_fits u"
  shows "\<exists>k'. user_program b u r k = Halted k' \<and>
     m_vga k' = vga_puts (hello @ ''PID: 1'' @ [CHR 0x0A] @ ''[Process exited with status 0]'' @ [CHR 0x0A]) (m_vga k)"
proof -
  let ?m = "store (unat (at_msg2 u)) (''PID: '' @ [NUL]) (store (unat (at_msg1 u)) (hello @ [NUL]) (m_mem k))"
  let ?k1 = "k\<lparr>m_mem := ?m\<rparr>"
  have f: "unat (at_msg1 u) + 23 \<le> unat (at_msg2 u)" "unat (at_msg2 u) + 6 \<le> unat (at_digit u)" "unat (at_nl u) < 2 ^ 32"
    "unat (at_digit u) < unat (at_nl u)" using assms(2) by (simp_all add: stack_fits_def)
  have l: "length hello = 22" by (simp add: hello_def)
  have t1: "text_at ?m (unat (at_msg1 u)) 22 = hello"
    using f(1) by (simp add: text_at_other text_at_prefix l)
  have t2: "text_at ?m (unat (at_msg2 u)) 5 = ''PID: ''" by (simp add: text_at_prefix)
  obtain r1 where 1: "int80 b (write_regs (at_msg1 u) 22) r ?k1 = Return r1 (?k1\<lparr>m_vga := vga_puts hello (m_vga k)\<rparr>)" (is "_ = Return _ ?k2")
    using int80_write [of ?k1 "at_msg1 u" 22 hello b r] assms(1) f t1 by auto
  obtain r2 where 2: "int80 b (write_regs (at_msg2 u) 5) r1 ?k2 = Return r2 (?k2\<lparr>m_vga := vga_puts ''PID: '' (m_vga ?k2)\<rparr>)" (is "_ = Return _ ?k3")
    using int80_write [of ?k2 "at_msg2 u" 5 "''PID: ''" b r1] assms(1) f t2 by auto
  obtain r3 where 3: "int80 b (\<lambda>r. r\<lparr>reg_eax := 3\<rparr>) r2 ?k3 = Return r3 ?k3" "reg_eax r3 = 1"
    using assms(1) by (simp add: int80_syscall syscall_handler_def sys_getpid_def Let_def)
  let ?k4 = "?k3\<lparr>m_mem := store (unat (at_digit u)) [digit_of (reg_eax r3)] (m_mem ?k3)\<rparr>"
  have dg: "digit_of 1 = CHR ''1''" by code_simp
  obtain r4 where 4: "int80 b (write_regs (at_digit u) 1) r3 ?k4 = Return r4 (?k4\<lparr>m_vga := vga_puts ''1'' (m_vga ?k4)\<rparr>)" (is "_ = Return _ ?k5")
    using int80_write [of ?k4 "at_digit u" 1 "''1''" b r3] assms(1) f text_at_store [of "unat (at_digit u)" "''1''"]
    by (auto simp: 3(2) dg)
  let ?k6 = "?k5\<lparr>m_mem := store (unat (at_nl u)) [CHR 0x0A] (m_mem ?k5)\<rparr>"
  obtain r5 where 5: "int80 b (write_regs (at_nl u) 1) r4 ?k6 = Return r5 (?k6\<lparr>m_vga := vga_puts [CHR 0x0A] (m_vga ?k6)\<rparr>)" (is "_ = Return _ ?k7")
    using int80_write [of ?k6 "at_nl u" 1 "[CHR 0x0A]" b r4] assms(1) f text_at_store [of "unat (at_nl u)" "[CHR 0x0A]"] by auto
  have "int80 b (\<lambda>r. r\<lparr>reg_eax := 0, reg_ebx := 0\<rparr>) r5 ?k7 = Halted (sys_exit 0 ?k7)"
    using assms(1) by (simp add: int80_syscall syscall_handler_def Let_def)
  then have "user_program b u r k = Halted (sys_exit 0 ?k7)"
    unfolding user_program_def Let_def 1 continue.simps 2 3(1) 4 5 .
  moreover have "m_vga (sys_exit 0 ?k7) = vga_puts (hello @ ''PID: 1'' @ [CHR 0x0A] @ ''[Process exited with status 0]'' @ [CHR 0x0A]) (m_vga k)"
    by (simp add: sys_exit_def vga_puts_fold vga_print_dec_fold dec_text_def)
  ultimately show ?thesis by blast
qed

theorem user_program_output_witness:
  "\<exists>k. user_program quiet_bus \<lparr>at_msg1 = 0x8000, at_msg2 = 0x8020, at_digit = 0x8030, at_nl = 0x8031\<rparr> zero_regs (sample_kernel ()) = Halted k"
proof -
  have "handlers (k_tables (sample_kernel ())) ! 0x80 = Some Syscall_handler" by (simp add: sample_kernel_def boot_handlers_def)
  moreover have "stack_fits \<lparr>at_msg1 = 0x8000, at_msg2 = 0x8020, at_digit = 0x8030, at_nl = 0x8031\<rparr>" by (simp add: stack_fits_def)
  ultimately show ?thesis using user_program_output by blast
qed

end
