(* ===== verification/Gui.thy ===== *)
theory Gui
  imports Vesa Vga Keyboard Mouse Timer
begin

text \<open>
  The desktop, \<open>kernel/gui.c\<close>: a window that can be dragged, with a log and an input line, a task bar
  and a pointer, redrawn in every round of the main loop.

  The interrupts between two rounds are an explicit list. Drawing is shown to return always, the
  window to stay on the screen, and the log to hold the last eight lines.
\<close>

abbreviation (input) GUI_BAR_H :: int where "GUI_BAR_H \<equiv> 24"
abbreviation (input) WIN_TITLE_H :: int where "WIN_TITLE_H \<equiv> 18"
abbreviation (input) WIN_PAD :: int where "WIN_PAD \<equiv> 6"

record gui_window =
  win_x :: int
  win_y :: int
  win_w :: int
  win_h :: int
  dragging :: bool
  drag_off_x :: int
  drag_off_y :: int

text \<open>The arrays are lists of their size: 128 characters, eight lines of 64, 16 characters.\<close>

record gui =
  main_win :: gui_window
  input_line :: string
  input_len :: nat
  log_lines :: "string list"
  log_count :: nat
  last_key :: string

text \<open>What a function that takes a C string sees of an array.\<close>

definition shown :: "string \<Rightarrow> string" where
  "shown = takeWhile (\<lambda>c. c \<noteq> NUL)"

definition rgb :: "u32 \<Rightarrow> u32 \<Rightarrow> u32 \<Rightarrow> u32" where
  "rgb r g b = push_bit 16 r OR push_bit 8 g OR b"

subsection \<open>Drawing\<close>

definition draw_background :: "vesa \<Rightarrow> vesa option" where
  "draw_background v =
     (if \<not> vesa_enabled v then Some v
      else fold (\<lambda>y r. do {
             v \<leftarrow> r;
             let shade = (word_of_int (40 + (y * 80) div uint (vesa_height v)) :: byte);
             vesa_draw_line 0 y (uint (vesa_width v) - 1) y (rgb (ucast shade div 2) (ucast shade div 2) (ucast shade)) v
           }) [0..uint (vesa_height v) - 1] (Some v))"

text \<open>The seconds since the start: the digits are collected backwards in \<open>tmp\<close>.\<close>

fun seconds_digits :: "nat \<Rightarrow> u32 \<Rightarrow> string" where
  "seconds_digits 0 secs = []"
| "seconds_digits (Suc n) secs = (if secs > 0 then digit secs # seconds_digits n (secs div 10) else [])"

definition seconds_text :: "u32 \<Rightarrow> string" where
  "seconds_text secs = (if secs = 0 then ''0'' else rev (seconds_digits 16 secs)) @ ''s''"

definition draw_taskbar :: "timer \<Rightarrow> vesa \<Rightarrow> vesa option" where
  "draw_taskbar t v =
     do {
       let y = uint (vesa_height v) - GUI_BAR_H;
       let w = uint (vesa_width v);
       let v = vesa_fill_rect 0 y w GUI_BAR_H (rgb 20 20 30) v;
       v \<leftarrow> vesa_draw_line 0 y (w - 1) y (rgb 80 80 120) v;
       let v = vesa_put_string 8 (y + 4) ''OsU'' 0xFFFFFF (rgb 20 20 30) v;
       let buf = seconds_text (timer_get_ticks t div 100);
       let tx = w - int (length buf) * 8 - 8;
       let tx = (if tx < 0 then 0 else tx);
       Some (vesa_put_string tx (y + 4) buf 0xFFFFFF (rgb 20 20 30) v)
     }"

definition prompt_text :: "gui \<Rightarrow> string" where
  "prompt_text g = shown (''> '' @ take (min (input_len g) 157) (input_line g))"

definition draw_window :: "gui \<Rightarrow> vesa \<Rightarrow> vesa option" where
  "draw_window g v =
     do {
       let x = win_x (main_win g);
       let y = win_y (main_win g);
       let w = win_w (main_win g);
       let h = win_h (main_win g);
       let v = vesa_fill_rect x y w h (rgb 30 30 40) v;
       v \<leftarrow> vesa_draw_rect x y w h (rgb 120 120 160) v;
       let v = vesa_fill_rect x y w WIN_TITLE_H (rgb 50 50 80) v;
       v \<leftarrow> vesa_draw_line x (y + WIN_TITLE_H - 1) (x + w - 1) (y + WIN_TITLE_H - 1) (rgb 90 90 120) v;
       let v = vesa_put_string (x + WIN_PAD) (y + 2) ''OsU Terminal'' 0xFFFFFF (rgb 50 50 80) v;
       let content_x = x + WIN_PAD;
       let content_y = y + WIN_TITLE_H + WIN_PAD;
       let v = fold (\<lambda>i. vesa_put_string content_x (content_y + int i * 16) (shown (log_lines g ! i)) (rgb 210 230 255) (rgb 30 30 40))
                 [0..<min (log_count g) 6] v;
       Some (vesa_put_string content_x (content_y + 6 * 16) (prompt_text g) 0x00FF00 (rgb 30 30 40) v)
     }"

definition draw_cursor :: "int \<Rightarrow> int \<Rightarrow> vesa \<Rightarrow> vesa option" where
  "draw_cursor x y v =
     do {
       v \<leftarrow> vesa_draw_rect x y 8 8 0 (vesa_fill_rect x y 8 8 0xFFFFFF v);
       Some (vesa_put_pixel (x + 3) (y + 3) 0 v)
     }"

subsection \<open>The log\<close>

text \<open>Copying a text into a line: at most 63 characters and the terminator.\<close>

function copy_text :: "string \<Rightarrow> nat \<Rightarrow> string \<Rightarrow> string" where
  "copy_text s i line = (if cget s i \<noteq> NUL \<and> i + 1 < 64 then copy_text s (i + 1) (line[i := cget s i]) else line[i := NUL])"
  by pat_completeness auto
termination by (relation "measure (\<lambda>(s, i, line). 64 - i)") auto

text \<open>Moving a line up, up to and including its terminator.\<close>

function shift_text :: "nat \<Rightarrow> string \<Rightarrow> string \<Rightarrow> string" where
  "shift_text j src dst =
     (if j + 1 < 64 then if src ! j = NUL then dst[j := src ! j] else shift_text (j + 1) src (dst[j := src ! j]) else dst)"
  by pat_completeness auto
termination by (relation "measure (\<lambda>(j, src, dst). 64 - j)") auto

declare copy_text.simps [simp del] shift_text.simps [simp del]

definition gui_log_line :: "string option \<Rightarrow> gui \<Rightarrow> gui" where
  "gui_log_line s g =
     (case s of
        None \<Rightarrow> g
      | Some s \<Rightarrow>
          if log_count g < 8
          then g\<lparr>log_lines := (log_lines g)[log_count g := copy_text s 0 (log_lines g ! log_count g)], log_count := log_count g + 1\<rparr>
          else let lines = fold (\<lambda>i ls. ls[i - 1 := shift_text 0 (ls ! i) (ls ! (i - 1))]) [1..<8] (log_lines g) in
            g\<lparr>log_lines := lines[7 := copy_text s 0 (lines ! 7)]\<rparr>)"

subsection \<open>Keys\<close>

definition show_key :: "char \<Rightarrow> string \<Rightarrow> string" where
  "show_key c k =
     (if 32 \<le> ord c \<and> ord c \<le> 126 then k[0 := c, 1 := NUL]
      else k[0 := CHR ''^'', 1 := char_of (64 + ord c mod 32), 2 := NUL])"

text \<open>A key that is not escape.\<close>

definition press_key :: "char \<Rightarrow> gui \<Rightarrow> gui" where
  "press_key c g =
     (if c = CHR 0x08 then if input_len g > 0 then g\<lparr>input_len := input_len g - 1\<rparr> else g
      else if c = CHR 0x0D then g
      else if c = CHR 0x0A then
        let g = g\<lparr>input_line := (input_line g)[input_len g := NUL]\<rparr>;
            g = (if input_len g > 0 then gui_log_line (Some (shown (input_line g))) g else g) in
        g\<lparr>input_len := 0\<rparr>
      else
        let g = (if 32 \<le> ord c \<and> ord c \<le> 126 \<and> input_len g + 1 < 128
                 then g\<lparr>input_line := (input_line g)[input_len g := c], input_len := input_len g + 1\<rparr> else g) in
        g\<lparr>last_key := show_key c (last_key g)\<rparr>)"

text \<open>Taking keys until the ring is empty or escape comes; the result tells whether the desktop keeps running.\<close>

fun key_loop :: "nat \<Rightarrow> kbd \<Rightarrow> gui \<Rightarrow> bool \<times> kbd \<times> gui" where
  "key_loop 0 k g = (True, k, g)"
| "key_loop (Suc n) k g =
     (case keyboard_try_getchar False k of
        (None, k) \<Rightarrow> (True, k, g)
      | (Some c, k) \<Rightarrow> if c = CHR 0x1B then (False, k, g) else key_loop n k (press_key c g))"

subsection \<open>The main loop\<close>

definition grab :: "mouse_state \<Rightarrow> byte \<Rightarrow> gui_window \<Rightarrow> gui_window" where
  "grab ms last_buttons win =
     (if ms_buttons ms AND 1 \<noteq> 0 \<and> last_buttons AND 1 = 0 then
        let mx = ms_x ms; my = ms_y ms in
        if mx \<ge> win_x win \<and> mx < win_x win + win_w win \<and> my \<ge> win_y win \<and> my < win_y win + WIN_TITLE_H
        then win\<lparr>dragging := True, drag_off_x := mx - win_x win, drag_off_y := my - win_y win\<rparr> else win
      else if ms_buttons ms AND 1 = 0 \<and> last_buttons AND 1 \<noteq> 0 then win\<lparr>dragging := False\<rparr>
      else win)"

definition drag :: "int \<Rightarrow> int \<Rightarrow> mouse_state \<Rightarrow> gui_window \<Rightarrow> gui_window" where
  "drag width height ms win =
     (if \<not> dragging win then win
      else let win = win\<lparr>win_x := ms_x ms - drag_off_x win, win_y := ms_y ms - drag_off_y win\<rparr>;
               win = (if win_x win < 0 then win\<lparr>win_x := 0\<rparr> else win);
               win = (if win_y win < 0 then win\<lparr>win_y := 0\<rparr> else win);
               win = (if win_x win + win_w win > width then win\<lparr>win_x := width - win_w win\<rparr> else win) in
        if win_y win + win_h win > height - GUI_BAR_H then win\<lparr>win_y := height - GUI_BAR_H - win_h win\<rparr> else win)"

text \<open>The state of the desktop: the drivers, the static data of \<open>gui.c\<close> and the locals of \<open>gui_run\<close>.\<close>

record desktop =
  d_vesa :: vesa
  d_kbd :: kbd
  d_mouse :: mouse
  d_timer :: timer
  d_gui :: gui
  d_ms :: mouse_state
  d_last :: byte
  d_running :: bool

text \<open>An interrupt of the keyboard or the mouse, with the bytes its handler reads.\<close>

datatype gui_event = Key byte | Packet_byte byte byte

fun take_event :: "gui_event \<Rightarrow> desktop \<Rightarrow> desktop" where
  "take_event (Key sc) d = d\<lparr>d_kbd := keyboard_irq_handler sc (d_kbd d)\<rparr>"
| "take_event (Packet_byte status data) d = d\<lparr>d_mouse := mouse_irq_handler status data (d_mouse d)\<rparr>"

definition draw_all :: "desktop \<Rightarrow> vesa option" where
  "draw_all d =
     do {
       let g = d_gui d;
       v \<leftarrow> draw_background (d_vesa d);
       v \<leftarrow> draw_taskbar (d_timer d) v;
       v \<leftarrow> draw_window g v;
       let v = (if chd (last_key g) \<noteq> NUL then
           vesa_put_string (win_x (main_win g) + WIN_PAD) (win_y (main_win g) + win_h (main_win g) - 20) (shown (last_key g)) 0xFFFF00 (rgb 30 30 40) v
         else v);
       v \<leftarrow> draw_cursor (ms_x (d_ms d)) (ms_y (d_ms d)) v;
       Some (vesa_present v)
     }"

text \<open>
  What a round does before it draws. The ring holds at most 255 keys, so that 256 rounds of the key loop
  empty it; the mouse is polled once.
\<close>

definition take_input :: "desktop \<Rightarrow> desktop" where
  "take_input d =
     (case mouse_poll False (d_mouse d) of (tmp, m) \<Rightarrow>
      let ms = (case tmp of Some t \<Rightarrow> t | None \<Rightarrow> d_ms d);
          g = d_gui d;
          win = drag (uint (vesa_width (d_vesa d))) (uint (vesa_height (d_vesa d))) ms (grab ms (d_last d) (main_win g));
          (run, k, g) = key_loop 256 (d_kbd d) (g\<lparr>main_win := win\<rparr>) in
      d\<lparr>d_mouse := m, d_ms := ms, d_kbd := k, d_gui := g, d_running := run\<rparr>)"

text \<open>
  A round with the interrupts that came since the last one and the ticks during the sleep of 16 ms at its
  end; \<^const>\<open>None\<close> while it waits for a tick.
\<close>

definition gui_round :: "gui_event list \<times> nat list \<Rightarrow> desktop \<Rightarrow> desktop option" where
  "gui_round = (\<lambda>(events, wakes) d.
     do {
       let d = take_input (fold take_event events d);
       v \<leftarrow> draw_all d;
       (t, _) \<leftarrow> timer_sleep 16 wakes (d_timer d);
       Some (d\<lparr>d_vesa := v, d_last := ms_buttons (d_ms d), d_timer := t\<rparr>)
     })"

fun gui_loop :: "(gui_event list \<times> nat list) list \<Rightarrow> desktop \<Rightarrow> desktop option" where
  "gui_loop inputs d =
     (if \<not> d_running d then Some d
      else case inputs of [] \<Rightarrow> None | i # is \<Rightarrow> do { d \<leftarrow> gui_round i d; gui_loop is d })"

definition gui_start :: "desktop \<Rightarrow> desktop" where
  "gui_start d =
     (let w = vesa_width (d_vesa d); h = vesa_height (d_vesa d);
          g = (d_gui d)\<lparr>main_win := (main_win (d_gui d))\<lparr>win_x := 80, win_y := 60, win_w := 520, win_h := 240, dragging := False\<rparr>,
                input_len := 0, log_count := 0, last_key := (last_key (d_gui d))[0 := NUL]\<rparr> in
      d\<lparr>d_gui := gui_log_line (Some ''ESC exits to shell.'') (gui_log_line (Some ''GUI ready. Type text and press Enter.'') g),
        d_running := True, d_last := 0,
        d_ms := \<lparr>ms_x = uint w div 2, ms_y = uint h div 2, ms_buttons = 0, ms_dx = 0, ms_dy = 0\<rparr>\<rparr>)"

text \<open>The devices of the mouse are those behind bus \<open>b\<close>; \<^const>\<open>None\<close> also when the mouse does not answer.\<close>

definition gui_run :: "'d bus \<Rightarrow> (gui_event list \<times> nat list) list \<Rightarrow> 'd \<Rightarrow> desktop \<Rightarrow> (desktop \<times> 'd) option" where
  "gui_run b inputs dev d =
     (if \<not> vesa_enabled (d_vesa d) then Some (d, dev)
      else do {
        let d = d\<lparr>d_vesa := vesa_set_backbuffer True (d_vesa d), d_kbd := keyboard_flush (d_kbd d)\<rparr>;
        let m = mouse_set_bounds (uint (vesa_width (d_vesa d))) (uint (vesa_height (d_vesa d))) (d_mouse d);
        (m, dev) \<leftarrow> mouse_init b dev m;
        d \<leftarrow> gui_loop inputs (gui_start (d\<lparr>d_mouse := m\<rparr>));
        Some (d\<lparr>d_vesa := vesa_set_backbuffer False (d_vesa d)\<rparr>, dev)
      })"

subsection \<open>The log holds the last lines\<close>

definition line_ok :: "string \<Rightarrow> bool" where
  "line_ok l \<longleftrightarrow> length l = 64 \<and> l ! 63 = NUL"

lemma drop_take_step: "i < n \<Longrightarrow> n \<le> length s \<Longrightarrow> drop i (take n s) = s ! i # drop (Suc i) (take n s)"
  by (simp add: Cons_nth_drop_Suc [symmetric] drop_take take_Cons')

lemma take_update_step: "i < length l \<Longrightarrow> take (Suc i) (l[i := c]) = take i l @ [c]"
  by (simp add: take_Suc_conv_app_nth)

lemma copy_text_eq:
  assumes "cstring s"
  shows "i \<le> min 63 (length s) \<Longrightarrow> length line = 64 \<Longrightarrow>
    copy_text s i line = take i line @ drop i (take (min 63 (length s)) s) @ NUL # drop (Suc (min 63 (length s))) line"
proof (induction "63 - i" arbitrary: i line rule: less_induct)
  case less
  let ?n = "min 63 (length s)"
  show ?case
  proof (cases "i < ?n")
    case True
    then have c: "cget s i = s ! i" "s ! i \<noteq> NUL" using cstring_nth [OF assms] by simp_all
    have "copy_text s i line = copy_text s (i + 1) (line[i := s ! i])" using True c by (subst copy_text.simps) simp
    also have "\<dots> = take (i + 1) (line[i := s ! i]) @ drop (i + 1) (take ?n s) @ NUL # drop (Suc ?n) (line[i := s ! i])"
      by (rule less.hyps) (use True less.prems in auto)
    also have "drop (Suc ?n) (line[i := s ! i]) = drop (Suc ?n) line" using True by (intro drop_update_cancel) linarith
    also have "take (i + 1) (line[i := s ! i]) @ drop (i + 1) (take ?n s) @ NUL # drop (Suc ?n) line =
        take i line @ drop i (take ?n s) @ NUL # drop (Suc ?n) line"
      using True less.prems take_update_step [of i line "s ! i"] drop_take_step [of i ?n s] by simp
    finally show ?thesis .
  next
    case False
    then have i: "i = ?n" using less.prems(1) by linarith
    then have "cget s i = NUL \<or> \<not> i + 1 < 64" by (cases "length s \<le> 63") (simp_all add: min_def)
    then have "copy_text s i line = line[i := NUL]" by (subst copy_text.simps) auto
    also have "\<dots> = take i line @ NUL # drop (Suc i) line" using i less.prems by (intro upd_conv_take_nth_drop) simp
    finally show ?thesis using i by simp
  qed
qed

lemma shown_prefix: "cstring s \<Longrightarrow> shown (s @ NUL # t) = s"
  by (auto simp: shown_def cstring_def takeWhile_append)

lemma copy_text_line:
  assumes "cstring s" "line_ok line"
  shows "line_ok (copy_text s 0 line)" "shown (copy_text s 0 line) = take 63 s"
proof -
  have e: "copy_text s 0 line = take 63 s @ NUL # drop (Suc (min 63 (length s))) line"
    using copy_text_eq [OF assms(1), of 0 line] assms(2) by (simp add: line_ok_def min_def)
  have "cstring (take 63 s)" using assms(1) by (auto simp: cstring_def dest: in_set_takeD)
  then show "shown (copy_text s 0 line) = take 63 s" unfolding e by (rule shown_prefix)
  show "line_ok (copy_text s 0 line)" using assms(2) unfolding e
    by (cases "length s < 63") (auto simp: line_ok_def nth_append min_def nth_Cons')
qed

lemma shown_line:
  assumes "line_ok l"
  shows "length (shown l) \<le> 63" "l ! length (shown l) = NUL" "take (length (shown l)) l = shown l" "cstring (shown l)"
proof -
  have "NUL \<in> set l" using assms nth_mem [of 63 l] by (simp add: line_ok_def)
  then have "shown l \<noteq> l" by (auto simp: shown_def takeWhile_eq_all_conv)
  moreover have t: "take (length (shown l)) l = shown l" by (simp add: shown_def takeWhile_eq_take [symmetric])
  ultimately have n: "length (shown l) < length l" by (metis not_le take_all)
  then show "l ! length (shown l) = NUL" using nth_length_takeWhile [of "\<lambda>c. c \<noteq> NUL" l] by (simp add: shown_def)
  show "length (shown l) \<le> 63" using n assms by (simp add: line_ok_def)
  show "take (length (shown l)) l = shown l" by (rule t)
  show "cstring (shown l)" by (auto simp: shown_def cstring_def dest: set_takeWhileD)
qed

lemma shift_text_eq:
  assumes src: "line_ok src"
  defines "n \<equiv> length (shown src)"
  shows "j \<le> n \<Longrightarrow> length dst = 64 \<Longrightarrow>
    shift_text j src dst = take j dst @ drop j (take (min 63 (Suc n)) src) @ drop (min 63 (Suc n)) dst"
proof (induction "63 - j" arbitrary: j dst rule: less_induct)
  case less
  note sl = shown_line [OF src, folded n_def]
  have len: "length src = 64" using src by (simp add: line_ok_def)
  let ?m = "min 63 (Suc n)"
  consider "j = 63" | "j < 63" "j = n" | "j < 63" "j < n" using less.prems(1) sl(1) by linarith
  then show ?case
  proof cases
    case 1
    then have "?m = 63" using less.prems(1) sl(1) by simp
    then show ?thesis using 1 by (subst shift_text.simps) simp
  next
    case 2
    then have m: "?m = Suc j" by simp
    have "shift_text j src dst = dst[j := src ! j]" using 2 sl(2) by (subst shift_text.simps) simp
    also have "\<dots> = take j dst @ src ! j # drop (Suc j) dst" using 2 less.prems by (intro upd_conv_take_nth_drop) simp
    also have "src ! j # drop (Suc j) dst = drop j (take ?m src) @ drop ?m dst"
      using drop_take_step [of j "Suc j" src] 2 len unfolding m by simp
    finally show ?thesis .
  next
    case 3
    have "src ! j = shown src ! j" using sl(3) 3(2) by (metis nth_take)
    then have ne: "src ! j \<noteq> NUL" using cstring_nth [OF sl(4), of j] 3(2) by (simp add: n_def)
    have jm: "j < ?m" using 3 by simp
    have "shift_text j src dst = shift_text (j + 1) src (dst[j := src ! j])" using 3 ne by (subst shift_text.simps) simp
    also have "\<dots> = take (j + 1) (dst[j := src ! j]) @ drop (j + 1) (take ?m src) @ drop ?m (dst[j := src ! j])"
      by (rule less.hyps) (use 3 less.prems in auto)
    also have "drop ?m (dst[j := src ! j]) = drop ?m dst" using jm by (rule drop_update_cancel)
    also have "take (j + 1) (dst[j := src ! j]) = take j dst @ [src ! j]" using 3 less.prems take_update_step [of j dst "src ! j"] by simp
    also have "(take j dst @ [src ! j]) @ drop (j + 1) (take ?m src) @ drop ?m dst = take j dst @ drop j (take ?m src) @ drop ?m dst"
      using drop_take_step [OF jm, of src] len by simp
    finally show ?thesis .
  qed
qed

lemma shift_text_line:
  assumes "line_ok src" "line_ok dst"
  shows "line_ok (shift_text 0 src dst)" "shown (shift_text 0 src dst) = shown src"
proof -
  let ?n = "length (shown src)"
  note sl = shown_line [OF assms(1)]
  have len: "length src = 64" "length dst = 64" "dst ! 63 = NUL" using assms by (simp_all add: line_ok_def)
  have e: "shift_text 0 src dst = take (min 63 (Suc ?n)) src @ drop (min 63 (Suc ?n)) dst"
    using shift_text_eq [OF assms(1), of 0 dst] len by simp
  show "line_ok (shift_text 0 src dst)" unfolding e using len by (simp add: line_ok_def nth_append min_def)
  have "take (Suc ?n) src = shown src @ [NUL]" if "?n < 63"
    using take_Suc_conv_app_nth [of ?n src] that len sl(2,3) by simp
  moreover have "drop 63 dst = [NUL]" using Cons_nth_drop_Suc [of 63 dst] len by simp
  ultimately have "\<exists>t. shift_text 0 src dst = shown src @ NUL # t"
    using sl(1,3) by (cases "?n < 63") (auto simp: e)
  then show "shown (shift_text 0 src dst) = shown src" using shown_prefix [OF sl(4)] by auto
qed

definition log_ok :: "gui \<Rightarrow> bool" where
  "log_ok g \<longleftrightarrow> length (log_lines g) = 8 \<and> list_all line_ok (log_lines g) \<and> log_count g \<le> 8"

definition log_text :: "gui \<Rightarrow> string list" where
  "log_text g = map shown (take (log_count g) (log_lines g))"

definition last_of :: "nat \<Rightarrow> 'a list \<Rightarrow> 'a list" where
  "last_of n xs = drop (length xs - n) xs"

lemma log_line_last:
  assumes "log_ok g" "cstring s"
  shows "log_ok (gui_log_line (Some s) g) \<and> log_text (gui_log_line (Some s) g) = last_of 8 (log_text g @ [take 63 s])"
proof (cases "log_count g < 8")
  case True
  let ?n = "log_count g"
  have l: "length (log_lines g) = 8" "line_ok (log_lines g ! ?n)" using assms(1) True by (simp_all add: log_ok_def list_all_length)
  note c = copy_text_line [OF assms(2) l(2)]
  have "take (Suc ?n) ((log_lines g)[?n := copy_text s 0 (log_lines g ! ?n)]) = take ?n (log_lines g) @ [copy_text s 0 (log_lines g ! ?n)]"
    using True l by (intro take_update_step) simp
  then show ?thesis using True assms(1) l c
    by (auto simp: gui_log_line_def log_ok_def log_text_def last_of_def list_all_length nth_list_update)
next
  case False
  then have n: "log_count g = 8" using assms(1) by (simp add: log_ok_def)
  obtain l0 l1 l2 l3 l4 l5 l6 l7 where l: "log_lines g = [l0, l1, l2, l3, l4, l5, l6, l7]"
  proof -
    have "length (log_lines g) = Suc (Suc (Suc (Suc (Suc (Suc (Suc (Suc 0)))))))" using assms(1) by (simp add: log_ok_def)
    then show ?thesis by (auto simp: length_Suc_conv intro: that)
  qed
  have ok: "line_ok l0" "line_ok l1" "line_ok l2" "line_ok l3" "line_ok l4" "line_ok l5" "line_ok l6" "line_ok l7"
    using assms(1) by (simp_all add: log_ok_def l)
  have u: "[1..<8] = [1, 2, 3, 4, 5, 6, 7 :: nat]" by (simp add: upt_rec)
  have "gui_log_line (Some s) g = g\<lparr>log_lines := [shift_text 0 l1 l0, shift_text 0 l2 l1, shift_text 0 l3 l2, shift_text 0 l4 l3,
      shift_text 0 l5 l4, shift_text 0 l6 l5, shift_text 0 l7 l6, copy_text s 0 l7]\<rparr>"
    using False unfolding gui_log_line_def u l by simp
  then show ?thesis using ok shift_text_line copy_text_line [OF assms(2)]
    by (simp add: log_ok_def log_text_def last_of_def n l)
qed

lemma last_of_snoc: "last_of n (last_of n xs @ ys) = last_of n (xs @ ys)"
  by (cases "length xs \<le> n") (auto simp: last_of_def add.commute)

text \<open>
  The log: after any number of lines it shows the last eight, each cut to its first 63
  characters, in order; the arrays are never overrun and every line stays terminated.
\<close>

lemma gui_log_keeps_last:
  assumes "log_ok g" "\<forall>s \<in> set ls. cstring s"
  shows "log_ok (fold (\<lambda>s. gui_log_line (Some s)) ls g) \<and>
    log_text (fold (\<lambda>s. gui_log_line (Some s)) ls g) = last_of 8 (log_text g @ map (take 63) ls)"
  using assms
proof (induction ls arbitrary: g)
  case Nil
  then show ?case by (simp add: last_of_def log_text_def log_ok_def)
next
  case (Cons s ls)
  then show ?case using log_line_last [of g s] last_of_snoc [of 8 "log_text g @ [take 63 s]" "map (take 63) ls"] by simp
qed

definition blank_gui :: gui where
  "blank_gui = \<lparr>main_win = \<lparr>win_x = 0, win_y = 0, win_w = 0, win_h = 0, dragging = False, drag_off_x = 0, drag_off_y = 0\<rparr>,
     input_line = replicate 128 NUL, input_len = 0, log_lines = replicate 8 (replicate 64 NUL), log_count = 0, last_key = replicate 16 NUL\<rparr>"

lemma blank_log: "log_ok blank_gui" "log_text blank_gui = []"
  by (simp_all add: log_ok_def log_text_def blank_gui_def line_ok_def list_all_iff)

lemma gui_log_keeps_last_witness:
  "log_text (fold (\<lambda>s. gui_log_line (Some s)) (map (\<lambda>c. [c, c]) ''abcdefghij'') blank_gui) = map (\<lambda>c. [c, c]) ''cdefghij''"
  using gui_log_keeps_last [OF blank_log(1), of "map (\<lambda>c. [c, c]) ''abcdefghij''"] by (simp add: blank_log(2) last_of_def)

text \<open>The window draws only the first six lines: once the log is full the newest two are never seen.\<close>

lemma newest_lines_hidden:
  "draw_window (g\<lparr>log_lines := (log_lines g)[6 := a, 7 := b]\<rparr>) v = draw_window g v"
proof -
  have "fold (\<lambda>i. vesa_put_string x (y + int i * 16) (shown ((log_lines g)[6 := a, 7 := b] ! i)) f h) [0..<min (log_count g) 6] v =
    fold (\<lambda>i. vesa_put_string x (y + int i * 16) (shown (log_lines g ! i)) f h) [0..<min (log_count g) 6] v" for x y f h v
    by (rule fold_cong) auto
  then show ?thesis by (simp add: draw_window_def prompt_text_def)
qed

subsection \<open>Drawing returns and keeps the mode\<close>

definition same_mode :: "vesa \<Rightarrow> vesa \<Rightarrow> bool" where
  "same_mode v v' \<longleftrightarrow> vesa_width v' = vesa_width v \<and> vesa_height v' = vesa_height v \<and> vesa_enabled v' = vesa_enabled v"

lemma same_mode_refl [simp]: "same_mode v v"
  by (simp add: same_mode_def)

lemma same_mode_trans: "same_mode a b \<Longrightarrow> same_mode b c \<Longrightarrow> same_mode a c"
  by (simp add: same_mode_def)

lemma same_mode_fold: "(\<And>x v. same_mode v (f x v)) \<Longrightarrow> same_mode v (fold f xs v)"
  by (induction xs arbitrary: v) (auto intro: same_mode_trans)

lemma same_mode_pixel: "same_mode v (vesa_put_pixel x y c v)"
  by (simp add: same_mode_def)

lemma same_mode_rect: "same_mode v (vesa_fill_rect x y w h c v)"
  by (auto simp: vesa_fill_rect_def intro!: same_mode_fold same_mode_pixel)

lemma same_mode_char: "same_mode v (vesa_put_char x y c fg bg v)"
  by (auto simp: vesa_put_char_def Let_def intro!: same_mode_fold same_mode_pixel)

lemma same_mode_string: "same_mode v (vesa_put_string x y t fg bg v)"
proof -
  have "same_mode v (put_string_loop x cx y t fg bg v)" for cx
  proof (induction t arbitrary: cx y v)
    case (Cons c t)
    have "same_mode v (put_string_loop x (cx + 8) y t fg bg (vesa_put_char cx y c fg bg v))"
      by (rule same_mode_trans [OF same_mode_char Cons.IH])
    then show ?case using Cons.IH by simp
  qed simp
  then show ?thesis by (simp add: vesa_put_string_def)
qed

text \<open>What a drawing step that may not return has to satisfy.\<close>

definition draws :: "(vesa \<Rightarrow> vesa option) \<Rightarrow> bool" where
  "draws f \<longleftrightarrow> (\<forall>v. \<exists>v'. f v = Some v' \<and> same_mode v v')"

lemma draws_line: "draws (vesa_draw_line x0 y0 x1 y1 c)"
  unfolding draws_def
proof
  fix v
  show "\<exists>v'. vesa_draw_line x0 y0 x1 y1 c v = Some v' \<and> same_mode v v'"
  proof (cases "vesa_enabled v")
    case True
    then obtain pts where "vesa_draw_line x0 y0 x1 y1 c v = Some (fold (\<lambda>(x, y). vesa_put_pixel x y c) pts v)"
      using vesa_draw_line_pts by blast
    moreover have "same_mode v (fold (\<lambda>(x, y). vesa_put_pixel x y c) pts v)"
      by (rule same_mode_fold) (auto simp: same_mode_pixel)
    ultimately show ?thesis by blast
  qed (simp add: vesa_draw_line_def)
qed

lemma draws_bind: "draws f \<Longrightarrow> draws g \<Longrightarrow> draws (\<lambda>v. f v \<bind> g)"
  unfolding draws_def by (metis bind.bind_lunit same_mode_trans)

lemma drawsE: "draws f \<Longrightarrow> (\<And>v'. f v = Some v' \<Longrightarrow> same_mode v v' \<Longrightarrow> thesis) \<Longrightarrow> thesis"
  unfolding draws_def by blast

lemma draws_rect: "draws (vesa_draw_rect x y w h c)"
proof -
  have "draws (\<lambda>v. vesa_draw_line x y (x + w - 1) y c v \<bind> (\<lambda>v. vesa_draw_line x (y + h - 1) (x + w - 1) (y + h - 1) c v \<bind>
      (\<lambda>v. vesa_draw_line x y x (y + h - 1) c v \<bind> vesa_draw_line (x + w - 1) y (x + w - 1) (y + h - 1) c)))"
    by (intro draws_bind draws_line)
  then show ?thesis by (auto simp: draws_def vesa_draw_rect_def)
qed

lemma draws_background: "draws draw_background"
proof -
  have f: "\<exists>v'. fold (\<lambda>y r. r \<bind> (\<lambda>v. vesa_draw_line 0 y (uint (vesa_width v) - 1) y (c y v) v)) ys (Some v) = Some v' \<and> same_mode v v'"
    for ys c v
  proof (induction ys arbitrary: v)
    case (Cons y ys)
    obtain v1 where 1: "vesa_draw_line 0 y (uint (vesa_width v) - 1) y (c y v) v = Some v1" "same_mode v v1"
      using draws_line unfolding draws_def by blast
    then show ?case using Cons.IH [of v1] same_mode_trans [OF 1(2)] by auto
  qed simp
  show ?thesis unfolding draws_def draw_background_def Let_def
    using f [where c = "\<lambda>y v. rgb (ucast (word_of_int (40 + y * 80 div uint (vesa_height v)) :: byte) div 2)
      (ucast (word_of_int (40 + y * 80 div uint (vesa_height v)) :: byte) div 2) (ucast (word_of_int (40 + y * 80 div uint (vesa_height v)) :: byte))"]
    by auto
qed

lemma draws_taskbar: "draws (draw_taskbar t)"
  unfolding draws_def
proof
  fix v :: vesa
  let ?y = "uint (vesa_height v) - GUI_BAR_H" and ?w = "uint (vesa_width v)"
  obtain v1 where 1: "vesa_draw_line 0 ?y (?w - 1) ?y (rgb 80 80 120) (vesa_fill_rect 0 ?y ?w GUI_BAR_H (rgb 20 20 30) v) = Some v1"
    and "same_mode (vesa_fill_rect 0 ?y ?w GUI_BAR_H (rgb 20 20 30) v) v1" by (rule drawsE [OF draws_line])
  then have "same_mode v v1" by (rule_tac same_mode_trans [OF same_mode_rect])
  then have "same_mode v (vesa_put_string a b c d e (vesa_put_string a' b' c' d' e' v1))" for a b c d e a' b' c' d' e'
    by (meson same_mode_trans same_mode_string)
  then show "\<exists>v'. draw_taskbar t v = Some v' \<and> same_mode v v'" by (simp add: draw_taskbar_def Let_def 1)
qed

lemma draws_window: "draws (draw_window g)"
  unfolding draws_def
proof
  fix v :: vesa
  let ?x = "win_x (main_win g)" and ?y = "win_y (main_win g)" and ?w = "win_w (main_win g)" and ?h = "win_h (main_win g)"
  let ?v = "vesa_fill_rect ?x ?y ?w ?h (rgb 30 30 40) v"
  obtain v1 where 1: "vesa_draw_rect ?x ?y ?w ?h (rgb 120 120 160) ?v = Some v1" "same_mode ?v v1" by (rule drawsE [OF draws_rect])
  let ?v1 = "vesa_fill_rect ?x ?y ?w WIN_TITLE_H (rgb 50 50 80) v1"
  obtain v2 where 2: "vesa_draw_line ?x (?y + WIN_TITLE_H - 1) (?x + ?w - 1) (?y + WIN_TITLE_H - 1) (rgb 90 90 120) ?v1 = Some v2" "same_mode ?v1 v2"
    by (rule drawsE [OF draws_line])
  have v2: "same_mode v v2" using 1(2) 2(2) by (meson same_mode_trans same_mode_rect)
  have "same_mode v2 (fold (\<lambda>i. vesa_put_string a (b + int i * 16) (c i) e f) is (vesa_put_string x y t fg bg v2))" for a b c e f "is" x y t fg bg
    by (rule same_mode_trans [OF same_mode_string same_mode_fold]) (rule same_mode_string)
  then have "same_mode v (vesa_put_string x' y' t' fg' bg' (fold (\<lambda>i. vesa_put_string a (b + int i * 16) (c i) e f) is (vesa_put_string x y t fg bg v2)))"
    for a b c e f "is" x y t fg bg x' y' t' fg' bg'
    by (meson v2 same_mode_trans same_mode_string)
  then show "\<exists>v'. draw_window g v = Some v' \<and> same_mode v v'" 
    unfolding draw_window_def Let_def 1(1) bind.bind_lunit 2(1) by auto
qed

lemma draws_cursor: "draws (draw_cursor x y)"
  unfolding draws_def
proof
  fix v :: vesa
  obtain v1 where 1: "vesa_draw_rect x y 8 8 0 (vesa_fill_rect x y 8 8 0xFFFFFF v) = Some v1" "same_mode (vesa_fill_rect x y 8 8 0xFFFFFF v) v1"
    by (rule drawsE [OF draws_rect])
  then have "same_mode v (vesa_put_pixel a b c v1)" for a b c by (meson same_mode_trans same_mode_rect same_mode_pixel)
  then show "\<exists>v'. draw_cursor x y v = Some v' \<and> same_mode v v'" by (simp add: draw_cursor_def 1(1))
qed

lemma draw_all_returns: "\<exists>v. draw_all d = Some v \<and> same_mode (d_vesa d) v"
proof -
  obtain v1 where 1: "draw_background (d_vesa d) = Some v1" "same_mode (d_vesa d) v1" by (rule drawsE [OF draws_background])
  obtain v2 where 2: "draw_taskbar (d_timer d) v1 = Some v2" "same_mode v1 v2" by (rule drawsE [OF draws_taskbar])
  obtain v3 where 3: "draw_window (d_gui d) v2 = Some v3" "same_mode v2 v3" by (rule drawsE [OF draws_window])
  define v4 where "v4 = (if chd (last_key (d_gui d)) \<noteq> NUL then
      vesa_put_string (win_x (main_win (d_gui d)) + WIN_PAD) (win_y (main_win (d_gui d)) + win_h (main_win (d_gui d)) - 20)
        (shown (last_key (d_gui d))) 0xFFFF00 (rgb 30 30 40) v3 else v3)"
  have 4: "same_mode v3 v4" by (simp add: v4_def same_mode_string)
  obtain v5 where 5: "draw_cursor (ms_x (d_ms d)) (ms_y (d_ms d)) v4 = Some v5" "same_mode v4 v5" by (rule drawsE [OF draws_cursor])
  have "same_mode v5 (vesa_present v5)" by (simp add: vesa_present_def same_mode_def Let_def)
  then have "same_mode (d_vesa d) (vesa_present v5)" using 1(2) 2(2) 3(2) 4 5(2) by (meson same_mode_trans)
  moreover have "draw_all d = Some (vesa_present v5)"
    unfolding draw_all_def Let_def 1(1) bind.bind_lunit 2(1) 3(1) v4_def [symmetric] 5(1) ..
  ultimately show ?thesis by blast
qed

subsection \<open>The window stays on the screen\<close>

definition win_fits :: "int \<Rightarrow> int \<Rightarrow> gui_window \<Rightarrow> bool" where
  "win_fits width height win \<longleftrightarrow> 0 \<le> win_x win \<and> win_x win + win_w win \<le> width \<and>
     0 \<le> win_y win \<and> win_y win + win_h win \<le> height - GUI_BAR_H"

text \<open>The window lies above the task bar and the arrays hold what their counters say.\<close>

definition gui_ok :: "int \<Rightarrow> int \<Rightarrow> gui \<Rightarrow> bool" where
  "gui_ok width height g \<longleftrightarrow> win_fits width height (main_win g) \<and> win_w (main_win g) = 520 \<and> win_h (main_win g) = 240 \<and>
     log_ok g \<and> length (input_line g) = 128 \<and> input_len g < 128 \<and> length (last_key g) = 16"

definition on_screen_at :: "int \<Rightarrow> int \<Rightarrow> mouse_state \<Rightarrow> bool" where
  "on_screen_at width height ms \<longleftrightarrow> 0 \<le> ms_x ms \<and> ms_x ms < width \<and> 0 \<le> ms_y ms \<and> ms_y ms < height"

definition desktop_ok :: "int \<Rightarrow> int \<Rightarrow> desktop \<Rightarrow> bool" where
  "desktop_ok width height d \<longleftrightarrow> gui_ok width height (d_gui d) \<and> kbd_ok (d_kbd d) \<and> mouse_ok (d_mouse d) \<and>
     screen_w (d_mouse d) = width \<and> screen_h (d_mouse d) = height \<and> on_screen_at width height (d_ms d) \<and>
     uint (vesa_width (d_vesa d)) = width \<and> uint (vesa_height (d_vesa d)) = height \<and> tick_frequency (d_timer d) = 100"

lemma grab_win [simp]: "win_x (grab ms l w) = win_x w" "win_y (grab ms l w) = win_y w" "win_w (grab ms l w) = win_w w" "win_h (grab ms l w) = win_h w"
  by (simp_all add: grab_def Let_def)

lemma drag_size [simp]: "win_w (drag width height ms w) = win_w w" "win_h (drag width height ms w) = win_h w"
  by (simp_all add: drag_def Let_def)

lemma drag_fits:
  assumes "win_fits width height w" "win_w w \<le> width" "win_h w \<le> height - GUI_BAR_H"
  shows "win_fits width height (drag width height ms w)"
  using assms by (auto simp: drag_def win_fits_def Let_def)

lemma grab_fits: "win_fits width height (grab ms l w) = win_fits width height w"
  by (simp add: win_fits_def)

lemma log_line_frame [simp]:
  "main_win (gui_log_line s g) = main_win g" "input_line (gui_log_line s g) = input_line g"
  "input_len (gui_log_line s g) = input_len g" "last_key (gui_log_line s g) = last_key g"
  by (simp_all add: gui_log_line_def Let_def split: option.split)

lemma press_key_ok:
  assumes "gui_ok width height g"
  shows "gui_ok width height (press_key c g)"
proof -
  have l: "log_ok (g\<lparr>input_line := t\<rparr>)" "log_ok (g\<lparr>input_len := n\<rparr>)" "log_ok (g\<lparr>last_key := u\<rparr>)" for t n u
    using assms by (simp_all add: gui_ok_def log_ok_def)
  have "cstring (shown t)" for t by (auto simp: shown_def cstring_def dest: set_takeWhileD)
  then have "log_ok (gui_log_line (Some (shown t)) (g\<lparr>input_line := u\<rparr>))" for t u using log_line_last l(1) by blast
  then have e: "log_ok ((gui_log_line (Some (shown t)) (g\<lparr>input_line := u\<rparr>))\<lparr>input_len := 0\<rparr>)" for t u by (simp add: log_ok_def)
  have n: "log_ok (g\<lparr>input_line := t, input_len := n\<rparr>)" "log_ok (g\<lparr>input_line := t, input_len := n, last_key := u\<rparr>)" for t n u
    using assms by (simp_all add: gui_ok_def log_ok_def)
  show ?thesis using assms l n e by (auto simp: gui_ok_def press_key_def show_key_def Let_def)
qed

lemma key_loop_ok:
  "kbd_ok k \<Longrightarrow> gui_ok width height g \<Longrightarrow> kbd_count k < n \<Longrightarrow> key_loop n k g = (run, k', g') \<Longrightarrow>
   kbd_ok k' \<and> gui_ok width height g' \<and> (run \<longrightarrow> kbd_queue k' = [])"
proof (induction n arbitrary: k g)
  case (Suc n)
  obtain r k1 where r: "dequeue_char k = (r, k1)" by force
  have k1: "kbd_ok k1" "kbd_queue k1 = tl (kbd_queue k)" "r = (case kbd_queue k of [] \<Rightarrow> None | x # _ \<Rightarrow> Some x)"
    using kq.deq_ok [OF Suc.prems(1)] kq.deq_contents [OF Suc.prems(1)] by (simp_all add: r)
  have c1: "kbd_count k1 = kbd_count k - 1" using k1(2) by (metis length_kbd_queue length_tl)
  show ?case
  proof (cases r)
    case None
    then have "kbd_queue k = []" using k1(3) by (simp split: list.splits)
    then show ?thesis using Suc.prems None k1 by (auto simp: keyboard_try_getchar_def r)
  next
    case (Some c)
    then have "kbd_queue k \<noteq> []" using k1(3) by (auto split: list.splits)
    then have "0 < kbd_count k" by (metis length_kbd_queue length_greater_0_conv)
    then have "kbd_count k1 < n" using c1 Suc.prems(3) by linarith
    then show ?thesis using Suc.IH [OF k1(1) press_key_ok [OF Suc.prems(2), of c]] Suc.prems(2,4) k1(1) Some
      by (auto simp: keyboard_try_getchar_def r split: if_splits)
  qed
qed simp

lemma take_event_ok: "desktop_ok width height d \<Longrightarrow> desktop_ok width height (take_event e d)"
proof (cases e)
  case (Packet_byte st dt)
  have "same_screen m (mouse_irq_handler st dt m)" for m
    by (simp add: same_screen_def mouse_irq_handler_def move_pointer_def Let_def)
  then show "desktop_ok width height d \<Longrightarrow> ?thesis"
    using mouse_handler_ok by (auto simp: desktop_ok_def Packet_byte same_screen_def)
qed (auto simp: desktop_ok_def handler_ok)

lemma take_input_ok:
  assumes "desktop_ok width height d" "520 \<le> width" "264 \<le> height"
  shows "desktop_ok width height (take_input d) \<and> (d_running (take_input d) \<longrightarrow> kbd_queue (d_kbd (take_input d)) = [])"
proof -
  obtain tmp m where m: "mouse_poll False (d_mouse d) = (tmp, m)" by force
  define ms where "ms = (case tmp of Some t \<Rightarrow> t | None \<Rightarrow> d_ms d)"
  define g where "g = (d_gui d)\<lparr>main_win := drag width height ms (grab ms (d_last d) (main_win (d_gui d)))\<rparr>"
  obtain run k g' where l: "key_loop 256 (d_kbd d) g = (run, k, g')" by (metis prod_cases3)
  note ok = assms(1) [unfolded desktop_ok_def]
  have "gui_ok width height g"
    using ok assms(2,3) unfolding g_def gui_ok_def log_ok_def by (simp add: drag_fits grab_fits)
  then have k: "kbd_ok k \<and> gui_ok width height g' \<and> (run \<longrightarrow> kbd_queue k = [])"
    using key_loop_ok [OF _ _ kbd_count_less l] ok by blast
  have "mouse_ok m \<and> screen_w m = width \<and> screen_h m = height \<and> on_screen_at width height ms"
    using ok m by (auto simp: mouse_poll_def ms_def mouse_ok_def on_screen_at_def split: if_splits)
  moreover have "take_input d = d\<lparr>d_mouse := m, d_ms := ms, d_kbd := k, d_gui := g', d_running := run\<rparr>"
    using ok l by (simp add: take_input_def m ms_def [symmetric] g_def Let_def)
  ultimately show ?thesis using ok k by (simp add: desktop_ok_def)
qed

lemma fold_event_ok: "desktop_ok width height d \<Longrightarrow> desktop_ok width height (fold take_event es d)"
  by (induction es arbitrary: d) (simp_all add: take_event_ok)

text \<open>Ticks that come one at a time, at least one of them.\<close>

definition ticking :: "nat list \<Rightarrow> bool" where
  "ticking wakes \<longleftrightarrow> (\<forall>w \<in> set wakes. w \<le> 1) \<and> 1 \<le> sum_list wakes"

lemma gui_round_ok:
  assumes "desktop_ok width height d" "520 \<le> width" "264 \<le> height" "ticking wakes"
  shows "\<exists>d'. gui_round (events, wakes) d = Some d' \<and> desktop_ok width height d' \<and> (d_running d' \<longrightarrow> kbd_queue (d_kbd d') = [])"
proof -
  let ?d = "take_input (fold take_event events d)"
  have ok: "desktop_ok width height ?d" "d_running ?d \<longrightarrow> kbd_queue (d_kbd ?d) = []"
    using take_input_ok [OF fold_event_ok [OF assms(1)] assms(2,3)] by simp_all
  obtain v where v: "draw_all ?d = Some v" "same_mode (d_vesa ?d) v" using draw_all_returns by blast
  have one: "sleep_ticks 16 (d_timer ?d) = 1" using ok(1) by (simp add: sleep_ticks_def desktop_ok_def)
  obtain rest where t: "timer_sleep 16 wakes (d_timer ?d) = Some ((d_timer ?d)\<lparr>tick_count := tick_count (d_timer ?d) + 1\<rparr>, rest)"
    using sleep_loop_ticks [of wakes "d_timer ?d" "tick_count (d_timer ?d)" 0 1] assms(4) one
    by (auto simp: timer_sleep_def ticking_def)
  have "gui_round (events, wakes) d = Some (?d\<lparr>d_vesa := v, d_last := ms_buttons (d_ms ?d), d_timer := (d_timer ?d)\<lparr>tick_count := tick_count (d_timer ?d) + 1\<rparr>\<rparr>)"
    by (simp add: gui_round_def v(1) t Let_def)
  then show ?thesis using ok v(2) by (simp add: desktop_ok_def same_mode_def)
qed

fun rounds :: "(gui_event list \<times> nat list) list \<Rightarrow> desktop \<Rightarrow> desktop option" where
  "rounds [] d = Some d"
| "rounds (i # is) d = gui_round i d \<bind> rounds is"

lemma rounds_ok:
  assumes "520 \<le> width" "264 \<le> height"
  shows "desktop_ok width height d \<Longrightarrow> \<forall>(es, ws) \<in> set inputs. ticking ws \<Longrightarrow>
    \<exists>d'. rounds inputs d = Some d' \<and> desktop_ok width height d'"
proof (induction inputs arbitrary: d)
  case (Cons i inputs)
  obtain es ws where i: "i = (es, ws)" by force
  obtain d1 where "gui_round i d = Some d1" "desktop_ok width height d1"
    using gui_round_ok [OF Cons.prems(1) assms, of ws es] Cons.prems(2) by (auto simp: i)
  then show ?case using Cons.IH [of d1] Cons.prems(2) by simp
qed simp

definition input_ok :: "gui \<Rightarrow> bool" where
  "input_ok g \<longleftrightarrow> length (log_lines g) = 8 \<and> list_all line_ok (log_lines g) \<and> length (input_line g) = 128 \<and> length (last_key g) = 16"

lemma start_ok:
  assumes "input_ok (d_gui d)" "kbd_ok (d_kbd d)" "mouse_ok (d_mouse d)" "tick_frequency (d_timer d) = 100"
    and "screen_w (d_mouse d) = uint (vesa_width (d_vesa d))" "screen_h (d_mouse d) = uint (vesa_height (d_vesa d))"
    and "600 \<le> uint (vesa_width (d_vesa d))" "324 \<le> uint (vesa_height (d_vesa d))"
  shows "desktop_ok (uint (vesa_width (d_vesa d))) (uint (vesa_height (d_vesa d))) (gui_start d)"
proof -
  define g where "g = (d_gui d)\<lparr>main_win := (main_win (d_gui d))\<lparr>win_x := 80, win_y := 60, win_w := 520, win_h := 240, dragging := False\<rparr>,
      input_len := 0, log_count := 0, last_key := (last_key (d_gui d))[0 := NUL]\<rparr>"
  have g: "log_ok g" using assms(1) by (simp add: log_ok_def input_ok_def g_def)
  have "cstring ''GUI ready. Type text and press Enter.''" "cstring ''ESC exits to shell.''" by simp_all
  then have "log_ok (gui_log_line (Some ''ESC exits to shell.'') (gui_log_line (Some ''GUI ready. Type text and press Enter.'') g))"
    using log_line_last [OF g] log_line_last by blast
  moreover have "gui_start d = d\<lparr>d_gui := gui_log_line (Some ''ESC exits to shell.'') (gui_log_line (Some ''GUI ready. Type text and press Enter.'') g),
        d_running := True, d_last := 0, d_ms := \<lparr>ms_x = uint (vesa_width (d_vesa d)) div 2, ms_y = uint (vesa_height (d_vesa d)) div 2,
          ms_buttons = 0, ms_dx = 0, ms_dy = 0\<rparr>\<rparr>"
    by (simp add: gui_start_def g_def Let_def)
  moreover have "x div 2 < x" if "324 \<le> x" for x :: int using that by linarith
  ultimately show ?thesis using assms
    by (simp add: desktop_ok_def gui_ok_def win_fits_def on_screen_at_def input_ok_def) (simp add: g_def)
qed

text \<open>
  Property C19. On a screen of at least 600 by 324 pixels the desktop never gets stuck and never loses
  its window: as long as ticks come, every round returns, whatever keys and packets arrive; the window
  stays above the task bar and between the edges, the pointer on the screen, and the input line, the log
  and the key text within their arrays.
\<close>

theorem desktop_rounds:
  assumes "input_ok (d_gui d)" "kbd_ok (d_kbd d)" "mouse_ok (d_mouse d)" "tick_frequency (d_timer d) = 100"
    and "screen_w (d_mouse d) = uint (vesa_width (d_vesa d))" "screen_h (d_mouse d) = uint (vesa_height (d_vesa d))"
    and "600 \<le> uint (vesa_width (d_vesa d))" "324 \<le> uint (vesa_height (d_vesa d))"
    and "\<forall>(es, ws) \<in> set inputs. ticking ws"
  shows "\<exists>d'. rounds inputs (gui_start d) = Some d' \<and>
     desktop_ok (uint (vesa_width (d_vesa d))) (uint (vesa_height (d_vesa d))) d'"
  using rounds_ok [OF _ _ start_ok [OF assms(1-8)] assms(9)] assms(7,8) by simp

definition sample_desktop :: desktop where
  "sample_desktop = \<lparr>d_vesa = svga, d_kbd = empty_kbd, d_mouse = mouse_boot, d_timer = \<lparr>tick_count = 0, tick_frequency = 100\<rparr>,
     d_gui = blank_gui, d_ms = \<lparr>ms_x = 0, ms_y = 0, ms_buttons = 0, ms_dx = 0, ms_dy = 0\<rparr>, d_last = 0, d_running = True\<rparr>"

theorem desktop_rounds_witness:
  "\<exists>d. rounds [([Key 0x1E, Packet_byte 0x20 0x09], [1]), ([Packet_byte 0x20 0x7F, Packet_byte 0x20 0x80], [0, 1])] (gui_start sample_desktop) = Some d \<and>
     desktop_ok 800 600 d"
proof -
  have "vesa_width svga = 800" "vesa_height svga = 600" by (simp_all add: svga_def vesa_init_def)
  then show ?thesis
    using desktop_rounds [of sample_desktop "[([Key 0x1E, Packet_byte 0x20 0x09], [1]), ([Packet_byte 0x20 0x7F, Packet_byte 0x20 0x80], [0, 1])]"]
    by (simp add: sample_desktop_def input_ok_def blank_gui_def line_ok_def list_all_iff kbd_ok_def empty_kbd_def mouse_ok_def mouse_boot_def ticking_def)
qed

end
