(* ===== verification/Script.thy ===== *)
theory Script
  imports Vga Vfs
begin

text \<open>
  Shell scripts, \<open>kernel/script.c\<close>: the commands a line of a script may hold, and the loop that takes
  the lines out of the file. The state is the filesystem and the screen.

  The text of the script stays in the read cache of the filesystem while its commands run, as in the
  C code, where \<open>content\<close> points into that array: the loop reads every line from the cache as it then is.
\<close>

record world =
  w_fs :: fs
  w_vga :: vga

definition print :: "string \<Rightarrow> world \<Rightarrow> world" where
  "print t w = w\<lparr>w_vga := vga_puts t (w_vga w)\<rparr>"

definition print_number :: "u32 \<Rightarrow> world \<Rightarrow> world" where
  "print_number v w = w\<lparr>w_vga := vga_print_dec v (w_vga w)\<rparr>"

definition newline :: string where
  "newline = [CHR 0x0A]"

definition on_fs :: "(fs \<Rightarrow> 'a \<times> fs) \<Rightarrow> world \<Rightarrow> 'a \<times> world" where
  "on_fs f w = (case f (w_fs w) of (r, s) \<Rightarrow> (r, w\<lparr>w_fs := s\<rparr>))"

text \<open>A call whose failure is reported with \<open>msg\<close>.\<close>

definition try_fs :: "(fs \<Rightarrow> int \<times> fs) \<Rightarrow> string \<Rightarrow> world \<Rightarrow> world" where
  "try_fs f msg w = (case on_fs f w of (r, w) \<Rightarrow> if r \<noteq> 0 then print (msg @ newline) w else w)"

definition is_ws :: "char \<Rightarrow> bool" where
  "is_ws c \<longleftrightarrow> c = CHR '' '' \<or> c = CHR 0x09"

text \<open>A word cut off at its end, and what follows the blanks after it.\<close>

definition split_word :: "string \<Rightarrow> string \<times> string" where
  "split_word s = (takeWhile (\<lambda>c. \<not> is_ws c) s, dropWhile is_ws (tl (dropWhile (\<lambda>c. \<not> is_ws c) s)))"

text \<open>The C string that starts at the read cache, an array of 4097 bytes.\<close>

definition cache_text :: "buffer \<Rightarrow> string" where
  "cache_text b = takeWhile (\<lambda>c. c \<noteq> NUL) (map (\<lambda>i. char_of_byte (b i)) [0..<4097])"

definition print_file :: "nat \<Rightarrow> world \<Rightarrow> world" where
  "print_file len w =
     (let b = read_cache (w_fs w); w = print (cache_text b) w in
      if len = 0 \<or> b (len - 1) \<noteq> 0x0A then print newline w else w)"

text \<open>The listing; \<open>n\<close> bounds the number of entries.\<close>

fun ls_loop :: "nat \<Rightarrow> nat \<Rightarrow> world \<Rightarrow> nat \<times> world" where
  "ls_loop 0 i w = (i, w)"
| "ls_loop (Suc n) i w =
     (case on_fs (vfs_list_dir_entry i) w of
        (None, w) \<Rightarrow> (i, w)
      | (Some (name, len, is_dir), w) \<Rightarrow>
          let w = print name w in
          ls_loop n (i + 1)
            (if is_dir then print (''  <DIR>'' @ newline) w
             else print (''b'' @ newline) (print_number len (print ''  '' w))))"

definition cat :: "string \<Rightarrow> world \<Rightarrow> world" where
  "cat path w =
     (case on_fs (vfs_read_ptr (Some path)) w of
        (None, w) \<Rightarrow> print (''file not found'' @ newline) w
      | (Some len, w) \<Rightarrow> print_file len w)"

definition change_dir :: "string \<Rightarrow> world \<Rightarrow> world" where
  "change_dir args w =
     (if chd args = NUL then snd (on_fs (vfs_chdir (Some ''/'')) w)
      else try_fs (vfs_chdir (Some args)) ''directory not found'' w)"

definition print_cwd :: "world \<Rightarrow> world" where
  "print_cwd w = (case on_fs vfs_getcwd w of (path, w) \<Rightarrow> print newline (print path w))"

definition run_command :: "string \<Rightarrow> string \<Rightarrow> world \<Rightarrow> int \<times> world" where
  "run_command cmd args w =
     (if strcmp cmd ''echo'' = 0 then (0, print newline (print args w))
      else if strcmp cmd ''touch'' = 0 then (0, try_fs (vfs_touch (Some args)) ''touch failed'' w)
      else if strcmp cmd ''rm'' = 0 then (0, try_fs (vfs_remove (Some args)) ''rm failed'' w)
      else if strcmp cmd ''write'' = 0 then
        (case split_word args of (name, txt) \<Rightarrow> (0, try_fs (vfs_write (Some name) txt) ''write failed'' w))
      else if strcmp cmd ''append'' = 0 then
        (case split_word args of (name, txt) \<Rightarrow> (0, try_fs (vfs_append (Some name) txt) ''append failed'' w))
      else if strcmp cmd ''cat'' = 0 then (0, cat args w)
      else if strcmp cmd ''mkdir'' = 0 then (0, try_fs (vfs_mkdir (Some args)) ''mkdir failed'' w)
      else if strcmp cmd ''rmdir'' = 0 then (0, try_fs (vfs_rmdir (Some args)) ''rmdir failed'' w)
      else if strcmp cmd ''cd'' = 0 then (0, change_dir args w)
      else if strcmp cmd ''pwd'' = 0 then (0, print_cwd w)
      else if strcmp cmd ''clear'' = 0 then (0, w\<lparr>w_vga := vga_clear (w_vga w)\<rparr>)
      else if strcmp cmd ''ls'' = 0 then (0, snd (ls_loop 33 0 w))
      else if chd cmd \<noteq> NUL then (- 1, print newline (print cmd (print ''unknown command: '' w)))
      else (0, w))"

definition execute_line :: "string \<Rightarrow> world \<Rightarrow> int \<times> world" where
  "execute_line line w =
     (let line = dropWhile is_ws line in
      if chd line = NUL \<or> chd line = CHR ''#'' then (0, w)
      else case split_word (take 127 line) of (cmd, args) \<Rightarrow> run_command cmd args w)"

text \<open>The loop that extracts a line: at most \<open>k\<close> more characters, from position \<open>p\<close> on.\<close>

fun take_line :: "buffer \<Rightarrow> nat \<Rightarrow> nat \<Rightarrow> nat \<Rightarrow> string \<times> nat" where
  "take_line b end 0 p = ([], p)"
| "take_line b end (Suc k) p =
     (if p < end \<and> b p \<noteq> 0x0A then (case take_line b end k (p + 1) of (l, q) \<Rightarrow> (char_of_byte (b p) # l, q)) else ([], p))"

lemma take_line_pos:
  "take_line b end k p = (l, q) \<Longrightarrow> p \<le> q \<and> (p < end \<longrightarrow> q \<le> end) \<and>
     (0 < k \<and> p < end \<and> b p \<noteq> 0x0A \<longrightarrow> p < q) \<and> (b p = 0x0A \<longrightarrow> q = p)"
proof (induction k arbitrary: p l)
  case (Suc k)
  show ?case
  proof (cases "p < end \<and> b p \<noteq> 0x0A")
    case True
    obtain l' q' where t: "take_line b end k (p + 1) = (l', q')" by force
    then have t': "take_line b end k (p + 1) = (l', q)" using Suc.prems True by simp
    then show ?thesis using Suc.IH [OF t'] True by (cases k) auto
  next
    case False
    then show ?thesis using Suc.prems by auto
  qed
qed auto

definition next_line :: "buffer \<Rightarrow> nat \<Rightarrow> nat \<Rightarrow> string \<times> nat" where
  "next_line b end p =
     (case take_line b end 127 p of (l, q) \<Rightarrow>
      (takeWhile (\<lambda>c. c \<noteq> NUL) l, if q < end \<and> b q = 0x0A then q + 1 else q))"

lemma next_line_pos:
  assumes "p < end" "next_line b end p = (l, q)"
  shows "p < q" "q \<le> end"
proof -
  obtain l' q' where t: "take_line b end 127 p = (l', q')" by force
  then have "q = (if q' < end \<and> b q' = 0x0A then q' + 1 else q')" using assms(2) by (simp add: next_line_def)
  then show "p < q" "q \<le> end" using take_line_pos [OF t] assms(1) by (cases "b p = 0x0A"; auto)+
qed

function script_loop :: "nat \<Rightarrow> nat \<Rightarrow> world \<Rightarrow> world" where
  "script_loop end p w =
     (if p < end
      then case next_line (read_cache (w_fs w)) end p of (line, q) \<Rightarrow> script_loop end q (snd (execute_line line w))
      else w)"
  by pat_completeness auto
termination
proof (relation "measure (\<lambda>(end, p, w). end - p)", goal_cases)
  case (2 lim p w line q)
  then have "p < q" using next_line_pos(1) [of p lim "read_cache (w_fs w)" line q] by simp
  then show ?case using 2 by simp
qed simp

declare script_loop.simps [simp del]

definition script_run :: "string option \<Rightarrow> world \<Rightarrow> int \<times> world" where
  "script_run filename w =
     (case filename of
        None \<Rightarrow> (- 1, w)
      | Some name \<Rightarrow>
          if chd name = NUL then (- 1, w)
          else case on_fs (vfs_read_ptr filename) w of
            (None, w) \<Rightarrow> (- 1, print newline (print name (print ''script not found: '' w)))
          | (Some len, w) \<Rightarrow> (0, script_loop len 0 w))"

subsection \<open>The listing ends\<close>

lemma list_scan_bound: "list_scan skip buf index n i seen \<noteq> None \<Longrightarrow> index < seen + n \<or> n = 0"
  by (induction skip buf index n i seen rule: list_scan.induct) (auto simp: Let_def split: if_splits)

lemma listing_bound: "FS_MAX_FILES \<le> index \<Longrightarrow> fst (vfs_list_dir_entry index s) = None"
proof -
  assume i: "FS_MAX_FILES \<le> index"
  have "list_scan skip buf index (max_entries c) 0 0 = None" for skip buf c
    using list_scan_bound [of skip buf index "max_entries c" 0 0] i
    by (cases "list_scan skip buf index (max_entries c) 0 0") (auto simp: max_entries_def split: if_splits)
  then show ?thesis by (auto simp: vfs_list_dir_entry_def fs_list_dir_entry_def split: prod.splits)
qed

text \<open>The 33 rounds allowed to the listing are enough: more of them change nothing.\<close>

lemma ls_loop_enough: "i \<le> FS_MAX_FILES \<Longrightarrow> FS_MAX_FILES < i + n \<Longrightarrow> ls_loop (n + m) i w = ls_loop n i w"
proof (induction n arbitrary: i w)
  case (Suc n)
  show ?case
  proof (cases "i = FS_MAX_FILES")
    case True
    then have "fst (vfs_list_dir_entry i (w_fs w)) = None" using listing_bound [of i "w_fs w"] by simp
    then show ?thesis by (auto simp: on_fs_def split: prod.splits option.splits)
  next
    case False
    then have "ls_loop (n + m) (i + 1) v = ls_loop n (i + 1) v" for v using Suc by simp
    then show ?thesis by (auto simp: Let_def split: option.splits prod.splits)
  qed
qed simp

subsection \<open>Writing and reading back\<close>

lemma fs_simps_w [simp]: "w_fs (print t w) = w_fs w" "w_vga (w\<lparr>w_fs := s\<rparr>) = w_vga w"
  by (simp_all add: print_def)

lemma print_append: "print b (print a w) = print (a @ b) w"
  by (simp add: print_def vga_puts_fold)

lemma split_word_cons:
  assumes "\<forall>c \<in> set cmd. \<not> is_ws c" "args = [] \<or> \<not> is_ws (hd args)"
  shows "split_word (cmd @ CHR '' '' # args) = (cmd, args)"
proof -
  have b: "is_ws CHR '' ''" by (simp add: is_ws_def)
  have "takeWhile (\<lambda>c. \<not> is_ws c) (cmd @ CHR '' '' # args) = cmd" "dropWhile (\<lambda>c. \<not> is_ws c) (cmd @ CHR '' '' # args) = CHR '' '' # args"
    using assms(1) b by (simp_all add: takeWhile_append2 dropWhile_append2)
  moreover have "dropWhile is_ws args = args" using assms(2) by (cases args) auto
  ultimately show ?thesis by (simp add: split_word_def)
qed

lemma split_word_args:
  assumes "\<forall>c \<in> set cmd. \<not> is_ws c" "name = c # rest" "\<not> is_ws c"
  shows "split_word (cmd @ CHR '' '' # name) = (cmd, name)"
  using split_word_cons [OF assms(1), of name] assms by simp

text \<open>A word of a command line.\<close>

definition plain :: "string \<Rightarrow> bool" where
  "plain name \<longleftrightarrow> name \<noteq> [] \<and> (\<forall>c \<in> set name. c \<noteq> NUL \<and> \<not> is_ws c)"

lemma plain_facts: "plain name \<Longrightarrow> cstring name" "plain name \<Longrightarrow> \<not> is_ws (hd name)" "plain name \<Longrightarrow> \<forall>c \<in> set name. \<not> is_ws c"
  by (auto simp: plain_def cstring_def)

lemma takeWhile_holds:
  assumes "cache_holds b (map byte_of t)" "cstring t" "length t < n"
  shows "takeWhile (\<lambda>c. c \<noteq> NUL) (map (\<lambda>i. char_of_byte (b i)) [0..<n]) = t"
proof -
  have "[0..<n] = [0..<length t] @ [length t..<n]"
    using assms(3) upt_add_eq_append [of 0 "length t" "n - length t"] by simp
  then have split: "[0..<n] = [0..<length t] @ length t # [Suc (length t)..<n]"
    using assms(3) by (simp add: upt_conv_Cons)
  have m: "map (\<lambda>i. char_of_byte (b i)) [0..<length t] = t"
    using assms(1) by (intro nth_equalityI) (simp_all add: cache_holds_def)
  have z: "char_of_byte (b (length t)) = NUL"
    using assms(1) by (simp add: cache_holds_def char_of_byte_def char_of_def)
  have "takeWhile (\<lambda>c. c \<noteq> NUL) (t @ NUL # map (\<lambda>i. char_of_byte (b i)) [Suc (length t)..<n]) = t"
    using assms(2) by (subst takeWhile_append2) (auto simp: cstring_def)
  then show ?thesis by (simp add: split m z)
qed

lemma cache_text_holds: "cache_holds b (map byte_of t) \<Longrightarrow> cstring t \<Longrightarrow> length t < 4097 \<Longrightarrow> cache_text b = t"
  unfolding cache_text_def by (rule takeWhile_holds)

lemma vfs_write_exec: "vfs_write (Some name) t s = vfs_exec (Write name (text_bytes t) (strlen t)) s"
  by (simp add: vfs_write_def fs_write_def vfs_write_raw_def split: option.splits)

text \<open>What a successful write leaves in the cache when the file is read again.\<close>

lemma write_then_read:
  assumes "fs_rel s F" "healthy (disk s)" "cstring name" "cstring t" "vfs_key name = Some f"
    and "vfs_write (Some name) t s = (0, s1)" "vfs_read_ptr (Some name) s1 = (r, s2)"
  shows "r = Some (length t) \<and> cache_holds (read_cache s2) (map byte_of t) \<and> fs_rel s2 (F(f \<mapsto> map byte_of t)) \<and> healthy (disk s2)"
proof -
  let ?op = "Write name (text_bytes t) (strlen t)"
  have len: "strlen t = length t" using assms(4) by (rule strlen_cstring)
  have e: "vfs_exec ?op s = (0, s1)" using assms(6) by (simp add: vfs_write_exec)
  have ok: "fs_sound s" "op_ok ?op" using assms(2,3) by (simp_all add: fs_sound_def)
  obtain f' where f': "vfs_key name = Some f'" "fs_rel s1 (op_effect f' ?op F)" "fs_sound s1"
    using vstore.exec_ok [OF assms(1) ok e] by auto
  then have rel: "fs_rel s1 (F(f \<mapsto> map byte_of t))" using assms(5) by (simp add: len text_bytes_eq)
  show ?thesis
    using vstore.fetch_ok [OF rel f'(3) assms(3,5) assms(7)] by (simp add: fs_sound_def)
qed

lemma execute_line_word:
  assumes "cmd = c # cs" "c \<noteq> NUL" "c \<noteq> CHR ''#''" "\<forall>c \<in> set cmd. \<not> is_ws c" "args = [] \<or> \<not> is_ws (hd args)"
    and "length cmd + length args < 127"
  shows "execute_line (cmd @ CHR '' '' # args) w = run_command cmd args w"
proof -
  let ?l = "cmd @ CHR '' '' # args"
  have "\<not> is_ws c" using assms(1,4) by simp
  then have "dropWhile is_ws ?l = ?l" "chd ?l = c" using assms(1) by simp_all
  moreover have "take 127 ?l = ?l" using assms(6) by simp
  ultimately show ?thesis
    using assms(2,3) split_word_cons [OF assms(4,5)] by (simp add: execute_line_def)
qed

lemma try_fs_ok: "f (w_fs w) = (0, s) \<Longrightarrow> try_fs f msg w = w\<lparr>w_fs := s\<rparr>"
  by (simp add: try_fs_def on_fs_def)

lemma byte_of_newline: "byte_of CHR 0x0A = 0x0A"
  by (simp add: byte_of_def)

text \<open>
  Property C28. Writing a file from a script and printing it: when the filesystem takes the line
  \<open>write NAME TEXT\<close>, the line \<open>cat NAME\<close> after it puts exactly the text and a newline on the screen. This goes
  through the parsing of the line, the path layer, the directory, the cluster chain and the drive.
\<close>

theorem script_write_cat:
  assumes "fs_rel (w_fs w) F" and "healthy (disk (w_fs w))"
    and "plain name" and "vfs_key name = Some f"
    and "cstring t" and "t = [] \<or> \<not> is_ws (hd t)" and "CHR 0x0A \<notin> set t" and "length name + length t < 120"
    and "fst (vfs_write (Some name) t (w_fs w)) = 0"
  shows "w_vga (snd (execute_line (''cat '' @ name) (snd (execute_line (''write '' @ name @ '' '' @ t) w)))) =
     vga_puts (t @ newline) (w_vga w)"
proof -
  obtain s1 where s1: "vfs_write (Some name) t (w_fs w) = (0, s1)" using assms(9) by (metis prod.collapse)
  obtain r s2 where r: "vfs_read_ptr (Some name) s1 = (r, s2)" by force
  note nm = plain_facts [OF assms(3)]
  have ne: "name \<noteq> []" using assms(3) by (simp add: plain_def)
  have b: "\<not> is_ws c" if "c \<in> set ''writecat''" for c using that by (auto simp: is_ws_def)
  have rd: "r = Some (length t)" "cache_holds (read_cache s2) (map byte_of t)"
    using write_then_read [OF assms(1,2) nm(1) assms(5,4) s1 r] by simp_all
  have args: "split_word (name @ CHR '' '' # t) = (name, t)" by (rule split_word_cons [OF nm(3) assms(6)])
  have "execute_line (''write'' @ CHR '' '' # (name @ CHR '' '' # t)) w = run_command ''write'' (name @ CHR '' '' # t) w"
    by (rule execute_line_word) (use b nm(2) ne assms(8) in \<open>auto simp: is_ws_def\<close>)
  also have "\<dots> = (0, w\<lparr>w_fs := s1\<rparr>)"
    using args try_fs_ok [of "vfs_write (Some name) t" w s1] s1 by (simp add: run_command_def strcmp_eq_0)
  finally have wr: "snd (execute_line (''write '' @ name @ '' '' @ t) w) = w\<lparr>w_fs := s1\<rparr>" by simp
  have "execute_line (''cat'' @ CHR '' '' # name) (w\<lparr>w_fs := s1\<rparr>) = run_command ''cat'' name (w\<lparr>w_fs := s1\<rparr>)"
    by (rule execute_line_word) (use b nm(2) ne assms(8) in \<open>auto simp: is_ws_def\<close>)
  also have "\<dots> = (0, print_file (length t) (w\<lparr>w_fs := s2\<rparr>))"
    using r rd(1) by (simp add: run_command_def strcmp_eq_0 cat_def on_fs_def)
  finally have c: "snd (execute_line (''cat '' @ name) (w\<lparr>w_fs := s1\<rparr>)) = print_file (length t) (w\<lparr>w_fs := s2\<rparr>)" by simp
  have "cache_text (read_cache s2) = t" using rd(2) assms(5,8) by (intro cache_text_holds) simp_all
  moreover have "read_cache s2 (length t - 1) \<noteq> 0x0A" if "t \<noteq> []"
  proof -
    have "length t - 1 < length t" using that by simp
    then have "read_cache s2 (length t - 1) = byte_of (t ! (length t - 1))" "t ! (length t - 1) \<noteq> CHR 0x0A"
      using rd(2) assms(7) by (simp_all add: cache_holds_def) (metis nth_mem)
    then show ?thesis by (metis byte_of_inject byte_of_newline)
  qed
  ultimately have "print_file (length t) (w\<lparr>w_fs := s2\<rparr>) = print newline (print t (w\<lparr>w_fs := s2\<rparr>))"
    by (cases "t = []") (simp_all add: print_file_def Let_def)
  then show ?thesis unfolding wr c by (simp add: print_append) (simp add: print_def)
qed

theorem script_write_cat_witness:
  "w_vga (snd (execute_line (''cat '' @ ''/a.txt'') (snd (execute_line (''write '' @ ''/a.txt'' @ '' '' @ ''hi'')
     \<lparr>w_fs = fs_init blank_machine, w_vga = text_screen\<rparr>)))) = vga_puts (''hi'' @ newline) text_screen"
proof -
  have "fst (fs_write_raw ''a.txt'' (text_bytes ''hi'') 2 (fs_init blank_machine)) = 0"
    using booted_space by (intro write_raw_total [OF booted(1,4) key_a]) simp_all
  then have "fst (vfs_write (Some ''/a.txt'') ''hi'' (fs_init blank_machine)) = 0"
    using vfs_key_a(1) by (simp add: vfs_write_def fs_write_def numeral_2_eq_2)
  moreover have "plain ''/a.txt''" by (simp add: plain_def is_ws_def)
  ultimately show ?thesis
    using script_write_cat [of "\<lparr>w_fs = fs_init blank_machine, w_vga = text_screen\<rparr>" Map.empty "''/a.txt''" "''A       TXT''" "''hi''"]
      booted(1,4) vfs_key_a(2) by (simp add: is_ws_def)
qed

end
