(* ===== verification/Lang.thy ===== *)
theory Lang
  imports Vga Keyboard Memory "HOL-Library.Signed_Division"
begin

text \<open>
  The small Forth, \<open>kernel/lang.c\<close>: a stack of 128 numbers, the words that work on it, and the loop
  that reads lines and runs their words. Screen output is a transcript and the keys are those
  \<open>keyboard_getchar\<close> will return.

  The array machine is shown to implement a machine on lists, and the postfix form of an expression to
  leave its value on the stack.
\<close>

subsection \<open>The machine\<close>

abbreviation (input) STACK_MAX :: nat where "STACK_MAX \<equiv> 128"
abbreviation (input) LANG_LINE :: nat where "LANG_LINE \<equiv> 96"

record lang =
  l_stack :: "nat \<Rightarrow> i32"
  l_sp :: nat
  l_out :: string
  l_keys :: string

text \<open>What a word leads to: the next one, the end of the session, or a division trap.\<close>

datatype forth = Next lang | Bye lang | Trap | Waiting | Overflow

definition pop :: "lang \<Rightarrow> (i32 \<times> lang) option" where
  "pop s = (if l_sp s \<le> 0 then None else Some (l_stack s (l_sp s - 1), s\<lparr>l_sp := l_sp s - 1\<rparr>))"

definition push :: "i32 \<Rightarrow> lang \<Rightarrow> int \<times> lang" where
  "push v s =
     (if l_sp s \<ge> STACK_MAX then (- 1, s)
      else (0, s\<lparr>l_stack := (l_stack s)(l_sp s := v), l_sp := l_sp s + 1\<rparr>))"

fun digits_only :: "string \<Rightarrow> bool" where
  "digits_only [] = True"
| "digits_only (c # s) = (if ord c < 48 \<or> ord c > 57 then False else digits_only s)"

definition is_number :: "string \<Rightarrow> bool" where
  "is_number s =
     (let s = (if chd s = CHR ''-'' \<or> chd s = CHR ''+'' then tl s else s) in
      if s = [] then False else digits_only s)"

definition tell :: "string \<Rightarrow> lang \<Rightarrow> lang" where
  "tell t s = s\<lparr>l_out := l_out s @ t\<rparr>"

definition line_of :: "string \<Rightarrow> string" where
  "line_of t = t @ [CHR 0x0A]"

definition print_stack :: "lang \<Rightarrow> lang" where
  "print_stack s =
     tell (''<'' @ dec_text (word_of_nat (l_sp s)) @ ''> '' @
       concat (map (\<lambda>i. dec_text (l_stack s i) @ '' '') [0..<l_sp s]) @ [CHR 0x0A]) s"

definition blank :: "char \<Rightarrow> bool" where
  "blank c \<longleftrightarrow> c = CHR '' '' \<or> c = CHR 0x09"

definition next_tok :: "string \<Rightarrow> (string \<times> string) option" where
  "next_tok p =
     (let p = dropWhile blank p in
      if chd p = NUL then None
      else let rest = dropWhile (\<lambda>c. c \<noteq> NUL \<and> \<not> blank c) p in
        Some (takeWhile (\<lambda>c. c \<noteq> NUL \<and> \<not> blank c) p, if chd rest \<noteq> NUL then tl rest else rest))"

text \<open>\<open>pop(&b) || pop(&a)\<close>: when only one number is there it is taken and the word fails.\<close>

definition binary :: "(i32 \<Rightarrow> i32 \<Rightarrow> lang \<Rightarrow> forth) \<Rightarrow> lang \<Rightarrow> forth" where
  "binary f s =
     (case pop s of
        None \<Rightarrow> Next (tell (line_of ''stack underflow'') s)
      | Some (b, s) \<Rightarrow>
          (case pop s of
             None \<Rightarrow> Next (tell (line_of ''stack underflow'') s)
           | Some (a, s) \<Rightarrow> f a b s))"

definition divide :: "i32 \<Rightarrow> i32 \<Rightarrow> i32 option" where
  "divide a b = (if a = 0x80000000 \<and> b = - 1 then None else Some (word_of_int (sint a sdiv sint b)))"

definition word_div :: "i32 \<Rightarrow> i32 \<Rightarrow> lang \<Rightarrow> forth" where
  "word_div a b s =
     (if b = 0 then Next (snd (push b (snd (push a (tell (line_of ''div by zero'') s)))))
      else case divide a b of None \<Rightarrow> Trap | Some v \<Rightarrow> Next (snd (push v s)))"

definition word_dup :: "lang \<Rightarrow> lang" where
  "word_dup s =
     (if l_sp s \<le> 0 then tell (line_of ''stack error'') s
      else case push (l_stack s (l_sp s - 1)) s of (r, s) \<Rightarrow> if r \<noteq> 0 then tell (line_of ''stack error'') s else s)"

definition word_swap :: "lang \<Rightarrow> lang" where
  "word_swap s =
     (if l_sp s < 2 then tell (line_of ''stack underflow'') s
      else let t = l_stack s (l_sp s - 1); st = (l_stack s)(l_sp s - 1 := l_stack s (l_sp s - 2)) in
        s\<lparr>l_stack := st(l_sp s - 2 := t)\<rparr>)"

definition run_word :: "heap \<Rightarrow> string \<Rightarrow> lang \<Rightarrow> forth" where
  "run_word h tok s =
     (if strcmp tok ''bye'' = 0 \<or> strcmp tok ''exit'' = 0 then Bye (tell (line_of ''Leaving forth'') s)
      else if strcmp tok ''+'' = 0 then binary (\<lambda>a b s. Next (snd (push (a + b) s))) s
      else if strcmp tok ''-'' = 0 then binary (\<lambda>a b s. Next (snd (push (a - b) s))) s
      else if strcmp tok ''*'' = 0 then binary (\<lambda>a b s. Next (snd (push (a * b) s))) s
      else if strcmp tok ''/'' = 0 then binary word_div s
      else if strcmp tok ''dup'' = 0 then Next (word_dup s)
      else if strcmp tok ''drop'' = 0 then
        Next (case pop s of None \<Rightarrow> tell (line_of ''stack underflow'') s | Some (v, s) \<Rightarrow> s)
      else if strcmp tok ''swap'' = 0 then Next (word_swap s)
      else if strcmp tok ''.'' = 0 then
        Next (case pop s of None \<Rightarrow> tell (line_of ''stack underflow'') s | Some (v, s) \<Rightarrow> tell (line_of (dec_text v)) s)
      else if strcmp tok ''.s'' = 0 then Next (print_stack s)
      else if strcmp tok ''mem'' = 0 then Next (tell (line_of (''heap used: '' @ dec_text (memory_heap_used h) @ '' bytes'')) s)
      else if strcmp tok ''clear'' = 0 then Next (s\<lparr>l_sp := 0\<rparr>)
      else if strcmp tok ''words'' = 0 then Next (tell (line_of ''+ - * / dup drop swap . .s mem clear words bye'') s)
      else if is_number tok then
        Next (case push (atoi tok) s of (r, s) \<Rightarrow> if r \<noteq> 0 then tell (line_of ''stack full'') s else s)
      else Next (tell (line_of (''unknown word: '' @ tok)) s))"

lemma dropWhile_length_less: "chd (dropWhile blank p) \<noteq> NUL \<Longrightarrow> next_tok p = Some (t, p') \<Longrightarrow> length p' < length p"
proof -
  assume n: "chd (dropWhile blank p) \<noteq> NUL" and t: "next_tok p = Some (t, p')"
  obtain c q where q: "dropWhile blank p = c # q" using n by (cases "dropWhile blank p") auto
  have "\<not> blank c" using q by (metis dropWhile_eq_Cons_conv)
  then have "length (dropWhile (\<lambda>c. c \<noteq> NUL \<and> \<not> blank c) (c # q)) \<le> length q"
    using n q length_dropWhile_le [of "\<lambda>c. c \<noteq> NUL \<and> \<not> blank c" q] by simp
  moreover have "length (c # q) \<le> length p" using length_dropWhile_le [of blank p] q by simp
  ultimately show ?thesis using t n q by (auto simp: next_tok_def Let_def split: if_splits)
qed

lemma next_tok_length: "next_tok p = Some (t, p') \<Longrightarrow> length p' < length p"
  by (rule dropWhile_length_less) (auto simp: next_tok_def Let_def split: if_splits)

function run_line :: "heap \<Rightarrow> string \<Rightarrow> lang \<Rightarrow> forth" where
  "run_line h cur s =
     (case next_tok cur of
        None \<Rightarrow> Next s
      | Some (tok, cur) \<Rightarrow> (case run_word h tok s of Next s \<Rightarrow> run_line h cur s | r \<Rightarrow> r))"
  by pat_completeness auto
termination by (relation "measure (\<lambda>(h, cur, s). length cur)") (auto dest: next_tok_length)

declare run_line.simps [simp del]

text \<open>The loop of \<open>lang_repl\<close>, for \<open>n\<close> lines.\<close>

fun repl_loop :: "heap \<Rightarrow> nat \<Rightarrow> lang \<Rightarrow> forth" where
  "repl_loop h 0 s = Waiting"
| "repl_loop h (Suc n) s =
     (case keyboard_readline LANG_LINE (replicate LANG_LINE NUL) (l_keys s) of
        None \<Rightarrow> Waiting
      | Some (Inl _) \<Rightarrow> Overflow
      | Some (Inr (line, echo, keys)) \<Rightarrow>
          (case run_line h (takeWhile (\<lambda>c. c \<noteq> NUL) line) (tell (''forth> '' @ echo) s\<lparr>l_keys := keys\<rparr>) of
             Next s \<Rightarrow> repl_loop h n s | r \<Rightarrow> r))"

definition lang_repl :: "heap \<Rightarrow> nat \<Rightarrow> lang \<Rightarrow> forth" where
  "lang_repl h n s =
     repl_loop h n (tell (CHR 0x0A # line_of ''Tiny Forth (interim for MicroPython prep)'' @
       line_of (line_of ''Words: + - * / dup drop swap . .s mem clear words bye'')) (s\<lparr>l_sp := 0\<rparr>))"

subsection \<open>The machine on lists\<close>

text \<open>The stack, its top first; \<open>forth_ok\<close> says it is inside the array.\<close>

definition stack_of :: "lang \<Rightarrow> i32 list" where
  "stack_of s = rev (map (l_stack s) [0..<l_sp s])"

definition forth_ok :: "lang \<Rightarrow> bool" where
  "forth_ok s \<longleftrightarrow> l_sp s \<le> STACK_MAX"

lemma stack_of_simps [simp]:
  "length (stack_of s) = l_sp s" "stack_of (tell t s) = stack_of s" "l_sp (tell t s) = l_sp s"
  "forth_ok (tell t s) = forth_ok s"
  by (simp_all add: stack_of_def tell_def forth_ok_def)

lemma pop_spec: "pop s = (case stack_of s of [] \<Rightarrow> None | v # st \<Rightarrow> Some (v, s\<lparr>l_sp := l_sp s - 1\<rparr>))"
  by (cases "l_sp s") (simp_all add: pop_def stack_of_def)

lemma stack_of_pop: "stack_of s = v # st \<Longrightarrow> stack_of (s\<lparr>l_sp := l_sp s - 1\<rparr>) = st"
  by (cases "l_sp s") (auto simp: stack_of_def)

lemma push_spec:
  "stack_of (snd (push v s)) = (if length (stack_of s) < STACK_MAX then v # stack_of s else stack_of s)"
  "fst (push v s) = (if length (stack_of s) < STACK_MAX then 0 else - 1)"
  "forth_ok s \<Longrightarrow> forth_ok (snd (push v s))"
  by (auto simp: push_def stack_of_def forth_ok_def)

text \<open>Reference: a word on the list, or \<^const>\<open>None\<close> for what ends the session.\<close>

definition l_push :: "i32 \<Rightarrow> i32 list \<Rightarrow> i32 list" where
  "l_push v st = (if length st < STACK_MAX then v # st else st)"

fun l_binary :: "(i32 \<Rightarrow> i32 \<Rightarrow> i32 list \<Rightarrow> i32 list option) \<Rightarrow> i32 list \<Rightarrow> i32 list option" where
  "l_binary f [] = Some []"
| "l_binary f [b] = Some []"
| "l_binary f (b # a # st) = f a b st"

definition l_word :: "string \<Rightarrow> i32 list \<Rightarrow> i32 list option" where
  "l_word tok st =
     (if tok = ''bye'' \<or> tok = ''exit'' then None
      else if tok = ''+'' then l_binary (\<lambda>a b st. Some ((a + b) # st)) st
      else if tok = ''-'' then l_binary (\<lambda>a b st. Some ((a - b) # st)) st
      else if tok = ''*'' then l_binary (\<lambda>a b st. Some ((a * b) # st)) st
      else if tok = ''/'' then
        l_binary (\<lambda>a b st. if b = 0 then Some (b # a # st) else map_option (\<lambda>v. v # st) (divide a b)) st
      else if tok = ''dup'' then Some (case st of [] \<Rightarrow> [] | v # _ \<Rightarrow> l_push v st)
      else if tok = ''drop'' \<or> tok = ''.'' then Some (tl st)
      else if tok = ''swap'' then Some (case st of b # a # r \<Rightarrow> a # b # r | _ \<Rightarrow> st)
      else if tok = ''clear'' then Some []
      else if tok \<in> {''.s'', ''mem'', ''words''} then Some st
      else if is_number tok then Some (l_push (atoi tok) st)
      else Some st)"

definition stack_after :: "forth \<Rightarrow> i32 list option" where
  "stack_after r = (case r of Next s \<Rightarrow> Some (stack_of s) | _ \<Rightarrow> None)"

definition stays_ok :: "forth \<Rightarrow> bool" where
  "stays_ok r \<longleftrightarrow> (\<forall>s. r = Next s \<longrightarrow> forth_ok s)"

lemma stack_cases:
  obtains "stack_of s = []" "pop s = None"
  | b st where "stack_of s = b # st" "pop s = Some (b, s\<lparr>l_sp := l_sp s - 1\<rparr>)" "stack_of (s\<lparr>l_sp := l_sp s - 1\<rparr>) = st"
proof (cases "stack_of s")
  case Nil
  then show thesis using that(1) pop_spec [of s] by simp
next
  case (Cons b st)
  then show thesis using that(2) pop_spec [of s] stack_of_pop [OF Cons] by simp
qed

lemma forth_ok_pop: "forth_ok s \<Longrightarrow> forth_ok (s\<lparr>l_sp := l_sp s - 1\<rparr>)"
  by (simp add: forth_ok_def)

lemma binary_spec:
  assumes ok: "forth_ok s"
    and f: "\<And>a b s'. forth_ok s' \<Longrightarrow> length (stack_of s') + 2 \<le> STACK_MAX \<Longrightarrow>
      stack_after (f a b s') = g a b (stack_of s') \<and> stays_ok (f a b s')"
  shows "stack_after (binary f s) = l_binary g (stack_of s) \<and> stays_ok (binary f s)"
proof (cases s rule: stack_cases)
  case 1
  then show ?thesis using ok by (simp add: binary_def stack_after_def stays_ok_def)
next
  case (2 b st)
  let ?s = "s\<lparr>l_sp := l_sp s - 1\<rparr>"
  have ok1: "forth_ok ?s" using ok by (rule forth_ok_pop)
  show ?thesis
  proof (cases ?s rule: stack_cases)
    case 1
    then show ?thesis using 2 ok1 by (simp add: binary_def stack_after_def stays_ok_def)
  next
    case two: (2 a r)
    let ?t = "?s\<lparr>l_sp := l_sp ?s - 1\<rparr>"
    have st: "stack_of s = b # a # r" using 2 two by simp
    then have "length r + 2 \<le> STACK_MAX" using ok stack_of_simps(1) [of s] unfolding forth_ok_def by simp
    then have "length (stack_of ?t) + 2 \<le> STACK_MAX" by (simp only: two(3))
    from f [OF forth_ok_pop [OF ok1] this, of a b]
    have "stack_after (f a b ?t) = g a b r \<and> stays_ok (f a b ?t)" by (simp only: two(3))
    moreover have "binary f s = f a b ?t" using 2(2) two(2) by (simp add: binary_def)
    ultimately show ?thesis by (simp add: st)
  qed
qed

lemma push_after:
  "forth_ok s \<Longrightarrow> length (stack_of s) < STACK_MAX \<Longrightarrow>
     stack_after (Next (snd (push v s))) = Some (v # stack_of s) \<and> stays_ok (Next (snd (push v s)))"
  by (simp add: stack_after_def stays_ok_def push_spec)

lemma word_div_spec:
  assumes "forth_ok s" "length (stack_of s) + 2 \<le> STACK_MAX"
  shows "stack_after (word_div a b s) =
     (if b = 0 then Some (b # a # stack_of s) else map_option (\<lambda>v. v # stack_of s) (divide a b)) \<and> stays_ok (word_div a b s)"
proof (cases "b = 0")
  case True
  let ?s = "tell (line_of ''div by zero'') s"
  have "length (stack_of ?s) < STACK_MAX" using assms by simp
  then have p: "stack_of (snd (push a ?s)) = a # stack_of s" "forth_ok (snd (push a ?s))" using assms by (simp_all add: push_spec)
  then have "length (stack_of (snd (push a ?s))) < STACK_MAX" using assms(2) by (simp del: stack_of_simps(1))
  then show ?thesis using push_after [OF p(2)] p(1) True by (simp add: word_div_def)
next
  case False
  then show ?thesis
    using push_after [OF assms(1)] assms(2) by (cases "divide a b") (auto simp: word_div_def stack_after_def stays_ok_def)
qed

lemma dup_spec: "forth_ok s \<Longrightarrow>
  stack_of (word_dup s) = (case stack_of s of [] \<Rightarrow> [] | v # _ \<Rightarrow> l_push v (stack_of s)) \<and> forth_ok (word_dup s)"
proof (cases s rule: stack_cases)
  case 1
  moreover assume "forth_ok s"
  moreover have "l_sp s = 0" using 1 stack_of_simps(1) [of s] by simp
  ultimately show ?thesis by (simp add: word_dup_def)
next
  case (2 b st)
  assume ok: "forth_ok s"
  have sp: "l_sp s \<noteq> 0" "l_stack s (l_sp s - 1) = b" using 2(2) by (auto simp: pop_def split: if_splits)
  obtain r s' where p: "push b s = (r, s')" by force
  have "word_dup s = (if r \<noteq> 0 then tell (line_of ''stack error'') s' else s')" using sp p by (simp add: word_dup_def)
  then show ?thesis using push_spec [where v = b and s = s] p 2(1) ok by (auto simp: l_push_def)
qed

lemma swap_spec: "forth_ok s \<Longrightarrow>
  stack_of (word_swap s) = (case stack_of s of b # a # r \<Rightarrow> a # b # r | _ \<Rightarrow> stack_of s) \<and> forth_ok (word_swap s)"
proof (cases "l_sp s < 2")
  case True
  then have "length (stack_of s) < 2" by simp
  then have "\<nexists>b a r. stack_of s = b # a # r" by (metis length_Cons less_2_cases_iff nat.distinct(1) nat.inject One_nat_def)
  moreover assume "forth_ok s"
  ultimately show ?thesis using True by (auto simp: word_swap_def split: list.splits)
next
  case False
  then obtain n where n: "l_sp s = Suc (Suc n)" by (metis add_2_eq_Suc le_add_diff_inverse not_less)
  assume "forth_ok s"
  moreover have "stack_of s = l_stack s (Suc n) # l_stack s n # rev (map (l_stack s) [0..<n])"
    by (simp add: stack_of_def n)
  ultimately show ?thesis by (auto simp: word_swap_def stack_of_def n forth_ok_def)
qed

lemma pop_tell_spec:
  "stack_of (case pop s of None \<Rightarrow> tell e s | Some (v, s) \<Rightarrow> if p then tell (g v) s else s) = tl (stack_of s)"
  "forth_ok s \<Longrightarrow> forth_ok (case pop s of None \<Rightarrow> tell e s | Some (v, s) \<Rightarrow> if p then tell (g v) s else s)"
proof -
  show "stack_of (case pop s of None \<Rightarrow> tell e s | Some (v, s) \<Rightarrow> if p then tell (g v) s else s) = tl (stack_of s)"
  proof (cases s rule: stack_cases)
    case (2 b st)
    then show ?thesis unfolding 2(2) by (simp only: option.case prod.case stack_of_simps if_distrib [of stack_of] if_cancel list.sel)
  qed simp
  assume ok: "forth_ok s"
  show "forth_ok (case pop s of None \<Rightarrow> tell e s | Some (v, s) \<Rightarrow> if p then tell (g v) s else s)"
  proof (cases s rule: stack_cases)
    case (2 b st)
    then show ?thesis using forth_ok_pop [OF ok] unfolding 2(2) by (simp only: option.case prod.case stack_of_simps split: if_splits) simp
  qed (use ok in simp)
qed

lemmas pop_specs = pop_tell_spec [where p = True, simplified if_True] pop_tell_spec [where p = False, simplified if_False]

lemma push_number_spec:
  "stack_of (case push v s of (r, s) \<Rightarrow> if r \<noteq> 0 then tell e s else s) = l_push v (stack_of s)"
  "forth_ok s \<Longrightarrow> forth_ok (case push v s of (r, s) \<Rightarrow> if r \<noteq> 0 then tell e s else s)"
  using push_spec [where v = v and s = s] by (auto simp: l_push_def split: prod.splits)

lemma word_next: "stack_after (Next s) = Some (stack_of s)" "stays_ok (Next s) = forth_ok s"
  "stack_after (Bye s) = None" "stays_ok (Bye s)"
  by (simp_all add: stack_after_def stays_ok_def)

lemma print_stack_spec: "stack_of (print_stack s) = stack_of s" "forth_ok (print_stack s) = forth_ok s"
  by (simp_all add: print_stack_def)

lemma clear_spec: "stack_of (s\<lparr>l_sp := 0\<rparr>) = []" "forth_ok (s\<lparr>l_sp := 0\<rparr>)"
  by (simp_all add: stack_of_def forth_ok_def)

lemma run_word_spec:
  assumes ok: "forth_ok s" and c: "cstring tok"
  shows "stack_after (run_word h tok s) = l_word tok (stack_of s) \<and> stays_ok (run_word h tok s)"
proof -
  have eq: "strcmp tok w = 0 \<longleftrightarrow> tok = w" if "cstring w" for w using strcmp_eq_0 [OF c that] .
  have bin: "stack_after (binary (\<lambda>a b s. Next (snd (push (f a b) s))) s) = l_binary (\<lambda>a b st. Some (f a b # st)) (stack_of s) \<and>
      stays_ok (binary (\<lambda>a b s. Next (snd (push (f a b) s))) s)" for f
    by (rule binary_spec [OF ok]) (use push_after in \<open>auto\<close>)
  have dv: "stack_after (binary word_div s) =
      l_binary (\<lambda>a b st. if b = 0 then Some (b # a # st) else map_option (\<lambda>v. v # st) (divide a b)) (stack_of s) \<and>
      stays_ok (binary word_div s)"
    by (rule binary_spec [OF ok]) (rule word_div_spec)
  note specs = bin dv dup_spec [OF ok] swap_spec [OF ok] pop_specs push_number_spec word_next print_stack_spec clear_spec
  show ?thesis
    unfolding run_word_def l_word_def
    by (simp add: eq specs ok)
qed

subsection \<open>Lines of words\<close>

fun l_words :: "string list \<Rightarrow> i32 list \<Rightarrow> i32 list option" where
  "l_words [] st = Some st"
| "l_words (w # ws) st = (case l_word w st of None \<Rightarrow> None | Some st \<Rightarrow> l_words ws st)"

definition unwords :: "string list \<Rightarrow> string" where
  "unwords ws = concat (map (\<lambda>w. w @ '' '') ws)"

definition is_word :: "string \<Rightarrow> bool" where
  "is_word w \<longleftrightarrow> w \<noteq> [] \<and> (\<forall>c \<in> set w. c \<noteq> NUL \<and> \<not> blank c)"

lemma is_word_cstring: "is_word w \<Longrightarrow> cstring w"
  by (auto simp: is_word_def cstring_def)

lemma next_tok_word:
  assumes "is_word w"
  shows "next_tok (w @ CHR '' '' # rest) = Some (w, rest)"
proof -
  obtain c q where w: "w = c # q" using assms by (cases w) (auto simp: is_word_def)
  have c: "c \<noteq> NUL" "\<not> blank c" using assms w by (auto simp: is_word_def)
  have b: "blank CHR '' ''" by (simp add: blank_def)
  have "takeWhile (\<lambda>c. c \<noteq> NUL \<and> \<not> blank c) (w @ CHR '' '' # rest) = w"
    "dropWhile (\<lambda>c. c \<noteq> NUL \<and> \<not> blank c) (w @ CHR '' '' # rest) = CHR '' '' # rest"
    using assms b by (auto simp: is_word_def takeWhile_append2 dropWhile_append2)
  then show ?thesis using c w by (simp add: next_tok_def)
qed

lemma next_tok_Nil: "next_tok [] = None"
  by (simp add: next_tok_def)

lemma run_words:
  "\<forall>w \<in> set ws. is_word w \<Longrightarrow> forth_ok s \<Longrightarrow> l_words ws (stack_of s) = Some st \<Longrightarrow>
     \<exists>s'. run_line h (unwords ws) s = Next s' \<and> stack_of s' = st \<and> forth_ok s'"
proof (induction ws arbitrary: s)
  case Nil
  then show ?case by (simp add: unwords_def run_line.simps next_tok_Nil)
next
  case (Cons w ws)
  have w: "is_word w" using Cons.prems(1) by simp
  obtain st1 where st1: "l_word w (stack_of s) = Some st1" "l_words ws st1 = Some st"
    using Cons.prems(3) by (auto split: option.splits)
  have "stack_after (run_word h w s) = Some st1" "stays_ok (run_word h w s)"
    using run_word_spec [OF Cons.prems(2) is_word_cstring [OF w], of h] st1 by simp_all
  then obtain s1 where s1: "run_word h w s = Next s1" "stack_of s1 = st1" "forth_ok s1"
    by (cases "run_word h w s") (auto simp: stack_after_def stays_ok_def)
  have "run_line h (unwords (w # ws)) s = run_line h (unwords ws) s1"
    by (subst run_line.simps) (simp add: unwords_def next_tok_word [OF w] s1(1))
  then show ?case using Cons.IH [of s1] Cons.prems(1) s1 st1 by simp
qed

subsection \<open>Postfix expressions\<close>

datatype operation = Plus | Minus | Times | Over

datatype tree = Num i32 | Op operation tree tree

fun op_word :: "operation \<Rightarrow> string" where
  "op_word Plus = ''+''" | "op_word Minus = ''-''" | "op_word Times = ''*''" | "op_word Over = ''/''"

fun op_value :: "operation \<Rightarrow> i32 \<Rightarrow> i32 \<Rightarrow> i32 option" where
  "op_value Plus a b = Some (a + b)"
| "op_value Minus a b = Some (a - b)"
| "op_value Times a b = Some (a * b)"
| "op_value Over a b = (if b = 0 then None else divide a b)"

fun tree_value :: "tree \<Rightarrow> i32 option" where
  "tree_value (Num v) = Some v"
| "tree_value (Op f a b) =
     (case (tree_value a, tree_value b) of (Some x, Some y) \<Rightarrow> op_value f x y | _ \<Rightarrow> None)"

fun postfix_words :: "tree \<Rightarrow> string list" where
  "postfix_words (Num v) = [signed_text v]"
| "postfix_words (Op f a b) = postfix_words a @ postfix_words b @ [op_word f]"

fun slots :: "tree \<Rightarrow> nat" where
  "slots (Num v) = 1"
| "slots (Op f a b) = max (slots a) (1 + slots b)"

lemma digits_only_dec: "digits_only s = list_all is_dec s"
  by (induction s) (auto simp: is_dec_def)

lemma signed_text_facts:
  "is_number (signed_text v)" "atoi (signed_text v) = v" "is_word (signed_text v)"
  "c \<in> set (signed_text v) \<Longrightarrow> is_dec c \<or> c = CHR ''-''" "\<exists>c \<in> set (signed_text v). is_dec c"
proof -
  note d = dec_text_facts [of v] and n = dec_text_facts [of "- v"]
  have hd: "is_dec (chd t) \<and> t \<noteq> []" if "list_all is_dec t" "t \<noteq> []" for t using that by (cases t) auto
  have nd: "\<not> blank c" "c \<noteq> NUL" if "is_dec c \<or> c = CHR ''-''" for c
    using that by (auto simp: is_dec_def blank_def)
  show dec: "c \<in> set (signed_text v) \<Longrightarrow> is_dec c \<or> c = CHR ''-''" for c
    using d(1) n(1) by (auto simp: signed_text_def list_all_iff split: if_splits)
  show "is_word (signed_text v)"
    using dec nd d(2) by (auto simp: is_word_def signed_text_def)
  show "\<exists>c \<in> set (signed_text v). is_dec c"
    using d(1,2) n(1,2) hd by (auto simp: signed_text_def list_all_iff) (meson last_in_set)+
  have sign: "chd (dec_text v) \<noteq> CHR ''-''" "chd (dec_text v) \<noteq> CHR ''+''"
    using hd [OF d(1,2)] by (auto simp: is_dec_def)
  show "is_number (signed_text v)"
    using d n sign by (auto simp: is_number_def signed_text_def digits_only_dec)
  have "atoi ([] @ CHR ''-'' # dec_text (- v) @ []) = - word_of_nat (unat (- v))"
    using n atoi_negative [of "[]" "dec_text (- v)" "[]"] by simp
  moreover have "atoi ([] @ dec_text v @ []) = word_of_nat (unat v)"
    using d atoi_unsigned [of "[]" "dec_text v" "[]"] by simp
  ultimately show "atoi (signed_text v) = v" by (simp add: signed_text_def)
qed

lemma l_word_number: "length st < STACK_MAX \<Longrightarrow> l_word (signed_text v) st = Some (v # st)"
proof -
  assume len: "length st < STACK_MAX"
  have no: "signed_text v \<noteq> w" if "\<forall>c \<in> set w. \<not> is_dec c" for w
    using signed_text_facts(5) [of v] that by auto
  show ?thesis
    using signed_text_facts(1,2) [of v] len
    by (simp add: l_word_def no is_dec_def l_push_def)
qed

lemma l_word_op: "op_value f x y = Some v \<Longrightarrow> l_word (op_word f) (y # x # st) = Some (v # st)"
  by (cases f) (auto simp: l_word_def split: if_splits)

lemma l_words_append: "l_words (xs @ ys) st = (case l_words xs st of None \<Rightarrow> None | Some st \<Rightarrow> l_words ys st)"
  by (induction xs arbitrary: st) (auto split: option.splits)

lemma postfix_words_value:
  "tree_value t = Some v \<Longrightarrow> length st + slots t \<le> STACK_MAX \<Longrightarrow> l_words (postfix_words t) st = Some (v # st)"
proof (induction t arbitrary: v st)
  case (Num v)
  then show ?case by (simp add: l_word_number)
next
  case (Op f a b)
  obtain x y where xy: "tree_value a = Some x" "tree_value b = Some y" "op_value f x y = Some v"
    using Op.prems(1) by (auto split: option.splits)
  have "l_words (postfix_words a) st = Some (x # st)" "l_words (postfix_words b) (x # st) = Some (y # x # st)"
    using Op.IH xy Op.prems(2) by simp_all
  then show ?case using l_word_op [OF xy(3)] by (simp add: l_words_append)
qed

lemma postfix_words_ok: "w \<in> set (postfix_words t) \<Longrightarrow> is_word w"
proof (induction t)
  case (Op f a b)
  have "is_word (op_word f)" by (cases f) (simp_all add: is_word_def blank_def)
  then show ?case using Op by auto
qed (simp add: signed_text_facts)

text \<open>
  Property C25. Postfix expressions: a line that holds the postfix form of an expression over \<open>+ - * /\<close> with
  its numbers written in decimal leaves the value of the expression, in 32-bit arithmetic, on top of
  the stack it found, whenever the expression has a value and the stack has room for it.
\<close>

theorem forth_postfix:
  assumes "forth_ok s" and "l_sp s + slots t \<le> STACK_MAX" and "tree_value t = Some v"
  shows "\<exists>s'. run_line h (unwords (postfix_words t)) s = Next s' \<and> stack_of s' = v # stack_of s"
proof -
  have "l_words (postfix_words t) (stack_of s) = Some (v # stack_of s)"
    using postfix_words_value [OF assms(3)] assms(2) by simp
  then show ?thesis using run_words [OF _ assms(1)] postfix_words_ok by blast
qed

definition empty_forth :: lang where
  "empty_forth = \<lparr>l_stack = (\<lambda>_. 0), l_sp = 0, l_out = [], l_keys = []\<rparr>"

theorem forth_postfix_witness:
  "\<exists>s'. run_line \<lparr>heap_start = 0, heap_end = 0, heap_curr = 0\<rparr> (unwords (postfix_words (Op Over (Op Minus (Num 3) (Num 10)) (Num 2)))) empty_forth = Next s' \<and>
     stack_of s' = [- 3]"
proof -
  have "forth_ok empty_forth" "l_sp empty_forth = 0" "stack_of empty_forth = []"
    by (simp_all add: forth_ok_def empty_forth_def stack_of_def)
  moreover have "tree_value (Op Over (Op Minus (Num 3) (Num 10)) (Num 2)) = Some (- 3)"
    by code_simp
  ultimately show ?thesis
    using forth_postfix [of empty_forth "Op Over (Op Minus (Num 3) (Num 10)) (Num 2)" "- 3"] by simp
qed

text \<open>An operation on a stack with a single number reports an underflow and loses the number.\<close>

lemma underflow_loses_operand:
  assumes "stack_of s = [v]"
  shows "run_word h ''+'' s = Next (tell (line_of ''stack underflow'') (s\<lparr>l_sp := 0\<rparr>))"
proof -
  have "l_sp s = 1" using stack_of_simps(1) [of s] assms by simp
  then show ?thesis by (simp add: run_word_def binary_def pop_def strcmp_eq_0)
qed

end
