(* ===== verification/Cospy.thy ===== *)
theory Cospy
  imports Vga Vfs Keyboard "HOL-Library.Signed_Division"
begin

text \<open>
  The interpreter CosyPy, \<open>kernel/cospy.c\<close>: tokenizer, variables, the recursive-descent expression
  evaluator, the statements, and the two drivers (the prompt and script files).

  The state holds what the C code keeps in static variables, the text printed so far (every character
  goes to \<open>vga_putc\<close>, see \<open>Vga\<close>) and the characters \<open>keyboard_getchar\<close> will return. \<open>cursor\<close> is the
  text from the pointer on. Arithmetic on \<open>int32_t\<close> wraps around. What the C code does not survive is
  an error value; \<open>Out_of_fuel\<close> says that the recursion depth given to the model was too small.
\<close>

subsection \<open>Data\<close>

datatype cospy_error = Out_of_fuel | Buffer_overflow | Divide_error | Input_wait

datatype token = TOK_EOF | TOK_NUMBER | TOK_STRING | TOK_IDENT | TOK_PLUS | TOK_MINUS | TOK_STAR | TOK_SLASH
  | TOK_PERCENT | TOK_EQ | TOK_EQEQ | TOK_NE | TOK_LT | TOK_GT | TOK_LE | TOK_GE | TOK_LPAREN | TOK_RPAREN
  | TOK_COLON | TOK_COMMA | TOK_AND | TOK_OR | TOK_NOT

record variable =
  v_name :: string
  v_value :: i32

record func =
  f_name :: string
  f_lines :: "string list"

text \<open>
  \<open>variables\<close> and \<open>funcs\<close> are the parts of the arrays in use, so their lengths are \<open>var_count\<close>,
  \<open>func_count\<close> and the \<open>line_count\<close> of each function.
\<close>

record cospy =
  variables :: "variable list"
  funcs :: "func list"
  cursor :: string
  current_token :: token
  token_number :: i32
  token_string :: string
  token_ident :: string
  in_if_false :: bool
  if_depth :: nat
  while_depth :: nat
  while_cond :: string
  defining_function :: bool
  current_func_idx :: nat
  out :: string
  keys :: string

abbreviation (input) COSPY_LINE_MAX :: nat where "COSPY_LINE_MAX \<equiv> 128"
abbreviation (input) COSPY_MAX_VARS :: nat where "COSPY_MAX_VARS \<equiv> 64"
abbreviation (input) COSPY_MAX_FUNCS :: nat where "COSPY_MAX_FUNCS \<equiv> 16"
abbreviation (input) COSPY_MAX_FUNC_LINES :: nat where "COSPY_MAX_FUNC_LINES \<equiv> 32"

definition andthen :: "'e + 'a \<Rightarrow> ('a \<Rightarrow> 'e + 'b) \<Rightarrow> 'e + 'b" where
  "andthen r f = (case r of Inl e \<Rightarrow> Inl e | Inr a \<Rightarrow> f a)"

lemma andthen_simps [simp]: "andthen (Inl e) f = Inl e" "andthen (Inr a) f = f a"
  by (simp_all add: andthen_def)

definition say :: "string \<Rightarrow> cospy \<Rightarrow> cospy" where
  "say t s = s\<lparr>out := out s @ t\<rparr>"

subsection \<open>Tokenizer\<close>

definition is_space :: "char \<Rightarrow> bool" where
  "is_space c \<longleftrightarrow> c = CHR '' '' \<or> c = CHR 0x09"

definition skip_whitespace :: "string \<Rightarrow> string" where
  "skip_whitespace t = dropWhile is_space t"

definition is_digit :: "char \<Rightarrow> bool" where
  "is_digit c \<longleftrightarrow> 48 \<le> ord c \<and> ord c \<le> 57"

definition is_alpha :: "char \<Rightarrow> bool" where
  "is_alpha c \<longleftrightarrow> (97 \<le> ord c \<and> ord c \<le> 122) \<or> (65 \<le> ord c \<and> ord c \<le> 90) \<or> c = CHR ''_''"

definition is_alnum :: "char \<Rightarrow> bool" where
  "is_alnum c \<longleftrightarrow> is_alpha c \<or> is_digit c"

fun scan_number :: "i32 \<Rightarrow> string \<Rightarrow> i32 \<times> string" where
  "scan_number n [] = (n, [])"
| "scan_number n (c # t) = (if is_digit c then scan_number (n * 10 + word_of_nat (ord c - 48)) t else (n, c # t))"

text \<open>The loops that fill \<open>token_string\<close> and \<open>token_ident\<close>: at most \<open>k\<close> more characters fit.\<close>

fun scan_while :: "(char \<Rightarrow> bool) \<Rightarrow> nat \<Rightarrow> string \<Rightarrow> string \<times> string" where
  "scan_while p k [] = ([], [])"
| "scan_while p 0 t = ([], t)"
| "scan_while p (Suc k) (c # t) = (if p c then (case scan_while p k t of (w, t') \<Rightarrow> (c # w, t')) else ([], c # t))"

definition keyword :: "string \<Rightarrow> token" where
  "keyword w =
     (if strcmp w ''and'' = 0 then TOK_AND else if strcmp w ''or'' = 0 then TOK_OR
      else if strcmp w ''not'' = 0 then TOK_NOT else TOK_IDENT)"

text \<open>The operators; for the ones that may be followed by \<open>=\<close> both tokens are given.\<close>

definition single_op :: "char \<Rightarrow> token option" where
  "single_op c =
     (if c = CHR ''+'' then Some TOK_PLUS else if c = CHR ''-'' then Some TOK_MINUS
      else if c = CHR ''*'' then Some TOK_STAR else if c = CHR ''/'' then Some TOK_SLASH
      else if c = CHR ''%'' then Some TOK_PERCENT else if c = CHR ''('' then Some TOK_LPAREN
      else if c = CHR '')'' then Some TOK_RPAREN else if c = CHR '':'' then Some TOK_COLON
      else if c = CHR '','' then Some TOK_COMMA else None)"

definition double_op :: "char \<Rightarrow> (token \<times> token) option" where
  "double_op c =
     (if c = CHR ''='' then Some (TOK_EQEQ, TOK_EQ) else if c = CHR ''!'' then Some (TOK_NE, TOK_NOT)
      else if c = CHR ''<'' then Some (TOK_LE, TOK_LT) else if c = CHR ''>'' then Some (TOK_GE, TOK_GT) else None)"

definition operator_token :: "string \<Rightarrow> token \<times> string" where
  "operator_token t =
     (case single_op (chd t) of Some k \<Rightarrow> (k, tl t)
      | None \<Rightarrow> (case double_op (chd t) of
          Some (k2, k1) \<Rightarrow> if chd (tl t) = CHR ''='' then (k2, tl (tl t)) else (k1, tl t)
        | None \<Rightarrow> (TOK_EOF, tl t)))"

definition next_token :: "cospy \<Rightarrow> cospy" where
  "next_token s =
     (let t = skip_whitespace (cursor s); c = chd t in
      if c = NUL \<or> c = CHR ''#'' then s\<lparr>cursor := t, current_token := TOK_EOF\<rparr>
      else if is_digit c \<or> (c = CHR ''-'' \<and> is_digit (cget t 1)) then
        let (n, t') = scan_number 0 (if c = CHR ''-'' then tl t else t) in
        s\<lparr>cursor := t', token_number := n * (if c = CHR ''-'' then - 1 else 1), current_token := TOK_NUMBER\<rparr>
      else if c = CHR 0x22 \<or> c = CHR 0x27 then
        let (w, t') = scan_while (\<lambda>d. d \<noteq> c) 63 (tl t) in
        s\<lparr>cursor := (if chd t' = c then tl t' else t'), token_string := w, current_token := TOK_STRING\<rparr>
      else if is_alpha c then
        let (w, t') = scan_while is_alnum 31 t in
        s\<lparr>cursor := t', token_ident := w, current_token := keyword w\<rparr>
      else let (k, t') = operator_token t in s\<lparr>cursor := t', current_token := k\<rparr>)"

subsection \<open>Variables\<close>

fun var_index :: "string \<Rightarrow> variable list \<Rightarrow> nat option" where
  "var_index name [] = None"
| "var_index name (v # vs) = (if strcmp (v_name v) name = 0 then Some 0 else map_option Suc (var_index name vs))"

definition get_var :: "string \<Rightarrow> cospy \<Rightarrow> i32 option" where
  "get_var name s = map_option (\<lambda>i. v_value (variables s ! i)) (var_index name (variables s))"

text \<open>The name of a variable has room for 16 characters with the terminating zero; \<open>strcpy\<close> does not check.\<close>

definition set_var :: "string \<Rightarrow> i32 \<Rightarrow> cospy \<Rightarrow> cospy_error + cospy" where
  "set_var name value s =
     (case var_index name (variables s) of
        Some i \<Rightarrow> Inr (s\<lparr>variables := (variables s)[i := (variables s ! i)\<lparr>v_value := value\<rparr>]\<rparr>)
      | None \<Rightarrow>
          if length (variables s) \<ge> COSPY_MAX_VARS then Inr s
          else if length name \<ge> 16 then Inl Buffer_overflow
          else Inr (s\<lparr>variables := variables s @ [\<lparr>v_name = name, v_value = value\<rparr>]\<rparr>))"

subsection \<open>Input\<close>

text \<open>
  \<open>keyboard_readline\<close> into a local buffer of \<open>n\<close> bytes; its earlier contents do not show in the line
  (\<open>Keyboard\<close>). When the typed characters do not complete a line the caller waits.
\<close>

definition read_line :: "nat \<Rightarrow> cospy \<Rightarrow> cospy_error + string \<times> cospy" where
  "read_line n s =
     (case keyboard_readline n (replicate n NUL) (keys s) of
        None \<Rightarrow> Inl Input_wait
      | Some (Inl u) \<Rightarrow> Inl Buffer_overflow
      | Some (Inr (buf, echo, rest)) \<Rightarrow> Inr (takeWhile (\<lambda>c. c \<noteq> NUL) buf, (say echo s)\<lparr>keys := rest\<rparr>))"

subsection \<open>Expressions\<close>

text \<open>The measure that every token taken from the text lowers.\<close>

definition pending :: "cospy \<Rightarrow> nat" where
  "pending s = length (cursor s) + (if current_token s = TOK_EOF then 0 else 1)"

lemma scan_number_length: "length (snd (scan_number n t)) \<le> length t"
  by (induction n t rule: scan_number.induct) auto

lemma scan_number_digit: "t \<noteq> [] \<Longrightarrow> is_digit (chd t) \<Longrightarrow> length (snd (scan_number n t)) < length t"
  using scan_number_length by (cases t) (auto simp: le_imp_less_Suc)

lemma scan_while_length: "length (snd (scan_while p k t)) \<le> length t"
  by (induction p k t rule: scan_while.induct) (auto split: prod.splits)

lemma scan_while_less: "t \<noteq> [] \<Longrightarrow> p (chd t) \<Longrightarrow> 0 < k \<Longrightarrow> length (snd (scan_while p k t)) < length t"
  using scan_while_length [of p "k - 1" "tl t"] by (cases t; cases k) (auto split: prod.splits)

lemma operator_token_length: "t \<noteq> [] \<Longrightarrow> length (snd (operator_token t)) < length t"
  by (cases t; cases "tl t") (auto simp: operator_token_def split: option.splits)

lemma skip_whitespace_length: "length (skip_whitespace t) \<le> length t"
  by (simp add: skip_whitespace_def length_dropWhile_le)

lemma next_token_cursor:
  "current_token (next_token s) \<noteq> TOK_EOF \<Longrightarrow> length (cursor (next_token s)) < length (cursor s)"
  "length (cursor (next_token s)) \<le> length (cursor s)"
proof -
  define t where "t = skip_whitespace (cursor s)"
  have t: "length t \<le> length (cursor s)" by (simp add: t_def skip_whitespace_length)
  have "length (cursor (next_token s)) < length t \<or> (current_token (next_token s) = TOK_EOF \<and> length (cursor (next_token s)) \<le> length t)"
  proof (cases "chd t = NUL \<or> chd t = CHR ''#''")
    case True
    then show ?thesis by (auto simp: next_token_def t_def [symmetric])
  next
    case c: False
    then have ne: "t \<noteq> []" by (cases t) auto
    have tl: "length (tl t) < length t" using ne by simp
    consider (num) "is_digit (chd t) \<or> (chd t = CHR ''-'' \<and> is_digit (cget t 1))"
      | (str) "\<not> (is_digit (chd t) \<or> (chd t = CHR ''-'' \<and> is_digit (cget t 1)))" "chd t = CHR 0x22 \<or> chd t = CHR 0x27"
      | (id) "\<not> (is_digit (chd t) \<or> (chd t = CHR ''-'' \<and> is_digit (cget t 1)))" "\<not> (chd t = CHR 0x22 \<or> chd t = CHR 0x27)" "is_alpha (chd t)"
      | (op) "\<not> (is_digit (chd t) \<or> (chd t = CHR ''-'' \<and> is_digit (cget t 1)))" "\<not> (chd t = CHR 0x22 \<or> chd t = CHR 0x27)" "\<not> is_alpha (chd t)"
      by blast
    then show ?thesis
    proof cases
      case num
      have "length (snd (scan_number 0 (if chd t = CHR ''-'' then tl t else t))) < length t"
        using num ne scan_number_digit [of t 0] scan_number_length [of 0 "tl t"] tl le_less_trans by (auto simp: is_digit_def simp del: length_tl)
      then show ?thesis using c num by (auto simp: next_token_def t_def [symmetric] Let_def split: prod.splits)
    next
      case str
      have "length (snd (scan_while (\<lambda>d. d \<noteq> chd t) 63 (tl t))) < length t"
        using scan_while_length [of "\<lambda>d. d \<noteq> chd t" 63 "tl t"] tl by linarith
      then show ?thesis using c str by (auto simp: next_token_def t_def [symmetric] Let_def split: prod.splits)
    next
      case id
      then have "length (snd (scan_while is_alnum 31 t)) < length t" using ne by (intro scan_while_less) (auto simp: is_alnum_def)
      then show ?thesis using c id by (auto simp: next_token_def t_def [symmetric] Let_def split: prod.splits)
    next
      case op
      then show ?thesis using c op operator_token_length [OF ne] by (auto simp: next_token_def t_def [symmetric] Let_def split: prod.splits)
    qed
  qed
  then show "current_token (next_token s) \<noteq> TOK_EOF \<Longrightarrow> length (cursor (next_token s)) < length (cursor s)"
    "length (cursor (next_token s)) \<le> length (cursor s)" using t by auto
qed

lemma next_token_pending: "current_token s \<noteq> TOK_EOF \<Longrightarrow> pending (next_token s) < pending s"
  using next_token_cursor [of s] by (auto simp: pending_def)

lemma next_token_pending_le: "pending (next_token s) \<le> pending s"
  using next_token_cursor [of s] by (auto simp: pending_def)

text \<open>The skipped arguments of a call.\<close>

function skip_args :: "cospy \<Rightarrow> cospy" where
  "skip_args s = (if current_token s = TOK_RPAREN \<or> current_token s = TOK_EOF then s else skip_args (next_token s))"
  by pat_completeness auto
termination
  by (relation "measure pending") (auto simp: next_token_pending)

declare skip_args.simps [simp del]

text \<open>
  The loop all binary levels share: while the token is one of \<open>ops\<close>, take it, parse the operand with
  \<open>sub\<close> and combine. \<open>n\<close> bounds the number of rounds.
\<close>

type_synonym parser = "cospy \<Rightarrow> cospy_error + i32 \<times> cospy"

fun bin_loop :: "token set \<Rightarrow> (token \<Rightarrow> i32 \<Rightarrow> i32 \<Rightarrow> parser) \<Rightarrow> parser \<Rightarrow> nat \<Rightarrow> i32 \<Rightarrow> parser" where
  "bin_loop ops app sub 0 left s = (if current_token s \<in> ops then Inl Out_of_fuel else Inr (left, s))"
| "bin_loop ops app sub (Suc n) left s =
     (if current_token s \<in> ops then
        andthen (sub (next_token s)) (\<lambda>(right, s').
          andthen (app (current_token s) left right s') (\<lambda>(v, s''). bin_loop ops app sub n v s''))
      else Inr (left, s))"

definition bin_level :: "token set \<Rightarrow> (token \<Rightarrow> i32 \<Rightarrow> i32 \<Rightarrow> parser) \<Rightarrow> parser \<Rightarrow> nat \<Rightarrow> parser" where
  "bin_level ops app sub n s = andthen (sub s) (\<lambda>(left, s'). bin_loop ops app sub n left s')"

text \<open>
  Division of the smallest number by -1 raises the processor's divide exception; otherwise division
  rounds towards zero.
\<close>

definition c_div :: "i32 \<Rightarrow> i32 \<Rightarrow> cospy_error + i32" where
  "c_div a b = (if a = 0x80000000 \<and> b = - 1 then Inl Divide_error else Inr (word_of_int (sint a sdiv sint b)))"

definition c_rem :: "i32 \<Rightarrow> i32 \<Rightarrow> cospy_error + i32" where
  "c_rem a b = (if a = 0x80000000 \<and> b = - 1 then Inl Divide_error else Inr (word_of_int (sint a smod sint b)))"

definition of_bool32 :: "bool \<Rightarrow> i32" where
  "of_bool32 b = (if b then 1 else 0)"

definition term_op :: "token \<Rightarrow> i32 \<Rightarrow> i32 \<Rightarrow> parser" where
  "term_op op left right s =
     (if op = TOK_STAR then Inr (left * right, s)
      else if op = TOK_SLASH then
        if right \<noteq> 0 then andthen (c_div left right) (\<lambda>v. Inr (v, s))
        else Inr (0, say (''division by zero'' @ [CHR 0x0A]) s)
      else if right \<noteq> 0 then andthen (c_rem left right) (\<lambda>v. Inr (v, s)) else Inr (0, s))"

definition parse_term :: "parser \<Rightarrow> nat \<Rightarrow> parser" where
  "parse_term primary n s = bin_level {TOK_STAR, TOK_SLASH, TOK_PERCENT} term_op primary n s"

definition additive_op :: "token \<Rightarrow> i32 \<Rightarrow> i32 \<Rightarrow> parser" where
  "additive_op op left right s = (if op = TOK_PLUS then Inr (left + right, s) else Inr (left - right, s))"

definition parse_additive :: "parser \<Rightarrow> nat \<Rightarrow> parser" where
  "parse_additive primary n s = bin_level {TOK_PLUS, TOK_MINUS} additive_op (parse_term primary n) n s"

definition comparison_op :: "token \<Rightarrow> i32 \<Rightarrow> i32 \<Rightarrow> parser" where
  "comparison_op op left right s =
     Inr (of_bool32 (if op = TOK_LT then sint left < sint right else if op = TOK_GT then sint left > sint right
        else if op = TOK_LE then sint left \<le> sint right else if op = TOK_GE then sint left \<ge> sint right
        else if op = TOK_EQEQ then left = right else left \<noteq> right), s)"

definition parse_comparison :: "parser \<Rightarrow> nat \<Rightarrow> parser" where
  "parse_comparison primary n s =
     bin_level {TOK_LT, TOK_GT, TOK_LE, TOK_GE, TOK_EQEQ, TOK_NE} comparison_op (parse_additive primary n) n s"

definition and_op :: "token \<Rightarrow> i32 \<Rightarrow> i32 \<Rightarrow> parser" where
  "and_op op left right s = Inr (of_bool32 (left \<noteq> 0 \<and> right \<noteq> 0), s)"

definition parse_and :: "parser \<Rightarrow> nat \<Rightarrow> parser" where
  "parse_and primary n s = bin_level {TOK_AND} and_op (parse_comparison primary n) n s"

definition or_op :: "token \<Rightarrow> i32 \<Rightarrow> i32 \<Rightarrow> parser" where
  "or_op op left right s = Inr (of_bool32 (left \<noteq> 0 \<or> right \<noteq> 0), s)"

definition parse_or :: "parser \<Rightarrow> nat \<Rightarrow> parser" where
  "parse_or primary n s = bin_level {TOK_OR} or_op (parse_and primary n) n s"

text \<open>The arguments of the call are skipped; only \<open>input\<close> has an effect.\<close>

definition parse_call :: "string \<Rightarrow> parser" where
  "parse_call name s =
     (let s = skip_args (next_token s);
          s = (if current_token s = TOK_RPAREN then next_token s else s) in
      if strcmp name ''input'' = 0 then andthen (read_line 64 s) (\<lambda>(buf, s). Inr (atoi buf, s))
      else Inr (0, s))"

primrec parse_primary :: "nat \<Rightarrow> parser" where
  "parse_primary 0 s = Inl Out_of_fuel"
| "parse_primary (Suc n) s =
     (if current_token s = TOK_NUMBER then Inr (token_number s, next_token s)
      else if current_token s = TOK_STRING then Inr (word_of_nat (strlen (token_string s)), next_token s)
      else if current_token s = TOK_IDENT then
        let name = token_ident s; s = next_token s in
        if current_token s = TOK_LPAREN then parse_call name s
        else Inr (case get_var name s of Some v \<Rightarrow> v | None \<Rightarrow> 0, s)
      else if current_token s = TOK_LPAREN then
        andthen (parse_or (parse_primary n) n (next_token s)) (\<lambda>(val, s).
          Inr (val, if current_token s = TOK_RPAREN then next_token s else s))
      else if current_token s = TOK_MINUS then andthen (parse_primary n (next_token s)) (\<lambda>(v, s). Inr (- v, s))
      else if current_token s = TOK_NOT then andthen (parse_primary n (next_token s)) (\<lambda>(v, s). Inr (of_bool32 (v = 0), s))
      else Inr (0, s))"

definition parse_expr :: "nat \<Rightarrow> parser" where
  "parse_expr n s = parse_or (parse_primary n) n s"

text \<open>
  The evaluation the statements start. Its fuel is always enough (\<open>Cospy_Expr\<close>): every level of nesting
  and every operator takes a token.
\<close>

definition eval_expr :: parser where
  "eval_expr s = parse_expr (Suc (pending s)) s"

definition eval_text :: "string \<Rightarrow> parser" where
  "eval_text t s = eval_expr (next_token (s\<lparr>cursor := t\<rparr>))"

subsection \<open>Statements\<close>

definition starts :: "string \<Rightarrow> string \<Rightarrow> bool" where
  "starts line word \<longleftrightarrow> strncmp line word (length word) = 0"

text \<open>A line of a function being defined.\<close>

definition add_line :: "string \<Rightarrow> cospy \<Rightarrow> cospy_error + cospy" where
  "add_line line s =
     (let i = current_func_idx s in
      if i < COSPY_MAX_FUNCS \<and> length (f_lines (funcs s ! i)) < COSPY_MAX_FUNC_LINES then
        if length line \<ge> COSPY_LINE_MAX then Inl Buffer_overflow
        else Inr (s\<lparr>funcs := (funcs s)[i := (funcs s ! i)\<lparr>f_lines := f_lines (funcs s ! i) @ [line]\<rparr>]\<rparr>)
      else Inr s)"

definition leave_if :: "cospy \<Rightarrow> cospy" where
  "leave_if s =
     (if if_depth s > 0 then
        let s = s\<lparr>if_depth := if_depth s - 1\<rparr> in if if_depth s = 0 then s\<lparr>in_if_false := False\<rparr> else s
      else s)"

definition flip_if :: "cospy \<Rightarrow> cospy" where
  "flip_if s = (if if_depth s = 1 then s\<lparr>in_if_false := \<not> in_if_false s\<rparr> else s)"

definition enter_if :: "string \<Rightarrow> cospy \<Rightarrow> cospy_error + cospy" where
  "enter_if cond s =
     (let s = s\<lparr>if_depth := if_depth s + 1\<rparr> in
      if in_if_false s then Inr s
      else andthen (eval_text cond s) (\<lambda>(v, s). Inr (if v = 0 then s\<lparr>in_if_false := True\<rparr> else s)))"

definition enter_while :: "string \<Rightarrow> cospy \<Rightarrow> cospy_error + cospy" where
  "enter_while cond s =
     (if length cond \<ge> COSPY_LINE_MAX then Inl Buffer_overflow
      else Inr (s\<lparr>while_cond := cond, while_depth := while_depth s + 1\<rparr>))"

definition start_def :: "string \<Rightarrow> cospy \<Rightarrow> cospy" where
  "start_def rest s =
     (if length (funcs s) \<ge> COSPY_MAX_FUNCS then say (''too many functions'' @ [CHR 0x0A]) s
      else s\<lparr>funcs := funcs s @ [\<lparr>f_name = fst (scan_while (\<lambda>c. c \<noteq> CHR ''('') 15 rest), f_lines = []\<rparr>],
             current_func_idx := length (funcs s), defining_function := True\<rparr>)"

definition exec_print :: "string \<Rightarrow> cospy \<Rightarrow> cospy_error + cospy" where
  "exec_print args s =
     (let s = next_token (s\<lparr>cursor := args\<rparr>) in
      if current_token s = TOK_STRING then Inr (say (token_string s @ [CHR 0x0A]) s)
      else andthen (eval_expr s) (\<lambda>(val, s). Inr (say (dec_text val @ [CHR 0x0A]) s)))"

fun func_index :: "string \<Rightarrow> func list \<Rightarrow> nat option" where
  "func_index name [] = None"
| "func_index name (f # fs) = (if strcmp (f_name f) name = 0 then Some 0 else map_option Suc (func_index name fs))"

text \<open>
  One statement. The fuel bounds the depth of calls plus the number of lines run in each: a function
  that calls itself never ends.
\<close>

fun execute_statement :: "nat \<Rightarrow> string \<Rightarrow> cospy \<Rightarrow> cospy_error + int \<times> cospy"
  and run_lines :: "nat \<Rightarrow> nat \<Rightarrow> nat \<Rightarrow> cospy \<Rightarrow> cospy_error + cospy" where
  "execute_statement 0 line s = Inl Out_of_fuel"
| "execute_statement (Suc n) line s =
     (let line = skip_whitespace line in
      if chd line = NUL \<or> chd line = CHR ''#'' then Inr (0, s)
      else if defining_function s then
        if starts line ''enddef'' then Inr (0, s\<lparr>defining_function := False\<rparr>)
        else andthen (add_line line s) (\<lambda>s. Inr (0, s))
      else if starts line ''exit'' \<or> starts line ''quit'' then Inr (- 1, s)
      else if starts line ''endif'' then Inr (0, leave_if s)
      else if starts line ''else'' \<and> (cget line 4 = CHR '':'' \<or> cget line 4 = NUL \<or> cget line 4 = CHR '' '') then Inr (0, flip_if s)
      else if starts line ''if '' then andthen (enter_if (drop 3 line) s) (\<lambda>s. Inr (0, s))
      else if in_if_false s then Inr (0, s)
      else if starts line ''endwhile'' then Inr (0, s)
      else if starts line ''while '' then andthen (enter_while (drop 6 line) s) (\<lambda>s. Inr (0, s))
      else if starts line ''def '' then Inr (0, start_def (drop 4 line) s)
      else if starts line ''print'' \<and> cget line 5 = CHR ''('' then andthen (exec_print (drop 6 line) s) (\<lambda>s. Inr (0, s))
      else
        let s = next_token (s\<lparr>cursor := line\<rparr>) in
        if current_token s = TOK_IDENT then
          let name = token_ident s; s = next_token s in
          if current_token s = TOK_LPAREN then
            (case func_index name (funcs s) of
               Some i \<Rightarrow> andthen (run_lines n i 0 s) (\<lambda>s. Inr (0, s))
             | None \<Rightarrow> Inr (0, s))
          else if current_token s = TOK_EQ then
            andthen (eval_expr (next_token s)) (\<lambda>(val, s). andthen (set_var name val s) (\<lambda>s. Inr (0, s)))
          else Inr (0, s)
        else Inr (0, s))"
| "run_lines 0 i j s = Inl Out_of_fuel"
| "run_lines (Suc n) i j s =
     (if j < length (f_lines (funcs s ! i)) then
        andthen (execute_statement n (f_lines (funcs s ! i) ! j) s) (\<lambda>(r, s). run_lines n i (Suc j) s)
      else Inr s)"

declare execute_statement.simps [simp del] run_lines.simps [simp del]

text \<open>\<open>run_function\<close> itself; the statement above only calls it for a function that exists.\<close>

definition run_function :: "nat \<Rightarrow> string \<Rightarrow> cospy \<Rightarrow> cospy_error + cospy" where
  "run_function n name s =
     (case func_index name (funcs s) of
        Some i \<Rightarrow> run_lines n i 0 s
      | None \<Rightarrow> Inr (say (''undefined function: '' @ name @ [CHR 0x0A]) s))"

subsection \<open>Loops and the drivers\<close>

definition cospy_init :: "cospy \<Rightarrow> cospy" where
  "cospy_init s = s\<lparr>variables := [], funcs := [], in_if_false := False, if_depth := 0, while_depth := 0, defining_function := False\<rparr>"

text \<open>The collected lines of a loop; the prompt leaves the pass at an \<open>exit\<close>, a script does not.\<close>

fun run_body :: "nat \<Rightarrow> bool \<Rightarrow> string list \<Rightarrow> cospy \<Rightarrow> cospy_error + cospy" where
  "run_body n prompt [] s = Inr s"
| "run_body n prompt (l # ls) s =
     andthen (execute_statement n l s) (\<lambda>(r, s). if prompt \<and> r < 0 then Inr s else run_body n prompt ls s)"

fun while_loop :: "nat \<Rightarrow> nat \<Rightarrow> bool \<Rightarrow> string list \<Rightarrow> cospy \<Rightarrow> cospy_error + cospy" where
  "while_loop 0 n prompt body s = Inr s"
| "while_loop (Suc max_iter) n prompt body s =
     andthen (eval_text (while_cond s) s) (\<lambda>(v, s).
       if v = 0 then Inr s else andthen (run_body n prompt body s) (\<lambda>s. while_loop max_iter n prompt body s))"

text \<open>One line given to a driver: collected into \<open>body\<close>, ending the loop, or executed.\<close>

definition feed :: "nat \<Rightarrow> bool \<Rightarrow> string \<Rightarrow> string list \<Rightarrow> cospy \<Rightarrow> cospy_error + int \<times> string list \<times> cospy" where
  "feed n prompt line body s =
     (if while_depth s > 0 \<and> \<not> starts line ''endwhile'' then
        Inr (0, if length body < 16 then body @ [line] else body,
             if starts line ''while '' then s\<lparr>while_depth := while_depth s + 1\<rparr> else s)
      else if while_depth s > 0 \<and> starts line ''endwhile'' then
        let s = s\<lparr>while_depth := while_depth s - 1\<rparr> in
        if while_depth s = 0 then andthen (while_loop 1000 n prompt body s) (\<lambda>s. Inr (0, [], s)) else Inr (0, body, s)
      else andthen (execute_statement n line s) (\<lambda>(r, s). Inr (r, body, s)))"

fun repl_loop :: "nat \<Rightarrow> nat \<Rightarrow> string list \<Rightarrow> cospy \<Rightarrow> cospy_error + cospy" where
  "repl_loop 0 n body s = Inl Out_of_fuel"
| "repl_loop (Suc k) n body s =
     andthen (read_line COSPY_LINE_MAX (say ''py> '' s)) (\<lambda>(line, s).
       andthen (feed n True line body s) (\<lambda>(r, body, s).
         if r < 0 then Inr (say (''Leaving CosyPy'' @ [CHR 0x0A]) s) else repl_loop k n body s))"

definition cospy_repl :: "nat \<Rightarrow> nat \<Rightarrow> cospy \<Rightarrow> cospy_error + cospy" where
  "cospy_repl k n s =
     repl_loop k n [] (say ([CHR 0x0A] @ ''CosyPy v1.0 - Python-like interpreter'' @ [CHR 0x0A] @
       ''Type '' @ [CHR 0x27] @ ''exit'' @ [CHR 0x27] @ '' to return to shell'' @ [CHR 0x0A, CHR 0x0A]) (cospy_init s))"

text \<open>The file cut into at most \<open>k\<close> lines of at most 127 characters.\<close>

fun file_lines :: "nat \<Rightarrow> string \<Rightarrow> string list" where
  "file_lines 0 t = []"
| "file_lines (Suc k) t =
     (if t = [] then []
      else case scan_while (\<lambda>c. c \<noteq> CHR 0x0A) 127 t of (l, t') \<Rightarrow>
        takeWhile (\<lambda>c. c \<noteq> NUL) l # file_lines k (if t' \<noteq> [] \<and> chd t' = CHR 0x0A then tl t' else t'))"

fun run_script :: "nat \<Rightarrow> string list \<Rightarrow> string list \<Rightarrow> cospy \<Rightarrow> cospy_error + cospy" where
  "run_script n [] body s = Inr s"
| "run_script n (l # ls) body s =
     andthen (feed n False (skip_whitespace l) body s) (\<lambda>(r, body, s). run_script n ls body s)"

definition file_text :: "buffer \<Rightarrow> nat \<Rightarrow> string" where
  "file_text b len = map (\<lambda>i. char_of_byte (b i)) [0..<len]"

definition cospy_run_file :: "nat \<Rightarrow> string option \<Rightarrow> fs \<Rightarrow> cospy \<Rightarrow> (cospy_error + int \<times> cospy) \<times> fs" where
  "cospy_run_file n filename d s =
     (case filename of
        None \<Rightarrow> (Inr (- 1, s), d)
      | Some name \<Rightarrow>
          if chd name = NUL then (Inr (- 1, s), d)
          else case vfs_read_ptr filename d of
            (None, d) \<Rightarrow> (Inr (- 1, say (''file not found: '' @ name @ [CHR 0x0A]) s), d)
          | (Some len, d) \<Rightarrow>
              (andthen (run_script n (file_lines 64 (file_text (read_cache d) len)) [] (cospy_init s)) (\<lambda>s. Inr (0, s)), d))"

end
