(* ===== verification/Editor.thy ===== *)
theory Editor
  imports Vga Vfs Keyboard
begin

text \<open>
  The text editor, \<open>kernel/editor.c\<close>: a text in an array of \<open>FS_MAX_FILE_SIZE\<close> bytes, edited in an insert
  and a normal mode, saved through the virtual filesystem.

  The keys are the characters \<open>keyboard_getchar\<close> will return; while they run out the editor is
  \<open>Waiting\<close>. The editing keys are shown to refine an editor on two lists, the text before and after
  the cursor, and never to leave the array.
\<close>

subsection \<open>Lines\<close>

abbreviation (input) NEWLINE :: byte where "NEWLINE \<equiv> 0x0A"
abbreviation (input) FS_MAX_FILE_SIZE :: nat where "FS_MAX_FILE_SIZE \<equiv> 4096"

fun line_start :: "buffer \<Rightarrow> nat \<Rightarrow> nat" where
  "line_start buf 0 = 0"
| "line_start buf (Suc pos) = (if buf pos \<noteq> NEWLINE then line_start buf pos else Suc pos)"

function line_end :: "buffer \<Rightarrow> nat \<Rightarrow> nat \<Rightarrow> nat" where
  "line_end buf len pos = (if pos < len \<and> buf pos \<noteq> NEWLINE then line_end buf len (pos + 1) else pos)"
  by pat_completeness auto
termination by (relation "measure (\<lambda>(buf, len, pos). len - pos)") auto

subsection \<open>Editing the array\<close>

datatype editor_mode = MODE_NORMAL | MODE_INSERT

record editor =
  e_text :: buffer
  e_len :: nat
  e_cursor :: nat
  e_mode :: editor_mode
  e_dirty :: bool
  e_msg :: string

text \<open>The loops of \<open>insert_char\<close> and \<open>delete_at\<close> from index \<open>i\<close> on.\<close>

fun shift_up :: "nat \<Rightarrow> nat \<Rightarrow> buffer \<Rightarrow> buffer" where
  "shift_up cursor 0 buf = buf"
| "shift_up cursor (Suc i) buf = (if Suc i > cursor then shift_up cursor i (buf(Suc i := buf i)) else buf)"

function shift_down :: "nat \<Rightarrow> nat \<Rightarrow> buffer \<Rightarrow> buffer" where
  "shift_down len i buf = (if i + 1 < len then shift_down len (i + 1) (buf(i := buf (i + 1))) else buf)"
  by pat_completeness auto
termination by (relation "measure (\<lambda>(len, i, buf). len - i)") auto

definition insert_char :: "byte \<Rightarrow> editor \<Rightarrow> int \<times> editor" where
  "insert_char c ed =
     (if e_len ed + 1 \<ge> FS_MAX_FILE_SIZE then (- 1, ed)
      else (0, ed\<lparr>e_text := (shift_up (e_cursor ed) (e_len ed) (e_text ed))(e_cursor ed := c, e_len ed + 1 := 0),
                  e_len := e_len ed + 1, e_cursor := e_cursor ed + 1\<rparr>))"

definition delete_at :: "nat \<Rightarrow> editor \<Rightarrow> editor" where
  "delete_at pos ed =
     (if pos \<ge> e_len ed then ed
      else ed\<lparr>e_text := (shift_down (e_len ed) pos (e_text ed))(e_len ed - 1 := 0), e_len := e_len ed - 1\<rparr>)"

declare line_end.simps [simp del] shift_down.simps [simp del]

subsection \<open>Keys\<close>

text \<open>An insertion by a key: the file is changed, or full.\<close>

definition type_char :: "byte \<Rightarrow> editor \<Rightarrow> editor" where
  "type_char c ed =
     (case insert_char c ed of (r, ed) \<Rightarrow> if r = 0 then ed\<lparr>e_dirty := True\<rparr> else ed\<lparr>e_msg := ''file full''\<rparr>)"

definition cursor_left :: "editor \<Rightarrow> editor" where
  "cursor_left ed = (if e_cursor ed > 0 then ed\<lparr>e_cursor := e_cursor ed - 1\<rparr> else ed)"

definition cursor_right :: "editor \<Rightarrow> editor" where
  "cursor_right ed = (if e_cursor ed < e_len ed then ed\<lparr>e_cursor := e_cursor ed + 1\<rparr> else ed)"

text \<open>Insert mode, but for saving.\<close>

definition insert_key :: "char \<Rightarrow> editor \<Rightarrow> editor" where
  "insert_key c ed =
     (if c = CHR 0x1B then ed\<lparr>e_mode := MODE_NORMAL\<rparr>
      else if c = CHR 0x08 then
        if e_cursor ed > 0
        then (delete_at (e_cursor ed - 1) (ed\<lparr>e_cursor := e_cursor ed - 1\<rparr>))\<lparr>e_dirty := True\<rparr>
        else ed
      else if c = CHR 0x0A \<or> c = CHR 0x0D then type_char NEWLINE ed
      else let ed = (if 32 \<le> ord c \<and> ord c \<le> 126 then type_char (byte_of c) ed else ed) in
        if c = KEY_LEFT then cursor_left ed else if c = KEY_RIGHT then cursor_right ed else ed)"

definition cursor_down :: "editor \<Rightarrow> editor" where
  "cursor_down ed =
     (let b = e_text ed; len = e_len ed;
          col = e_cursor ed - line_start b (e_cursor ed);
          next_start = line_end b len (e_cursor ed) in
      if next_start < len \<and> b next_start = NEWLINE
      then let next_start = next_start + 1;
               next_len = line_end b len next_start - next_start in
        ed\<lparr>e_cursor := next_start + (if col < next_len then col else next_len)\<rparr>
      else ed)"

definition cursor_up :: "editor \<Rightarrow> editor" where
  "cursor_up ed =
     (let b = e_text ed; cur_start = line_start b (e_cursor ed) in
      if cur_start > 0
      then let col = e_cursor ed - cur_start;
               prev_end = cur_start - 1;
               prev_start = line_start b prev_end;
               prev_len = prev_end - prev_start in
        ed\<lparr>e_cursor := prev_start + (if col < prev_len then col else prev_len)\<rparr>
      else ed)"

text \<open>Normal mode, but for saving and commands.\<close>

definition normal_key :: "char \<Rightarrow> editor \<Rightarrow> editor" where
  "normal_key c ed =
     (if c = CHR ''i'' then ed\<lparr>e_mode := MODE_INSERT\<rparr>
      else if c = CHR ''h'' \<or> c = KEY_LEFT then cursor_left ed
      else if c = CHR ''l'' \<or> c = KEY_RIGHT then cursor_right ed
      else if c = CHR ''x'' \<or> c = KEY_DELETE then
        if e_cursor ed < e_len ed then (delete_at (e_cursor ed) ed)\<lparr>e_dirty := True\<rparr> else ed
      else if c = CHR ''j'' \<or> c = KEY_DOWN then cursor_down ed
      else if c = CHR ''k'' \<or> c = KEY_UP then cursor_up ed
      else ed)"

definition edit_key :: "char \<Rightarrow> editor \<Rightarrow> editor" where
  "edit_key c ed = (if e_mode ed = MODE_INSERT then insert_key c ed else normal_key c ed)"

subsection \<open>Screen\<close>

text \<open>
  The drawing loop with \<open>n\<close> bytes left from index \<open>i\<close> on; \<open>cur\<close> is \<open>(cur_row, cur_col)\<close> found so far. The
  result gives the last \<open>row\<close> and \<open>col\<close>.
\<close>

fun draw_loop :: "buffer \<Rightarrow> nat \<Rightarrow> nat \<Rightarrow> nat \<Rightarrow> nat \<Rightarrow> nat \<Rightarrow> nat \<times> nat \<Rightarrow> vga \<Rightarrow> nat \<times> nat \<times> (nat \<times> nat) \<times> vga" where
  "draw_loop buf cursor 0 i row col cur v = (row, col, cur, v)"
| "draw_loop buf cursor (Suc n) i row col cur v =
     (if row < 25
      then let cur = (if i = cursor then (row, col) else cur); c = char_of_byte (buf i) in
        if c = CHR 0x0A then draw_loop buf cursor n (i + 1) (row + 1) 0 cur (vga_putc (CHR 0x0A) v)
        else if col \<ge> 80 then
          if row + 1 \<ge> 25 then (row + 1, 0, cur, vga_putc (CHR 0x0A) v)
          else draw_loop buf cursor n (i + 1) (row + 1) 1 cur (vga_putc c (vga_putc (CHR 0x0A) v))
        else draw_loop buf cursor n (i + 1) row (col + 1) cur (vga_putc c v)
      else (row, col, cur, v))"

definition draw_editor :: "string \<Rightarrow> editor \<Rightarrow> vga \<Rightarrow> vga" where
  "draw_editor name ed v =
     (let v = the (vga_printf (''[%s] %s | %s'' @ [CHR 0x0A])
              [Arg_str (Some (if e_mode ed = MODE_INSERT then ''INSERT'' else ''NORMAL'')), Arg_str (Some name), Arg_str (Some (e_msg ed))]
              (vga_clear v));
          (row, col, cur, v) = draw_loop (e_text ed) (e_cursor ed) (e_len ed) 0 1 0 (1, 0) v;
          (cur_row, cur_col) = (if e_cursor ed = e_len ed \<and> row < 25 then (row, col) else cur);
          cur_row = (if cur_row \<ge> 25 then 24 else cur_row);
          cur_col = (if cur_col \<ge> 80 then 79 else cur_col) in
      vga_set_cursor (word_of_nat cur_col) (word_of_nat cur_row) v)"

lemma draw_format: "vga_printf (''[%s] %s | %s'' @ [CHR 0x0A]) [Arg_str (Some a), Arg_str (Some b), Arg_str (Some c)] v \<noteq> None"
  by (simp add: vga_printf_fold)

subsection \<open>Commands\<close>

text \<open>
  The loop of \<open>read_colon_cmd\<close> with \<open>cmd\<close> read so far. The result is the command, \<^const>\<open>None\<close> for a
  cancelled one, with the keys left, or \<^const>\<open>None\<close> while it waits.
\<close>

fun colon_loop :: "nat \<Rightarrow> string \<Rightarrow> string \<Rightarrow> vga \<Rightarrow> (string option \<times> string \<times> vga) option" where
  "colon_loop cap cmd [] v = None"
| "colon_loop cap cmd (c # inp) v =
     (if c = NUL then colon_loop cap cmd inp v
      else if c = CHR 0x0A \<or> c = CHR 0x0D then
        Some (Some (rev (dropWhile (\<lambda>d. d = CHR '' '') (rev cmd))), inp, v)
      else if c = CHR 0x1B then Some (None, inp, v)
      else if c = CHR 0x08 then
        if cmd \<noteq> [] then colon_loop cap (butlast cmd) inp (vga_putc (CHR 0x08) v) else colon_loop cap cmd inp v
      else if length cmd + 1 < cap \<and> 32 \<le> ord c \<and> ord c \<le> 126 then colon_loop cap (cmd @ [c]) inp (vga_putc c v)
      else colon_loop cap cmd inp v)"

definition read_colon_cmd :: "nat \<Rightarrow> string \<Rightarrow> vga \<Rightarrow> (string option \<times> string \<times> vga) option" where
  "read_colon_cmd cap inp v = colon_loop cap [] inp (vga_puts '':'' (vga_set_cursor 0 24 v))"

lemma colon_loop_length: "colon_loop cap cmd inp v = Some (r, inp', v') \<Longrightarrow> length inp' < length inp"
proof (induction inp arbitrary: cmd v)
  case (Cons c inp)
  have "inp' = inp \<or> (\<exists>cmd' v''. colon_loop cap cmd' inp v'' = Some (r, inp', v'))"
    using Cons.prems by (simp split: if_splits) metis+
  then show ?case using Cons.IH by (auto intro: less_SucI)
qed simp

text \<open>Saving; \<open>text\<close> and \<open>len\<close> go to \<open>vfs_write_raw\<close>.\<close>

definition save :: "string \<Rightarrow> editor \<Rightarrow> fs \<Rightarrow> editor \<times> fs" where
  "save name ed s =
     (case vfs_write_raw (Some name) (e_text ed) (e_len ed) s of (r, s) \<Rightarrow>
      (if r = 0 then ed\<lparr>e_dirty := False, e_msg := ''written''\<rparr> else ed\<lparr>e_msg := ''write failed''\<rparr>, s))"

text \<open>A command: \<^const>\<open>None\<close> for the editor when it leaves.\<close>

definition run_colon :: "string \<Rightarrow> string \<Rightarrow> editor \<Rightarrow> fs \<Rightarrow> editor option \<times> fs" where
  "run_colon name cmd ed s =
     (if strcmp cmd ''w'' = 0 then (case save name ed s of (ed, s) \<Rightarrow> (Some ed, s))
      else if strcmp cmd ''q'' = 0 then (if e_dirty ed then Some (ed\<lparr>e_msg := ''unsaved changes''\<rparr>) else None, s)
      else if strcmp cmd ''q!'' = 0 then (None, s)
      else if strcmp cmd ''wq'' = 0 \<or> strcmp cmd ''x'' = 0 then
        (case vfs_write_raw (Some name) (e_text ed) (e_len ed) s of (r, s) \<Rightarrow>
         (if r = 0 then None else Some (ed\<lparr>e_msg := ''write failed''\<rparr>), s))
      else (Some (ed\<lparr>e_msg := ''unknown :cmd''\<rparr>), s))"

subsection \<open>Sessions\<close>

datatype session = Waiting | Overflow | Left fs vga string

datatype edit_next = Stay editor string fs vga | Stop session

definition edit_step :: "string \<Rightarrow> editor \<Rightarrow> string \<Rightarrow> fs \<Rightarrow> vga \<Rightarrow> edit_next" where
  "edit_step name ed inp s v =
     (case inp of
        [] \<Rightarrow> Stop Waiting
      | c # inp \<Rightarrow>
          if c = CHR 0x13 then (case save name ed s of (ed, s) \<Rightarrow> Stay ed inp s v)
          else if e_mode ed = MODE_NORMAL \<and> c = CHR '':'' then
            (case read_colon_cmd 16 inp v of
               None \<Rightarrow> Stop Waiting
             | Some (cmd, inp, v) \<Rightarrow>
                 if cmd = None \<or> cmd = Some [] then Stay ed inp s v
                 else case run_colon name (the cmd) ed s of
                   (None, s) \<Rightarrow> Stop (Left s v inp)
                 | (Some ed, s) \<Rightarrow> Stay ed inp s v)
          else Stay (edit_key c ed) inp s v)"

lemma edit_step_length: "edit_step name ed inp s v = Stay ed' inp' s' v' \<Longrightarrow> length inp' < length inp"
  by (auto simp: edit_step_def read_colon_cmd_def split: list.splits if_splits option.splits prod.splits dest!: colon_loop_length)

function edit_loop :: "string \<Rightarrow> editor \<Rightarrow> string \<Rightarrow> fs \<Rightarrow> vga \<Rightarrow> session" where
  "edit_loop name ed inp s v =
     (let v = draw_editor name ed v in
      case edit_step name (ed\<lparr>e_msg := []\<rparr>) inp s v of
        Stop r \<Rightarrow> r
      | Stay ed inp s v \<Rightarrow> edit_loop name ed inp s v)"
  by pat_completeness auto
termination by (relation "measure (\<lambda>(name, ed, inp, s, v). length inp)") (auto dest: edit_step_length)

text \<open>
  The whole function: the file is copied into the array of \<open>FS_MAX_FILE_SIZE\<close> bytes and terminated, which
  overruns the array when the file fills it. The keyboard queue is flushed first, so \<open>inp\<close> is what is
  typed afterwards; \<open>text\<close> is what the array holds before.
\<close>

definition editor_edit_file :: "string \<Rightarrow> buffer \<Rightarrow> string \<Rightarrow> fs \<Rightarrow> vga \<Rightarrow> session" where
  "editor_edit_file name text inp s v =
     (case vfs_read_ptr (Some name) s of (r, s) \<Rightarrow>
      let len = (case r of None \<Rightarrow> 0 | Some n \<Rightarrow> n);
          text = (case r of None \<Rightarrow> text | Some n \<Rightarrow> memcpy text 0 (read_cache s) 0 n) in
      if len \<ge> FS_MAX_FILE_SIZE then Overflow
      else edit_loop name \<lparr>e_text = text(len := 0), e_len = len, e_cursor = 0, e_mode = MODE_NORMAL, e_dirty = False,
          e_msg = ''i insert | h/j/k/l move | :w :q :wq | Ctrl+S save''\<rparr> inp s v)"

declare edit_loop.simps [simp del]

subsection \<open>Two lists\<close>

text \<open>The abstract editor: the text before the cursor and the text from the cursor on.\<close>

type_synonym zipper = "byte list \<times> byte list"

definition nnl :: "byte \<Rightarrow> bool" where
  "nnl c \<longleftrightarrow> c \<noteq> NEWLINE"

definition seek :: "nat \<Rightarrow> byte list \<Rightarrow> zipper" where
  "seek n t = (take n t, drop n t)"

text \<open>
  One line down or up, in the same column if the line is long enough, else at its end: the column is
  the length of what follows the last newline before the cursor.
\<close>

definition column :: "byte list \<Rightarrow> nat" where
  "column l = length (takeWhile nnl (rev l))"

definition z_down :: "zipper \<Rightarrow> zipper" where
  "z_down = (\<lambda>(l, r).
     case dropWhile nnl r of
       [] \<Rightarrow> (l, r)
     | _ # after \<Rightarrow>
         seek (length l + length (takeWhile nnl r) + 1 + min (column l) (length (takeWhile nnl after))) (l @ r))"

definition z_up :: "zipper \<Rightarrow> zipper" where
  "z_up = (\<lambda>(l, r).
     case dropWhile nnl (rev l) of
       [] \<Rightarrow> (l, r)
     | _ # before \<Rightarrow>
         seek (length before - length (takeWhile nnl before) + min (column l) (length (takeWhile nnl before))) (l @ r))"

definition z_insert :: "byte \<Rightarrow> zipper \<Rightarrow> zipper" where
  "z_insert c = (\<lambda>(l, r). if length l + length r + 1 \<ge> FS_MAX_FILE_SIZE then (l, r) else (l @ [c], r))"

definition z_left :: "zipper \<Rightarrow> zipper" where
  "z_left = (\<lambda>(l, r). if l = [] then (l, r) else (butlast l, last l # r))"

definition z_right :: "zipper \<Rightarrow> zipper" where
  "z_right = (\<lambda>(l, r). case r of [] \<Rightarrow> (l, r) | c # r \<Rightarrow> (l @ [c], r))"

definition z_key :: "char \<Rightarrow> editor_mode \<times> zipper \<Rightarrow> editor_mode \<times> zipper" where
  "z_key c = (\<lambda>(m, z).
     if m = MODE_INSERT then
       if c = CHR 0x1B then (MODE_NORMAL, z)
       else if c = CHR 0x08 then (m, (butlast (fst z), snd z))
       else if c = CHR 0x0A \<or> c = CHR 0x0D then (m, z_insert NEWLINE z)
       else if 32 \<le> ord c \<and> ord c \<le> 126 then (m, z_insert (byte_of c) z)
       else if c = KEY_LEFT then (m, z_left z)
       else if c = KEY_RIGHT then (m, z_right z)
       else (m, z)
     else
       if c = CHR ''i'' then (MODE_INSERT, z)
       else if c = CHR ''h'' \<or> c = KEY_LEFT then (m, z_left z)
       else if c = CHR ''l'' \<or> c = KEY_RIGHT then (m, z_right z)
       else if c = CHR ''x'' \<or> c = KEY_DELETE then (m, (fst z, tl (snd z)))
       else if c = CHR ''j'' \<or> c = KEY_DOWN then (m, z_down z)
       else if c = CHR ''k'' \<or> c = KEY_UP then (m, z_up z)
       else (m, z))"

definition text_of :: "editor \<Rightarrow> byte list" where
  "text_of ed = map (e_text ed) [0..<e_len ed]"

definition zipper_of :: "editor \<Rightarrow> zipper" where
  "zipper_of ed = seek (e_cursor ed) (text_of ed)"

definition editor_ok :: "editor \<Rightarrow> bool" where
  "editor_ok ed \<longleftrightarrow> e_cursor ed \<le> e_len ed \<and> e_len ed < FS_MAX_FILE_SIZE \<and> e_text ed (e_len ed) = 0"

subsection \<open>The array implements the lists\<close>

lemma length_text_of [simp]: "length (text_of ed) = e_len ed"
  by (simp add: text_of_def)

lemma nth_text_of [simp]: "i < e_len ed \<Longrightarrow> text_of ed ! i = e_text ed i"
  by (simp add: text_of_def)

lemma zipper_lists: "zipper_of ed = (take (e_cursor ed) (text_of ed), drop (e_cursor ed) (text_of ed))"
  by (simp add: zipper_of_def seek_def)

lemma shift_up_eq: "shift_up cur i b k = (if cur < k \<and> k \<le> i then b (k - 1) else b k)"
  by (induction cur i b rule: shift_up.induct) (auto simp: fun_upd_def)

lemma shift_down_eq: "shift_down len i b k = (if i \<le> k \<and> k + 1 < len then b (k + 1) else b k)"
proof (induction len i b rule: shift_down.induct)
  case (1 len i b)
  show ?case by (subst shift_down.simps) (use 1 in \<open>auto simp: fun_upd_def\<close>)
qed

lemma text_of_insert:
  assumes "e_cursor ed \<le> e_len ed" "e_len ed + 1 < FS_MAX_FILE_SIZE" "insert_char c ed = (r, ed')"
  shows "r = 0 \<and> text_of ed' = take (e_cursor ed) (text_of ed) @ c # drop (e_cursor ed) (text_of ed) \<and>
     e_cursor ed' = e_cursor ed + 1 \<and> editor_ok ed' \<and> e_mode ed' = e_mode ed \<and> e_len ed' = e_len ed + 1"
  using assms by (auto simp: insert_char_def editor_ok_def shift_up_eq nth_append nth_Cons' intro!: nth_equalityI)

lemma text_of_delete:
  assumes "pos < e_len ed"
  shows "text_of (delete_at pos ed) = take pos (text_of ed) @ drop (pos + 1) (text_of ed)"
    "e_len (delete_at pos ed) = e_len ed - 1" "e_cursor (delete_at pos ed) = e_cursor ed"
    "e_mode (delete_at pos ed) = e_mode ed" "e_text (delete_at pos ed) (e_len ed - 1) = 0"
  using assms by (auto simp: delete_at_def shift_down_eq nth_append min_def intro!: nth_equalityI)

lemma line_start_eq: "line_start b pos = pos - length (takeWhile nnl (rev (map b [0..<pos])))"
  by (induction pos) (auto simp: nnl_def)

lemma line_start_le: "line_start b pos \<le> pos"
  by (simp add: line_start_eq)

lemma line_end_eq: "pos \<le> len \<Longrightarrow> line_end b len pos = pos + length (takeWhile nnl (map b [pos..<len]))"
proof (induction b len pos rule: line_end.induct)
  case (1 b len pos)
  show ?case
  proof (cases "pos < len")
    case True
    then have "[pos..<len] = pos # [pos + 1..<len]" by (simp add: upt_conv_Cons)
    then show ?thesis using 1 True nnl_def [of "b pos"] by (subst line_end.simps) simp
  next
    case False
    then show ?thesis using 1 by (subst line_end.simps) simp
  qed
qed

lemma take_text: "n \<le> e_len ed \<Longrightarrow> take n (text_of ed) = map (e_text ed) [0..<n]"
  by (simp add: text_of_def take_map)

lemma drop_text: "drop n (text_of ed) = map (e_text ed) [n..<e_len ed]"
  by (simp add: text_of_def drop_map)

lemma zipper_insert:
  assumes "editor_ok ed" "insert_char c ed = (r, ed')"
  shows "zipper_of ed' = z_insert c (zipper_of ed) \<and> editor_ok ed' \<and> e_mode ed' = e_mode ed"
proof (cases "e_len ed + 1 < FS_MAX_FILE_SIZE")
  case True
  then have t: "text_of ed' = take (e_cursor ed) (text_of ed) @ c # drop (e_cursor ed) (text_of ed)"
      "e_cursor ed' = e_cursor ed + 1" "editor_ok ed'" "e_mode ed' = e_mode ed"
    using text_of_insert [OF _ True assms(2)] assms(1) unfolding editor_ok_def by auto
  moreover have "e_cursor ed \<le> e_len ed" using assms(1) by (simp add: editor_ok_def)
  ultimately show ?thesis using True by (simp add: zipper_lists z_insert_def)
next
  case False
  then show ?thesis using assms by (auto simp: insert_char_def zipper_lists z_insert_def editor_ok_def)
qed

lemma type_char_ok:
  assumes "editor_ok ed"
  shows "zipper_of (type_char c ed) = z_insert c (zipper_of ed) \<and> editor_ok (type_char c ed) \<and> e_mode (type_char c ed) = e_mode ed"
proof -
  obtain r ed' where e: "insert_char c ed = (r, ed')" by force
  show ?thesis
    using zipper_insert [OF assms e] by (auto simp: type_char_def e zipper_of_def text_of_def editor_ok_def)
qed

lemma seek_left: "n \<le> length t \<Longrightarrow> seek (n - 1) t = z_left (seek n t)"
proof (cases n)
  case (Suc m)
  assume "n \<le> length t"
  then show ?thesis using Suc
    by (auto simp: seek_def z_left_def take_Suc_conv_app_nth Cons_nth_drop_Suc)
qed (simp add: seek_def z_left_def)

lemma seek_right: "seek (if n < length t then n + 1 else n) t = z_right (seek n t)" if "n \<le> length t"
  using that by (auto simp: seek_def z_right_def take_Suc_conv_app_nth Cons_nth_drop_Suc [symmetric] split: list.splits)

lemma move_ok:
  assumes "editor_ok ed"
  shows "zipper_of (cursor_left ed) = z_left (zipper_of ed)" "editor_ok (cursor_left ed)" "e_mode (cursor_left ed) = e_mode ed"
    "zipper_of (cursor_right ed) = z_right (zipper_of ed)" "editor_ok (cursor_right ed)" "e_mode (cursor_right ed) = e_mode ed"
proof -
  have le: "e_cursor ed \<le> length (text_of ed)" using assms by (simp add: editor_ok_def)
  have t: "text_of (ed\<lparr>e_cursor := n\<rparr>) = text_of ed" for n by (simp add: text_of_def)
  show "zipper_of (cursor_left ed) = z_left (zipper_of ed)" "zipper_of (cursor_right ed) = z_right (zipper_of ed)"
    using seek_left [OF le] seek_right [OF le] by (auto simp: zipper_of_def cursor_left_def cursor_right_def t)
qed (use assms in \<open>auto simp: cursor_left_def cursor_right_def editor_ok_def\<close>)

lemma backspace_ok:
  assumes "editor_ok ed" "0 < e_cursor ed"
  shows "zipper_of (delete_at (e_cursor ed - 1) (ed\<lparr>e_cursor := e_cursor ed - 1\<rparr>)) = (butlast (fst (zipper_of ed)), snd (zipper_of ed)) \<and>
     editor_ok (delete_at (e_cursor ed - 1) (ed\<lparr>e_cursor := e_cursor ed - 1\<rparr>)) \<and>
     e_mode (delete_at (e_cursor ed - 1) (ed\<lparr>e_cursor := e_cursor ed - 1\<rparr>)) = e_mode ed"
proof -
  let ?e = "ed\<lparr>e_cursor := e_cursor ed - 1\<rparr>"
  have pos: "e_cursor ed - 1 < e_len ?e" using assms by (auto simp: editor_ok_def)
  have t: "text_of (ed\<lparr>e_cursor := n\<rparr>) = text_of ed" for n by (simp add: text_of_def)
  show ?thesis
    using text_of_delete [OF pos] assms
    by (auto simp: zipper_lists t editor_ok_def butlast_take)
qed

lemma delete_ok:
  assumes "editor_ok ed" "e_cursor ed < e_len ed"
  shows "zipper_of (delete_at (e_cursor ed) ed) = (fst (zipper_of ed), tl (snd (zipper_of ed))) \<and>
     editor_ok (delete_at (e_cursor ed) ed) \<and> e_mode (delete_at (e_cursor ed) ed) = e_mode ed"
  using text_of_delete [OF assms(2)] assms by (auto simp: zipper_lists editor_ok_def tl_drop drop_Suc)

lemma column_eq: "n \<le> e_len ed \<Longrightarrow> n - line_start (e_text ed) n = column (take n (text_of ed))"
  using length_takeWhile_le [of nnl "rev (map (e_text ed) [0..<n])"] by (simp add: line_start_eq column_def take_text)

lemma line_start_column: "n \<le> e_len ed \<Longrightarrow> line_start (e_text ed) n = n - column (take n (text_of ed))"
  by (simp add: line_start_eq column_def take_text)

lemma column_le: "column l \<le> length l"
  using length_takeWhile_le [of nnl "rev l"] by (simp add: column_def)

lemma down_ok:
  assumes "editor_ok ed"
  shows "zipper_of (cursor_down ed) = z_down (zipper_of ed) \<and> editor_ok (cursor_down ed) \<and> e_mode (cursor_down ed) = e_mode ed"
proof -
  let ?t = "text_of ed" and ?c = "e_cursor ed"
  have c: "?c \<le> e_len ed" using assms by (simp add: editor_ok_def)
  let ?l = "take ?c ?t" and ?r = "drop ?c ?t"
  let ?a = "length (takeWhile nnl ?r)"
  have ns: "line_end (e_text ed) (e_len ed) ?c = ?c + ?a" using c by (simp add: line_end_eq drop_text)
  have rest: "dropWhile nnl ?r = drop (?c + ?a) ?t" by (simp add: dropWhile_eq_drop add.commute)
  have t: "text_of (ed\<lparr>e_cursor := n\<rparr>) = ?t" for n by (simp add: text_of_def)
  show ?thesis
  proof (cases "?c + ?a < e_len ed")
    case True
    have "dropWhile nnl ?r \<noteq> []" using True rest by simp
    then have "\<not> nnl (hd (dropWhile nnl ?r))" by (rule hd_dropWhile)
    then have nl: "e_text ed (?c + ?a) = NEWLINE" using True rest by (simp add: hd_drop_conv_nth nnl_def)
    let ?after = "drop (?c + ?a + 1) ?t"
    have dw: "dropWhile nnl ?r = NEWLINE # ?after"
      using True nl rest by (metis Cons_nth_drop_Suc Suc_eq_plus1 length_text_of nth_text_of)
    have le: "line_end (e_text ed) (e_len ed) (?c + ?a + 1) - (?c + ?a + 1) = length (takeWhile nnl ?after)"
      using True line_end_eq [of "?c + ?a + 1" "e_len ed" "e_text ed"] by (simp add: drop_text)
    let ?n = "?c + ?a + 1 + min (column ?l) (length (takeWhile nnl ?after))"
    have down: "cursor_down ed = ed\<lparr>e_cursor := ?n\<rparr>"
      unfolding cursor_down_def ns Let_def using True nl le column_eq [OF c] by (simp add: min_def)
    have "length (takeWhile nnl ?after) \<le> e_len ed - (?c + ?a + 1)" using length_takeWhile_le [of nnl ?after] by simp
    then have "?n \<le> e_len ed" using True by linarith
    then have ok: "editor_ok (ed\<lparr>e_cursor := ?n\<rparr>)" using assms by (simp add: editor_ok_def)
    have "z_down (?l, ?r) = seek ?n (?l @ ?r)" using dw c by (simp add: z_down_def min_def)
    then have "zipper_of (ed\<lparr>e_cursor := ?n\<rparr>) = z_down (zipper_of ed)" by (simp add: zipper_lists [of ed]) (simp add: zipper_of_def t)
    then show ?thesis using ok unfolding down by simp
  next
    case False
    then have d: "dropWhile nnl ?r = []" unfolding rest by simp
    have "z_down (zipper_of ed) = zipper_of ed" unfolding zipper_lists z_down_def prod.case d by simp
    then show ?thesis using False ns assms by (simp add: cursor_down_def Let_def)
  qed
qed

lemma up_ok:
  assumes "editor_ok ed"
  shows "zipper_of (cursor_up ed) = z_up (zipper_of ed) \<and> editor_ok (cursor_up ed) \<and> e_mode (cursor_up ed) = e_mode ed"
proof -
  let ?t = "text_of ed" and ?c = "e_cursor ed"
  have c: "?c \<le> e_len ed" using assms by (simp add: editor_ok_def)
  let ?l = "take ?c ?t" and ?r = "drop ?c ?t"
  let ?col = "column ?l"
  have start: "line_start (e_text ed) ?c = ?c - ?col" using c by (rule line_start_column)
  have rest: "dropWhile nnl (rev ?l) = rev (take (?c - ?col) ?l)"
    using c by (simp add: dropWhile_eq_drop column_def [symmetric] drop_rev)
  have t: "text_of (ed\<lparr>e_cursor := n\<rparr>) = ?t" for n by (simp add: text_of_def)
  show ?thesis
  proof (cases "?c - ?col")
    case 0
    then have d: "dropWhile nnl (rev ?l) = []" unfolding rest by simp
    have "z_up (zipper_of ed) = zipper_of ed" unfolding zipper_lists z_up_def prod.case d by simp
    then show ?thesis using 0 start assms by (simp add: cursor_up_def Let_def)
  next
    case (Suc e)
    let ?before = "rev (take e ?t)"
    have e: "e < ?c" "e \<le> e_len ed" "e < length ?t" using Suc c by auto
    have dw: "dropWhile nnl (rev ?l) = ?t ! e # ?before"
      using Suc e rest by (simp add: take_Suc_conv_app_nth min_def)
    let ?w = "length (takeWhile nnl ?before)"
    have prev: "line_start (e_text ed) e = e - ?w" using e by (simp add: line_start_column column_def)
    have w: "?w \<le> e" using length_takeWhile_le [of nnl ?before] e by simp
    let ?n = "e - ?w + min ?col ?w"
    have up: "cursor_up ed = ed\<lparr>e_cursor := ?n\<rparr>"
      unfolding cursor_up_def start Let_def using Suc prev w column_le [of ?l] c by (simp add: min_def)
    have "?n \<le> e_len ed" using w e by linarith
    then have ok: "editor_ok (ed\<lparr>e_cursor := ?n\<rparr>)" using assms by (simp add: editor_ok_def)
    have "length ?before = e" using e by simp
    then have "z_up (?l, ?r) = seek ?n (?l @ ?r)" using dw by (simp add: z_up_def)
    then have "zipper_of (ed\<lparr>e_cursor := ?n\<rparr>) = z_up (zipper_of ed)" by (simp add: zipper_lists [of ed]) (simp add: zipper_of_def t)
    then show ?thesis using ok unfolding up by simp
  qed
qed

lemma editor_flags [simp]:
  "zipper_of (ed\<lparr>e_dirty := b\<rparr>) = zipper_of ed" "editor_ok (ed\<lparr>e_dirty := b\<rparr>) = editor_ok ed"
  "zipper_of (ed\<lparr>e_mode := m\<rparr>) = zipper_of ed" "editor_ok (ed\<lparr>e_mode := m\<rparr>) = editor_ok ed"
  by (simp_all add: zipper_of_def text_of_def editor_ok_def)

lemma zipper_at_start: "editor_ok ed \<Longrightarrow> e_cursor ed = 0 \<Longrightarrow> (butlast (fst (zipper_of ed)), snd (zipper_of ed)) = zipper_of ed"
  by (simp add: zipper_lists)

lemma zipper_at_end: "editor_ok ed \<Longrightarrow> \<not> e_cursor ed < e_len ed \<Longrightarrow> (fst (zipper_of ed), tl (snd (zipper_of ed))) = zipper_of ed"
  by (simp add: zipper_lists)

lemma insert_key_ok:
  assumes "editor_ok ed" "e_mode ed = MODE_INSERT"
  shows "(e_mode (insert_key c ed), zipper_of (insert_key c ed)) = z_key c (e_mode ed, zipper_of ed) \<and> editor_ok (insert_key c ed)"
proof -
  have o: "ord KEY_LEFT > 126" "ord KEY_RIGHT > 126" by simp_all
  show ?thesis
    using type_char_ok [OF assms(1)] move_ok [OF assms(1)] backspace_ok [OF assms(1)] zipper_at_start [OF assms(1)] assms o
    by (cases "e_cursor ed = 0") (auto simp: insert_key_def z_key_def Let_def)
qed

lemma normal_key_ok:
  assumes "editor_ok ed" "e_mode ed = MODE_NORMAL"
  shows "(e_mode (normal_key c ed), zipper_of (normal_key c ed)) = z_key c (e_mode ed, zipper_of ed) \<and> editor_ok (normal_key c ed)"
  using move_ok [OF assms(1)] delete_ok [OF assms(1)] down_ok [OF assms(1)] up_ok [OF assms(1)] zipper_at_end [OF assms(1)] assms
  by (auto simp: normal_key_def z_key_def)

lemma edit_key_ok:
  assumes "editor_ok ed"
  shows "(e_mode (edit_key c ed), zipper_of (edit_key c ed)) = z_key c (e_mode ed, zipper_of ed) \<and> editor_ok (edit_key c ed)"
  using insert_key_ok [OF assms, of c] normal_key_ok [OF assms, of c] by (cases "e_mode ed") (auto simp: edit_key_def)

lemma edit_keys_ok:
  "editor_ok ed \<Longrightarrow> (e_mode (fold edit_key cs ed), zipper_of (fold edit_key cs ed)) = fold z_key cs (e_mode ed, zipper_of ed) \<and>
     editor_ok (fold edit_key cs ed)"
  by (induction cs arbitrary: ed) (use edit_key_ok in \<open>simp_all\<close>)

text \<open>
  Property C16. The editing keys implement an editor on two lists: after any sequence of keys in either
  mode, the mode, the text before the cursor and the text after it are those of the abstract editor,
  the cursor is in the text and the text with its terminator inside the array.
\<close>

theorem editor_refines_zipper:
  assumes "editor_ok ed"
  shows "(e_mode (fold edit_key cs ed), zipper_of (fold edit_key cs ed)) = fold z_key cs (e_mode ed, zipper_of ed) \<and>
     editor_ok (fold edit_key cs ed)"
  using edit_keys_ok [OF assms] .

definition empty_editor :: editor where
  "empty_editor = \<lparr>e_text = (\<lambda>_. 0), e_len = 0, e_cursor = 0, e_mode = MODE_NORMAL, e_dirty = False, e_msg = []\<rparr>"

theorem editor_refines_zipper_witness:
  "zipper_of (fold edit_key ''iab'' empty_editor) = ([0x61, 0x62], []) \<and> editor_ok (fold edit_key ''iab'' empty_editor)"
proof -
  have "editor_ok empty_editor" "zipper_of empty_editor = ([], [])" "e_mode empty_editor = MODE_NORMAL"
    by (simp_all add: editor_ok_def empty_editor_def zipper_of_def text_of_def seek_def)
  then show ?thesis
    using editor_refines_zipper [of empty_editor "''iab''"] by (simp add: z_key_def z_insert_def byte_of_def)
qed

end
