(* ===== verification/Shell.thy ===== *)
theory Shell
  imports Script Lang Cospy Editor Process
begin

text \<open>
  The shell, \<open>kernel/shell.c\<close>: the command history, the parsing of a command line, the commands and the
  main loop. It runs on the filesystem and the screen of theory \<open>Script\<close>, the kernel heap and the process
  table; the keys are those \<open>keyboard_getchar\<close> will return.

  What leaves the shell is an outcome: waiting for more keys, a reboot, the entry into user mode, the
  graphical desktop, or a fault of an interpreter or the editor.
\<close>

subsection \<open>State\<close>

abbreviation (input) SHELL_LINE_MAX :: nat where "SHELL_LINE_MAX \<equiv> 192"
abbreviation (input) HISTORY_MAX :: nat where "HISTORY_MAX \<equiv> 16"

text \<open>\<open>history\<close> is the part of the array in use, so its length is \<open>history_count\<close>.\<close>

record shell =
  sh_world :: world
  history :: "string list"
  sh_keys :: string
  sh_heap :: heap
  sh_sched :: sched

definition in_world :: "(world \<Rightarrow> world) \<Rightarrow> shell \<Rightarrow> shell" where
  "in_world f s = s\<lparr>sh_world := f (sh_world s)\<rparr>"

definition puts :: "string \<Rightarrow> shell \<Rightarrow> shell" where
  "puts t = in_world (print t)"

definition putln :: "string \<Rightarrow> shell \<Rightarrow> shell" where
  "putln t = puts (t @ newline)"

definition save_history :: "string \<Rightarrow> string list \<Rightarrow> string list" where
  "save_history line h =
     (if chd line = NUL then h
      else if length h < HISTORY_MAX then h @ [line]
      else (fold (\<lambda>i h. h[i - 1 := h ! i]) [1..<HISTORY_MAX] h)[HISTORY_MAX - 1 := line])"

definition skip_ws :: "string \<Rightarrow> string" where
  "skip_ws s = dropWhile is_ws s"

text \<open>The command and its arguments, \<^const>\<open>None\<close> for a blank line.\<close>

definition split_cmd :: "string \<Rightarrow> (string \<times> string) option" where
  "split_cmd line = (let p = skip_ws line in if chd p = NUL then None else Some (split_word p))"

definition split_first_arg :: "string \<Rightarrow> string \<times> string" where
  "split_first_arg args = split_word (skip_ws args)"

subsection \<open>Commands\<close>

definition help_text :: "string list" where
  "help_text =
     [''Commands:'',
      ''  help                show commands'',
      ''  clear               clear screen'',
      ''  echo TEXT           print text'',
      ''  mem                 heap stats'',
      ''  history             command history'',
      ''  lang                forth REPL'',
      ''  python              CosyPy REPL'',
      ''  run FILE.sh         run shell script'',
      ''  pyrun FILE.py       run CosyPy script'',
      ''  ls                  list files'',
      ''  cat FILE            print file'',
      ''  touch FILE          create file'',
      ''  rm FILE             remove file'',
      ''  write FILE TEXT     overwrite file'',
      ''  append FILE TEXT    append to file'',
      ''  edit FILE           vim-like editor'',
      ''  pwd                 print working directory'',
      ''  cd DIR              change directory'',
      ''  mkdir DIR           create directory'',
      ''  rmdir DIR           remove empty directory'',
      ''  ps                  list processes'',
      ''  spawn NAME          spawn demo process'',
      ''  kill PID            kill process'',
      ''  usermode            test user mode syscalls'',
      ''  gui                 launch GUI demo'',
      ''  gfx                 alias for gui'',
      ''  reboot              reboot machine'']"

definition cmd_help :: "shell \<Rightarrow> shell" where
  "cmd_help s = fold putln help_text s"

definition cmd_mem :: "shell \<Rightarrow> shell" where
  "cmd_mem s =
     (let h = sh_heap s in
      putln (''heap used:  '' @ dec_text (memory_heap_used h) @ '' bytes'')
        (putln (''heap end:   '' @ hex_text (memory_heap_end h))
          (putln (''heap start: '' @ hex_text (memory_heap_start h)) s)))"

definition cmd_history :: "shell \<Rightarrow> shell" where
  "cmd_history s = fold (\<lambda>i. putln (dec_text (word_of_nat i) @ '': '' @ history s ! i)) [0..<length (history s)] s"

definition cmd_ls :: "shell \<Rightarrow> shell" where
  "cmd_ls s =
     (case ls_loop 33 0 (sh_world s) of (i, w) \<Rightarrow>
      let s = s\<lparr>sh_world := w\<rparr> in if i = 0 then putln ''(empty)'' s else s)"

definition cmd_pwd :: "shell \<Rightarrow> shell" where
  "cmd_pwd = in_world print_cwd"

definition cmd_cd :: "string \<Rightarrow> shell \<Rightarrow> shell" where
  "cmd_cd args = in_world (change_dir args)"

text \<open>A command on one file, its usage line when the argument is missing, and its reports.\<close>

definition file_command :: "string \<Rightarrow> (string option \<Rightarrow> fs \<Rightarrow> int \<times> fs) \<Rightarrow> (int \<Rightarrow> string) \<Rightarrow> string \<Rightarrow> shell \<Rightarrow> shell" where
  "file_command usage f report args s =
     (if chd args = NUL then putln usage s
      else case on_fs (f (Some args)) (sh_world s) of (r, w) \<Rightarrow> putln (report r) (s\<lparr>sh_world := w\<rparr>))"

definition cmd_mkdir :: "string \<Rightarrow> shell \<Rightarrow> shell" where
  "cmd_mkdir = file_command ''usage: mkdir DIR'' vfs_mkdir (\<lambda>r. if r = 0 then ''ok'' else ''mkdir failed'')"

definition cmd_rmdir :: "string \<Rightarrow> shell \<Rightarrow> shell" where
  "cmd_rmdir = file_command ''usage: rmdir DIR'' vfs_rmdir
     (\<lambda>r. if r = 0 then ''ok'' else if r = - 4 then ''directory not empty'' else ''rmdir failed'')"

definition cmd_touch :: "string \<Rightarrow> shell \<Rightarrow> shell" where
  "cmd_touch = file_command ''usage: touch FILE'' vfs_touch (\<lambda>r. if r = 0 then ''ok'' else ''touch failed'')"

definition cmd_rm :: "string \<Rightarrow> shell \<Rightarrow> shell" where
  "cmd_rm = file_command ''usage: rm FILE'' vfs_remove (\<lambda>r. if r = 0 then ''ok'' else ''file not found'')"

definition cmd_cat :: "string \<Rightarrow> shell \<Rightarrow> shell" where
  "cmd_cat args s = (if chd args = NUL then putln ''usage: cat FILE'' s else in_world (cat args) s)"

definition cmd_write_common :: "string \<Rightarrow> bool \<Rightarrow> shell \<Rightarrow> shell" where
  "cmd_write_common args app s =
     (let usage = (if app then ''usage: append FILE TEXT'' else ''usage: write FILE TEXT'') in
      if chd args = NUL then putln usage s
      else case split_first_arg args of (name, txt) \<Rightarrow>
        if chd name = NUL \<or> chd txt = NUL then putln usage s
        else case on_fs (if app then vfs_append (Some name) txt else vfs_write (Some name) txt) (sh_world s) of (r, w) \<Rightarrow>
          putln (if r = 0 then ''ok'' else ''write failed'') (s\<lparr>sh_world := w\<rparr>))"

text \<open>The demo processes: the lines they print and the milliseconds they sleep after each.\<close>

definition demo_counter :: "(string \<times> u32) list" where
  "demo_counter = map (\<lambda>i. (''[counter] '' @ dec_text (word_of_nat i) @ newline, 1000)) [0..<10] @ [(''[counter] done!'' @ newline, 0)]"

definition demo_spinner :: "(string \<times> u32) list" where
  "demo_spinner = map (\<lambda>i. (''[spinner] '' @ [(''|/-'' @ [CHR 0x5C]) ! (i mod 4)] @ newline, 250)) [0..<20] @ [(''[spinner] done!'' @ newline, 0)]"

text \<open>The addresses of \<open>process_wrapper\<close> and of the two demo functions are parameters.\<close>

record addresses =
  addr_wrapper :: u32
  addr_counter :: u32
  addr_spinner :: u32

definition cmd_spawn :: "addresses \<Rightarrow> string \<Rightarrow> shell \<Rightarrow> shell" where
  "cmd_spawn a args s =
     (if chd args = NUL then putln ''usage: spawn counter|spinner'' s
      else if strcmp args ''counter'' \<noteq> 0 \<and> strcmp args ''spinner'' \<noteq> 0 then
        putln ''Available: counter, spinner'' (puts newline (puts args (puts ''unknown process: '' s)))
      else case (if strcmp args ''counter'' = 0 then process_create (addr_wrapper a) ''counter'' (addr_counter a) (sh_sched s)
                 else process_create (addr_wrapper a) ''spinner'' (addr_spinner a) (sh_sched s)) of
        (pid, t) \<Rightarrow>
          let s = s\<lparr>sh_sched := t\<rparr> in
          if pid > 0
          then (putln (''spawned process pid='' @ dec_text (word_of_int pid)) s)\<lparr>sh_sched := scheduler_init t\<rparr>
          else putln ''failed to spawn'' s)"

definition cmd_kill :: "string \<Rightarrow> shell \<Rightarrow> shell" where
  "cmd_kill args s =
     (if chd args = NUL then putln ''usage: kill PID'' s
      else case process_kill (atoi args) (sh_sched s) of (r, sw, t) \<Rightarrow>
        putln (if r = 0 then ''killed'' else ''process not found'') (s\<lparr>sh_sched := t\<rparr>))"

definition cmd_ps :: "shell \<Rightarrow> shell" where
  "cmd_ps s = puts (process_list dec_text (sh_sched s)) s"

definition cmd_run :: "string \<Rightarrow> shell \<Rightarrow> shell" where
  "cmd_run args s =
     (if chd args = NUL then putln ''usage: run FILE.sh'' s
      else case script_run (Some args) (sh_world s) of (r, w) \<Rightarrow>
        let s = s\<lparr>sh_world := w\<rparr> in if r \<noteq> 0 then putln ''script error'' s else s)"

datatype outcome =
  Prompt shell | Wait_keys | Reboot shell | User_mode shell | Desktop shell | Fault

text \<open>
  The interpreters and the editor take the keys they need. Their screen output is put on the screen
  when they end; \<open>n\<close> bounds their rounds (see \<open>Cospy\<close> and \<open>Lang\<close>).
\<close>

definition cmd_lang :: "nat \<Rightarrow> shell \<Rightarrow> outcome" where
  "cmd_lang n s =
     (case lang_repl (sh_heap s) n \<lparr>l_stack = (\<lambda>_. 0), l_sp = 0, l_out = [], l_keys = sh_keys s\<rparr> of
        Bye l \<Rightarrow> Prompt (puts (l_out l) (s\<lparr>sh_keys := l_keys l\<rparr>))
      | Next l \<Rightarrow> Wait_keys | forth.Waiting \<Rightarrow> Wait_keys | Trap \<Rightarrow> Fault | forth.Overflow \<Rightarrow> Fault)"

definition fresh_cospy :: "string \<Rightarrow> cospy" where
  "fresh_cospy inp = \<lparr>variables = [], funcs = [], cursor = [], current_token = TOK_EOF, token_number = 0, token_string = [],
     token_ident = [], in_if_false = False, if_depth = 0, while_depth = 0, while_cond = [], defining_function = False,
     current_func_idx = 0, out = [], keys = inp\<rparr>"

definition cospy_outcome :: "cospy_error \<Rightarrow> outcome" where
  "cospy_outcome e = (if e = Input_wait \<or> e = Out_of_fuel then Wait_keys else Fault)"

definition cmd_python :: "nat \<Rightarrow> shell \<Rightarrow> outcome" where
  "cmd_python n s =
     (case cospy_repl n n (fresh_cospy (sh_keys s)) of
        Inl e \<Rightarrow> cospy_outcome e
      | Inr c \<Rightarrow> Prompt (puts (out c) (s\<lparr>sh_keys := keys c\<rparr>)))"

definition cmd_pyrun :: "nat \<Rightarrow> string \<Rightarrow> shell \<Rightarrow> outcome" where
  "cmd_pyrun n args s =
     (if chd args = NUL then Prompt (putln ''usage: pyrun FILE.py'' s)
      else case cospy_run_file n (Some args) (w_fs (sh_world s)) (fresh_cospy (sh_keys s)) of (r, d) \<Rightarrow>
        let s = in_world (\<lambda>w. w\<lparr>w_fs := d\<rparr>) s in
        case r of
          Inl e \<Rightarrow> cospy_outcome e
        | Inr (code, c) \<Rightarrow>
            let s = puts (out c) (s\<lparr>sh_keys := keys c\<rparr>) in
            Prompt (if code \<noteq> 0 then putln ''script error'' s else s))"

text \<open>\<open>stk\<close> is what the stack held where the editor puts its text. The editor flushes the keyboard queue first.\<close>

definition cmd_edit :: "buffer \<Rightarrow> string \<Rightarrow> shell \<Rightarrow> outcome" where
  "cmd_edit stk args s =
     (if chd args = NUL then Prompt (putln ''usage: edit FILE'' s)
      else case on_fs (vfs_touch (Some args)) (sh_world s) of (r, w) \<Rightarrow>
        if r \<noteq> 0 then Prompt (putln ''cannot open file'' (s\<lparr>sh_world := w\<rparr>))
        else case editor_edit_file args stk (sh_keys s) (w_fs w) (w_vga w) of
          session.Waiting \<Rightarrow> Wait_keys
        | session.Overflow \<Rightarrow> Fault
        | Left d v inp \<Rightarrow> Prompt (s\<lparr>sh_world := \<lparr>w_fs = d, w_vga = vga_clear v\<rparr>, sh_keys := inp\<rparr>))"

definition cmd_gui :: "shell \<Rightarrow> outcome" where
  "cmd_gui s =
     (if \<not> vesa_enabled (gfx_vesa (vga_gfx (w_vga (sh_world s)))) then Prompt (putln ''GUI requires VESA 800x600x32 mode.'' s)
      else Desktop s)"

definition cmd_usermode :: "shell \<Rightarrow> outcome" where
  "cmd_usermode s = User_mode (putln ''Entering user mode...'' s)"

definition cmd_reboot :: "shell \<Rightarrow> outcome" where
  "cmd_reboot s = Reboot (putln ''Rebooting...'' s)"

definition dispatch :: "addresses \<Rightarrow> buffer \<Rightarrow> nat \<Rightarrow> string \<Rightarrow> string \<Rightarrow> shell \<Rightarrow> outcome" where
  "dispatch a stk n cmd args s =
     (if strcmp cmd ''help'' = 0 then Prompt (cmd_help s)
      else if strcmp cmd ''clear'' = 0 then Prompt (in_world (\<lambda>w. w\<lparr>w_vga := vga_clear (w_vga w)\<rparr>) s)
      else if strcmp cmd ''echo'' = 0 then Prompt (putln args s)
      else if strcmp cmd ''mem'' = 0 then Prompt (cmd_mem s)
      else if strcmp cmd ''history'' = 0 then Prompt (cmd_history s)
      else if strcmp cmd ''lang'' = 0 then cmd_lang n s
      else if strcmp cmd ''python'' = 0 then cmd_python n s
      else if strcmp cmd ''ls'' = 0 then Prompt (cmd_ls s)
      else if strcmp cmd ''cat'' = 0 then Prompt (cmd_cat args s)
      else if strcmp cmd ''touch'' = 0 then Prompt (cmd_touch args s)
      else if strcmp cmd ''rm'' = 0 then Prompt (cmd_rm args s)
      else if strcmp cmd ''write'' = 0 then Prompt (cmd_write_common args False s)
      else if strcmp cmd ''append'' = 0 then Prompt (cmd_write_common args True s)
      else if strcmp cmd ''edit'' = 0 then cmd_edit stk args s
      else if strcmp cmd ''pwd'' = 0 then Prompt (cmd_pwd s)
      else if strcmp cmd ''cd'' = 0 then Prompt (cmd_cd args s)
      else if strcmp cmd ''mkdir'' = 0 then Prompt (cmd_mkdir args s)
      else if strcmp cmd ''rmdir'' = 0 then Prompt (cmd_rmdir args s)
      else if strcmp cmd ''run'' = 0 then Prompt (cmd_run args s)
      else if strcmp cmd ''pyrun'' = 0 then cmd_pyrun n args s
      else if strcmp cmd ''ps'' = 0 then Prompt (cmd_ps s)
      else if strcmp cmd ''spawn'' = 0 then Prompt (cmd_spawn a args s)
      else if strcmp cmd ''kill'' = 0 then Prompt (cmd_kill args s)
      else if strcmp cmd ''gui'' = 0 \<or> strcmp cmd ''gfx'' = 0 then cmd_gui s
      else if strcmp cmd ''usermode'' = 0 then cmd_usermode s
      else if strcmp cmd ''reboot'' = 0 then cmd_reboot s
      else Prompt (putln (''Unknown command. Try '' @ [CHR 0x27] @ ''help'' @ [CHR 0x27, CHR ''.'']) s))"

subsection \<open>The main loop\<close>

text \<open>A line that was read: \<open>!!\<close> stands for the last line of the history.\<close>

definition run_entered :: "addresses \<Rightarrow> buffer \<Rightarrow> nat \<Rightarrow> string \<Rightarrow> shell \<Rightarrow> outcome" where
  "run_entered a stk n line s =
     (let s = s\<lparr>history := save_history line (history s)\<rparr> in
      case split_cmd line of None \<Rightarrow> Prompt s | Some (cmd, args) \<Rightarrow> dispatch a stk n cmd args s)"

definition run_entry :: "addresses \<Rightarrow> buffer \<Rightarrow> nat \<Rightarrow> string \<Rightarrow> shell \<Rightarrow> outcome" where
  "run_entry a stk n line s =
     (if chd line = NUL then Prompt s
      else if strcmp line ''!!'' = 0 then
        if history s = [] then Prompt (putln ''no history'' s)
        else let line = last (history s) in run_entered a stk n line (putln line s)
      else run_entered a stk n line s)"

definition prompt :: "shell \<Rightarrow> shell" where
  "prompt s = (case on_fs vfs_getcwd (sh_world s) of (path, w) \<Rightarrow> puts ''> '' (puts path (s\<lparr>sh_world := w\<rparr>)))"

text \<open>At most \<open>m\<close> rounds; the line buffer is fresh in each, its old contents never show in the line.\<close>

fun shell_loop :: "addresses \<Rightarrow> buffer \<Rightarrow> nat \<Rightarrow> nat \<Rightarrow> shell \<Rightarrow> outcome" where
  "shell_loop a stk n 0 s = Prompt s"
| "shell_loop a stk n (Suc m) s =
     (let s = prompt s in
      case keyboard_readline SHELL_LINE_MAX (replicate SHELL_LINE_MAX NUL) (sh_keys s) of
        None \<Rightarrow> Wait_keys
      | Some (Inl _) \<Rightarrow> Fault
      | Some (Inr (buf, echo, inp)) \<Rightarrow>
          (case run_entry a stk n (takeWhile (\<lambda>c. c \<noteq> NUL) buf) (puts echo (s\<lparr>sh_keys := inp\<rparr>)) of
             Prompt s \<Rightarrow> shell_loop a stk n m s
           | r \<Rightarrow> r))"

definition shell_run :: "addresses \<Rightarrow> buffer \<Rightarrow> nat \<Rightarrow> nat \<Rightarrow> shell \<Rightarrow> outcome" where
  "shell_run a stk n m s = shell_loop a stk n m (putln (''Type '' @ [CHR 0x27] @ ''help'' @ [CHR 0x27] @ '' for commands.'') s)"

subsection \<open>The history\<close>

text \<open>What \<open>save_history\<close> computes: the line is added and only the last sixteen lines are kept.\<close>

lemma shift_history:
  assumes "length h = 16"
  shows "(fold (\<lambda>i h. h[i - 1 := h ! i]) [1..<HISTORY_MAX] h)[HISTORY_MAX - 1 := line] = tl h @ [line]"
proof -
  have step: "m < 16 \<Longrightarrow> fold (\<lambda>i h. h[i - 1 := h ! i]) [1..<Suc m] h = take m (tl h) @ drop m h" for m
  proof (induction m)
    case (Suc m)
    have "take (Suc m) (tl h) = take m (tl h) @ [h ! Suc m]"
      using Suc.prems assms by (simp add: take_Suc_conv_app_nth nth_tl)
    moreover have "drop m h = h ! m # h ! Suc m # drop (Suc (Suc m)) h"
      using Suc.prems assms by (simp add: Cons_nth_drop_Suc)
    moreover have "length (take m (tl h)) = m" using Suc.prems assms by simp
    moreover have "drop (Suc m) h = h ! Suc m # drop (Suc (Suc m)) h"
      using Suc.prems assms by (simp add: Cons_nth_drop_Suc)
    ultimately show ?case using Suc by (simp add: nth_append list_update_append)
  qed simp
  have "fold (\<lambda>i h. h[i - 1 := h ! i]) [1..<HISTORY_MAX] h = take 15 (tl h) @ drop 15 h"
    using step [of 15] by simp
  moreover have "take 15 (tl h) = tl h" "drop 15 h = [h ! 15]"
    using assms by (simp_all add: Cons_nth_drop_Suc [symmetric])
  moreover have "length (tl h) = 15" using assms by simp
  ultimately show ?thesis by (simp add: list_update_append)
qed

definition last_lines :: "string list \<Rightarrow> string list" where
  "last_lines h = drop (length h - HISTORY_MAX) h"

lemma save_history_eq:
  assumes "length h \<le> HISTORY_MAX"
  shows "save_history line h = (if chd line = NUL then h else last_lines (h @ [line]))"
proof (cases "length h < HISTORY_MAX")
  case True
  then show ?thesis by (simp add: save_history_def last_lines_def)
next
  case False
  then have l: "length h = 16" using assms by simp
  then have "drop (length (h @ [line]) - HISTORY_MAX) (h @ [line]) = tl h @ [line]" by (cases h) auto
  then show ?thesis using l shift_history [OF l, of line] unfolding save_history_def last_lines_def by simp
qed

lemma history_simps [simp]:
  "history (in_world f s) = history s" "history (puts t s) = history s" "history (putln t s) = history s"
  "history (fold (\<lambda>x. putln (g x)) xs s) = history s"
proof -
  show "history (fold (\<lambda>x. putln (g x)) xs s) = history s"
    by (induction xs arbitrary: s) (simp_all add: putln_def puts_def in_world_def)
qed (simp_all add: in_world_def puts_def putln_def)

lemma history_commands [simp]:
  "history (cmd_help s) = history s" "history (cmd_mem s) = history s" "history (cmd_history s) = history s"
  "history (cmd_ls s) = history s" "history (cmd_pwd s) = history s" "history (cmd_cd args s) = history s"
  "history (file_command usage f report args s) = history s" "history (cmd_cat args s) = history s"
  "history (cmd_write_common args b s) = history s" "history (cmd_spawn a args s) = history s"
  "history (cmd_kill args s) = history s" "history (cmd_ps s) = history s" "history (cmd_run args s) = history s"
proof -
  show "history (cmd_help s) = history s" using history_simps(4) [of "\<lambda>x. x" help_text s] by (simp add: cmd_help_def)
  show "history (cmd_history s) = history s" by (simp add: cmd_history_def)
qed (auto simp: cmd_mem_def cmd_ls_def cmd_pwd_def cmd_cd_def file_command_def cmd_cat_def cmd_write_common_def
  cmd_spawn_def cmd_kill_def cmd_ps_def cmd_run_def Let_def split: prod.splits)

definition keeps_history :: "string list \<Rightarrow> outcome \<Rightarrow> bool" where
  "keeps_history h r = (case r of Prompt s \<Rightarrow> history s = h | User_mode s \<Rightarrow> history s = h
     | Reboot s \<Rightarrow> history s = h | Desktop s \<Rightarrow> history s = h | _ \<Rightarrow> True)"

lemma keeps_history_simps [simp]:
  "keeps_history h (Prompt s) = (history s = h)" "keeps_history h Wait_keys" "keeps_history h Fault"
  "keeps_history h (User_mode s) = (history s = h)" "keeps_history h (Reboot s) = (history s = h)"
  "keeps_history h (Desktop s) = (history s = h)"
  by (simp_all add: keeps_history_def)

lemma keeps_history_interpreters [simp]:
  "keeps_history (history s) (cmd_lang n s)" "keeps_history (history s) (cmd_python n s)"
  "keeps_history (history s) (cmd_pyrun n args s)" "keeps_history (history s) (cmd_edit stk args s)"
  "keeps_history (history s) (cmd_gui s)" "keeps_history (history s) (cmd_usermode s)" "keeps_history (history s) (cmd_reboot s)"
  by (auto simp: cmd_lang_def cmd_python_def cmd_pyrun_def cmd_edit_def cmd_gui_def cmd_usermode_def cmd_reboot_def
      cospy_outcome_def Let_def split: forth.split sum.split prod.split session.split)

lemma dispatch_keeps: "keeps_history (history s) (dispatch a stk n cmd args s)"
  unfolding dispatch_def
  by (simp add: cmd_touch_def cmd_rm_def cmd_mkdir_def cmd_rmdir_def)

lemma run_entered_history: "keeps_history (save_history line (history s)) (run_entered a stk n line s)"
  using dispatch_keeps [of "s\<lparr>history := save_history line (history s)\<rparr>"]
  by (auto simp: run_entered_def Let_def split: option.split)

text \<open>The line an entry stands for; an empty one, and \<open>!!\<close> without a history, for none.\<close>

definition meant :: "string list \<Rightarrow> string \<Rightarrow> string" where
  "meant h line = (if line = ''!!'' then (if h = [] then [] else last h) else line)"

text \<open>
  The history: whatever a command does, after an entry the history is the one before it
  followed by the line the entry stands for, cut to the last sixteen; an empty entry leaves it as it
  is, and \<open>!!\<close> stands for the last line.
\<close>

lemma shell_history:
  assumes "cstring line" and "length (history s) \<le> HISTORY_MAX"
  shows "keeps_history
     (if chd (meant (history s) line) = NUL then history s else last_lines (history s @ [meant (history s) line]))
     (run_entry a stk n line s)"
proof -
  have bang: "strcmp line ''!!'' = 0 \<longleftrightarrow> line = ''!!''" using assms(1) by (simp add: strcmp_eq_0)
  show ?thesis
    using run_entered_history [of "last (history s)" "putln (last (history s)) s" a stk n] run_entered_history [of line s a stk n]
      save_history_eq [OF assms(2)]
    by (auto simp: run_entry_def bang meant_def Let_def)
qed

lemma shell_history_witness:
  "keeps_history (replicate 15 ''ls'' @ [''pwd''])
     (run_entry \<lparr>addr_wrapper = 0x100000, addr_counter = 0x200000, addr_spinner = 0x300000\<rparr> (\<lambda>_. 0) 5 ''pwd''
       \<lparr>sh_world = \<lparr>w_fs = fs_init blank_machine, w_vga = text_screen\<rparr>, history = replicate 16 ''ls'', sh_keys = [],
        sh_heap = \<lparr>heap_start = 0x200000, heap_end = 0x400000, heap_curr = 0x200000\<rparr>, sh_sched = two_processes\<rparr>)"
proof -
  have "last_lines (replicate 16 ''ls'' @ [''pwd'']) = replicate 15 ''ls'' @ [''pwd'']"
    by (simp add: last_lines_def numeral_eq_Suc)
  then show ?thesis
    using shell_history [of "''pwd''" "\<lparr>sh_world = \<lparr>w_fs = fs_init blank_machine, w_vga = text_screen\<rparr>, history = replicate 16 ''ls'',
        sh_keys = [], sh_heap = \<lparr>heap_start = 0x200000, heap_end = 0x400000, heap_curr = 0x200000\<rparr>, sh_sched = two_processes\<rparr>"
        "\<lparr>addr_wrapper = 0x100000, addr_counter = 0x200000, addr_spinner = 0x300000\<rparr>" "\<lambda>_. 0" 5]
    by (simp add: meant_def)
qed

end
