(* ===== verification/Shell_Props.thy ===== *)
theory Shell_Props
  imports Shell
begin

text \<open>
  The shell from the keys to the screen: a typed line reaches the command it names unchanged, and what
  one command stores another prints.
\<close>

subsection \<open>A typed line\<close>

definition printable :: "string \<Rightarrow> bool" where
  "printable t \<longleftrightarrow> (\<forall>c \<in> set t. 32 \<le> ord c \<and> ord c \<le> 126)"

lemma printable_simps [simp]:
  "printable []" "printable (c # t) \<longleftrightarrow> 32 \<le> ord c \<and> ord c \<le> 126 \<and> printable t" "printable (s @ t) \<longleftrightarrow> printable s \<and> printable t"
  by (auto simp: printable_def)

lemma printable_cstring: "printable t \<Longrightarrow> cstring t"
  by (auto simp: printable_def cstring_def)

lemma printable_newline: "printable t \<Longrightarrow> CHR 0x0A \<notin> set t"
  by (auto simp: printable_def)

lemma readline_typed:
  "printable t \<Longrightarrow> i + length t < n \<Longrightarrow> length buf = n \<Longrightarrow>
   readline_loop n i buf echo (t @ CHR 0x0A # inp) =
     Some (Inr (take i buf @ t @ NUL # drop (Suc (i + length t)) buf, echo @ t @ [CHR 0x0A], inp))"
proof (induction t arbitrary: i buf echo)
  case Nil
  then show ?case by (simp add: upd_conv_take_nth_drop)
next
  case (Cons c t)
  have "c \<noteq> CHR 0x0D" "c \<noteq> CHR 0x0A" "c \<noteq> CHR 0x08" using Cons.prems(1) by auto
  moreover have "take (Suc i) (buf[i := c]) = take i buf @ [c]" using Cons.prems(2,3) by (simp add: take_Suc_conv_app_nth)
  ultimately show ?case using Cons.IH [of "Suc i" "buf[i := c]" "echo @ [c]"] Cons.prems by simp
qed

text \<open>What the loop of the shell does with it.\<close>

lemma cstring_prefix: "cstring t \<Longrightarrow> takeWhile (\<lambda>c. c \<noteq> NUL) (t @ NUL # u) = t"
  by (subst takeWhile_append2) (auto simp: cstring_def)

lemma loop_typed:
  assumes "printable t" "length t < SHELL_LINE_MAX" "sh_keys (prompt s) = t @ CHR 0x0A # inp"
  shows "shell_loop a stk n (Suc m) s =
    (case run_entry a stk n t (puts (t @ newline) ((prompt s)\<lparr>sh_keys := inp\<rparr>)) of Prompt s \<Rightarrow> shell_loop a stk n m s | r \<Rightarrow> r)"
  using readline_typed [OF assms(1), of 0 SHELL_LINE_MAX "replicate SHELL_LINE_MAX NUL" "[]" inp] assms(2,3)
    cstring_prefix [OF printable_cstring [OF assms(1)]]
  by (simp add: keyboard_readline_def newline_def Let_def)

subsection \<open>Commands with an argument\<close>

lemma word_entry:
  assumes "cmd = c # cs" "printable cmd" "CHR '' '' \<notin> set cmd" "args = [] \<or> \<not> is_ws (hd args)" "printable args"
    and "cmd @ CHR '' '' # args \<noteq> ''!!''"
  shows "run_entry a stk n (cmd @ CHR '' '' # args) s =
    dispatch a stk n cmd args (s\<lparr>history := save_history (cmd @ CHR '' '' # args) (history s)\<rparr>)"
proof -
  let ?l = "cmd @ CHR '' '' # args"
  have w: "\<forall>c \<in> set cmd. \<not> is_ws c" using assms(2,3) by (auto simp: is_ws_def printable_def)
  have "c \<noteq> NUL" using assms(1,2) by auto
  then have "chd ?l \<noteq> NUL" "skip_ws ?l = ?l" using assms(1) w by (simp_all add: skip_ws_def)
  then have "split_cmd ?l = Some (cmd, args)" using split_word_cons [OF w assms(4)] by (simp add: split_cmd_def)
  moreover have "strcmp ?l ''!!'' \<noteq> 0"
    using strcmp_eq_0 [of ?l "''!!''"] printable_cstring [of ?l] assms(2,5,6) by simp
  ultimately show ?thesis using \<open>chd ?l \<noteq> NUL\<close> by (simp add: run_entry_def run_entered_def Let_def)
qed

text \<open>The current path outlives a write, and reading the path leaves the files alone.\<close>

lemma flush_path: "current_path (snd (flush_both err s)) = current_path s"
  by (auto simp: flush_both_def flush_fat_def flush_root_def flush_current_dir_def split: prod.split)

lemma write_entry_path: "current_path (snd (write_entry i data len s)) = current_path s"
  by (simp add: write_entry_def Let_def flush_path set_ent_def split: prod.split)

lemma entries_path: "current_dir_entries s = (ok, s') \<Longrightarrow> current_path s' = current_path s"
  using current_dir_entries_spec(1) quiet_simps(6) by blast

lemma find_path: "find_entry_in_current name s = (i, j, s') \<Longrightarrow> current_path s' = current_path s"
  using entries_path by (auto simp: find_entry_in_current_def split: prod.splits option.splits if_splits)

lemma fs_write_path: "current_path (snd (fs_write_raw name data len s)) = current_path s"
proof -
  obtain i j s1 where f: "find_entry_in_current name s = (i, j, s1)" by (metis prod_cases3)
  obtain ok s2 where c: "current_dir_entries s1 = (ok, s2)" by force
  show ?thesis
    using entries_path [OF c] find_path [OF f] by (simp add: fs_write_raw_def f c write_entry_path Let_def)
qed

lemma vfs_write_path: "current_path (snd (vfs_write path t s)) = current_path s"
  by (simp add: vfs_write_def fs_write_def fs_write_path split: option.split)

lemma getcwd_eq:
  "vfs_getcwd s = (let c = (if current_path s ! 0 = NUL then (current_path s)[0 := CHR ''/'', 1 := NUL] else current_path s) in
     (takeWhile (\<lambda>c. c \<noteq> NUL) c, s\<lparr>current_path := c\<rparr>))"
  by (simp add: vfs_getcwd_def fs_getcwd_def Let_def)

lemma getcwd_path:
  assumes "vfs_getcwd s = (p, s1)" "current_path s \<noteq> []" "current_path s2 = current_path s1"
  shows "vfs_getcwd s2 = (p, s2)"
proof -
  have "current_path s1 ! 0 \<noteq> NUL"
    using assms(1,2) by (cases "current_path s ! 0 = NUL") (auto simp: getcwd_eq Let_def nth_list_update)
  then show ?thesis using assms(1,3) by (auto simp: getcwd_eq Let_def)
qed

lemma getcwd_rel: "vfs_getcwd s = (p, s1) \<Longrightarrow> fs_rel s1 F = fs_rel s F \<and> disk s1 = disk s"
  by (auto simp: getcwd_eq Let_def fs_rel_def fs_layout_def dir_view_def)

lemma prompt_eq:
  "vfs_getcwd (w_fs (sh_world s)) = (p, d) \<Longrightarrow>
   prompt s = s\<lparr>sh_world := (sh_world s)\<lparr>w_fs := d, w_vga := vga_puts (p @ ''> '') (w_vga (sh_world s))\<rparr>\<rparr>"
  by (simp add: prompt_def on_fs_def puts_def in_world_def print_def vga_puts_fold)

text \<open>The text of a file as \<open>cat\<close> shows it.\<close>

lemma cat_shows:
  assumes "vfs_read_ptr (Some name) (w_fs w) = (Some (length t), d)" "cache_holds (read_cache d) (map byte_of t)"
    and "printable t" "length t < 4097"
  shows "cat name w = print (t @ newline) (w\<lparr>w_fs := d\<rparr>)"
proof -
  have "cache_text (read_cache d) = t" using assms(2,4) printable_cstring [OF assms(3)] by (rule_tac cache_text_holds)
  moreover have "read_cache d (length t - 1) \<noteq> 0x0A" if "t \<noteq> []"
  proof -
    have "length t - 1 < length t" using that by simp
    then have "read_cache d (length t - 1) = byte_of (t ! (length t - 1))" "t ! (length t - 1) \<noteq> CHR 0x0A"
      using assms(2) printable_newline [OF assms(3)] by (simp_all add: cache_holds_def) (metis nth_mem)
    then show ?thesis by (metis byte_of_inject byte_of_newline)
  qed
  ultimately have "print_file (length t) (w\<lparr>w_fs := d\<rparr>) = print newline (print t (w\<lparr>w_fs := d\<rparr>))"
    by (cases "t = []") (simp_all add: print_file_def Let_def)
  then show ?thesis using assms(1) by (simp add: cat_def on_fs_def print_append)
qed

lemma screen_simps [simp]:
  "w_vga (sh_world (puts t s)) = vga_puts t (w_vga (sh_world s))" "w_fs (sh_world (puts t s)) = w_fs (sh_world s)"
  "w_vga (sh_world (putln t s)) = vga_puts (t @ newline) (w_vga (sh_world s))" "w_fs (sh_world (putln t s)) = w_fs (sh_world s)"
  "sh_keys (puts t s) = sh_keys s" "sh_keys (putln t s) = sh_keys s"
  by (simp_all add: puts_def putln_def in_world_def print_def)

lemma word_loop:
  assumes "vfs_getcwd (w_fs (sh_world s)) = (p, d)" and "sh_keys s = line @ newline @ inp" and "line = cmd @ CHR '' '' # args"
    and "cmd = c # cs" "printable cmd" "CHR '' '' \<notin> set cmd" "\<not> is_ws (hd args)" "args \<noteq> []" "printable args" "length line < SHELL_LINE_MAX"
    and "line \<noteq> ''!!''"
  shows "\<exists>s1. shell_loop a stk n (Suc m) s = (case dispatch a stk n cmd args s1 of Prompt s \<Rightarrow> shell_loop a stk n m s | r \<Rightarrow> r) \<and>
    w_fs (sh_world s1) = d \<and> w_vga (sh_world s1) = vga_puts (p @ ''> '' @ line @ newline) (w_vga (sh_world s)) \<and>
    sh_keys s1 = inp \<and> history s1 = save_history line (history s)"
proof -
  let ?s = "puts (line @ newline) ((prompt s)\<lparr>sh_keys := inp\<rparr>)"
  note pr = prompt_eq [OF assms(1)]
  have "printable line" using assms(3,5,9) by simp
  moreover have "sh_keys (prompt s) = line @ CHR 0x0A # inp" using assms(2) by (simp add: pr newline_def)
  ultimately have "shell_loop a stk n (Suc m) s = (case run_entry a stk n line ?s of Prompt s \<Rightarrow> shell_loop a stk n m s | r \<Rightarrow> r)"
    using assms(10) by (intro loop_typed)
  also have "run_entry a stk n line ?s = dispatch a stk n cmd args (?s\<lparr>history := save_history line (history ?s)\<rparr>)"
    using word_entry [OF assms(4-6), of args] assms(3,7-9,11) by simp
  finally show ?thesis
    by (rule exI [where x = "?s\<lparr>history := save_history line (history ?s)\<rparr>", OF conjI]) (simp add: pr vga_puts_fold)
qed

lemma write_entered:
  assumes "vfs_getcwd (w_fs (sh_world s)) = (p, d)" and "vfs_write (Some name) t d = (0, d1)"
    and "plain name" "printable name" "printable t" "t \<noteq> []" "\<not> is_ws (hd t)" "length name + length t < 180"
    and "sh_keys s = line @ newline @ inp" "line = ''write '' @ name @ '' '' @ t"
  shows "\<exists>s1. shell_loop a stk n (Suc m) s = shell_loop a stk n m s1 \<and> w_fs (sh_world s1) = d1 \<and>
    w_vga (sh_world s1) = vga_puts (p @ ''> '' @ line @ newline @ ''ok'' @ newline) (w_vga (sh_world s)) \<and>
    sh_keys s1 = inp \<and> history s1 = save_history line (history s)"
proof -
  note nm = plain_facts [OF assms(3)]
  have ne: "name \<noteq> []" using assms(3) by (simp add: plain_def)
  then have hd: "\<not> is_ws (hd (name @ u))" for u using nm(2) by simp
  obtain s1 where 1: "shell_loop a stk n (Suc m) s =
      (case dispatch a stk n ''write'' (name @ CHR '' '' # t) s1 of Prompt s \<Rightarrow> shell_loop a stk n m s | r \<Rightarrow> r)"
    "w_fs (sh_world s1) = d" "w_vga (sh_world s1) = vga_puts (p @ ''> '' @ line @ newline) (w_vga (sh_world s))"
    "sh_keys s1 = inp" "history s1 = save_history line (history s)"
    using word_loop [of s p d line inp "''write''" "name @ CHR '' '' # t" "CHR ''w''" "''rite''" a stk n m] assms hd by auto
  have sp: "split_first_arg (name @ CHR '' '' # t) = (name, t)"
    using split_word_cons [OF nm(3), of t] assms(7) hd [of "CHR '' '' # t"] ne by (cases name) (simp_all add: split_first_arg_def skip_ws_def)
  have c: "chd (name @ u) \<noteq> NUL" "chd t \<noteq> NUL" "chd name \<noteq> NUL" for u
    using ne assms(4-6) by (cases name; cases t; auto)+
  let ?s = "putln ''ok'' (s1\<lparr>sh_world := (sh_world s1)\<lparr>w_fs := d1\<rparr>\<rparr>)"
  have "dispatch a stk n ''write'' (name @ CHR '' '' # t) s1 = Prompt ?s"
    using assms(2) 1(2) c by (simp add: dispatch_def strcmp_eq_0 cmd_write_common_def sp on_fs_def)
  then show ?thesis using 1 by (intro exI [where x = ?s]) (simp add: vga_puts_fold)
qed

lemma cat_entered:
  assumes "vfs_getcwd (w_fs (sh_world s)) = (p, d)" and "vfs_read_ptr (Some name) d = (Some (length t), d1)"
    and "cache_holds (read_cache d1) (map byte_of t)" "printable t" "length t < 4097"
    and "plain name" "printable name" "length name < 180"
    and "sh_keys s = line @ newline @ inp" "line = ''cat '' @ name"
  shows "\<exists>s1. shell_loop a stk n (Suc m) s = shell_loop a stk n m s1 \<and> w_fs (sh_world s1) = d1 \<and>
    w_vga (sh_world s1) = vga_puts (p @ ''> '' @ line @ newline @ t @ newline) (w_vga (sh_world s)) \<and>
    sh_keys s1 = inp \<and> history s1 = save_history line (history s)"
proof -
  have ne: "name \<noteq> []" "\<not> is_ws (hd name)" using assms(6) plain_facts by (simp_all add: plain_def)
  then have c: "chd name \<noteq> NUL" using assms(7) by (cases name) auto
  obtain s1 where 1: "shell_loop a stk n (Suc m) s = (case dispatch a stk n ''cat'' name s1 of Prompt s \<Rightarrow> shell_loop a stk n m s | r \<Rightarrow> r)"
    "w_fs (sh_world s1) = d" "w_vga (sh_world s1) = vga_puts (p @ ''> '' @ line @ newline) (w_vga (sh_world s))"
    "sh_keys s1 = inp" "history s1 = save_history line (history s)"
    using word_loop [of s p d line inp "''cat''" name "CHR ''c''" "''at''" a stk n m] assms ne by auto
  let ?s = "s1\<lparr>sh_world := print (t @ newline) ((sh_world s1)\<lparr>w_fs := d1\<rparr>)\<rparr>"
  have "cat name (sh_world s1) = print (t @ newline) ((sh_world s1)\<lparr>w_fs := d1\<rparr>)"
    using assms(2-5) 1(2) by (intro cat_shows) simp_all
  then have "dispatch a stk n ''cat'' name s1 = Prompt ?s"
    using c by (simp add: dispatch_def strcmp_eq_0 cmd_cat_def in_world_def)
  then show ?thesis using 1 by (intro exI [where x = ?s]) (simp add: print_def vga_puts_fold)
qed

lemma last_lines_again: "last_lines (last_lines h @ [t]) = last_lines (h @ [t])"
  by (cases "length h \<le> HISTORY_MAX") (simp_all add: last_lines_def Suc_diff_le [symmetric])

text \<open>
  Property C3. What is typed after \<open>write NAME\<close> comes back with \<open>cat NAME\<close>: from the keys the two lines
  are read with their echo, the commands found and the file stored on the drive and read from it again,
  and the screen shows both prompts with the path, both lines, the report and the text of the file.
\<close>

theorem typed_write_cat:
  assumes "fs_rel (w_fs (sh_world s)) F" and "healthy (disk (w_fs (sh_world s)))"
    and "current_path (w_fs (sh_world s)) \<noteq> []" and "length (history s) \<le> HISTORY_MAX"
    and "plain name" and "vfs_key name = Some f" and "printable name" and "printable t"
    and "t \<noteq> []" and "\<not> is_ws (hd t)" and "length name + length t < 180"
    and "vfs_getcwd (w_fs (sh_world s)) = (p, d)" and "fst (vfs_write (Some name) t d) = 0"
    and "sh_keys s = write_line @ newline @ cat_line @ newline @ inp"
    and "write_line = ''write '' @ name @ '' '' @ t" and "cat_line = ''cat '' @ name"
  shows "\<exists>s'. shell_loop a stk n 2 s = Prompt s' \<and> sh_keys s' = inp \<and>
     w_vga (sh_world s') = vga_puts (p @ ''> '' @ write_line @ newline @ ''ok'' @ newline @ p @ ''> '' @ cat_line @ newline @ t @ newline)
       (w_vga (sh_world s)) \<and>
     history s' = last_lines (history s @ [write_line, cat_line])"
proof -
  obtain d1 where w: "vfs_write (Some name) t d = (0, d1)" using assms(13) by (metis prod.collapse)
  obtain r d2 where r: "vfs_read_ptr (Some name) d1 = (r, d2)" by force
  have rd: "r = Some (length t)" "cache_holds (read_cache d2) (map byte_of t)"
    using write_then_read [of d F, OF _ _ plain_facts(1) [OF assms(5)] printable_cstring [OF assms(8)] assms(6) w r]
      getcwd_rel [OF assms(12), of F] assms(1,2) by simp_all
  obtain s1 where 1: "shell_loop a stk n (Suc 1) s = shell_loop a stk n 1 s1" "w_fs (sh_world s1) = d1"
    "w_vga (sh_world s1) = vga_puts (p @ ''> '' @ write_line @ newline @ ''ok'' @ newline) (w_vga (sh_world s))"
    "sh_keys s1 = cat_line @ newline @ inp" "history s1 = save_history write_line (history s)"
    using write_entered [OF assms(12) w assms(5,7-11,14,15)] by blast
  have "current_path d1 = current_path d" using vfs_write_path [of "Some name" t d] w by simp
  then have p: "vfs_getcwd (w_fs (sh_world s1)) = (p, d1)" using getcwd_path [OF assms(12,3), of d1] by (simp add: 1)
  obtain s2 where 2: "shell_loop a stk n (Suc 0) s1 = shell_loop a stk n 0 s2" "sh_keys s2 = inp"
    "w_vga (sh_world s2) = vga_puts (p @ ''> '' @ cat_line @ newline @ t @ newline) (w_vga (sh_world s1))"
    "history s2 = save_history cat_line (history s1)"
    using cat_entered [OF p r [unfolded rd(1)] rd(2) assms(8) _ assms(5,7) _ 1(4) assms(16)] assms(11) by fastforce
  have h: "history s1 = last_lines (history s @ [write_line])" using assms(4) by (simp add: 1 save_history_eq assms(15))
  then have "length (history s1) \<le> HISTORY_MAX" by (simp add: last_lines_def)
  then have "history s2 = last_lines (history s @ [write_line, cat_line])"
    using last_lines_again [of "history s @ [write_line]" cat_line] by (simp add: 2 h save_history_eq assms(16))
  then show ?thesis using 1(1) 2 by (intro exI [where x = s2]) (simp add: numeral_2_eq_2 1(3) vga_puts_fold)
qed

definition fresh_shell :: "string \<Rightarrow> shell" where
  "fresh_shell inp = \<lparr>sh_world = \<lparr>w_fs = booted_cwd, w_vga = text_screen\<rparr>, history = [], sh_keys = inp,
     sh_heap = \<lparr>heap_start = 0x200000, heap_end = 0x400000, heap_curr = 0x200000\<rparr>, sh_sched = two_processes\<rparr>"

theorem typed_write_cat_witness:
  "\<exists>s. shell_loop \<lparr>addr_wrapper = 0x100000, addr_counter = 0x200000, addr_spinner = 0x300000\<rparr> (\<lambda>_. 0) 5 2
       (fresh_shell (''write /a.txt hi'' @ newline @ ''cat /a.txt'' @ newline)) = Prompt s \<and>
     w_vga (sh_world s) = vga_puts (''/> write /a.txt hi'' @ newline @ ''ok'' @ newline @ ''/> cat /a.txt'' @ newline @ ''hi'' @ newline) text_screen"
proof -
  have cwd: "vfs_getcwd booted_cwd = (''/'', booted_cwd)" by (simp add: getcwd_eq Let_def booted_cwd_def)
  have "fat_buf booted_cwd = fat_buf (fs_init blank_machine)" by (simp add: booted_cwd_def)
  then have "fst (fs_write_raw ''a.txt'' (text_bytes ''hi'') 2 booted_cwd) = 0"
    using booted_space(1) booted_cwd_facts(5) by (intro write_raw_total [OF booted_cwd_facts(1,2) key_a]) simp_all
  then have "fst (vfs_write (Some ''/a.txt'') ''hi'' booted_cwd) = 0"
    using vfs_key_a(1) by (simp add: vfs_write_def fs_write_def numeral_2_eq_2)
  note wr = this
  let ?s = "fresh_shell (''write /a.txt hi'' @ newline @ ''cat /a.txt'' @ newline)"
  have f: "w_fs (sh_world ?s) = booted_cwd" "w_vga (sh_world ?s) = text_screen" "history ?s = []"
    "sh_keys ?s = ''write /a.txt hi'' @ newline @ ''cat /a.txt'' @ newline @ []" by (simp_all add: fresh_shell_def)
  have "\<exists>s'. shell_loop \<lparr>addr_wrapper = 0x100000, addr_counter = 0x200000, addr_spinner = 0x300000\<rparr> (\<lambda>_. 0) 5 2 ?s = Prompt s' \<and> sh_keys s' = [] \<and>
     w_vga (sh_world s') = vga_puts (''/'' @ ''> '' @ ''write /a.txt hi'' @ newline @ ''ok'' @ newline @ ''/'' @ ''> '' @ ''cat /a.txt'' @ newline @ ''hi'' @ newline)
       (w_vga (sh_world ?s)) \<and>
     history s' = last_lines (history ?s @ [''write /a.txt hi'', ''cat /a.txt''])"
  proof (rule typed_write_cat [where F = Map.empty and name = "''/a.txt''" and t = "''hi''" and f = "''A       TXT''" and d = booted_cwd])
    show "plain ''/a.txt''" by (simp add: plain_def is_ws_def)
    show "current_path (w_fs (sh_world ?s)) \<noteq> []" unfolding f(1) by (simp add: booted_cwd_def)
  qed (simp_all only: f booted_cwd_facts vfs_key_a cwd wr, simp_all add: is_ws_def)
  then obtain s' where "shell_loop \<lparr>addr_wrapper = 0x100000, addr_counter = 0x200000, addr_spinner = 0x300000\<rparr> (\<lambda>_. 0) 5 2 ?s = Prompt s'"
    and "w_vga (sh_world s') = vga_puts (''/'' @ ''> '' @ ''write /a.txt hi'' @ newline @ ''ok'' @ newline @ ''/'' @ ''> '' @ ''cat /a.txt'' @ newline @ ''hi'' @ newline)
       (w_vga (sh_world ?s))" by (elim exE conjE)
  then show ?thesis unfolding f(2) by (intro exI [where x = s'] conjI) simp_all
qed

end
