(* ===== verification/System.thy ===== *)
theory System
  imports Usermode Gui Shell_Props
begin

text \<open>
  The running system: \<open>kmain\<close> of \<open>kernel/kmain.c\<close> and then \<open>shell_run\<close>, with the three commands that leave
  the state of the shell: \<open>cmd_gui\<close>, \<open>cmd_usermode\<close> and \<open>cmd_reboot\<close> of \<open>kernel/shell.c\<close>.

  The input of a session is a list of phases: the characters typed at the shell and, for the desktop
  the shell then starts, the interrupts and ticks of its rounds.
\<close>

subsection \<open>Leaving the shell\<close>

text \<open>\<open>cmd_reboot\<close> after its message: the reset command goes to the keyboard controller once that takes one.\<close>

definition reset_machine :: "'d bus \<Rightarrow> 'd \<Rightarrow> 'd option" where
  "reset_machine b d =
     (case poll b 0x64 (\<lambda>v. v AND 0x02 = 0) d of None \<Rightarrow> None | Some (_, d) \<Rightarrow> Some (outb b 0x64 0xFE d))"

text \<open>The state of the shell within the system, and the system after the shell changed it.\<close>

record 'd system =
  sy_kernel :: "'d kernel"
  sy_history :: "string list"
  sy_gui :: gui

definition shell_of :: "string \<Rightarrow> 'd system \<Rightarrow> shell" where
  "shell_of inp y =
     (let k = sy_kernel y in
      \<lparr>sh_world = \<lparr>w_fs = k_fs k, w_vga = m_vga k\<rparr>, history = sy_history y, sh_keys = inp, sh_heap = k_heap k, sh_sched = m_sched k\<rparr>)"

definition from_shell :: "shell \<Rightarrow> 'd system \<Rightarrow> 'd system" where
  "from_shell s y =
     y\<lparr>sy_kernel := (sy_kernel y)\<lparr>m_vga := w_vga (sh_world s), m_sched := sh_sched s, m_keys := sh_keys s,
                       k_fs := w_fs (sh_world s), k_heap := sh_heap s\<rparr>,
       sy_history := history s\<rparr>"

text \<open>The same for the desktop, whose locals \<open>gui_run\<close> sets before it reads them.\<close>

definition desktop_of :: "'d system \<Rightarrow> desktop" where
  "desktop_of y =
     (let k = sy_kernel y in
      \<lparr>d_vesa = gfx_vesa (vga_gfx (m_vga k)), d_kbd = k_kbd k, d_mouse = k_mouse k, d_timer = m_timer k, d_gui = sy_gui y,
       d_ms = \<lparr>ms_x = 0, ms_y = 0, ms_buttons = 0, ms_dx = 0, ms_dy = 0\<rparr>, d_last = 0, d_running = True\<rparr>)"

definition from_desktop :: "desktop \<Rightarrow> 'd \<Rightarrow> 'd system \<Rightarrow> 'd system" where
  "from_desktop d dev y =
     (let k = sy_kernel y; v = m_vga k in
      y\<lparr>sy_kernel := k\<lparr>m_vga := v\<lparr>vga_gfx := (vga_gfx v)\<lparr>gfx_vesa := d_vesa d\<rparr>\<rparr>, m_timer := d_timer d,
                        k_kbd := d_kbd d, k_mouse := d_mouse d, k_dev := dev\<rparr>,
        sy_gui := d_gui d\<rparr>)"

definition set_kbd :: "kbd \<Rightarrow> 'd system \<Rightarrow> 'd system" where
  "set_kbd q y = y\<lparr>sy_kernel := (sy_kernel y)\<lparr>k_kbd := q\<rparr>\<rparr>"

definition set_vga :: "vga \<Rightarrow> 'd system \<Rightarrow> 'd system" where
  "set_vga v y = y\<lparr>sy_kernel := (sy_kernel y)\<lparr>m_vga := v\<rparr>\<rparr>"

text \<open>The last step of \<open>mouse_init\<close> registers the handler of the mouse.\<close>

definition add_mouse :: "'d system \<Rightarrow> 'd system" where
  "add_mouse y = y\<lparr>sy_kernel := (sy_kernel y)\<lparr>k_tables := idt_register_handler 44 Mouse_handler (k_tables (sy_kernel y))\<rparr>\<rparr>"

text \<open>
  \<open>cmd_gui\<close> once the mode is found right: the desktop, then the queue of keys and the screen are cleared.
  \<^const>\<open>None\<close> while the desktop still waits.
\<close>

definition run_desktop :: "'d bus \<Rightarrow> (gui_event list \<times> nat list) list \<Rightarrow> 'd system \<Rightarrow> 'd system option" where
  "run_desktop b inputs y =
     do {
       (d, dev) \<leftarrow> gui_run b inputs (k_dev (sy_kernel y)) (desktop_of y);
       let y = from_desktop d dev (add_mouse y);
       let y = set_kbd (keyboard_flush (k_kbd (sy_kernel y))) y;
       Some (set_vga (vga_puts (''Returned from GUI.'' @ [CHR 0x0A]) (vga_clear (m_vga (sy_kernel y)))) y)
     }"

text \<open>What a session runs with: the bus, the addresses of code and of the user stack, and the bounds of the shell.\<close>

record 'd site =
  on_bus :: "'d bus"
  code_at :: addresses
  user_at :: user_stack
  user_esp :: u32
  user_entry :: u32
  user_regs :: registers
  free_stack :: buffer
  rounds_of :: nat

text \<open>How a session ends: in the shell, in a reset, by halting, in a fault, or inside the desktop or user mode.\<close>

datatype 'd ending =
  In_shell "'d system"
| Typing
| Was_reset "'d system"
| Stopped "'d system"
| Broken
| Inside

definition run_user :: "'d site \<Rightarrow> 'd system \<Rightarrow> 'd ending" where
  "run_user c y =
     (case user_program (on_bus c) (user_at c) (fst (user_frame (user_esp c) (user_entry c) (user_regs c))) (sy_kernel y) of
        Halted k \<Rightarrow> Stopped (y\<lparr>sy_kernel := k\<rparr>)
      | _ \<Rightarrow> Inside)"

definition run_reset :: "'d site \<Rightarrow> 'd system \<Rightarrow> 'd ending" where
  "run_reset c y =
     (case reset_machine (on_bus c) (k_dev (sy_kernel y)) of
        None \<Rightarrow> Inside
      | Some d \<Rightarrow> Was_reset (y\<lparr>sy_kernel := (sy_kernel y)\<lparr>k_dev := d\<rparr>\<rparr>))"

text \<open>
  The loop of the shell with at most \<open>m\<close> entries in a phase. Keys typed ahead of the desktop are lost in
  its flush, those of the next phase are typed after it.
\<close>

fun operate :: "'d site \<Rightarrow> nat \<Rightarrow> (string \<times> (gui_event list \<times> nat list) list) list \<Rightarrow> 'd system \<Rightarrow> 'd ending" where
  "operate c m [] y = In_shell y"
| "operate c m ((inp, gui) # phases) y =
     (case shell_loop (code_at c) (free_stack c) (rounds_of c) m (shell_of inp y) of
        Prompt s \<Rightarrow> In_shell (from_shell s y)
      | Wait_keys \<Rightarrow> Typing
      | Fault \<Rightarrow> Broken
      | Reboot s \<Rightarrow> run_reset c (from_shell s y)
      | User_mode s \<Rightarrow> run_user c (from_shell s y)
      | Desktop s \<Rightarrow> (case run_desktop (on_bus c) gui (from_shell s y) of None \<Rightarrow> Inside | Some y \<Rightarrow> operate c m phases y))"

text \<open>From the start of \<open>kmain\<close>; the greeting of \<open>shell_run\<close> comes before its loop.\<close>

definition greet :: "'d system \<Rightarrow> 'd system" where
  "greet y = set_vga (vga_puts (''Type '' @ [CHR 0x27] @ ''help'' @ [CHR 0x27] @ '' for commands.'' @ [CHR 0x0A]) (m_vga (sy_kernel y))) y"

definition power_on :: "'d site \<Rightarrow> boot \<Rightarrow> nat \<Rightarrow> (string \<times> (gui_event list \<times> nat list) list) list \<Rightarrow> 'd system \<Rightarrow> 'd ending" where
  "power_on c p m phases y =
     (case kmain p (on_bus c) (sy_kernel y) of
        None \<Rightarrow> Inside
      | Some k \<Rightarrow> operate c m phases (greet (y\<lparr>sy_kernel := k\<rparr>)))"

subsection \<open>What the shell changes\<close>

text \<open>Only \<open>spawn\<close> and \<open>kill\<close> touch the process table, nothing the heap.\<close>

definition core :: "shell \<Rightarrow> heap \<times> sched" where
  "core s = (sh_heap s, sh_sched s)"

lemma core_simps [simp]:
  "core (in_world f s) = core s" "core (puts t s) = core s" "core (putln t s) = core s"
  "core (s\<lparr>sh_world := w\<rparr>) = core s" "core (s\<lparr>sh_keys := ks\<rparr>) = core s" "core (s\<lparr>history := h\<rparr>) = core s"
  "core (fold (\<lambda>x. putln (g x)) xs s) = core s"
proof -
  show "core (fold (\<lambda>x. putln (g x)) xs s) = core s"
    by (induction xs arbitrary: s) (simp_all add: putln_def puts_def in_world_def core_def)
qed (simp_all add: in_world_def puts_def putln_def core_def)

lemma core_commands [simp]:
  "core (cmd_help s) = core s" "core (cmd_mem s) = core s" "core (cmd_history s) = core s"
  "core (cmd_ls s) = core s" "core (cmd_pwd s) = core s" "core (cmd_cd args s) = core s"
  "core (file_command usage f report args s) = core s" "core (cmd_cat args s) = core s"
  "core (cmd_write_common args b s) = core s" "core (cmd_ps s) = core s" "core (cmd_run args s) = core s"
proof -
  show "core (cmd_help s) = core s" using core_simps(7) [of "\<lambda>x. x" help_text s] by (simp add: cmd_help_def)
  show "core (cmd_history s) = core s" by (simp add: cmd_history_def)
qed (auto simp: cmd_mem_def cmd_ls_def cmd_pwd_def cmd_cd_def file_command_def cmd_cat_def cmd_write_common_def
  cmd_ps_def cmd_run_def Let_def split: prod.splits)

text \<open>A property of the shell in every outcome that keeps it.\<close>

definition in_outcome :: "(shell \<Rightarrow> bool) \<Rightarrow> Shell.outcome \<Rightarrow> bool" where
  "in_outcome P r = (case r of Prompt s \<Rightarrow> P s | User_mode s \<Rightarrow> P s | Reboot s \<Rightarrow> P s | Desktop s \<Rightarrow> P s | _ \<Rightarrow> True)"

lemma in_outcome_simps [simp]:
  "in_outcome P (Prompt s) = P s" "in_outcome P (User_mode s) = P s" "in_outcome P (Reboot s) = P s"
  "in_outcome P (Desktop s) = P s" "in_outcome P Wait_keys" "in_outcome P Fault"
  by (simp_all add: in_outcome_def)

lemma in_outcome_mono: "in_outcome P r \<Longrightarrow> (\<And>s. P s \<Longrightarrow> Q s) \<Longrightarrow> in_outcome Q r"
  by (auto simp: in_outcome_def split: Shell.outcome.splits)

lemma interpreters_core [simp]:
  "in_outcome (\<lambda>s'. core s' = core s) (cmd_lang n s)" "in_outcome (\<lambda>s'. core s' = core s) (cmd_python n s)"
  "in_outcome (\<lambda>s'. core s' = core s) (cmd_pyrun n args s)" "in_outcome (\<lambda>s'. core s' = core s) (cmd_edit stk args s)"
  "in_outcome (\<lambda>s'. core s' = core s) (cmd_gui s)" "in_outcome (\<lambda>s'. core s' = core s) (cmd_usermode s)"
  "in_outcome (\<lambda>s'. core s' = core s) (cmd_reboot s)"
  by (auto simp: cmd_lang_def cmd_python_def cmd_pyrun_def cmd_edit_def cmd_gui_def cmd_usermode_def cmd_reboot_def
      cospy_outcome_def Let_def core_def puts_def putln_def in_world_def
      split: forth.split sum.split prod.split session.split)

text \<open>The invariant of the shell, with \<open>n\<close> process identifiers left.\<close>

definition core_ok :: "nat \<Rightarrow> heap \<times> sched \<Rightarrow> bool" where
  "core_ok n = (\<lambda>(h, t). heap_ok h \<and> sched_inv t \<and> unat (next_pid t) + n < 2 ^ 32)"

lemma core_ok_less: "core_ok (Suc n) c \<Longrightarrow> core_ok n c"
  by (auto simp: core_ok_def)

lemma core_ok_weaken: "core_ok n c \<Longrightarrow> j \<le> n \<Longrightarrow> core_ok j c"
  by (auto simp: core_ok_def)

lemma create_pid: "process_create w nm e t = (r, t') \<Longrightarrow> next_pid t' = next_pid t \<or> next_pid t' = next_pid t + 1"
  by (auto simp: process_create_def put_process_def Let_def split: option.splits prod.splits if_splits)

lemma spawn_ok:
  assumes "core_ok (Suc n) (core s)"
  shows "core_ok n (core (cmd_spawn a args s))"
proof -
  have i: "heap_ok (sh_heap s)" "sched_inv (sh_sched s)" "unat (next_pid (sh_sched s)) + Suc n < 2 ^ 32"
    using assms by (simp_all add: core_ok_def core_def)
  have u: "unat (next_pid (sh_sched s) + 1) = unat (next_pid (sh_sched s)) + 1" using i(3) unat_plus_small [of "next_pid (sh_sched s)" 1] by simp
  then have nw: "next_pid (sh_sched s) < next_pid (sh_sched s) + 1" by (simp add: word_less_nat_alt)
  have t: "core_ok n (sh_heap s, t) \<and> core_ok n (sh_heap s, scheduler_init t)"
    if "process_create (addr_wrapper a) nm e (sh_sched s) = (r, t)" for nm e r t
  proof -
    have "sched_inv t" using create_inv [OF i(2) _ that] nw by simp
    moreover have "unat (next_pid t) + n < 2 ^ 32" using create_pid [OF that] i(3) u by auto
    moreover have "next_pid (scheduler_init t) = next_pid t" by (simp add: scheduler_init_def)
    ultimately show ?thesis using i(1) enable_inv by (simp add: core_ok_def)
  qed
  show ?thesis
    using core_ok_less [OF assms] t
    by (auto simp: cmd_spawn_def core_def puts_def putln_def in_world_def Let_def split: prod.split if_splits)
qed

lemma schedule_pid: "next_pid (snd (schedule t)) = next_pid t"
  by (simp add: schedule_def Let_def split: option.split)

lemma kill_pid: "next_pid (snd (snd (process_kill pid t))) = next_pid t"
  by (simp add: process_kill_def schedule_pid Let_def split: option.split)

lemma kill_ok:
  assumes "core_ok n (core s)"
  shows "core_ok n (core (cmd_kill args s))"
proof -
  obtain r sw t where k: "process_kill (atoi args) (sh_sched s) = (r, sw, t)" by (metis prod_cases3)
  have "sched_inv (sh_sched s)" using assms by (simp add: core_ok_def core_def)
  then have "sched_inv t" by (rule kill_inv [OF _ k])
  moreover have "next_pid t = next_pid (sh_sched s)" using kill_pid [of "atoi args" "sh_sched s"] by (simp add: k)
  ultimately have "core_ok n (sh_heap s, t)" using assms by (simp add: core_ok_def core_def)
  then show ?thesis using assms by (simp add: cmd_kill_def k) (simp add: core_def)
qed

lemma dispatch_ok:
  assumes "core_ok (Suc n) (core s)"
  shows "in_outcome (\<lambda>s'. core_ok n (core s')) (dispatch a stk m cmd args s)"
proof -
  note less = core_ok_less [OF assms]
  have k: "in_outcome (\<lambda>s'. core s' = core s) r \<Longrightarrow> in_outcome (\<lambda>s'. core_ok n (core s')) r" for r
    using less by (auto elim: in_outcome_mono)
  note i = interpreters_core [THEN k]
  show ?thesis unfolding dispatch_def
    by (simp add: less i spawn_ok [OF assms] kill_ok [OF less] cmd_touch_def cmd_rm_def cmd_mkdir_def cmd_rmdir_def)
qed

lemma entry_ok:
  assumes "core_ok (Suc n) (core s)"
  shows "in_outcome (\<lambda>s'. core_ok n (core s')) (run_entry a stk m line s)"
proof -
  have e: "in_outcome (\<lambda>s'. core_ok n (core s')) (run_entered a stk m l s')" if "core s' = core s" for l s'
    using assms dispatch_ok [of n "s'\<lparr>history := h\<rparr>" for h] core_ok_less [OF assms] that
    by (auto simp: run_entered_def Let_def split: option.split)
  show ?thesis using e core_ok_less [OF assms] by (simp add: run_entry_def Let_def)
qed

text \<open>The history never outgrows its array.\<close>

definition shell_ok :: "nat \<Rightarrow> shell \<Rightarrow> bool" where
  "shell_ok n s \<longleftrightarrow> core_ok n (core s) \<and> length (history s) \<le> HISTORY_MAX"

lemma shell_ok_weaken: "shell_ok n s \<Longrightarrow> j \<le> n \<Longrightarrow> shell_ok j s"
  unfolding shell_ok_def by (meson core_ok_weaken)

lemma save_history_bound: "length h \<le> HISTORY_MAX \<Longrightarrow> length (save_history line h) \<le> HISTORY_MAX"
  by (simp add: save_history_eq last_lines_def) linarith

lemma entry_history: "length (history s) \<le> HISTORY_MAX \<Longrightarrow> in_outcome (\<lambda>s'. length (history s') \<le> HISTORY_MAX) (run_entry a stk n line s)"
proof -
  assume l: "length (history s) \<le> HISTORY_MAX"
  have e: "in_outcome (\<lambda>s'. length (history s') \<le> HISTORY_MAX) (run_entered a stk n t s')" if "history s' = history s" for t s'
    using run_entered_history [of t s' a stk n] save_history_bound [of "history s'" t] l that
    by (cases "run_entered a stk n t s'") simp_all
  show ?thesis using e l by (simp add: run_entry_def Let_def)
qed

lemma shell_loop_ok: "shell_ok (m + j) s \<Longrightarrow> in_outcome (shell_ok j) (shell_loop a stk n m s)"
proof (induction m arbitrary: s)
  case (Suc m)
  have p: "core (prompt s) = core s" "history (prompt s) = history s" by (simp_all add: prompt_def split: prod.split)
  show ?case
  proof (cases "keyboard_readline SHELL_LINE_MAX (replicate SHELL_LINE_MAX NUL) (sh_keys (prompt s))")
    case (Some q)
    show ?thesis
    proof (cases q)
      case (Inr t)
      obtain buf echo inp where t: "t = (buf, echo, inp)" by (metis prod_cases3)
      let ?s = "puts echo ((prompt s)\<lparr>sh_keys := inp\<rparr>)"
      let ?r = "run_entry a stk n (takeWhile (\<lambda>c. c \<noteq> NUL) buf) ?s"
      have s: "core_ok (Suc (m + j)) (core ?s)" "length (history ?s) \<le> HISTORY_MAX" using Suc.prems p by (simp_all add: shell_ok_def)
      have e: "in_outcome (shell_ok (m + j)) ?r"
        using entry_ok [OF s(1), of a stk n "takeWhile (\<lambda>c. c \<noteq> NUL) buf"] entry_history [OF s(2), of a stk n "takeWhile (\<lambda>c. c \<noteq> NUL) buf"]
        by (cases ?r) (simp_all add: shell_ok_def)
      have "in_outcome (shell_ok j) (case ?r of Prompt s \<Rightarrow> shell_loop a stk n m s | r \<Rightarrow> r)"
        using e Suc.IH shell_ok_weaken [of "m + j" _ j] by (cases ?r) simp_all
      then show ?thesis by (simp add: Some Inr t Let_def)
    qed (simp add: Some Let_def)
  qed (simp add: Let_def)
qed simp

subsection \<open>The invariant of a session\<close>

text \<open>\<open>n\<close> is the number of processes that may still be spawned.\<close>

definition system_ok :: "nat \<Rightarrow> 'd system \<Rightarrow> bool" where
  "system_ok n y \<longleftrightarrow> kernel_ok (sy_kernel y) \<and> unat (next_pid (m_sched (sy_kernel y))) + n < 2 ^ 32 \<and> length (sy_history y) \<le> HISTORY_MAX"

lemma system_shell: "system_ok n y \<Longrightarrow> shell_ok n (shell_of inp y)"
  by (simp add: system_ok_def kernel_ok_def shell_ok_def core_ok_def core_def shell_of_def Let_def)

lemma shell_system: "system_ok n y \<Longrightarrow> shell_ok j s \<Longrightarrow> system_ok j (from_shell s y)"
  by (simp add: system_ok_def kernel_ok_def shell_ok_def core_ok_def core_def from_shell_def)

lemma system_simps [simp]:
  "system_ok n (set_vga v y) = system_ok n y"
  "system_ok n (add_mouse y) = system_ok n y"
  "system_ok n (y\<lparr>sy_kernel := (sy_kernel y)\<lparr>k_dev := d\<rparr>\<rparr>) = system_ok n y"
  by (simp_all add: system_ok_def set_vga_def add_mouse_def kernel_ok_def tables_ok_def idt_register_handler_def)

text \<open>The desktop keeps the ring of keys and the mouse in order, on any screen.\<close>

definition input_devices_ok :: "desktop \<Rightarrow> bool" where
  "input_devices_ok d \<longleftrightarrow> kbd_ok (d_kbd d) \<and> mouse_ok (d_mouse d)"

lemma key_loop_kbd: "kbd_ok k \<Longrightarrow> key_loop n k g = (run, k', g') \<Longrightarrow> kbd_ok k'"
proof (induction n arbitrary: k g)
  case (Suc n)
  obtain r k1 where r: "dequeue_char k = (r, k1)" by force
  have "kbd_ok k1" using kq.deq_ok [OF Suc.prems(1)] by (simp add: r)
  then show ?case using Suc.IH [of k1] Suc.prems(2) by (auto simp: keyboard_try_getchar_def r split: option.splits if_splits)
qed simp

lemma events_devices: "input_devices_ok d \<Longrightarrow> input_devices_ok (fold take_event es d)"
proof (induction es arbitrary: d)
  case (Cons e es)
  have "input_devices_ok (take_event e d)"
    using Cons.prems handler_ok mouse_handler_ok by (cases e) (simp_all add: input_devices_ok_def)
  then show ?case using Cons.IH by simp
qed simp

lemma take_input_devices:
  assumes "input_devices_ok d"
  shows "input_devices_ok (take_input d)"
proof -
  obtain tmp m where m: "mouse_poll False (d_mouse d) = (tmp, m)" by force
  have "mouse_ok m" using assms m by (auto simp: input_devices_ok_def mouse_poll_def mouse_ok_def split: if_splits)
  moreover have "kbd_ok (fst (snd (key_loop 256 (d_kbd d) g)))" for g
    using key_loop_kbd [of "d_kbd d" 256 g] assms by (cases "key_loop 256 (d_kbd d) g") (auto simp: input_devices_ok_def)
  ultimately show ?thesis
    unfolding take_input_def m Let_def by (auto simp: input_devices_ok_def split: prod.split) (metis fst_conv snd_conv)
qed

lemma gui_loop_devices: "input_devices_ok d \<Longrightarrow> gui_loop inputs d = Some d' \<Longrightarrow> input_devices_ok d'"
proof (induction inputs arbitrary: d)
  case (Cons i inputs)
  obtain es ws where i: "i = (es, ws)" by force
  have "input_devices_ok d1" if "gui_round i d = Some d1" for d1
    using that take_input_devices [OF events_devices [OF Cons.prems(1)], of es]
    by (auto simp: gui_round_def i Let_def input_devices_ok_def split: bind_splits)
  then show ?case using Cons by (auto split: if_splits bind_splits)
qed (auto split: if_splits)

lemma kbd_flush_ok: "kbd_ok (keyboard_flush k)"
  by (simp add: kbd_ok_def keyboard_flush_def)

lemma gui_run_devices:
  assumes "input_devices_ok d" "gui_run b inputs dev d = Some (d', dev')"
  shows "input_devices_ok d'"
proof (cases "vesa_enabled (d_vesa d)")
  case True
  define d0 where "d0 = d\<lparr>d_vesa := vesa_set_backbuffer True (d_vesa d), d_kbd := keyboard_flush (d_kbd d)\<rparr>"
  define m0 where "m0 = mouse_set_bounds (uint (vesa_width (d_vesa d0))) (uint (vesa_height (d_vesa d0))) (d_mouse d0)"
  obtain m d1 where m: "mouse_init b dev m0 = Some (m, dev')" and d1: "gui_loop inputs (gui_start (d0\<lparr>d_mouse := m\<rparr>)) = Some d1"
    and d': "d' = d1\<lparr>d_vesa := vesa_set_backbuffer False (d_vesa d1)\<rparr>"
    using assms(2) True unfolding gui_run_def d0_def m0_def Let_def by (auto split: bind_splits)
  have "mouse_ok m0" using assms(1) set_bounds_ok by (simp add: m0_def d0_def input_devices_ok_def)
  then have "mouse_ok m" by (rule mouse_init_ok [OF _ m])
  then have "input_devices_ok (gui_start (d0\<lparr>d_mouse := m\<rparr>))"
    using assms(1) kbd_flush_ok by (simp add: input_devices_ok_def gui_start_def d0_def Let_def)
  from gui_loop_devices [OF this d1] show ?thesis by (simp add: d' input_devices_ok_def)
qed (use assms in \<open>simp add: gui_run_def\<close>)

lemma run_desktop_ok:
  assumes "system_ok n y" "run_desktop b inputs y = Some y'"
  shows "system_ok n y'"
proof -
  obtain d dev where g: "gui_run b inputs (k_dev (sy_kernel y)) (desktop_of y) = Some (d, dev)"
    and y': "y' = (let y = from_desktop d dev (add_mouse y); y = set_kbd (keyboard_flush (k_kbd (sy_kernel y))) y in
      set_vga (vga_puts (''Returned from GUI.'' @ [CHR 0x0A]) (vga_clear (m_vga (sy_kernel y)))) y)"
    using assms(2) unfolding run_desktop_def Let_def by (auto split: bind_splits)
  have "input_devices_ok (desktop_of y)"
    using assms(1) by (simp add: system_ok_def kernel_ok_def desktop_of_def input_devices_ok_def Let_def)
  from gui_run_devices [OF this g] have d: "kbd_ok (d_kbd d)" "mouse_ok (d_mouse d)" by (simp_all add: input_devices_ok_def)
  have "system_ok n (add_mouse y)" using assms(1) by simp
  then have "system_ok n (from_desktop d dev (add_mouse y))"
    using d by (simp add: system_ok_def kernel_ok_def from_desktop_def Let_def)
  then have "system_ok n (set_kbd (keyboard_flush (d_kbd d)) (from_desktop d dev (add_mouse y)))"
    using kbd_flush_ok [of "d_kbd d"] by (simp add: system_ok_def kernel_ok_def set_kbd_def)
  moreover have "k_kbd (sy_kernel (from_desktop d dev (add_mouse y))) = d_kbd d" by (simp add: from_desktop_def Let_def)
  ultimately show ?thesis by (simp add: y' Let_def)
qed

text \<open>So do the calls of the user program, which leave the number of processes alone.\<close>

lemma continue_ends: "ends_in P oc \<Longrightarrow> (\<And>r k. P k \<Longrightarrow> ends_in P (f r k)) \<Longrightarrow> ends_in P (continue oc f)"
  by (cases oc) simp_all

lemma user_program_ok: "kernel_ok k \<Longrightarrow> ends_in kernel_ok (user_program b u r k)"
  unfolding user_program_def Let_def int80_def
  by (intro continue_ends isr_keeps) simp_all

definition ending_ok :: "'d ending \<Rightarrow> bool" where
  "ending_ok e = (case e of In_shell y \<Rightarrow> system_ok 0 y | Was_reset y \<Rightarrow> system_ok 0 y | Stopped y \<Rightarrow> kernel_ok (sy_kernel y) | _ \<Rightarrow> True)"

lemma ending_ok_simps [simp]:
  "ending_ok (In_shell y) = system_ok 0 y" "ending_ok (Was_reset y) = system_ok 0 y" "ending_ok (Stopped y) = kernel_ok (sy_kernel y)"
  "ending_ok Typing" "ending_ok Broken" "ending_ok Inside"
  by (simp_all add: ending_ok_def)

lemma run_user_ok: "kernel_ok (sy_kernel y) \<Longrightarrow> ending_ok (run_user c y)"
  using user_program_ok [of "sy_kernel y" "on_bus c" "user_at c" "fst (user_frame (user_esp c) (user_entry c) (user_regs c))"]
  by (auto simp: run_user_def split: Syscall.outcome.split)

lemma run_reset_ok: "system_ok 0 y \<Longrightarrow> ending_ok (run_reset c y)"
  by (simp add: run_reset_def split: option.split)

lemma system_ok_weaken: "system_ok n y \<Longrightarrow> j \<le> n \<Longrightarrow> system_ok j y"
  by (simp add: system_ok_def)

lemma operate_ok: "system_ok (m * length phases) y \<Longrightarrow> ending_ok (operate c m phases y)"
proof (induction phases arbitrary: y)
  case (Cons ph phases)
  obtain inp gui where ph: "ph = (inp, gui)" by force
  let ?r = "shell_loop (code_at c) (free_stack c) (rounds_of c) m (shell_of inp y)"
  have "in_outcome (shell_ok (m * length phases)) ?r" using system_shell [OF Cons.prems] by (intro shell_loop_ok) simp
  then have r: "in_outcome (\<lambda>s. system_ok (m * length phases) (from_shell s y)) ?r"
    by (rule in_outcome_mono) (rule shell_system [OF Cons.prems])
  have z: "system_ok (m * length phases) y' \<Longrightarrow> system_ok 0 y'" for y' :: "'a system" by (rule system_ok_weaken) simp_all
  show ?case
  proof (cases ?r)
    case (Desktop s)
    then have d: "system_ok (m * length phases) (from_shell s y)" using r by simp
    show ?thesis
    proof (cases "run_desktop (on_bus c) gui (from_shell s y)")
      case (Some y')
      then show ?thesis using Cons.IH [OF run_desktop_ok [OF d Some]] Desktop by (simp add: ph)
    qed (simp add: ph Desktop)
  next
    case (User_mode s)
    then have "kernel_ok (sy_kernel (from_shell s y))" using r by (simp add: system_ok_def)
    then show ?thesis using User_mode by (simp add: ph run_user_ok)
  qed (use r z run_reset_ok in \<open>auto simp: ph\<close>)
qed simp


definition sample_site :: "(unit \<times> pics) site" where
  "sample_site = \<lparr>on_bus = with_pics quiet_bus, code_at = \<lparr>addr_wrapper = 0x100000, addr_counter = 0x200000, addr_spinner = 0x300000\<rparr>,
     user_at = \<lparr>at_msg1 = 0x8000, at_msg2 = 0x8020, at_digit = 0x8030, at_nl = 0x8031\<rparr>, user_esp = 0x9000, user_entry = 0x100400,
     user_regs = zero_regs, free_stack = (\<lambda>_. 0), rounds_of = 5\<rparr>"

definition sample_system :: "(unit \<times> pics) system" where
  "sample_system = \<lparr>sy_kernel = sample_kernel ((), boot_pics), sy_history = [''ls''], sy_gui = blank_gui\<rparr>"


subsection \<open>Typing \<open>reboot\<close>\<close>

text \<open>The reset command is the last access, made when the controller takes commands.\<close>

lemma reset_waits:
  assumes "reset_machine b d = Some d'"
  shows "\<exists>v d1. poll b 0x64 (\<lambda>v. v AND 0x02 = 0) d = Some (v, d1) \<and> v AND 0x02 = 0 \<and> d' = outb b 0x64 0xFE d1"
  using assms poll_sound [of b "0x64" "\<lambda>v. v AND 0x02 = 0" d] by (auto simp: reset_machine_def split: option.splits)

lemma reboot_entry:
  "run_entry a stk n ''reboot'' s = Reboot (putln ''Rebooting...'' (s\<lparr>history := save_history ''reboot'' (history s)\<rparr>))"
proof -
  have "split_cmd ''reboot'' = Some (''reboot'', [])" by (simp add: split_cmd_def skip_ws_def split_word_def is_ws_def Let_def)
  then show ?thesis by (simp add: run_entry_def run_entered_def strcmp_eq_0 dispatch_def cmd_reboot_def Let_def)
qed

text \<open>Typing \<open>reboot\<close> at the prompt resets the machine as soon as its keyboard controller takes the command.\<close>

lemma typed_reboot:
  assumes "poll (on_bus c) 0x64 (\<lambda>v. v AND 0x02 = 0) (k_dev (sy_kernel y)) = Some (v, d)"
  shows "\<exists>y'. operate c (Suc m) [(''reboot'' @ newline, gui)] y = Was_reset y' \<and> k_dev (sy_kernel y') = outb (on_bus c) 0x64 0xFE d \<and>
    m_vga (sy_kernel y') = vga_puts (fst (vfs_getcwd (k_fs (sy_kernel y))) @ ''> reboot'' @ newline @ ''Rebooting...'' @ newline) (m_vga (sy_kernel y))"
proof -
  define s where "s = shell_of (''reboot'' @ newline) y"
  obtain p fd where g: "vfs_getcwd (k_fs (sy_kernel y)) = (p, fd)" by force
  have w: "w_fs (sh_world s) = k_fs (sy_kernel y)" "w_vga (sh_world s) = m_vga (sy_kernel y)" "sh_keys s = ''reboot'' @ newline"
    by (simp_all add: s_def shell_of_def Let_def)
  have pr: "prompt s = s\<lparr>sh_world := (sh_world s)\<lparr>w_fs := fd, w_vga := vga_puts (p @ ''> '') (w_vga (sh_world s))\<rparr>\<rparr>"
    using g by (intro prompt_eq) (simp add: w)
  then have k: "sh_keys (prompt s) = ''reboot'' @ CHR 0x0A # []" by (simp add: w newline_def)
  obtain s' where s': "shell_loop (code_at c) (free_stack c) (rounds_of c) (Suc m) s = Reboot s'"
    "s' = putln ''Rebooting...'' ((puts (''reboot'' @ newline) ((prompt s)\<lparr>sh_keys := []\<rparr>))
        \<lparr>history := save_history ''reboot'' (history (puts (''reboot'' @ newline) ((prompt s)\<lparr>sh_keys := []\<rparr>)))\<rparr>)"
    using loop_typed [OF _ _ k, of "code_at c" "free_stack c" "rounds_of c" m] by (simp add: reboot_entry)
  have "w_vga (sh_world s') = vga_puts (p @ ''> reboot'' @ newline @ ''Rebooting...'' @ newline) (m_vga (sy_kernel y))"
    by (simp add: s'(2) pr w vga_puts_fold)
  then show ?thesis using assms s'(1) unfolding s_def
    by (simp add: run_reset_def reset_machine_def from_shell_def g)
qed

subsection \<open>The demo processes\<close>

text \<open>
  What a demo process does when it runs: it prints its lines and sleeps after each that has a time.
  \<open>process_wrapper\<close>, where every process starts, ends it with status 0.
\<close>

fun run_demo :: "(string \<times> u32) list \<Rightarrow> 'a machine_scheme \<Rightarrow> 'a machine_scheme option" where
  "run_demo [] k = Some k"
| "run_demo ((t, ms) # steps) k =
     (let k = k\<lparr>m_vga := vga_puts t (m_vga k)\<rparr> in
      if ms = 0 then run_demo steps k else sys_sleep ms k \<bind> run_demo steps)"

definition process_wrapper :: "('a machine_scheme \<Rightarrow> 'a machine_scheme option) \<Rightarrow> 'a machine_scheme \<Rightarrow> (switch \<times> 'a machine_scheme) option" where
  "process_wrapper entry k =
     (case entry k of
        None \<Rightarrow> None
      | Some k \<Rightarrow> (case process_exit 0 (m_sched k) of (sw, s) \<Rightarrow> Some (sw, k\<lparr>m_sched := s\<rparr>)))"

definition demo_ticks :: "(string \<times> u32) list \<Rightarrow> nat" where
  "demo_ticks steps = sum_list (map (\<lambda>(t, ms). if ms = 0 then 0 else unat (sleep_ticks ms \<lparr>tick_count = 0, tick_frequency = 100\<rparr>)) steps)"

text \<open>As long as ticks come, a demo prints all its lines, sleeps in between and ends.\<close>

lemma run_demo_ends:
  "\<forall>w \<in> set (m_wakes k). w \<le> 1 \<Longrightarrow> demo_ticks steps \<le> sum_list (m_wakes k) \<Longrightarrow> tick_frequency (m_timer k) = 100 \<Longrightarrow>
   \<exists>k'. run_demo steps k = Some k' \<and> m_vga k' = vga_puts (concat (map fst steps)) (m_vga k) \<and> m_sched k' = m_sched k \<and>
     tick_count (m_timer k') = tick_count (m_timer k) + word_of_nat (demo_ticks steps)"
proof (induction steps arbitrary: k)
  case Nil
  then show ?case by (simp add: vga_puts_fold demo_ticks_def)
next
  case (Cons st steps)
  obtain t ms where st: "st = (t, ms)" by force
  let ?k = "k\<lparr>m_vga := vga_puts t (m_vga k)\<rparr>"
  show ?case
  proof (cases "ms = 0")
    case True
    then have "demo_ticks (st # steps) = demo_ticks steps" by (simp add: demo_ticks_def st)
    then show ?thesis using Cons.IH [of ?k] Cons.prems True by (simp add: st vga_puts_fold)
  next
    case False
    define n where "n = sleep_ticks ms (m_timer k)"
    have sl: "sleep_ticks ms \<lparr>tick_count = 0, tick_frequency = 100\<rparr> = n" using Cons.prems(3) by (simp add: n_def sleep_ticks_def)
    then have d: "demo_ticks (st # steps) = unat n + demo_ticks steps" using False by (simp add: demo_ticks_def st)
    obtain used rest where w: "m_wakes k = used @ rest" "sum_list used = unat n"
      "sleep_loop (tick_count (m_timer k)) n (m_wakes k) (m_timer k) = Some ((m_timer k)\<lparr>tick_count := tick_count (m_timer k) + n\<rparr>, rest)"
      using sleep_loop_ticks [of "m_wakes k" "m_timer k" "tick_count (m_timer k)" 0 n] Cons.prems(1,2) d by auto
    let ?k1 = "?k\<lparr>m_timer := (m_timer k)\<lparr>tick_count := tick_count (m_timer k) + n\<rparr>, m_wakes := rest\<rparr>"
    have "sys_sleep ms ?k = Some ?k1" using w(3) by (simp add: sys_sleep_def timer_sleep_def n_def)
    then have "run_demo (st # steps) k = run_demo steps ?k1" using False by (simp add: st)
    then show ?thesis using Cons.IH [of ?k1] Cons.prems d w(1,2) by (simp add: st vga_puts_fold add.assoc)
  qed
qed

lemma demo_ticks_simps:
  "demo_ticks (xs @ ys) = demo_ticks xs + demo_ticks ys" "demo_ticks [(t, 0)] = 0"
  "ms \<noteq> 0 \<Longrightarrow> demo_ticks (map (\<lambda>i. (f i, ms)) zs) = length zs * unat (sleep_ticks ms \<lparr>tick_count = 0, tick_frequency = 100\<rparr>)"
  by (simp_all add: demo_ticks_def comp_def sum_list_triv)

lemma demo_times: "demo_ticks demo_counter = 1000" "demo_ticks demo_spinner = 500"
proof -
  have "sleep_ticks 1000 \<lparr>tick_count = 0, tick_frequency = 100\<rparr> = 100" "sleep_ticks 250 \<lparr>tick_count = 0, tick_frequency = 100\<rparr> = 25"
    by (simp_all add: sleep_ticks_def)
  then show "demo_ticks demo_counter = 1000" "demo_ticks demo_spinner = 500"
    unfolding demo_counter_def demo_spinner_def demo_ticks_simps(1,2) by (simp_all del: upt_rec_numeral add: demo_ticks_simps(3))
qed

end
