(* ===== verification/Console.thy ===== *)
theory Console
  imports Kernel
begin

text \<open>
  Reading a line while interrupts come: \<open>keyboard_getchar\<close> and \<open>keyboard_readline\<close> of \<open>kernel/keyboard.c\<close> on the
  state of the whole kernel. The theories of the programs give them the characters that will be
  typed; here these come from scancodes, through the interrupt of the keyboard, into the ring and out
  of it, with ticks and other interrupts in between.
\<close>

subsection \<open>Waiting for a key\<close>

text \<open>
  What may interrupt the kernel while it waits: a key, whose scancode the device then holds
  (\<open>press\<close>), or another line of the controllers, after whatever its device did.
\<close>

datatype 'd arrival = Scancode registers byte | Other_irq registers "'d \<Rightarrow> 'd"

fun interrupt :: "'d bus \<Rightarrow> (byte \<Rightarrow> 'd \<Rightarrow> 'd) \<Rightarrow> 'd arrival \<Rightarrow> 'd kernel \<Rightarrow> 'd kernel outcome" where
  "interrupt b press (Scancode r sc) k = isr_handler_c b r (k\<lparr>k_dev := press sc (k_dev k)\<rparr>)"
| "interrupt b press (Other_irq r f) k = isr_handler_c b r (k\<lparr>k_dev := f (k_dev k)\<rparr>)"

fun interrupts :: "'d bus \<Rightarrow> (byte \<Rightarrow> 'd \<Rightarrow> 'd) \<Rightarrow> 'd arrival list \<Rightarrow> 'd kernel \<Rightarrow> 'd kernel option" where
  "interrupts b press [] k = Some k"
| "interrupts b press (a # as) k = (case interrupt b press a k of Return _ k \<Rightarrow> interrupts b press as k | _ \<Rightarrow> None)"

text \<open>
  The loop of \<open>keyboard_getchar\<close>: before each look at the ring some interrupts have come, those that woke it
  from \<open>hlt\<close> and those since. \<^const>\<open>None\<close> when the list ends while it waits.
\<close>

fun keyboard_getchar ::
  "'d bus \<Rightarrow> (byte \<Rightarrow> 'd \<Rightarrow> 'd) \<Rightarrow> 'd arrival list list \<Rightarrow> 'd kernel \<Rightarrow> (char \<times> 'd arrival list list \<times> 'd kernel) option" where
  "keyboard_getchar b press [] k = None"
| "keyboard_getchar b press (as # batches) k =
     (case interrupts b press as k of
        None \<Rightarrow> None
      | Some k \<Rightarrow>
          (case dequeue_char (k_kbd k) of
             (Some c, q) \<Rightarrow> Some (c, batches, k\<lparr>k_kbd := q\<rparr>)
           | (None, _) \<Rightarrow> keyboard_getchar b press batches k))"

lemma getchar_shorter: "keyboard_getchar b press batches k = Some (c, rest, k') \<Longrightarrow> length rest < length batches"
proof (induction batches arbitrary: k)
  case (Cons as batches)
  then show ?case by (fastforce split: option.splits prod.splits)
qed simp

definition echo_char :: "char \<Rightarrow> 'd kernel \<Rightarrow> 'd kernel" where
  "echo_char c k = k\<lparr>m_vga := vga_putc c (m_vga k)\<rparr>"

text \<open>The loop of \<open>keyboard_readline\<close>; \<open>Inl ()\<close> for a store past the buffer.\<close>

function console_loop ::
  "'d bus \<Rightarrow> (byte \<Rightarrow> 'd \<Rightarrow> 'd) \<Rightarrow> nat \<Rightarrow> nat \<Rightarrow> string \<Rightarrow> 'd arrival list list \<Rightarrow> 'd kernel \<Rightarrow>
     (unit + string \<times> 'd arrival list list \<times> 'd kernel) option" where
  "console_loop b press max_len i buf batches k =
     (case keyboard_getchar b press batches k of
        None \<Rightarrow> None
      | Some (c, rest, k) \<Rightarrow>
          if c = CHR 0x0D then console_loop b press max_len i buf rest k
          else if c = CHR 0x0A then
            let k = echo_char (CHR 0x0A) k in if i < length buf then Some (Inr (buf[i := NUL], rest, k)) else Some (Inl ())
          else if c = CHR 0x08 then
            if i > 0 then console_loop b press max_len (i - 1) buf rest (echo_char (CHR 0x08) k)
            else console_loop b press max_len i buf rest k
          else if i + 1 < max_len \<and> 32 \<le> ord c \<and> ord c \<le> 126 then
            if i < length buf then console_loop b press max_len (i + 1) (buf[i := c]) rest (echo_char c k) else Some (Inl ())
          else console_loop b press max_len i buf rest k)"
  by pat_completeness auto
termination
  by (relation "measure (\<lambda>(b, press, n, i, buf, batches, k). length batches)") (auto dest!: getchar_shorter [OF sym] getchar_shorter)

declare console_loop.simps [simp del]

definition console_readline ::
  "'d bus \<Rightarrow> (byte \<Rightarrow> 'd \<Rightarrow> 'd) \<Rightarrow> nat \<Rightarrow> string \<Rightarrow> 'd arrival list list \<Rightarrow> 'd kernel \<Rightarrow>
     (unit + string \<times> 'd arrival list list \<times> 'd kernel) option" where
  "console_readline b press max_len buf batches k =
     (if max_len = 0 then Some (Inr (buf, batches, k)) else console_loop b press max_len 0 buf batches k)"

subsection \<open>What the scancodes type\<close>

fun typed_all :: "byte list \<Rightarrow> kbd \<Rightarrow> string" where
  "typed_all [] q = []"
| "typed_all (sc # scs) q = typed sc q @ typed_all scs (keyboard_irq_handler sc q)"

fun scancodes :: "'d arrival list \<Rightarrow> byte list" where
  "scancodes [] = []"
| "scancodes (Scancode r sc # as) = sc # scancodes as"
| "scancodes (Other_irq r f # as) = scancodes as"

lemma scancodes_append [simp]: "scancodes (as @ bs) = scancodes as @ scancodes bs"
  by (induction as rule: scancodes.induct) simp_all

text \<open>It depends on the flags only, not on what is in the ring.\<close>

definition same_flags :: "kbd \<Rightarrow> kbd \<Rightarrow> bool" where
  "same_flags q q' \<longleftrightarrow> shift_down q' = shift_down q \<and> extended_key q' = extended_key q"

lemma enqueue_flags [simp]: "shift_down (enqueue_char c q) = shift_down q" "extended_key (enqueue_char c q) = extended_key q"
  by (simp_all add: enqueue_char_def Let_def)

lemma handler_flags_eq:
  "shift_down (keyboard_irq_handler sc q) = (if sc = 0x2A \<or> sc = 0x36 then True else if sc = 0xAA \<or> sc = 0xB6 then False else shift_down q) \<and>
   extended_key (keyboard_irq_handler sc q) = (sc = 0xE0)"
proof -
  have e: "shift_down (if ch \<noteq> NUL then enqueue_char ch r else r) = shift_down r"
    "extended_key (if ch \<noteq> NUL then enqueue_char ch r else r) = extended_key r" for ch r by simp_all
  consider "sc = 0xE0" | "sc = 0x2A \<or> sc = 0x36" | "sc = 0xAA \<or> sc = 0xB6"
    | "sc \<noteq> 0xE0" "\<not> (sc = 0x2A \<or> sc = 0x36)" "\<not> (sc = 0xAA \<or> sc = 0xB6)" by blast
  then show ?thesis
  proof cases
    case 4
    then show ?thesis unfolding keyboard_irq_handler_def Let_def
      by (cases "extended_key q"; cases "sc AND 0x80 = 0") (simp_all only: if_False if_True prod.case e, simp_all)
  qed (auto simp: keyboard_irq_handler_def)
qed

lemma handler_flags: "same_flags q q' \<Longrightarrow> same_flags (keyboard_irq_handler sc q) (keyboard_irq_handler sc q')"
  by (simp only: same_flags_def handler_flags_eq)

lemma typed_all_flags: "same_flags q q' \<Longrightarrow> typed_all scs q' = typed_all scs q"
proof (induction scs arbitrary: q q')
  case (Cons sc scs)
  have "typed sc q' = typed sc q" using Cons.prems by (simp only: typed_def same_flags_def)
  then show ?case using Cons.IH [OF handler_flags [OF Cons.prems]] by (simp only: typed_all.simps)
qed simp

lemma typed_all_append: "typed_all (xs @ ys) q = typed_all xs q @ typed_all ys (fold keyboard_irq_handler xs q)"
  by (induction xs arbitrary: q) simp_all

lemma dequeue_flags: "same_flags q (snd (dequeue_char q))"
  by (simp add: dequeue_char_def same_flags_def)

lemma fold_handler:
  "kbd_ok q \<Longrightarrow> kbd_count q + length (typed_all scs q) \<le> 255 \<Longrightarrow>
   kbd_ok (fold keyboard_irq_handler scs q) \<and> kbd_queue (fold keyboard_irq_handler scs q) = kbd_queue q @ typed_all scs q"
proof (induction scs arbitrary: q)
  case (Cons sc scs)
  let ?q = "keyboard_irq_handler sc q"
  have q: "kbd_queue ?q = kbd_queue q @ typed sc q"
    using handler_queue [OF Cons.prems(1), of sc] Cons.prems(2) by (cases "typed sc q") auto
  then have "kbd_count ?q = kbd_count q + length (typed sc q)" by (metis length_append length_kbd_queue)
  then show ?case using Cons.IH [OF handler_ok [OF Cons.prems(1)], of sc] Cons.prems(2) q by simp
qed simp

subsection \<open>Interrupts while the kernel waits\<close>

text \<open>
  The kernel at a prompt: only the keyboard has the handler of the keyboard, no line of the controllers
  reaches the system calls, and there is no process to switch from.
\<close>

definition at_prompt :: "'d kernel \<Rightarrow> bool" where
  "at_prompt k \<longleftrightarrow> kbd_ok (k_kbd k) \<and> current_process (m_sched k) = None \<and> handlers (k_tables k) ! 33 = Some Keyboard_handler \<and>
     (\<forall>n. 32 \<le> n \<and> n < 48 \<and> n \<noteq> 33 \<longrightarrow> handlers (k_tables k) ! n \<in> {None, Some Timer_handler, Some Mouse_handler})"

text \<open>Keys on line 1, everything else on the other lines.\<close>

fun hardware :: "'d arrival \<Rightarrow> bool" where
  "hardware (Scancode r sc) \<longleftrightarrow> reg_int_no r = 33"
| "hardware (Other_irq r f) \<longleftrightarrow> 32 \<le> reg_int_no r \<and> reg_int_no r < 48 \<and> reg_int_no r \<noteq> 33"

text \<open>What an interrupt leaves as it was.\<close>

definition undisturbed :: "'d kernel \<Rightarrow> 'd kernel \<Rightarrow> bool" where
  "undisturbed k k' \<longleftrightarrow> m_vga k' = m_vga k \<and> m_sched k' = m_sched k \<and> k_tables k' = k_tables k"

lemma hw_vector: "32 \<le> v \<Longrightarrow> v < 48 \<Longrightarrow> v \<noteq> 13 \<and> \<not> v < 32 \<and> 32 \<le> unat v \<and> unat v < 48" for v :: u32
  by (auto simp: word_le_nat_alt word_less_nat_alt)

lemma key_interrupt:
  assumes "at_prompt k" "reg_int_no r = 33" "\<And>d. fst (inb b 0x60 (press sc d)) = sc"
  shows "\<exists>k'. interrupt b press (Scancode r sc) k = Return r k' \<and> undisturbed k k' \<and> k_kbd k' = keyboard_irq_handler sc (k_kbd k)"
proof -
  obtain v d where i: "inb b 0x60 (press sc (k_dev k)) = (v, d)" by (rule prod.exhaust)
  then have "v = sc" using assms(3) [of "k_dev k"] by simp
  then show ?thesis using assms(1,2) i
    by (simp add: at_prompt_def isr_handler_c_def isr_rest_def call_handler_def run_handler_def undisturbed_def)
qed

lemma other_interrupt:
  assumes "at_prompt k" "hardware (Other_irq r f)"
  shows "\<exists>r' k'. interrupt b press (Other_irq r f) k = Return r' k' \<and> undisturbed k k' \<and> k_kbd k' = k_kbd k"
proof -
  let ?v = "reg_int_no r"
  have v: "32 \<le> ?v" "?v < 48" "?v \<noteq> 33" using assms(2) by simp_all
  note hv = hw_vector [OF v(1,2)]
  have "unat ?v \<noteq> 33" using v(3) by (simp add: word_unat_eq_iff)
  then have h: "handlers (k_tables k) ! unat ?v \<in> {None, Some Timer_handler, Some Mouse_handler}"
    using assms(1) hv by (simp add: at_prompt_def)
  have t: "scheduler_tick (m_sched k) = (No_switch, m_sched k)" using assms(1) by (simp add: at_prompt_def scheduler_tick_def)
  have e: "interrupt b press (Other_irq r f) k = isr_rest b r (k\<lparr>k_dev := f (k_dev k)\<rparr>)" using hv by (simp add: isr_handler_c_def)
  consider "handlers (k_tables k) ! unat ?v = None" | "handlers (k_tables k) ! unat ?v = Some Timer_handler"
    | "handlers (k_tables k) ! unat ?v = Some Mouse_handler" using h by auto
  then show ?thesis unfolding e isr_rest_def call_handler_def
    using hv by cases (simp_all add: run_handler_def timer_irq_handler_def t undisturbed_def split: prod.split)
qed

lemma undisturbed_simps [simp]: "undisturbed k k"
  "undisturbed k (k\<lparr>k_kbd := q\<rparr>)" "undisturbed k k' \<Longrightarrow> undisturbed k (k'\<lparr>k_kbd := q\<rparr>)"
  by (simp_all add: undisturbed_def)

lemma undisturbed_trans: "undisturbed a b \<Longrightarrow> undisturbed b c \<Longrightarrow> undisturbed a c"
  by (simp add: undisturbed_def)

lemma undisturbed_prompt: "at_prompt k \<Longrightarrow> undisturbed k k' \<Longrightarrow> kbd_ok (k_kbd k') \<Longrightarrow> at_prompt k'"
  by (simp add: at_prompt_def undisturbed_def)

lemma interrupts_effect:
  assumes dev: "\<And>sc d. fst (inb b 0x60 (press sc d)) = sc"
  shows "at_prompt k \<Longrightarrow> \<forall>a \<in> set as. hardware a \<Longrightarrow>
    \<exists>k'. interrupts b press as k = Some k' \<and> undisturbed k k' \<and> at_prompt k' \<and> k_kbd k' = fold keyboard_irq_handler (scancodes as) (k_kbd k)"
proof (induction as arbitrary: k)
  case (Cons a as)
  have ok: "kbd_ok (k_kbd k)" using Cons.prems(1) by (simp add: at_prompt_def)
  obtain r k1 where 1: "interrupt b press a k = Return r k1" "undisturbed k k1"
    "k_kbd k1 = (case a of Scancode _ sc \<Rightarrow> keyboard_irq_handler sc (k_kbd k) | Other_irq _ _ \<Rightarrow> k_kbd k)"
  proof (cases a)
    case (Scancode r sc)
    then show ?thesis using that key_interrupt [where b = b and press = press and sc = sc and r = r, OF Cons.prems(1) _ dev] Cons.prems(2) by auto
  next
    case (Other_irq r f)
    then show ?thesis using that other_interrupt [where b = b and press = press and r = r and f = f, OF Cons.prems(1)] Cons.prems(2) by auto
  qed
  have "kbd_ok (k_kbd k1)" using ok handler_ok by (simp add: 1(3) split: arrival.split)
  then have k1: "at_prompt k1" by (rule undisturbed_prompt [OF Cons.prems(1) 1(2)])
  obtain k2 where "interrupts b press as k1 = Some k2" "undisturbed k1 k2" "at_prompt k2" "k_kbd k2 = fold keyboard_irq_handler (scancodes as) (k_kbd k1)"
    using Cons.IH [OF k1] Cons.prems(2) by auto
  then show ?case using 1 undisturbed_trans [OF 1(2)] by (cases a) auto
qed simp

subsection \<open>The characters to come\<close>

text \<open>What will be read: the ring, and then what the scancodes of the interrupts still to come type.\<close>

definition pending :: "'d kernel \<Rightarrow> 'd arrival list list \<Rightarrow> string" where
  "pending k batches = kbd_queue (k_kbd k) @ typed_all (scancodes (concat batches)) (k_kbd k)"

text \<open>The kernel wakes up often enough after the last interrupt to read \<open>n\<close> characters.\<close>

definition wakes_for :: "nat \<Rightarrow> 'd arrival list list \<Rightarrow> bool" where
  "wakes_for n batches \<longleftrightarrow> (\<exists>bs m. batches = bs @ replicate m [] \<and> n \<le> m)"

lemma wakes_for_tl:
  assumes "wakes_for n (as # batches)"
  shows "wakes_for (n - 1) batches" "as \<noteq> [] \<Longrightarrow> wakes_for n batches" "as = [] \<Longrightarrow> wakes_for n batches \<or> concat batches = []"
proof -
  obtain bs m where w: "as # batches = bs @ replicate m []" "n \<le> m" using assms by (auto simp: wakes_for_def)
  have c: "(\<exists>bs'. bs = as # bs' \<and> batches = bs' @ replicate m []) \<or> (as = [] \<and> 0 < m \<and> batches = replicate (m - 1) [])"
    using w(1) by (cases bs; cases m) auto
  then show "wakes_for (n - 1) batches" using w(2) unfolding wakes_for_def by (metis append_Nil diff_le_mono diff_le_self le_trans)
  show "as \<noteq> [] \<Longrightarrow> wakes_for n batches" using c w(2) unfolding wakes_for_def by blast
  show "as = [] \<Longrightarrow> wakes_for n batches \<or> concat batches = []" using c w(2) unfolding wakes_for_def by (metis concat_replicate_trivial)
qed

lemma getchar_next:
  assumes dev: "\<And>sc d. fst (inb b 0x60 (press sc d)) = sc"
  shows "at_prompt k \<Longrightarrow> \<forall>a \<in> set (concat batches). hardware a \<Longrightarrow> pending k batches = c # inp \<Longrightarrow> length inp < 255 \<Longrightarrow>
      wakes_for (Suc (length inp)) batches \<Longrightarrow>
    \<exists>rest k'. keyboard_getchar b press batches k = Some (c, rest, k') \<and> undisturbed k k' \<and> at_prompt k' \<and>
      pending k' rest = inp \<and> wakes_for (length inp) rest \<and> set (concat rest) \<subseteq> set (concat batches)"
proof (induction batches arbitrary: k)
  case Nil
  then show ?case by (simp add: wakes_for_def)
next
  case (Cons as batches)
  let ?q = "fold keyboard_irq_handler (scancodes as) (k_kbd k)"
  have ok: "kbd_ok (k_kbd k)" using Cons.prems(1) by (simp add: at_prompt_def)
  have p: "kbd_queue (k_kbd k) @ typed_all (scancodes as) (k_kbd k) @ typed_all (scancodes (concat batches)) ?q = c # inp"
    using Cons.prems(3) by (simp add: pending_def typed_all_append)
  have "kbd_count (k_kbd k) + length (typed_all (scancodes as) (k_kbd k)) \<le> 255"
    using arg_cong [OF p, of length] Cons.prems(4) by simp
  then have q: "kbd_ok ?q" "kbd_queue ?q = kbd_queue (k_kbd k) @ typed_all (scancodes as) (k_kbd k)"
    using fold_handler [OF ok] by simp_all
  obtain k1 where 1: "interrupts b press as k = Some k1" "undisturbed k k1" "at_prompt k1" "k_kbd k1 = ?q"
    using interrupts_effect [where b = b and press = press and as = as, OF dev Cons.prems(1)] Cons.prems(2) by auto
  have pk: "pending k1 batches = c # inp" using p by (simp add: pending_def 1(4) q(2))
  obtain r q2 where d: "dequeue_char ?q = (r, q2)" by force
  have dq: "kbd_ok q2" "r = (case kbd_queue ?q of [] \<Rightarrow> None | x # _ \<Rightarrow> Some x)" "kbd_queue q2 = tl (kbd_queue ?q)" "same_flags ?q q2"
    using kq.deq_ok [OF q(1)] kq.deq_contents [OF q(1)] dequeue_flags [of ?q] by (simp_all add: d)
  show ?case
  proof (cases "kbd_queue ?q")
    case (Cons x xs)
    let ?k = "k1\<lparr>k_kbd := q2\<rparr>"
    have "r = Some c" using pk Cons dq(2) by (simp add: pending_def 1(4))
    moreover have "pending ?k batches = inp"
      using pk Cons dq(3) typed_all_flags [OF dq(4)] by (simp add: pending_def 1(4))
    moreover have "at_prompt ?k" using 1(3) dq(1) by (simp add: at_prompt_def)
    ultimately show ?thesis using 1 d wakes_for_tl(1) [OF Cons.prems(5)] by (intro exI [where x = batches] exI [where x = ?k]) auto
  next
    case Nil
    then have r: "r = None" using dq(2) by simp
    have e: "keyboard_getchar b press (as # batches) k = keyboard_getchar b press batches k1" by (simp add: 1(1,4) d r)
    have "typed_all (scancodes (concat batches)) ?q = c # inp" using pk Nil by (simp add: pending_def 1(4))
    then have "concat batches \<noteq> []" by (metis typed_all.simps(1) scancodes.simps(1) list.distinct(1))
    then have "wakes_for (Suc (length inp)) batches" using wakes_for_tl(2,3) [OF Cons.prems(5)] by blast
    then obtain rest k' where "keyboard_getchar b press batches k1 = Some (c, rest, k')" "undisturbed k1 k'" "at_prompt k'"
        "pending k' rest = inp" "wakes_for (length inp) rest" "set (concat rest) \<subseteq> set (concat batches)"
      using Cons.IH [OF 1(3) _ pk Cons.prems(4)] Cons.prems(2) by auto
    then show ?thesis using undisturbed_trans [OF 1(2)] unfolding e by (intro exI [where x = rest] exI [where x = k']) auto
  qed
qed

subsection \<open>Reading a line refines reading from the list of keys\<close>

lemma echo_simps [simp]:
  "k_kbd (echo_char c k) = k_kbd k" "m_vga (echo_char c k) = vga_putc c (m_vga k)"
  "pending (echo_char c k) batches = pending k batches" "at_prompt (echo_char c k) = at_prompt k"
  by (simp_all add: echo_char_def pending_def at_prompt_def)

lemma console_loop_refines:
  assumes dev: "\<And>sc d. fst (inb b 0x60 (press sc d)) = sc"
  shows "at_prompt k \<Longrightarrow> \<forall>a \<in> set (concat batches). hardware a \<Longrightarrow> pending k batches = inp \<Longrightarrow> length inp \<le> 255 \<Longrightarrow>
      wakes_for (length inp) batches \<Longrightarrow> max_len \<le> length buf \<Longrightarrow> i < max_len \<Longrightarrow>
      m_vga k = vga_puts echo v \<Longrightarrow> readline_loop max_len i buf echo inp = Some (Inr (buf', echo', left)) \<Longrightarrow>
    \<exists>rest k'. console_loop b press max_len i buf batches k = Some (Inr (buf', rest, k')) \<and>
      m_vga k' = vga_puts echo' v \<and> at_prompt k' \<and> pending k' rest = left"
proof (induction inp arbitrary: k batches i buf echo)
  case (Cons c inp)
  obtain rest k1 where g: "keyboard_getchar b press batches k = Some (c, rest, k1)" "undisturbed k k1" "at_prompt k1"
    "pending k1 rest = inp" "wakes_for (length inp) rest" "set (concat rest) \<subseteq> set (concat batches)"
    using getchar_next [where b = b and press = press, OF dev Cons.prems(1,2,3)] Cons.prems(4,5) by auto
  have v: "m_vga k1 = vga_puts echo v" using g(2) Cons.prems(8) by (simp add: undisturbed_def)
  have hw: "\<forall>a \<in> set (concat rest). hardware a" using Cons.prems(2) g(6) by blast
  have i: "i < length buf" using Cons.prems(6,7) by simp
  have IH: "\<exists>rest' k'. console_loop b press max_len j bf rest k2 = Some (Inr (buf', rest', k')) \<and> m_vga k' = vga_puts echo' v \<and>
      at_prompt k' \<and> pending k' rest' = left"
    if "at_prompt k2" "pending k2 rest = inp" "m_vga k2 = vga_puts e v" "length bf = length buf" "j < max_len"
      "readline_loop max_len j bf e inp = Some (Inr (buf', echo', left))" for j bf k2 e
    using Cons.IH [OF that(1) hw that(2) _ g(5)] Cons.prems(4,6) that(3-6) by simp
  have step: "console_loop b press max_len i buf batches k =
      (if c = CHR 0x0D then console_loop b press max_len i buf rest k1
       else if c = CHR 0x0A then
         let k = echo_char (CHR 0x0A) k1 in if i < length buf then Some (Inr (buf[i := NUL], rest, k)) else Some (Inl ())
       else if c = CHR 0x08 then
         if i > 0 then console_loop b press max_len (i - 1) buf rest (echo_char (CHR 0x08) k1)
         else console_loop b press max_len i buf rest k1
       else if i + 1 < max_len \<and> 32 \<le> ord c \<and> ord c \<le> 126 then
         if i < length buf then console_loop b press max_len (i + 1) (buf[i := c]) rest (echo_char c k1) else Some (Inl ())
       else console_loop b press max_len i buf rest k1)"
    by (subst console_loop.simps) (simp add: g(1) cong: if_cong)
  consider (cr) "c = CHR 0x0D" | (nl) "c = CHR 0x0A" | (bs) "c = CHR 0x08" "0 < i" | (bs0) "c = CHR 0x08" "i = 0"
    | (put) "c \<noteq> CHR 0x0D" "c \<noteq> CHR 0x0A" "c \<noteq> CHR 0x08" "i + 1 < max_len" "32 \<le> ord c" "ord c \<le> 126"
    | (skip) "c \<noteq> CHR 0x0D" "c \<noteq> CHR 0x0A" "c \<noteq> CHR 0x08" "\<not> (i + 1 < max_len \<and> 32 \<le> ord c \<and> ord c \<le> 126)" by blast
  then show ?case
  proof cases
    case cr
    then show ?thesis using IH [of k1 echo buf i] g v Cons.prems(7,9) unfolding step by simp
  next
    case nl
    then show ?thesis using i g v Cons.prems(9) unfolding step by (auto simp: vga_puts_fold)
  next
    case bs
    then show ?thesis using IH [of "echo_char (CHR 0x08) k1" "echo @ [CHR 0x08]" buf "i - 1"] g v Cons.prems(7,9) unfolding step
      by (simp add: vga_puts_fold)
  next
    case bs0
    then show ?thesis using IH [of k1 echo buf i] g v Cons.prems(7,9) unfolding step by simp
  next
    case put
    then show ?thesis using IH [of "echo_char c k1" "echo @ [c]" "buf[i := c]" "i + 1"] i g v Cons.prems(9) unfolding step
      by (simp add: vga_puts_fold)
  next
    case skip
    then show ?thesis using IH [of k1 echo buf i] g v Cons.prems(7,9) unfolding step by auto
  qed
qed simp

text \<open>
  Property C4. Reading a line under interrupts is reading it from the list of the typed characters: when
  the ring has room for them, \<open>keyboard_readline\<close> of the kernel returns, whatever ticks and other interrupts come
  between the keys, with the buffer and the echo on the screen that the characters in the ring and those
  of the scancodes give, and what it does not consume stays to be read.
\<close>

theorem console_readline_refines:
  assumes "\<And>sc d. fst (inb b 0x60 (press sc d)) = sc"
    and "at_prompt k" "\<forall>a \<in> set (concat batches). hardware a" "length (pending k batches) \<le> 255" "wakes_for (length (pending k batches)) batches"
    and "0 < max_len" "max_len \<le> length buf" "CHR 0x0A \<in> set (pending k batches)"
  shows "\<exists>buf' echo left rest k'. keyboard_readline max_len buf (pending k batches) = Some (Inr (buf', echo, left)) \<and>
    console_readline b press max_len buf batches k = Some (Inr (buf', rest, k')) \<and>
    m_vga k' = vga_puts echo (m_vga k) \<and> pending k' rest = left \<and> at_prompt k'"
proof -
  obtain buf' echo left where r: "readline_loop max_len 0 buf [] (pending k batches) = Some (Inr (buf', echo, left))"
    using readline_loop_spec [OF assms(8,7,6), of "[]"] by auto
  obtain rest k' where "console_loop b press max_len 0 buf batches k = Some (Inr (buf', rest, k'))"
      "m_vga k' = vga_puts echo (m_vga k)" "at_prompt k'" "pending k' rest = left"
    using console_loop_refines [where b = b and press = press and v = "m_vga k" and echo = "[]", OF assms(1-3) refl assms(4,5,7,6) _ r]
    by (auto simp: vga_puts_fold)
  then show ?thesis using r assms(6) by (intro exI [where x = buf'] exI [where x = echo] exI [where x = left] exI [where x = rest] exI [where x = k'])
      (simp add: keyboard_readline_def console_readline_def)
qed

text \<open>A device that holds the last scancode on every port.\<close>

definition latch_bus :: "byte bus" where
  "latch_bus = \<lparr>inb = (\<lambda>_ d. (d, d)), outb = (\<lambda>_ _ d. d), inw = (\<lambda>_ d. (0, d)), outw = (\<lambda>_ _ d. d)\<rparr>"

definition hw_regs :: "u32 \<Rightarrow> registers" where
  "hw_regs v = zero_regs\<lparr>reg_int_no := v\<rparr>"

text \<open>The keys A and Enter, with ticks, and wake-ups enough for both.\<close>

definition two_keys :: "byte arrival list list" where
  "two_keys = [[Other_irq (hw_regs 32) (\<lambda>d. d)], [Scancode (hw_regs 33) 0x1E, Other_irq (hw_regs 32) (\<lambda>d. d)], [Scancode (hw_regs 33) 0x1C],
     [], []]"

theorem console_readline_refines_witness:
  "\<exists>rest k. console_readline latch_bus (\<lambda>sc _. sc) 8 (replicate 8 NUL) two_keys (sample_kernel 0) = Some (Inr (''a'' @ replicate 7 NUL, rest, k)) \<and>
     m_vga k = vga_puts (''a'' @ [CHR 0x0A]) text_screen \<and> pending k rest = []"
proof -
  let ?k = "sample_kernel (0 :: byte)"
  have q: "kbd_ok empty_kbd" "kbd_queue empty_kbd = []" by (simp_all add: empty_kbd_def kbd_ok_def kbd_queue_def kbd_count_def)
  have "typed 0x1E empty_kbd = ''a''" by (simp add: typed_def empty_kbd_def map_normal_def nth_append)
  moreover have "typed 0x1C (keyboard_irq_handler 0x1E empty_kbd) = [CHR 0x0A]"
    using handler_flags_eq [of "0x1E" empty_kbd] by (simp add: typed_def empty_kbd_def map_normal_def nth_append)
  ultimately have p: "pending ?k two_keys = ''a'' @ [CHR 0x0A]" using q(2) by (simp add: pending_def two_keys_def sample_kernel_def)
  have "at_prompt ?k"
    using q(1) by (auto simp: at_prompt_def sample_kernel_def process_init_def boot_handlers_def nth_list_update)
  moreover have "\<forall>a \<in> set (concat two_keys). hardware a" by (simp add: two_keys_def hw_regs_def)
  moreover have "wakes_for 2 two_keys"
    unfolding wakes_for_def by (intro exI [where x = 2] exI [where x = "take 3 two_keys"]) (simp add: two_keys_def numeral_2_eq_2)
  then have "wakes_for (length (pending ?k two_keys)) two_keys" by (simp add: p numeral_2_eq_2)
  ultimately obtain buf' echo left rest k' where r: "keyboard_readline 8 (replicate 8 NUL) (pending ?k two_keys) = Some (Inr (buf', echo, left))"
      "console_readline latch_bus (\<lambda>sc _. sc) 8 (replicate 8 NUL) two_keys ?k = Some (Inr (buf', rest, k'))"
      "m_vga k' = vga_puts echo (m_vga ?k)" "pending k' rest = left"
    using console_readline_refines [of latch_bus "\<lambda>sc _. sc" ?k two_keys 8 "replicate 8 NUL"] p by (auto simp: latch_bus_def)
  have "buf' = ''a'' @ replicate 7 NUL" "echo = ''a'' @ [CHR 0x0A]" "left = []"
    using r(1) by (simp_all add: p keyboard_readline_def numeral_eq_Suc)
  then show ?thesis using r by (auto simp: sample_kernel_def)
qed

end
