(* ===== verification/Stubs.thy ===== *)
theory Stubs
  imports Usermode
begin

text \<open>
  The assembly around the C code: the stubs of \<open>kernel/isr.asm\<close> that every interrupt passes on its way to
  \<open>isr_handler_c\<close> and back, and \<open>context_switch\<close> of \<open>kernel/context.asm\<close>, instruction by instruction on the registers
  of the processor and its memory.

  The stack is used in double words only, so that the memory is a map from their addresses. What the
  compiled C code leaves below the stack pointer is not kept.
\<close>

subsection \<open>The processor\<close>

text \<open>\<open>tss_esp0\<close> and \<open>tss_ss0\<close> are what the task state segment holds for ring 0.\<close>

record cpu =
  eax :: u32
  ecx :: u32
  edx :: u32
  ebx :: u32
  esp :: u32
  ebp :: u32
  esi :: u32
  edi :: u32
  eip :: u32
  eflags :: u32
  cs :: u16
  ss :: u16
  ds :: u16
  es :: u16
  fs_seg :: u16
  gs_seg :: u16
  stack_mem :: "u32 \<Rightarrow> u32"
  tss_esp0 :: u32
  tss_ss0 :: u16

definition push_word :: "u32 \<Rightarrow> cpu \<Rightarrow> cpu" where
  "push_word v m = m\<lparr>esp := esp m - 4, stack_mem := (stack_mem m)(esp m - 4 := v)\<rparr>"

definition pop_word :: "cpu \<Rightarrow> u32 \<times> cpu" where
  "pop_word m = (stack_mem m (esp m), m\<lparr>esp := esp m + 4\<rparr>)"

text \<open>\<open>pusha\<close> stores the stack pointer from before it, \<open>popa\<close> skips it.\<close>

definition pusha :: "cpu \<Rightarrow> cpu" where
  "pusha m = push_word (edi m) (push_word (esi m) (push_word (ebp m) (push_word (esp m) (push_word (ebx m) (push_word (edx m) (push_word (ecx m) (push_word (eax m) m)))))))"

definition popa :: "cpu \<Rightarrow> cpu" where
  "popa m =
     (let (v, m) = pop_word m; m = m\<lparr>edi := v\<rparr>;
          (v, m) = pop_word m; m = m\<lparr>esi := v\<rparr>;
          (v, m) = pop_word m; m = m\<lparr>ebp := v\<rparr>;
          (_, m) = pop_word m;
          (v, m) = pop_word m; m = m\<lparr>ebx := v\<rparr>;
          (v, m) = pop_word m; m = m\<lparr>edx := v\<rparr>;
          (v, m) = pop_word m; m = m\<lparr>ecx := v\<rparr>;
          (v, m) = pop_word m in
      m\<lparr>eax := v\<rparr>)"

text \<open>
  Interrupted in another ring, the processor changes to the stack of ring 0 and stores there where the
  other one is.
\<close>

definition ring0_stack :: "cpu \<Rightarrow> cpu" where
  "ring0_stack m =
     (if cs m AND 3 \<noteq> 0 then push_word (esp m) (push_word (ucast (ss m)) (m\<lparr>esp := tss_esp0 m, ss := tss_ss0 m\<rparr>)) else m)"

text \<open>
  It takes an interrupt through an interrupt gate of the kernel's code segment: it stores
  where to return to and the error code if the interrupt has one, and closes the interrupt flag.
\<close>

definition cpu_interrupt :: "u32 \<Rightarrow> u32 option \<Rightarrow> cpu \<Rightarrow> cpu" where
  "cpu_interrupt stub err m =
     (let m' = push_word (eip m) (push_word (ucast (cs m)) (push_word (eflags m) (ring0_stack m)));
          m' = (case err of Some e \<Rightarrow> push_word e m' | None \<Rightarrow> m') in
      m'\<lparr>cs := KERNEL_CS, eip := stub, eflags := eflags m AND NOT 0x200\<rparr>)"

text \<open>
  Returning to an outer ring restores its stack, and clears a data segment that still selects one of the kernel's two
  descriptors. \<^const>\<open>None\<close> is a return to virtual 8086 mode.
\<close>

definition outer_segment :: "u16 \<Rightarrow> u16" where
  "outer_segment s = (if s AND 0xFFFC = 0x08 \<or> s AND 0xFFFC = 0x10 then 0 else s)"

definition iretd :: "cpu \<Rightarrow> cpu option" where
  "iretd m =
     (let (ip, m) = pop_word m; (c, m) = pop_word m; (fl, m) = pop_word m; m = m\<lparr>eip := ip, cs := ucast c, eflags := fl\<rparr> in
      if fl AND 0x20000 \<noteq> 0 then None
      else if cs m AND 3 \<noteq> 0 then
        let (sp, m) = pop_word m; (s, m) = pop_word m in
        Some (m\<lparr>esp := sp, ss := ucast s, ds := outer_segment (ds m), es := outer_segment (es m),
                fs_seg := outer_segment (fs_seg m), gs_seg := outer_segment (gs_seg m)\<rparr>)
      else Some m)"

subsection \<open>The stubs\<close>

text \<open>The vectors of \<open>ISR_ERR\<close>, whose stub leaves the error code to the processor.\<close>

definition has_error :: "nat \<Rightarrow> bool" where
  "has_error n \<longleftrightarrow> n \<in> {8, 10, 11, 12, 13, 14, 17, 30}"

definition isr_stub :: "nat \<Rightarrow> cpu \<Rightarrow> cpu" where
  "isr_stub n m = push_word (word_of_nat n) (if has_error n then m else push_word 0 m)"

definition set_ax :: "u32 \<Rightarrow> u32 \<Rightarrow> u32" where
  "set_ax v w = (w AND 0xFFFF0000) OR v"

text \<open>\<open>isr_common_stub\<close> up to the call and after it; its argument is the stack pointer.\<close>

definition stub_enter :: "cpu \<Rightarrow> cpu" where
  "stub_enter m =
     (let m = pusha (push_word (ucast (gs_seg m)) (push_word (ucast (fs_seg m)) (push_word (ucast (es m)) (push_word (ucast (ds m)) m)))) in
      push_word (esp m) (m\<lparr>eax := set_ax 0x10 (eax m), ds := 0x10, es := 0x10, fs_seg := 0x10, gs_seg := 0x10\<rparr>))"

definition stub_leave :: "cpu \<Rightarrow> cpu option" where
  "stub_leave m =
     (let m = popa (m\<lparr>esp := esp m + 4\<rparr>);
          (v, m) = pop_word m; m = m\<lparr>gs_seg := ucast v\<rparr>;
          (v, m) = pop_word m; m = m\<lparr>fs_seg := ucast v\<rparr>;
          (v, m) = pop_word m; m = m\<lparr>es := ucast v\<rparr>;
          (v, m) = pop_word m; m = m\<lparr>ds := ucast v\<rparr> in
      iretd (m\<lparr>esp := esp m + 8\<rparr>))"

text \<open>The structure at an address, as the C code reads it, and the writes of the C code to it.\<close>

definition registers_at :: "(u32 \<Rightarrow> u32) \<Rightarrow> u32 \<Rightarrow> registers" where
  "registers_at mem p = of_words (map (\<lambda>i. mem (p + 4 * word_of_nat i)) [0..<17])"

definition store_registers :: "u32 \<Rightarrow> registers \<Rightarrow> (u32 \<Rightarrow> u32) \<Rightarrow> u32 \<Rightarrow> u32" where
  "store_registers p r mem = fold (\<lambda>i mem. mem(p + 4 * word_of_nat i := words_of r ! i)) [0..<17] mem"

text \<open>
  A whole interrupt of vector \<open>n\<close>. The pushed pointer is what \<open>isr_handler_c\<close> gets; it returns with its
  stack pointer as it was. \<^const>\<open>None\<close> when it does not return here.
\<close>

definition serve_interrupt :: "'d bus \<Rightarrow> u32 \<Rightarrow> nat \<Rightarrow> u32 option \<Rightarrow> cpu \<times> 'd kernel \<Rightarrow> (cpu \<times> 'd kernel) option" where
  "serve_interrupt b stub n err mk =
     (let m = stub_enter (isr_stub n (cpu_interrupt stub err (fst mk))); p = stack_mem m (esp m) in
      case isr_handler_c b (registers_at (stack_mem m) p) (snd mk) of
        Return r k \<Rightarrow> map_option (\<lambda>m. (m, k)) (stub_leave (m\<lparr>stack_mem := store_registers p r (stack_mem m)\<rparr>))
      | _ \<Rightarrow> None)"

subsection \<open>What the C code sees and changes\<close>

text \<open>Where the frame is built, and the frame.\<close>

definition kernel_top :: "cpu \<Rightarrow> u32" where
  "kernel_top m = (if cs m AND 3 = 0 then esp m else tss_esp0 m - 8)"

definition frame_of :: "nat \<Rightarrow> u32 option \<Rightarrow> cpu \<Rightarrow> registers" where
  "frame_of n err m =
     \<lparr>reg_edi = edi m, reg_esi = esi m, reg_ebp = ebp m, reg_esp = kernel_top m - 36, reg_ebx = ebx m, reg_edx = edx m, reg_ecx = ecx m,
      reg_eax = eax m, reg_gs = ucast (gs_seg m), reg_fs = ucast (fs_seg m), reg_es = ucast (es m), reg_ds = ucast (ds m),
      reg_int_no = word_of_nat n, reg_err_code = (case err of Some e \<Rightarrow> e | None \<Rightarrow> 0), reg_eip = eip m, reg_cs = ucast (cs m),
      reg_eflags = eflags m\<rparr>"

lemma call_regs:
  assumes "call_handler b r k = Return r' k'"
  shows "r' = r\<lparr>reg_eax := reg_eax r'\<rparr> \<and> (handlers (k_tables k) ! unat (reg_int_no r) \<noteq> Some Syscall_handler \<longrightarrow> reg_eax r' = reg_eax r)"
proof (cases "handlers (k_tables k) ! unat (reg_int_no r)")
  case None
  then show ?thesis using assms by (auto simp: call_handler_def)
next
  case (Some h)
  then show ?thesis using assms
    by (cases h) (auto simp: call_handler_def run_handler_def syscall_handler_def Let_def split: prod.splits option.splits if_splits)
qed

lemma isr_regs:
  assumes "isr_handler_c b r k = Return r' k'" "\<not> (reg_int_no r = 13 \<and> v86_is_active (k_v86 k))"
  shows "r' = r\<lparr>reg_eax := reg_eax r'\<rparr> \<and> (handlers (k_tables k) ! unat (reg_int_no r) \<noteq> Some Syscall_handler \<longrightarrow> reg_eax r' = reg_eax r)"
  using assms call_regs [of b r k] by (auto simp: isr_handler_c_def isr_rest_def split: outcome.splits)

text \<open>The stack while the C code runs, cell by cell, from the address \<open>e\<close> down.\<close>

definition frame_cells :: "u32 \<Rightarrow> registers \<Rightarrow> (u32 \<Rightarrow> u32) \<Rightarrow> u32 \<Rightarrow> u32" where
  "frame_cells e r mem =
     mem(e - 4 := reg_eflags r, e - 8 := reg_cs r, e - 12 := reg_eip r, e - 16 := reg_err_code r, e - 20 := reg_int_no r,
         e - 24 := reg_ds r, e - 28 := reg_es r, e - 32 := reg_fs r, e - 36 := reg_gs r, e - 40 := reg_eax r, e - 44 := reg_ecx r,
         e - 48 := reg_edx r, e - 52 := reg_ebx r, e - 56 := reg_esp r, e - 60 := reg_ebp r, e - 64 := reg_esi r, e - 68 := reg_edi r,
         e - 72 := e - 68)"

lemma ring0_simps [simp]:
  "esp (ring0_stack m) = kernel_top m" "eax (ring0_stack m) = eax m" "ecx (ring0_stack m) = ecx m" "edx (ring0_stack m) = edx m"
  "ebx (ring0_stack m) = ebx m" "ebp (ring0_stack m) = ebp m" "esi (ring0_stack m) = esi m" "edi (ring0_stack m) = edi m"
  "ds (ring0_stack m) = ds m" "es (ring0_stack m) = es m" "fs_seg (ring0_stack m) = fs_seg m" "gs_seg (ring0_stack m) = gs_seg m"
  by (simp_all add: ring0_stack_def kernel_top_def push_word_def)

lemma entered:
  assumes "(err = None) = (\<not> has_error n)"
  shows "stub_enter (isr_stub n (cpu_interrupt stub err m)) =
    (ring0_stack m)\<lparr>eax := set_ax 0x10 (eax m), cs := KERNEL_CS, eip := stub, eflags := eflags m AND NOT 0x200, ds := 0x10, es := 0x10, fs_seg := 0x10, gs_seg := 0x10,
      esp := kernel_top m - 72, stack_mem := frame_cells (kernel_top m) (frame_of n err m) (stack_mem (ring0_stack m))\<rparr>"
  using assms
  by (cases err) (simp_all add: stub_enter_def isr_stub_def cpu_interrupt_def pusha_def push_word_def Let_def frame_cells_def frame_of_def)

lemma frame_read: "registers_at (frame_cells e r mem) (e - 68) = r"
  by (simp add: registers_at_def frame_cells_def of_words_def upt_rec)

lemma frame_top [simp]: "frame_cells e r mem (e - 72) = e - 68"
  by (simp add: frame_cells_def)

lemma frame_stored: "store_registers (e - 68) r' (frame_cells e r mem) = frame_cells e r' mem"
  by (rule ext) (simp add: store_registers_def frame_cells_def words_of_def upt_rec)

lemma left:
  assumes "stack_mem m = frame_cells e r mem" "esp m = e - 72"
  shows "stub_leave m = iretd (m\<lparr>edi := reg_edi r, esi := reg_esi r, ebp := reg_ebp r, ebx := reg_ebx r, edx := reg_edx r, ecx := reg_ecx r,
    eax := reg_eax r, gs_seg := ucast (reg_gs r), fs_seg := ucast (reg_fs r), es := ucast (reg_es r), ds := ucast (reg_ds r), esp := e - 12\<rparr>)"
  by (simp add: assms stub_leave_def popa_def pop_word_def Let_def frame_cells_def)

text \<open>Only the kernel's stack below where it was changes.\<close>

definition stack_cells :: "cpu \<Rightarrow> u32 set" where
  "stack_cells m = (\<lambda>i. (if cs m AND 3 = 0 then esp m else tss_esp0 m) - 4 * word_of_nat i) ` {1..20}"

lemma cells_changed:
  "frame_cells (kernel_top m) r (stack_mem (ring0_stack m)) a \<noteq> stack_mem m a \<Longrightarrow> a \<in> stack_cells m"
proof -
  let ?t = "if cs m AND 3 = 0 then esp m else tss_esp0 m"
  have "?t - 4 * word_of_nat i \<in> stack_cells m" if "i \<in> {1..20}" for i using that by (simp add: stack_cells_def)
  note c = this [of 1] this [of 2] this [of 3] this [of 4] this [of 5] this [of 6] this [of 7] this [of 8] this [of 9] this [of 10]
    this [of 11] this [of 12] this [of 13] this [of 14] this [of 15] this [of 16] this [of 17] this [of 18] this [of 19] this [of 20]
  show "frame_cells (kernel_top m) r (stack_mem (ring0_stack m)) a \<noteq> stack_mem m a \<Longrightarrow> a \<in> stack_cells m"
    using c by (cases "cs m AND 3 = 0") (auto simp: frame_cells_def ring0_stack_def kernel_top_def push_word_def fun_upd_def split: if_splits)
qed

text \<open>A segment register is pushed as a double word and popped again.\<close>

lemma selector_word [simp]: "ucast (ucast s :: u32) = (s :: u16)"
  by (simp add: bit_eq_iff bit_simps)

lemma returned:
  assumes "stack_mem x = frame_cells (kernel_top m) (frame_of n err m\<lparr>reg_eax := v\<rparr>) (stack_mem (ring0_stack m))" "esp x = kernel_top m - 12"
    and "eflags m AND 0x20000 = 0" "cs m AND 3 \<noteq> 0 \<longrightarrow> (\<forall>s \<in> {ds x, es x, fs_seg x, gs_seg x}. outer_segment s = s)"
  shows "iretd x = Some (x\<lparr>eip := eip m, cs := cs m, eflags := eflags m, esp := esp m, ss := if cs m AND 3 = 0 then ss x else ss m\<rparr>)"
proof (cases "cs m AND 3 = 0")
  case True
  then show ?thesis using assms by (simp add: iretd_def pop_word_def Let_def frame_cells_def frame_of_def kernel_top_def)
next
  case False
  then show ?thesis using assms
    by (simp add: iretd_def pop_word_def Let_def frame_cells_def frame_of_def kernel_top_def ring0_stack_def push_word_def)
qed


subsection \<open>Entering ring 3\<close>

text \<open>
  The instructions of \<open>cmd_usermode\<close> in \<open>kernel/shell.c\<close>: they build the frame of an interrupt from ring 3 and return to
  it. It is the frame that the theory of the user program starts from.
\<close>

definition enter_user :: "u32 \<Rightarrow> u32 \<Rightarrow> cpu \<Rightarrow> cpu option" where
  "enter_user user_esp entry m =
     (let m = m\<lparr>eax := set_ax 0x23 (eax m), ds := 0x23, es := 0x23, fs_seg := 0x23, gs_seg := 0x23\<rparr>;
          m = push_word (eflags m) (push_word user_esp (push_word 0x23 m));
          m = m\<lparr>stack_mem := (stack_mem m)(esp m := stack_mem m (esp m) OR 0x200)\<rparr> in
      iretd (push_word entry (push_word 0x1B m)))"

lemma enter_user_eq:
  assumes "eflags m AND 0x20000 = 0"
  shows "\<exists>mem. enter_user user_esp entry m = Some (m\<lparr>eax := set_ax 0x23 (eax m), ds := 0x23, es := 0x23, fs_seg := 0x23, gs_seg := 0x23,
      cs := 0x1B, ss := 0x23, esp := user_esp, eip := entry, eflags := eflags m OR 0x200, stack_mem := mem\<rparr>)"
proof -
  have "(eflags m OR 0x200) AND 0x20000 = 0" using assms by (simp add: bit.conj_disj_distrib2)
  then show ?thesis
    by (intro exI [where x = "(stack_mem m)(esp m - 4 := 0x23, esp m - 8 := user_esp, esp m - 12 := eflags m OR 0x200,
          esp m - 16 := 0x1B, esp m - 20 := entry)"]) (simp add: enter_user_def push_word_def pop_word_def iretd_def Let_def outer_segment_def)
qed

text \<open>The first system call finds the stack of the task state segment and the frame of \<^const>\<open>user_frame\<close>.\<close>

lemma enter_user_frame:
  assumes "enter_user user_esp entry m = Some m'" "eflags m AND 0x20000 = 0" "cs m AND 3 = 0"
  shows "frame_of n None m' = (fst (user_frame user_esp entry (frame_of n None m)))\<lparr>reg_eax := set_ax 0x23 (eax m), reg_esp := tss_esp0 m - 44\<rparr>"
    and "\<forall>s \<in> {ds m', es m', fs_seg m', gs_seg m'}. outer_segment s = s" "eflags m' AND 0x20000 = 0"
proof -
  have "(eflags m OR 0x200) AND 0x20000 = 0" using assms(2) by (simp add: bit.conj_disj_distrib2)
  moreover obtain mem where "m' = m\<lparr>eax := set_ax 0x23 (eax m), ds := 0x23, es := 0x23, fs_seg := 0x23, gs_seg := 0x23,
      cs := 0x1B, ss := 0x23, esp := user_esp, eip := entry, eflags := eflags m OR 0x200, stack_mem := mem\<rparr>"
    using enter_user_eq [OF assms(2), of user_esp entry] assms(1) by auto
  ultimately show "frame_of n None m' = (fst (user_frame user_esp entry (frame_of n None m)))\<lparr>reg_eax := set_ax 0x23 (eax m), reg_esp := tss_esp0 m - 44\<rparr>"
    and "\<forall>s \<in> {ds m', es m', fs_seg m', gs_seg m'}. outer_segment s = s" "eflags m' AND 0x20000 = 0"
    by (simp_all add: frame_of_def user_frame_def kernel_top_def outer_segment_def)
qed

subsection \<open>Switching between processes\<close>

text \<open>
  \<open>context_switch(old_sp, new_sp)\<close>, called with its return address and arguments on the stack: it
  saves the registers, stores the stack pointer through \<open>old_sp\<close> unless that is null, and restores the registers that
  lie at \<open>new_sp\<close>.
\<close>

definition save_context :: "cpu \<Rightarrow> cpu" where
  "save_context m =
     (let m = push_word (edi m) (push_word (esi m) (push_word (ebp m) (push_word (ebx m) (push_word (edx m) (push_word (ecx m) (push_word (eax m) (push_word (eflags m) m)))))));
          m = m\<lparr>eax := stack_mem m (esp m + 36)\<rparr> in
      if eax m \<noteq> 0 then m\<lparr>stack_mem := (stack_mem m)(eax m := esp m)\<rparr> else m)"

definition load_context :: "cpu \<Rightarrow> cpu" where
  "load_context m =
     (let m = m\<lparr>esp := stack_mem m (esp m + 40)\<rparr>;
          (v, m) = pop_word m; m = m\<lparr>edi := v\<rparr>;
          (v, m) = pop_word m; m = m\<lparr>esi := v\<rparr>;
          (v, m) = pop_word m; m = m\<lparr>ebp := v\<rparr>;
          (v, m) = pop_word m; m = m\<lparr>ebx := v\<rparr>;
          (v, m) = pop_word m; m = m\<lparr>edx := v\<rparr>;
          (v, m) = pop_word m; m = m\<lparr>ecx := v\<rparr>;
          (v, m) = pop_word m; m = m\<lparr>eax := v\<rparr>;
          (v, m) = pop_word m; m = m\<lparr>eflags := v\<rparr>;
          (v, m) = pop_word m in
      m\<lparr>eip := v\<rparr>)"

definition context_switch :: "cpu \<Rightarrow> cpu" where
  "context_switch m = load_context (save_context m)"

text \<open>What a call uses of its stack: the saved registers, the return address and the arguments.\<close>

definition call_cells :: "cpu \<Rightarrow> u32 set" where
  "call_cells m = (\<lambda>i. esp m - 32 + 4 * word_of_nat i) ` {..10}"

abbreviation old_sp :: "cpu \<Rightarrow> u32" where "old_sp m \<equiv> stack_mem m (esp m + 4)"

lemma call_cell: "i \<le> 10 \<Longrightarrow> esp m - 32 + 4 * word_of_nat i \<in> call_cells m"
  by (simp add: call_cells_def)

lemmas call_cell_list =
  call_cell [of 0, simplified] call_cell [of 1, simplified] call_cell [of 2, simplified] call_cell [of 3, simplified]
  call_cell [of 4, simplified] call_cell [of 5, simplified] call_cell [of 6, simplified] call_cell [of 7, simplified]
  call_cell [of 8, simplified] call_cell [of 9, simplified] call_cell [of 10, simplified]

lemma offset_right: "numeral n + esp m = esp m + numeral n" "numeral n + stack_mem m a = stack_mem m a + numeral n"
  by (simp_all only: add.commute)

definition saved_mem :: "cpu \<Rightarrow> u32 \<Rightarrow> u32" where
  "saved_mem m =
     (let mem = (stack_mem m)(esp m - 4 := eflags m, esp m - 8 := eax m, esp m - 12 := ecx m, esp m - 16 := edx m, esp m - 20 := ebx m,
        esp m - 24 := ebp m, esp m - 28 := esi m, esp m - 32 := edi m) in
      if old_sp m = 0 then mem else mem(old_sp m := esp m - 32))"

lemma saved: "save_context m = m\<lparr>eax := old_sp m, esp := esp m - 32, stack_mem := saved_mem m\<rparr>"
  by (simp add: save_context_def saved_mem_def push_word_def Let_def offset_right)

lemma loaded:
  "stack_mem m (esp m + 40) = sp \<Longrightarrow> load_context m = m\<lparr>edi := stack_mem m sp, esi := stack_mem m (sp + 4), ebp := stack_mem m (sp + 8),
     ebx := stack_mem m (sp + 12), edx := stack_mem m (sp + 16), ecx := stack_mem m (sp + 20), eax := stack_mem m (sp + 24),
     eflags := stack_mem m (sp + 28), eip := stack_mem m (sp + 32), esp := sp + 36\<rparr>"
  by (simp add: load_context_def pop_word_def Let_def add.commute [of _ sp])

text \<open>The cells of its call that a call leaves alone.\<close>

lemma saved_elsewhere: "a \<notin> call_cells m \<Longrightarrow> old_sp m \<noteq> 0 \<longrightarrow> a \<noteq> old_sp m \<Longrightarrow> saved_mem m a = stack_mem m a"
  using call_cell_list [of m] by (auto simp: saved_mem_def Let_def)

lemma saved_cells:
  assumes "old_sp m \<noteq> 0 \<longrightarrow> old_sp m \<notin> call_cells m"
  shows "saved_mem m (esp m - 32) = edi m" "saved_mem m (esp m - 28) = esi m" "saved_mem m (esp m - 24) = ebp m"
    "saved_mem m (esp m - 20) = ebx m" "saved_mem m (esp m - 16) = edx m" "saved_mem m (esp m - 12) = ecx m"
    "saved_mem m (esp m - 8) = eax m" "saved_mem m (esp m - 4) = eflags m" "saved_mem m (esp m) = stack_mem m (esp m)"
    "saved_mem m (esp m + 4) = stack_mem m (esp m + 4)" "saved_mem m (esp m + 8) = stack_mem m (esp m + 8)"
  using assms call_cell_list [of m] by (auto simp: saved_mem_def Let_def offset_right)

lemma saved_pointer: "old_sp m \<noteq> 0 \<Longrightarrow> saved_mem m (old_sp m) = esp m - 32"
  by (simp add: saved_mem_def)

lemma context_switch_eq:
  assumes "old_sp m \<noteq> 0 \<longrightarrow> old_sp m \<notin> call_cells m" "stack_mem m (esp m + 8) = sp"
  shows "stack_mem (context_switch m) = saved_mem m"
    and "context_switch m = m\<lparr>edi := saved_mem m sp, esi := saved_mem m (sp + 4), ebp := saved_mem m (sp + 8), ebx := saved_mem m (sp + 12),
      edx := saved_mem m (sp + 16), ecx := saved_mem m (sp + 20), eax := saved_mem m (sp + 24), eflags := saved_mem m (sp + 28),
      eip := saved_mem m (sp + 32), esp := sp + 36, stack_mem := saved_mem m\<rparr>"
  using saved_cells(11) [OF assms(1)] assms(2) by (simp_all add: context_switch_def saved loaded offset_right)

text \<open>
  Property C14. A process that is switched away from comes back as it was: when \<open>m\<close> calls \<open>context_switch\<close>, and
  later some other code with the stack pointer that was stored for \<open>m\<close>, then, if nothing wrote to the
  stack of \<open>m\<close>'s call in between, the second call returns to the caller of the first with its registers, its
  flags and its stack pointer, and its own context is stored through its own pointer.
\<close>

theorem context_switch_resumes:
  assumes "old_sp m \<noteq> 0" "old_sp m \<notin> call_cells m"
    and "\<forall>a \<in> call_cells m. stack_mem m' a = stack_mem (context_switch m) a"
    and "stack_mem m' (esp m' + 8) = stack_mem (context_switch m) (old_sp m)"
    and "old_sp m' \<noteq> 0 \<longrightarrow> old_sp m' \<notin> call_cells m \<union> call_cells m'" "call_cells m \<inter> call_cells m' = {}"
  shows "context_switch m' = m'\<lparr>eax := eax m, ecx := ecx m, edx := edx m, ebx := ebx m, ebp := ebp m, esi := esi m, edi := edi m,
      eflags := eflags m, eip := stack_mem m (esp m), esp := esp m + 4, stack_mem := stack_mem (context_switch m')\<rparr> \<and>
    (\<forall>a \<in> call_cells m. stack_mem (context_switch m') a = stack_mem (context_switch m) a) \<and>
    (old_sp m' \<noteq> 0 \<longrightarrow> stack_mem (context_switch m') (old_sp m') = esp m' - 32)"
proof (intro conjI)
  have 1: "stack_mem (context_switch m) = saved_mem m" using assms(1,2) by (intro context_switch_eq(1)) auto
  have sp: "stack_mem m' (esp m' + 8) = esp m - 32" using assms(4) saved_pointer [OF assms(1)] by (simp add: 1)
  have 2: "old_sp m' \<noteq> 0 \<longrightarrow> old_sp m' \<notin> call_cells m'" using assms(5) by blast
  note sw = context_switch_eq [OF 2 sp]
  show k: "\<forall>a \<in> call_cells m. stack_mem (context_switch m') a = stack_mem (context_switch m) a"
  proof
    fix a
    assume a: "a \<in> call_cells m"
    then have "a \<notin> call_cells m'" "old_sp m' \<noteq> 0 \<longrightarrow> a \<noteq> old_sp m'" using assms(5,6) by blast+
    then show "stack_mem (context_switch m') a = stack_mem (context_switch m) a"
      using saved_elsewhere [of a m'] a assms(3) by (simp add: sw(1))
  qed
  show "old_sp m' \<noteq> 0 \<longrightarrow> stack_mem (context_switch m') (old_sp m') = esp m' - 32" using saved_pointer by (simp add: sw(1))
  have c: "\<And>a. a \<in> call_cells m \<Longrightarrow> saved_mem m' a = saved_mem m a" using k by (simp add: 1 sw(1))
  have 3: "old_sp m \<noteq> 0 \<longrightarrow> old_sp m \<notin> call_cells m" using assms(2) by blast
  show "context_switch m' = m'\<lparr>eax := eax m, ecx := ecx m, edx := edx m, ebx := ebx m, ebp := ebp m, esi := esi m, edi := edi m,
      eflags := eflags m, eip := stack_mem m (esp m), esp := esp m + 4, stack_mem := stack_mem (context_switch m')\<rparr>"
    unfolding sw(1) by (subst sw(2)) (simp add: c call_cell_list saved_cells [OF 3])
qed

text \<open>What is loaded is what \<open>context_restore\<close> of the theory of the scheduler describes.\<close>

lemma load_context_restore:
  assumes "stack_mem m (esp m + 40) = sp"
  shows "context_restore (\<lambda>i. stack_mem m (sp + 4 * word_of_nat i)) 0 =
    (let m' = load_context m in \<lparr>r_edi = edi m', r_esi = esi m', r_ebp = ebp m', r_ebx = ebx m', r_edx = edx m', r_ecx = ecx m', r_eax = eax m',
       r_eflags = eflags m', r_eip = eip m'\<rparr>)"
  by (simp add: loaded [OF assms] context_restore_def)

subsection \<open>Witnesses\<close>

definition user_cpu :: cpu where
  "user_cpu = \<lparr>eax = 1, ecx = 2, edx = 3, ebx = 4, esp = 0x9000, ebp = 5, esi = 6, edi = 7, eip = 0x8000, eflags = 0x202, cs = 0x1B, ss = 0x23,
     ds = 0x23, es = 0x23, fs_seg = 0x23, gs_seg = 0x23, stack_mem = \<lambda>_. 0, tss_esp0 = 0x7000, tss_ss0 = 0x10\<rparr>"

lemma twenty: "{1..20} = {1, 2, 3, 4, 5, 6, 7, 8, 9, 10, 11, 12, 13, 14, 15, 16, 17, 18, 19, 20 :: nat}"
  by code_simp


definition first_caller :: cpu where
  "first_caller = user_cpu\<lparr>esp := 0x1000, stack_mem := (\<lambda>_. 0)(0x1000 := 0xAAAA, 0x1004 := 0x500, 0x1008 := 0x2000)\<rparr>"

definition second_caller :: cpu where
  "second_caller = user_cpu\<lparr>eax := 9, esp := 0x3000, stack_mem := (stack_mem (context_switch first_caller))(0x3004 := 0, 0x3008 := 0xFE0)\<rparr>"

lemma eleven: "{..10} = {0, 1, 2, 3, 4, 5, 6, 7, 8, 9, 10 :: nat}"
  by code_simp

theorem context_switch_resumes_witness:
  "eax (context_switch second_caller) = 1 \<and> eip (context_switch second_caller) = 0xAAAA \<and> esp (context_switch second_caller) = 0x1004"
proof -
  have o: "old_sp first_caller = 0x500" "old_sp second_caller = 0" by (simp_all add: first_caller_def second_caller_def)
  have c: "call_cells first_caller = {0xFE0, 0xFE4, 0xFE8, 0xFEC, 0xFF0, 0xFF4, 0xFF8, 0xFFC, 0x1000, 0x1004, 0x1008}"
    "call_cells second_caller = {0x2FE0, 0x2FE4, 0x2FE8, 0x2FEC, 0x2FF0, 0x2FF4, 0x2FF8, 0x2FFC, 0x3000, 0x3004, 0x3008}"
    unfolding call_cells_def eleven by (simp_all add: first_caller_def second_caller_def)
  have m: "stack_mem (context_switch first_caller) 0x500 = 0xFE0"
    using context_switch_eq(1) [of first_caller] saved_pointer [of first_caller] by (simp add: o c, simp add: first_caller_def)
  have "\<forall>a \<in> call_cells first_caller. stack_mem second_caller a = stack_mem (context_switch first_caller) a"
    by (simp add: c, simp add: second_caller_def)
  moreover have "stack_mem second_caller (esp second_caller + 8) = stack_mem (context_switch first_caller) (old_sp first_caller)"
    unfolding o m by (simp add: second_caller_def)
  ultimately have w: "context_switch second_caller = second_caller\<lparr>eax := eax first_caller, ecx := ecx first_caller, edx := edx first_caller,
      ebx := ebx first_caller, ebp := ebp first_caller, esi := esi first_caller, edi := edi first_caller, eflags := eflags first_caller,
      eip := stack_mem first_caller (esp first_caller), esp := esp first_caller + 4, stack_mem := stack_mem (context_switch second_caller)\<rparr>"
    using context_switch_resumes [of first_caller second_caller] by (simp add: o c)
  show ?thesis using arg_cong [OF w, of eax] arg_cong [OF w, of eip] arg_cong [OF w, of esp] by (simp add: first_caller_def user_cpu_def)
qed

end
