(* ===== verification/Fat32.thy ===== *)
theory Fat32
  imports Drive Bytes
begin

text \<open>
  The FAT32 reader, \<open>kernel/fat32.c\<close>: mounting, the table, directories and files. Nothing in the kernel
  calls it yet.

  The chains are followed on the disk, one table sector at a time, without a bound: the loops are
  partial functions, \<^const>\<open>None\<close> when the chain never ends. They are shown to read exactly the bytes and
  entries of a chain that does end.
\<close>

subsection \<open>Structures\<close>

record fat32_bpb =
  b_jmp :: "byte list"
  b_oem :: "byte list"
  bytes_per_sector16 :: u16
  spc8 :: byte
  reserved_sectors :: u16
  num_fats :: byte
  b_root_entry_count :: u16
  b_total_sectors_16 :: u16
  b_media_type :: byte
  b_fat_size_16 :: u16
  b_sectors_per_track :: u16
  b_num_heads :: u16
  b_hidden_sectors :: u32
  b_total_sectors_32 :: u32
  fat_size_32 :: u32
  b_ext_flags :: u16
  b_fs_version :: u16
  bpb_root_cluster :: u32
  b_fs_info_sector :: u16
  b_backup_boot_sector :: u16
  b_reserved :: "byte list"
  b_drive_number :: byte
  b_reserved1 :: byte
  b_boot_signature :: byte
  b_volume_id :: u32
  b_volume_label :: "byte list"
  b_fs_type :: "byte list"

text \<open>The packed structures as casts of a buffer read them.\<close>

definition read_bpb :: "buffer \<Rightarrow> fat32_bpb" where
  "read_bpb b =
     \<lparr>b_jmp = map b [0..<3], b_oem = map b [3..<11], bytes_per_sector16 = get16 b 11, spc8 = b 13, reserved_sectors = get16 b 14,
      num_fats = b 16, b_root_entry_count = get16 b 17, b_total_sectors_16 = get16 b 19, b_media_type = b 21,
      b_fat_size_16 = get16 b 22, b_sectors_per_track = get16 b 24, b_num_heads = get16 b 26, b_hidden_sectors = get32 b 28,
      b_total_sectors_32 = get32 b 32, fat_size_32 = get32 b 36, b_ext_flags = get16 b 40, b_fs_version = get16 b 42,
      bpb_root_cluster = get32 b 44, b_fs_info_sector = get16 b 48, b_backup_boot_sector = get16 b 50,
      b_reserved = map b [52..<64], b_drive_number = b 64, b_reserved1 = b 65, b_boot_signature = b 66,
      b_volume_id = get32 b 67, b_volume_label = map b [71..<82], b_fs_type = map b [82..<90]\<rparr>"

record fat32_dir_entry =
  d_name :: string
  d_attr :: byte
  d_nt_reserved :: byte
  d_create_time_tenth :: byte
  d_create_time :: u16
  d_create_date :: u16
  d_access_date :: u16
  d_cluster_hi :: u16
  d_modify_time :: u16
  d_modify_date :: u16
  d_cluster_lo :: u16
  d_file_size :: u32

definition read_dir_entry :: "buffer \<Rightarrow> nat \<Rightarrow> fat32_dir_entry" where
  "read_dir_entry b off =
     \<lparr>d_name = map (\<lambda>k. char_of_byte (b (off + k))) [0..<11], d_attr = b (off + 11), d_nt_reserved = b (off + 12),
      d_create_time_tenth = b (off + 13), d_create_time = get16 b (off + 14), d_create_date = get16 b (off + 16),
      d_access_date = get16 b (off + 18), d_cluster_hi = get16 b (off + 20), d_modify_time = get16 b (off + 22),
      d_modify_date = get16 b (off + 24), d_cluster_lo = get16 b (off + 26), d_file_size = get32 b (off + 28)\<rparr>"

definition fat32_get_cluster :: "fat32_dir_entry \<Rightarrow> u32" where
  "fat32_get_cluster e = push_bit 16 (ucast (d_cluster_hi e)) OR ucast (d_cluster_lo e)"

abbreviation (input) FAT32_EOC :: u32 where "FAT32_EOC \<equiv> 0x0FFFFFF8"
abbreviation (input) FAT32_BAD :: u32 where "FAT32_BAD \<equiv> 0x0FFFFFF7"

record fat32 =
  f_valid :: bool
  fat_start_lba :: u32
  cluster_start_lba :: u32
  root_cluster :: u32
  sectors_per_cluster :: u32
  bytes_per_sector :: u32
  fat_size :: u32
  sector_buffer :: buffer
  cluster_buffer :: buffer
  f_disk :: drive

subsection \<open>Sectors, table and clusters\<close>

definition load_sector :: "u32 \<Rightarrow> fat32 \<Rightarrow> int \<times> fat32" where
  "load_sector lba s =
     (case drive_read lba 1 (sector_buffer s) (f_disk s) of (r, b, d) \<Rightarrow> (r, s\<lparr>sector_buffer := b, f_disk := d\<rparr>))"

definition fat32_init :: "u32 \<Rightarrow> fat32 \<Rightarrow> int \<times> fat32" where
  "fat32_init partition_lba s =
     (case load_sector partition_lba s of (r, s) \<Rightarrow>
      if r \<noteq> 0 then (- 1, s)
      else let bpb = read_bpb (sector_buffer s) in
        if bytes_per_sector16 bpb \<noteq> 512 then (- 1, s)
        else if num_fats bpb = 0 \<or> fat_size_32 bpb = 0 then (- 1, s)
        else let start = partition_lba + ucast (reserved_sectors bpb) in
          (0, s\<lparr>bytes_per_sector := ucast (bytes_per_sector16 bpb), sectors_per_cluster := ucast (spc8 bpb),
                fat_size := fat_size_32 bpb, root_cluster := bpb_root_cluster bpb, fat_start_lba := start,
                cluster_start_lba := start + ucast (num_fats bpb) * fat_size_32 bpb, f_valid := True\<rparr>))"

definition cluster_to_lba :: "fat32 \<Rightarrow> u32 \<Rightarrow> u32" where
  "cluster_to_lba s cluster = cluster_start_lba s + (cluster - 2) * sectors_per_cluster s"

definition fat_read_entry :: "u32 \<Rightarrow> fat32 \<Rightarrow> u32 \<times> fat32" where
  "fat_read_entry cluster s =
     (let fat_offset = cluster * 4;
          fat_sector = fat_start_lba s + fat_offset div 512;
          entry_offset = fat_offset mod 512 in
      case load_sector fat_sector s of (r, s) \<Rightarrow>
      if r \<noteq> 0 then (FAT32_BAD, s) else (get32 (sector_buffer s) (unat entry_offset) AND 0x0FFFFFFF, s))"

text \<open>The count is cut to a byte, as the parameter of \<open>disk_read_sectors\<close> is.\<close>

definition read_cluster :: "u32 \<Rightarrow> fat32 \<Rightarrow> int \<times> fat32" where
  "read_cluster cluster s =
     (case drive_read (cluster_to_lba s cluster) (unat (ucast (sectors_per_cluster s) :: byte)) (cluster_buffer s) (f_disk s) of
        (r, b, d) \<Rightarrow> (r, s\<lparr>cluster_buffer := b, f_disk := d\<rparr>))"

definition to_lower_char :: "char \<Rightarrow> char" where
  "to_lower_char c = (if ord CHR ''A'' \<le> ord c \<and> ord c \<le> ord CHR ''Z'' then char_of (ord c + 32) else c)"

text \<open>The text in \<open>str\<close>: a blank ends the base and the extension, a \<open>NUL\<close> the whole.\<close>

definition fat_name_to_str :: "string \<Rightarrow> string" where
  "fat_name_to_str fat_name =
     (let base = takeWhile (\<lambda>c. c \<noteq> CHR '' '') (take 8 fat_name);
          ext = (if fat_name ! 8 \<noteq> CHR '' '' then CHR ''.'' # takeWhile (\<lambda>c. c \<noteq> CHR '' '') (drop 8 fat_name) else []) in
      map to_lower_char (takeWhile (\<lambda>c. c \<noteq> NUL) (base @ ext)))"

subsection \<open>Directories\<close>

definition is_lfn :: "fat32_dir_entry \<Rightarrow> bool" where
  "is_lfn e \<longleftrightarrow> d_attr e AND 0x0F = 0x0F"

text \<open>What the callback is called with.\<close>

type_synonym listing = "(string \<times> bool \<times> u32) list"

text \<open>The loop over the entries of a cluster, \<open>n\<close> of them left; the flag tells that the end was seen.\<close>

fun list_entries :: "nat \<Rightarrow> nat \<Rightarrow> buffer \<Rightarrow> listing \<Rightarrow> bool \<times> listing" where
  "list_entries 0 i b calls = (False, calls)"
| "list_entries (Suc n) i b calls =
     (let e = read_dir_entry b (i * 32); c = d_name e ! 0 in
      if c = NUL then (True, calls)
      else if c = CHR 0xE5 then list_entries n (Suc i) b calls
      else if is_lfn e \<or> d_attr e AND 0x08 \<noteq> 0 then list_entries n (Suc i) b calls
      else if c = CHR ''.'' then list_entries n (Suc i) b calls
      else list_entries n (Suc i) b (calls @ [(fat_name_to_str (d_name e), d_attr e AND 0x10 \<noteq> 0, d_file_size e)]))"

definition entries_per_cluster :: "fat32 \<Rightarrow> nat" where
  "entries_per_cluster s = unat (sectors_per_cluster s * 512) div 32"

partial_function (option) list_clusters :: "u32 \<Rightarrow> listing \<Rightarrow> fat32 \<Rightarrow> (int \<times> listing \<times> fat32) option" where
  "list_clusters c calls s =
     (if c < FAT32_EOC then
        case read_cluster c s of (r, s) \<Rightarrow>
        if r \<noteq> 0 then Some (- 1, calls, s)
        else case list_entries (entries_per_cluster s) 0 (cluster_buffer s) calls of (stop, calls) \<Rightarrow>
          if stop then Some (0, calls, s)
          else case fat_read_entry c s of (c', s) \<Rightarrow> list_clusters c' calls s
      else Some (0, calls, s))"

definition fat32_list_dir :: "u32 \<Rightarrow> fat32 \<Rightarrow> (int \<times> listing \<times> fat32) option" where
  "fat32_list_dir cluster s = (if \<not> f_valid s then Some (- 1, [], s) else list_clusters cluster [] s)"

datatype found = Absent | Found fat32_dir_entry | Further

fun find_in_cluster :: "nat \<Rightarrow> nat \<Rightarrow> buffer \<Rightarrow> string \<Rightarrow> found" where
  "find_in_cluster 0 i b name = Further"
| "find_in_cluster (Suc n) i b name =
     (let e = read_dir_entry b (i * 32); c = d_name e ! 0 in
      if c = NUL then Absent
      else if c = CHR 0xE5 then find_in_cluster n (Suc i) b name
      else if is_lfn e then find_in_cluster n (Suc i) b name
      else if strcmp (fat_name_to_str (d_name e)) name = 0 then Found e
      else find_in_cluster n (Suc i) b name)"

partial_function (option) find_in_clusters :: "u32 \<Rightarrow> string \<Rightarrow> fat32 \<Rightarrow> (fat32_dir_entry option \<times> fat32) option" where
  "find_in_clusters c name s =
     (if c < FAT32_EOC then
        case read_cluster c s of (r, s) \<Rightarrow>
        if r \<noteq> 0 then Some (None, s)
        else case find_in_cluster (entries_per_cluster s) 0 (cluster_buffer s) name of
          Absent \<Rightarrow> Some (None, s)
        | Found e \<Rightarrow> Some (Some e, s)
        | Further \<Rightarrow> (case fat_read_entry c s of (c', s) \<Rightarrow> find_in_clusters c' name s)
      else Some (None, s))"

text \<open>The result \<open>-1\<close> is \<^const>\<open>None\<close> inside, \<open>0\<close> the entry that is copied out.\<close>

definition fat32_find_entry :: "u32 \<Rightarrow> string \<Rightarrow> fat32 \<Rightarrow> (fat32_dir_entry option \<times> fat32) option" where
  "fat32_find_entry dir_cluster name s = (if \<not> f_valid s then Some (None, s) else find_in_clusters dir_cluster name s)"

subsection \<open>Files\<close>

partial_function (option) read_clusters :: "u32 \<Rightarrow> u32 \<Rightarrow> u32 \<Rightarrow> buffer \<Rightarrow> fat32 \<Rightarrow> (u32 \<times> buffer \<times> fat32) option" where
  "read_clusters c bytes_read max_size buf s =
     (if c < FAT32_EOC \<and> bytes_read < max_size then
        case read_cluster c s of (r, s) \<Rightarrow>
        if r \<noteq> 0 then Some (- 1, buf, s)
        else let to_copy = sectors_per_cluster s * 512;
                 to_copy = (if bytes_read + to_copy > max_size then max_size - bytes_read else to_copy);
                 buf = memcpy buf (unat bytes_read) (cluster_buffer s) 0 (unat to_copy) in
          case fat_read_entry c s of (c', s) \<Rightarrow> read_clusters c' (bytes_read + to_copy) max_size buf s
      else Some (bytes_read, buf, s))"

definition fat32_read_file :: "u32 \<Rightarrow> buffer \<Rightarrow> u32 \<Rightarrow> fat32 \<Rightarrow> (u32 \<times> buffer \<times> fat32) option" where
  "fat32_read_file cluster buf max_size s = (if \<not> f_valid s then Some (- 1, buf, s) else read_clusters cluster 0 max_size buf s)"

subsection \<open>What is on the disk\<close>

definition same_volume :: "fat32 \<Rightarrow> fat32 \<Rightarrow> bool" where
  "same_volume s s' \<longleftrightarrow> fat_start_lba s' = fat_start_lba s \<and> cluster_start_lba s' = cluster_start_lba s \<and>
     sectors_per_cluster s' = sectors_per_cluster s \<and> sectors (f_disk s') = sectors (f_disk s) \<and>
     (healthy (f_disk s) \<longrightarrow> healthy (f_disk s'))"

lemma same_volume_refl [simp]: "same_volume s s"
  by (simp add: same_volume_def)

lemma same_volume_trans: "same_volume a b \<Longrightarrow> same_volume b c \<Longrightarrow> same_volume a c"
  by (simp add: same_volume_def)

text \<open>The table entry and the bytes of a cluster.\<close>

definition fat_next :: "fat32 \<Rightarrow> u32 \<Rightarrow> u32" where
  "fat_next s c = get32 (sectors (f_disk s) (unat (fat_start_lba s + c * 4 div 512))) (unat (c * 4 mod 512)) AND 0x0FFFFFFF"

definition cluster_byte :: "fat32 \<Rightarrow> u32 \<Rightarrow> nat \<Rightarrow> byte" where
  "cluster_byte s c k = sectors (f_disk s) (unat (cluster_to_lba s c) + k div 512) (k mod 512)"

definition cluster_size :: "fat32 \<Rightarrow> nat" where
  "cluster_size s = unat (sectors_per_cluster s) * 512"

text \<open>The clusters from \<open>c\<close> to the end mark.\<close>

fun chain_from :: "fat32 \<Rightarrow> u32 list \<Rightarrow> u32 \<Rightarrow> bool" where
  "chain_from s [] c = (\<not> c < FAT32_EOC)"
| "chain_from s (x # xs) c = (c = x \<and> c < FAT32_EOC \<and> chain_from s xs (fat_next s c))"

definition file_byte :: "fat32 \<Rightarrow> u32 list \<Rightarrow> nat \<Rightarrow> byte" where
  "file_byte s cs k = cluster_byte s (cs ! (k div cluster_size s)) (k mod cluster_size s)"

lemma volume_cong:
  assumes "same_volume s s'"
  shows "fat_next s' = fat_next s" "cluster_byte s' = cluster_byte s" "cluster_size s' = cluster_size s"
    "chain_from s' cs = chain_from s cs" "file_byte s' = file_byte s" "entries_per_cluster s' = entries_per_cluster s"
proof -
  have e: "fat_start_lba s' = fat_start_lba s" "cluster_start_lba s' = cluster_start_lba s"
    "sectors_per_cluster s' = sectors_per_cluster s" "sectors (f_disk s') = sectors (f_disk s)"
    using assms by (simp_all add: same_volume_def)
  show f: "fat_next s' = fat_next s" "cluster_byte s' = cluster_byte s" "cluster_size s' = cluster_size s"
    "entries_per_cluster s' = entries_per_cluster s"
    by (rule ext, simp add: e fat_next_def)
      ((rule ext)+, simp add: e cluster_byte_def cluster_to_lba_def, simp_all add: e cluster_size_def entries_per_cluster_def)
  show "chain_from s' cs = chain_from s cs"
  proof
    show "chain_from s' cs c = chain_from s cs c" for c by (induction cs arbitrary: c) (simp_all add: f)
  qed
  show "file_byte s' = file_byte s" by (simp add: file_byte_def f fun_eq_iff)
qed

lemma load_sector_ok:
  assumes "healthy (f_disk s)"
  obtains s' where "load_sector lba s = (0, s')" "same_volume s s'" "cluster_buffer s' = cluster_buffer s"
    "\<And>k. k < 512 \<Longrightarrow> sector_buffer s' k = sectors (f_disk s) (unat lba) k"
proof -
  obtain r b d where r: "drive_read lba 1 (sector_buffer s) (f_disk s) = (r, b, d)" by (metis prod_cases3)
  note h = drive_read_healthy [OF assms r]
  have "b k = sectors (f_disk s) (unat lba) k" if "k < 512" for k
    using drive_read_ok [of lba 1 "sector_buffer s" "f_disk s" b d k] r h(1) that by simp
  then show ?thesis using drive_read_frame(1) [OF r] r h
    by (intro that [of "s\<lparr>sector_buffer := b, f_disk := d\<rparr>"]) (auto simp: load_sector_def same_volume_def)
qed

lemma entry_offset: "unat (c * 4 mod 512 :: u32) + 3 < 512"
proof -
  have "unat (c * 4 mod 512 :: u32) = (unat c * 4) mod 512"
    by (simp add: unat_mod_distrib unat_word_ariths mod_mod_cancel)
  also have "\<dots> = unat c mod 128 * 4" using mult_mod_left [of "unat c" 128 4] by simp
  finally show ?thesis using mod_less_divisor [of 128 "unat c"] by linarith
qed

lemma fat_read_entry_ok:
  assumes "healthy (f_disk s)"
  obtains s' where "fat_read_entry c s = (fat_next s c, s')" "same_volume s s'"
proof -
  obtain s' where s': "load_sector (fat_start_lba s + c * 4 div 512) s = (0, s')" "same_volume s s'"
    "cluster_buffer s' = cluster_buffer s"
    and b: "\<And>k. k < 512 \<Longrightarrow> sector_buffer s' k = sectors (f_disk s) (unat (fat_start_lba s + c * 4 div 512)) k"
    using load_sector_ok [OF assms, of "fat_start_lba s + c * 4 div 512"] by metis
  have "get32 (sector_buffer s') (unat (c * 4 mod 512)) =
      get32 (sectors (f_disk s) (unat (fat_start_lba s + c * 4 div 512))) (unat (c * 4 mod 512))"
    using entry_offset [of c] by (simp add: get32_def b)
  then show ?thesis using s' by (intro that [of s']) (simp_all add: fat_read_entry_def Let_def fat_next_def)
qed

lemma read_cluster_ok:
  assumes "healthy (f_disk s)" "unat (sectors_per_cluster s) < 256"
  obtains s' where "read_cluster c s = (0, s')" "same_volume s s'" "\<And>k. k < cluster_size s \<Longrightarrow> cluster_buffer s' k = cluster_byte s c k"
proof -
  let ?n = "unat (ucast (sectors_per_cluster s) :: byte)"
  have n: "?n = unat (sectors_per_cluster s)" using assms(2) by (simp add: unsigned_ucast_eq take_bit_eq_mod)
  obtain r b d where r: "drive_read (cluster_to_lba s c) ?n (cluster_buffer s) (f_disk s) = (r, b, d)" by (metis prod_cases3)
  note h = drive_read_healthy [OF assms(1) r]
  have "b k = cluster_byte s c k" if "k < cluster_size s" for k
    using drive_read_ok [of "cluster_to_lba s c" ?n "cluster_buffer s" "f_disk s" b d k] r h(1) that n
    by (simp add: cluster_size_def cluster_byte_def)
  then show ?thesis using drive_read_frame(1) [OF r] r h
    by (intro that [of "s\<lparr>cluster_buffer := b, f_disk := d\<rparr>"]) (auto simp: read_cluster_def same_volume_def)
qed

subsection \<open>Files read right\<close>

text \<open>Clusters that fit the static buffer, and at least one sector each.\<close>

definition volume_ok :: "fat32 \<Rightarrow> bool" where
  "volume_ok s \<longleftrightarrow> healthy (f_disk s) \<and> 0 < unat (sectors_per_cluster s) \<and> unat (sectors_per_cluster s) \<le> 8"

lemma volume_ok_cong: "same_volume s s' \<Longrightarrow> volume_ok s \<Longrightarrow> volume_ok s'"
  by (simp add: same_volume_def volume_ok_def)

lemma unat_cluster_size: "volume_ok s \<Longrightarrow> unat (sectors_per_cluster s * 512) = cluster_size s"
  by (simp add: volume_ok_def cluster_size_def unat_mult_lem [THEN iffD1])

lemma file_byte_Cons:
  assumes "0 < cluster_size s"
  shows "file_byte s (c # cs) k = (if k < cluster_size s then cluster_byte s c k else file_byte s cs (k - cluster_size s))"
proof (cases "k < cluster_size s")
  case False
  then have "k div cluster_size s = Suc ((k - cluster_size s) div cluster_size s)" "k mod cluster_size s = (k - cluster_size s) mod cluster_size s"
    using assms by (simp_all add: le_div_geq le_mod_geq)
  then show ?thesis using False by (simp add: file_byte_def)
qed (simp add: file_byte_def)

lemma read_clusters_ok:
  "volume_ok s \<Longrightarrow> chain_from s cs c \<Longrightarrow> br \<le> lim \<Longrightarrow> unat lim + cluster_size s < 2 ^ 32 \<Longrightarrow>
   \<exists>n buf' s'. read_clusters c br lim buf s = Some (n, buf', s') \<and> unat n = min (unat lim) (unat br + length cs * cluster_size s) \<and>
     (\<forall>k. buf' k = (if unat br \<le> k \<and> k < unat n then file_byte s cs (k - unat br) else buf k))"
proof (induction cs arbitrary: s c br buf)
  case Nil
  then have "unat br \<le> unat lim" by (simp add: word_le_nat_alt)
  then show ?case using Nil by (subst read_clusters.simps) (auto simp: min_def)
next
  case (Cons x cs)
  have c: "x = c" "c < FAT32_EOC" "chain_from s cs (fat_next s c)" using Cons.prems(2) by auto
  have le: "unat br \<le> unat lim" using Cons.prems(3) by (simp add: word_le_nat_alt)
  have cs: "0 < cluster_size s" "unat (sectors_per_cluster s) < 256" using Cons.prems(1) by (simp_all add: volume_ok_def cluster_size_def)
  show ?case
  proof (cases "br = lim")
    case True
    then show ?thesis by (subst read_clusters.simps) (auto simp: min_def)
  next
    case False
    then have lt: "br < lim" "unat br < unat lim" using Cons.prems(3) by (simp_all add: word_less_nat_alt word_le_nat_alt nat_less_le word_unat_eq_iff)
    obtain s1 where 1: "read_cluster c s = (0, s1)" "same_volume s s1" "\<And>k. k < cluster_size s \<Longrightarrow> cluster_buffer s1 k = cluster_byte s c k"
      using read_cluster_ok [OF _ cs(2), of c] Cons.prems(1) by (metis volume_ok_def)
    obtain s2 where 2: "fat_read_entry c s1 = (fat_next s1 c, s2)" "same_volume s1 s2"
      using fat_read_entry_ok [of s1 c] volume_ok_cong [OF 1(2) Cons.prems(1)] by (metis volume_ok_def)
    have sv: "same_volume s s2" by (rule same_volume_trans [OF 1(2) 2(2)])
    note vc = volume_cong [OF sv] and ok2 = volume_ok_cong [OF sv Cons.prems(1)]
    define t where "t = (if br + sectors_per_cluster s1 * 512 > lim then lim - br else sectors_per_cluster s1 * 512)"
    have spc: "unat (sectors_per_cluster s1 * 512) = cluster_size s"
      using unat_cluster_size [OF volume_ok_cong [OF 1(2) Cons.prems(1)]] volume_cong(3) [OF 1(2)] by simp
    have sum: "unat (br + sectors_per_cluster s1 * 512) = unat br + cluster_size s"
      using le Cons.prems(4) spc by (simp add: unat_add_lem [THEN iffD1])
    have ut: "unat t = min (cluster_size s) (unat lim - unat br)"
      using le sum spc unat_sub [of br lim] Cons.prems(3) by (auto simp: t_def word_less_nat_alt min_def)
    have brt: "unat (br + t) = min (unat lim) (unat br + cluster_size s)" and brle: "br + t \<le> lim"
    proof -
      have "unat br + unat t = min (unat lim) (unat br + cluster_size s)" using ut le by linarith
      moreover have "unat br + unat t < 2 ^ 32" using calculation Cons.prems(4) by linarith
      ultimately show "unat (br + t) = min (unat lim) (unat br + cluster_size s)" by (simp add: unat_add_lem [THEN iffD1])
      then show "br + t \<le> lim" by (simp add: word_le_nat_alt)
    qed
    let ?b = "memcpy buf (unat br) (cluster_buffer s1) 0 (unat t)"
    obtain n buf' s' where r: "read_clusters (fat_next s c) (br + t) lim ?b s2 = Some (n, buf', s')"
      and n: "unat n = min (unat lim) (unat (br + t) + length cs * cluster_size s)"
      and b: "\<And>k. buf' k = (if unat (br + t) \<le> k \<and> k < unat n then file_byte s cs (k - unat (br + t)) else ?b k)"
      using Cons.IH [OF ok2, of "fat_next s c" "br + t" ?b] c(3) brle Cons.prems(4) by (auto simp: vc)
    have "read_clusters c br lim buf s = Some (n, buf', s')"
      using lt c(2) r by (subst read_clusters.simps)
        (simp add: 1(1) 2(1) t_def [symmetric] volume_cong(1) [OF 1(2)] Let_def)
    moreover have n': "unat n = min (unat lim) (unat br + length (x # cs) * cluster_size s)"
      using n brt by (simp add: min_def split: if_splits)
    moreover have "buf' k = (if unat br \<le> k \<and> k < unat n then file_byte s (x # cs) (k - unat br) else buf k)" for k
    proof -
      have m: "?b k = (if unat br \<le> k \<and> k < unat br + unat t then cluster_byte s c (k - unat br) else buf k)"
        using 1(3) ut by (auto simp: memcpy_eq)
      have "unat br + unat t = unat (br + t)" using brt ut le by linarith
      moreover have "unat (br + t) \<le> unat n" using n brle by (simp add: word_le_nat_alt)
      moreover have "unat (br + t) = unat br + cluster_size s" if "unat (br + t) < unat n" using that brt n by (simp add: min_def split: if_splits)
      ultimately show ?thesis using b [of k] m c(1) file_byte_Cons [OF cs(1), of x cs "k - unat br"] ut by (auto simp: not_le)
    qed
    ultimately show ?thesis by blast
  qed
qed

text \<open>
  Property C31. Reading a file whose chain reaches the end mark returns, and gives the bytes of its
  clusters in order: as many as there are, or as the buffer takes, and nothing behind them is touched.
\<close>

theorem read_file_follows_chain:
  assumes "f_valid s" "volume_ok s" "chain_from s cs c" "unat lim + cluster_size s < 2 ^ 32"
  shows "\<exists>n buf' s'. fat32_read_file c buf lim s = Some (n, buf', s') \<and> unat n = min (unat lim) (length cs * cluster_size s) \<and>
     (\<forall>k. buf' k = (if k < unat n then file_byte s cs k else buf k))"
  using read_clusters_ok [OF assms(2,3), of 0 lim buf] assms(1,4) by (simp add: fat32_read_file_def cong: if_cong)

text \<open>A volume with one-sector clusters: the table in sector 100, cluster 2 in sector 200; clusters 2 and 3 make a file.\<close>

definition sample_volume :: fat32 where
  "sample_volume = \<lparr>f_valid = True, fat_start_lba = 100, cluster_start_lba = 200, root_cluster = 2, sectors_per_cluster = 1,
     bytes_per_sector = 512, fat_size = 1, sector_buffer = (\<lambda>_. 0), cluster_buffer = (\<lambda>_. 0),
     f_disk = \<lparr>sectors = (\<lambda>_ _. 7)(100 := put32 12 0x0FFFFFFF (put32 8 3 (\<lambda>_. 0))), fault = (\<lambda>_. False), transfers = 0\<rparr>\<rparr>"

lemma sample_volume_facts: "volume_ok sample_volume" "chain_from sample_volume [2, 3] 2" "cluster_size sample_volume = 512"
proof -
  show "volume_ok sample_volume" "cluster_size sample_volume = 512"
    by (simp_all add: volume_ok_def sample_volume_def healthy_def cluster_size_def)
  have "fat_next sample_volume 2 = 3" "fat_next sample_volume 3 = 0x0FFFFFFF"
    by (simp_all add: fat_next_def sample_volume_def get32_put32 get32_put32_other)
  then show "chain_from sample_volume [2, 3] 2" by simp
qed

theorem read_file_follows_chain_witness:
  "\<exists>buf s'. fat32_read_file 2 (\<lambda>_. 0) 1000 sample_volume = Some (1000, buf, s')"
proof -
  have v: "f_valid sample_volume" by (simp add: sample_volume_def)
  obtain n buf s' where "fat32_read_file 2 (\<lambda>_. 0) 1000 sample_volume = Some (n, buf, s')" "unat n = 1000"
    using read_file_follows_chain [of sample_volume "[2, 3]" 2 1000 "\<lambda>_. 0"] sample_volume_facts v by auto
  moreover have "n = 1000" using calculation(2) by (simp add: word_unat_eq_iff)
  ultimately show ?thesis by blast
qed

subsection \<open>Directories read right\<close>

text \<open>The entries of a directory in order, and those before the one that marks its end.\<close>

definition entries_of :: "fat32 \<Rightarrow> u32 \<Rightarrow> fat32_dir_entry list" where
  "entries_of s c = map (\<lambda>i. read_dir_entry (cluster_byte s c) (i * 32)) [0..<entries_per_cluster s]"

definition ends_dir :: "fat32_dir_entry \<Rightarrow> bool" where
  "ends_dir e \<longleftrightarrow> d_name e ! 0 = NUL"

definition live :: "fat32_dir_entry list \<Rightarrow> fat32_dir_entry list" where
  "live = takeWhile (\<lambda>e. \<not> ends_dir e)"

definition named :: "string \<Rightarrow> fat32_dir_entry \<Rightarrow> bool" where
  "named name e \<longleftrightarrow> d_name e ! 0 \<noteq> CHR 0xE5 \<and> \<not> is_lfn e \<and> fat_name_to_str (d_name e) = name"

definition listed :: "fat32_dir_entry \<Rightarrow> bool" where
  "listed e \<longleftrightarrow> d_name e ! 0 \<noteq> CHR 0xE5 \<and> \<not> is_lfn e \<and> d_attr e AND 0x08 = 0 \<and> d_name e ! 0 \<noteq> CHR ''.''"

definition call_of :: "fat32_dir_entry \<Rightarrow> string \<times> bool \<times> u32" where
  "call_of e = (fat_name_to_str (d_name e), d_attr e AND 0x10 \<noteq> 0, d_file_size e)"

lemma live_append: "live (xs @ ys) = (if list_ex ends_dir xs then live xs else xs @ live ys)"
  by (induction xs) (auto simp: live_def)

lemma to_lower_not_NUL: "c \<noteq> NUL \<Longrightarrow> to_lower_char c \<noteq> NUL"
proof -
  assume c: "c \<noteq> NUL"
  have "ord (char_of (ord c + 32) :: char) = ord c + 32" if "ord c \<le> ord CHR ''Z''" using that by simp
  moreover have "ord NUL = 0" by simp
  ultimately show ?thesis using c unfolding to_lower_char_def by (metis add_eq_0_iff_both_eq_0 zero_neq_numeral)
qed

lemma cstring_name: "cstring (fat_name_to_str f)"
proof -
  have "cstring (map to_lower_char (takeWhile (\<lambda>c. c \<noteq> NUL) xs))" for xs by (induction xs) (simp_all add: to_lower_not_NUL)
  then show ?thesis by (simp add: fat_name_to_str_def Let_def)
qed

lemma entry_first: "d_name (read_dir_entry b off) ! 0 = char_of_byte (b off)"
  by (simp add: read_dir_entry_def)

lemma list_entries_eq:
  "list_entries n i b calls = (let es = map (\<lambda>j. read_dir_entry b (j * 32)) [i..<i + n] in
     (list_ex ends_dir es, calls @ map call_of (filter listed (live es))))"
proof (induction n arbitrary: i calls)
  case (Suc n)
  have "[i..<i + Suc n] = i # [Suc i..<Suc i + n]" by (simp add: upt_rec)
  then show ?case using Suc [of "Suc i"] by (simp add: Let_def ends_dir_def live_def listed_def call_of_def)
qed (simp add: live_def)

lemma find_in_cluster_eq:
  assumes "cstring name"
  shows "find_in_cluster n i b name = (let es = map (\<lambda>j. read_dir_entry b (j * 32)) [i..<i + n] in
     case find (named name) (live es) of Some e \<Rightarrow> Found e | None \<Rightarrow> if list_ex ends_dir es then Absent else Further)"
proof (induction n arbitrary: i)
  case (Suc n)
  have "[i..<i + Suc n] = i # [Suc i..<Suc i + n]" by (simp add: upt_rec)
  then show ?case using Suc [of "Suc i"] strcmp_eq_0 [OF cstring_name assms]
    by (simp add: Let_def ends_dir_def live_def named_def)
qed (simp add: live_def)

text \<open>A step of a directory loop: the cluster is in the buffer, the next one comes from the table.\<close>

lemma dir_step:
  assumes "volume_ok s"
  obtains s1 s2 where "read_cluster c s = (0, s1)" "same_volume s s1" "volume_ok s1"
    "map (\<lambda>j. read_dir_entry (cluster_buffer s1) (j * 32)) [0..<entries_per_cluster s] = entries_of s c"
    "fat_read_entry c s1 = (fat_next s c, s2)" "same_volume s s2" "volume_ok s2"
proof -
  have spc: "unat (sectors_per_cluster s) < 256" "healthy (f_disk s)" using assms by (simp_all add: volume_ok_def)
  obtain s1 where 1: "read_cluster c s = (0, s1)" "same_volume s s1" "\<And>k. k < cluster_size s \<Longrightarrow> cluster_buffer s1 k = cluster_byte s c k"
    using read_cluster_ok [OF spc(2,1), of c] by metis
  have ok1: "volume_ok s1" by (rule volume_ok_cong [OF 1(2) assms])
  obtain s2 where 2: "fat_read_entry c s1 = (fat_next s1 c, s2)" "same_volume s1 s2"
    using fat_read_entry_ok [of s1 c] ok1 by (metis volume_ok_def)
  have n: "entries_per_cluster s * 32 = cluster_size s"
    using unat_cluster_size [OF assms] by (simp add: entries_per_cluster_def cluster_size_def)
  have "read_dir_entry (cluster_buffer s1) (j * 32) = read_dir_entry (cluster_byte s c) (j * 32)" if "j < entries_per_cluster s" for j
  proof -
    have b: "cluster_buffer s1 (j * 32 + k) = cluster_byte s c (j * 32 + k)" if "k < 32" for k
      using \<open>j < entries_per_cluster s\<close> that n by (intro 1(3)) linarith
    moreover have "cluster_buffer s1 (k + j * 32) = cluster_byte s c (k + j * 32)" if "k < 32" for k
      using b [OF that] by (simp add: add.commute)
    ultimately show ?thesis by (simp add: read_dir_entry_def get16_def get32_def add.assoc)
  qed
  then have "map (\<lambda>j. read_dir_entry (cluster_buffer s1) (j * 32)) [0..<entries_per_cluster s] = entries_of s c"
    by (simp add: entries_of_def)
  then show ?thesis
    using that [OF 1(1,2) ok1] 2 same_volume_trans [OF 1(2) 2(2)] volume_ok_cong [OF 2(2) ok1] volume_cong(1) [OF 1(2)] by metis
qed

lemma entries_of_cong: "same_volume s s' \<Longrightarrow> entries_of s' = entries_of s"
  by (auto simp: entries_of_def volume_cong)

lemma list_clusters_ok:
  "volume_ok s \<Longrightarrow> chain_from s cs c \<Longrightarrow>
   \<exists>s'. list_clusters c calls s = Some (0, calls @ map call_of (filter listed (live (concat (map (entries_of s) cs)))), s')"
proof (induction cs arbitrary: s c calls)
  case Nil
  then show ?case by (subst list_clusters.simps) (simp add: live_def)
next
  case (Cons x cs)
  have c: "x = c" "c < FAT32_EOC" "chain_from s cs (fat_next s c)" using Cons.prems(2) by auto
  obtain s1 s2 where st: "read_cluster c s = (0, s1)" "same_volume s s1" "volume_ok s1"
    "map (\<lambda>j. read_dir_entry (cluster_buffer s1) (j * 32)) [0..<entries_per_cluster s] = entries_of s c"
    "fat_read_entry c s1 = (fat_next s c, s2)" "same_volume s s2" "volume_ok s2"
    by (rule dir_step [OF Cons.prems(1)])
  have l: "list_entries (entries_per_cluster s1) 0 (cluster_buffer s1) calls =
      (list_ex ends_dir (entries_of s c), calls @ map call_of (filter listed (live (entries_of s c))))"
    using st(4) by (simp add: list_entries_eq Let_def volume_cong(6) [OF st(2)])
  show ?case
  proof (cases "list_ex ends_dir (entries_of s c)")
    case True
    then show ?thesis using c(1,2) by (subst list_clusters.simps) (simp add: st(1) l live_append)
  next
    case False
    then have "live (entries_of s c) = entries_of s c" using live_append [of "entries_of s c" "[]"] by (simp add: live_def)
    then show ?thesis using False c Cons.IH [OF st(7), of "fat_next s c" "calls @ map call_of (filter listed (entries_of s c))"]
      by (subst list_clusters.simps) (simp add: st(1,5) l live_append volume_cong [OF st(6)] entries_of_cong [OF st(6)])
  qed
qed

lemma find_in_clusters_ok:
  "volume_ok s \<Longrightarrow> chain_from s cs c \<Longrightarrow> cstring name \<Longrightarrow>
   \<exists>s'. find_in_clusters c name s = Some (find (named name) (live (concat (map (entries_of s) cs))), s')"
proof (induction cs arbitrary: s c)
  case Nil
  then show ?case by (subst find_in_clusters.simps) (simp add: live_def)
next
  case (Cons x cs)
  have c: "x = c" "c < FAT32_EOC" "chain_from s cs (fat_next s c)" using Cons.prems(2) by auto
  obtain s1 s2 where st: "read_cluster c s = (0, s1)" "same_volume s s1" "volume_ok s1"
    "map (\<lambda>j. read_dir_entry (cluster_buffer s1) (j * 32)) [0..<entries_per_cluster s] = entries_of s c"
    "fat_read_entry c s1 = (fat_next s c, s2)" "same_volume s s2" "volume_ok s2"
    by (rule dir_step [OF Cons.prems(1)])
  have l: "find_in_cluster (entries_per_cluster s1) 0 (cluster_buffer s1) name =
      (case find (named name) (live (entries_of s c)) of Some e \<Rightarrow> Found e
       | None \<Rightarrow> if list_ex ends_dir (entries_of s c) then Absent else Further)"
    using st(4) by (simp add: find_in_cluster_eq [OF Cons.prems(3)] Let_def volume_cong(6) [OF st(2)])
  have f: "find P (xs @ ys) = (case find P xs of None \<Rightarrow> find P ys | r \<Rightarrow> r)" for P and xs ys :: "fat32_dir_entry list"
    by (induction xs) auto
  show ?case
  proof (cases "list_ex ends_dir (entries_of s c)")
    case True
    then show ?thesis using c(1,2) by (subst find_in_clusters.simps) (simp add: st(1) l live_append split: option.split)
  next
    case False
    then have "live (entries_of s c) = entries_of s c" using live_append [of "entries_of s c" "[]"] by (simp add: live_def)
    then show ?thesis using False c Cons.IH [OF st(7), of "fat_next s c"] Cons.prems(3)
      by (subst find_in_clusters.simps)
        (simp add: st(1,5) l live_append f volume_cong [OF st(6)] entries_of_cong [OF st(6)] split: option.split)
  qed
qed

text \<open>
  Property C32. On a directory whose chain reaches the end mark both walks return. A look-up finds the
  first entry, among those before the end entry, that is neither deleted nor part of a long name and
  whose printed name is the one asked for; it reports none exactly when there is none.
\<close>

theorem find_entry_first:
  assumes "f_valid s" "volume_ok s" "chain_from s cs c" "cstring name"
  shows "\<exists>s'. fat32_find_entry c name s = Some (find (named name) (live (concat (map (entries_of s) cs))), s')"
  using find_in_clusters_ok [OF assms(2-4)] assms(1) by (simp add: fat32_find_entry_def)

lemma list_dir_lists:
  assumes "f_valid s" "volume_ok s" "chain_from s cs c"
  shows "\<exists>s'. fat32_list_dir c s = Some (0, map call_of (filter listed (live (concat (map (entries_of s) cs)))), s')"
  using list_clusters_ok [OF assms(2,3), of "[]"] assms(1) by (simp add: fat32_list_dir_def)

lemma sample_entries: "entries_of sample_volume c = replicate 16 (read_dir_entry (cluster_byte sample_volume c) 0)"
  if "c = 2 \<or> c = 3"
proof -
  have "cluster_byte sample_volume c k = 7" for k
    using that by (auto simp: cluster_byte_def cluster_to_lba_def sample_volume_def)
  then have "read_dir_entry (cluster_byte sample_volume c) i = read_dir_entry (cluster_byte sample_volume c) 0" for i
    by (simp add: read_dir_entry_def get16_def get32_def)
  moreover have "entries_per_cluster sample_volume = 16" by (simp add: entries_per_cluster_def sample_volume_def)
  ultimately show ?thesis by (intro nth_equalityI) (simp_all add: entries_of_def)
qed

theorem find_entry_first_witness:
  "\<exists>s'. fat32_find_entry 2 ''readme.txt'' sample_volume = Some (None, s')"
proof -
  have "fat_name_to_str (d_name (read_dir_entry (cluster_byte sample_volume c) 0)) \<noteq> ''readme.txt''" if "c = 2 \<or> c = 3" for c
  proof -
    have "cluster_byte sample_volume c k = 7" for k
      using that by (auto simp: cluster_byte_def cluster_to_lba_def sample_volume_def)
    then have "d_name (read_dir_entry (cluster_byte sample_volume c) 0) = replicate 11 (char_of_byte 7)"
      by (simp add: read_dir_entry_def map_replicate_const)
    moreover have "hd (fat_name_to_str (replicate 11 (char_of_byte 7))) \<noteq> CHR ''r''" by code_simp
    ultimately show ?thesis by (metis list.sel(1))
  qed
  then have "find (named ''readme.txt'') (live (concat (map (entries_of sample_volume) [2, 3]))) = None"
    by (auto simp: find_None_iff sample_entries named_def live_def dest!: set_takeWhileD)
  then show ?thesis
    using find_entry_first [OF _ sample_volume_facts(1,2), of "''readme.txt''"] by (simp add: sample_volume_def)
qed

text \<open>Nothing bounds the walk: a cluster that is its own successor and holds no end entry is read for ever.\<close>

lemma returns_outside_loop:
  assumes "volume_ok s" "c < FAT32_EOC" "fat_next s c = c" "\<not> list_ex ends_dir (entries_of s c)"
    and "list_clusters c' calls s' = Some r"
  shows "\<not> (same_volume s s' \<and> c' = c)"
proof (rule list_clusters.raw_induct [where P = "\<lambda>c' _ s' _. \<not> (same_volume s s' \<and> c' = c)", OF _ assms(5)])
  fix f :: "u32 \<Rightarrow> listing \<Rightarrow> fat32 \<Rightarrow> (int \<times> listing \<times> fat32) option" and c' calls s' r
  assume IH: "\<And>c' calls s' r. f c' calls s' = Some r \<Longrightarrow> \<not> (same_volume s s' \<and> c' = c)"
  assume f: "(if c' < FAT32_EOC then case read_cluster c' s' of (r, s) \<Rightarrow>
      if r \<noteq> 0 then Some (- 1, calls, s)
      else case list_entries (entries_per_cluster s) 0 (cluster_buffer s) calls of (stop, calls) \<Rightarrow>
        if stop then Some (0, calls, s) else case fat_read_entry c' s of (c', s) \<Rightarrow> f c' calls s
    else Some (0, calls, s')) = Some r"
  show "\<not> (same_volume s s' \<and> c' = c)"
  proof
    assume a: "same_volume s s' \<and> c' = c"
    then have v: "volume_ok s'" using volume_ok_cong assms(1) by blast
    obtain s1 s2 where st: "read_cluster c s' = (0, s1)" "same_volume s' s1" "volume_ok s1"
      "map (\<lambda>j. read_dir_entry (cluster_buffer s1) (j * 32)) [0..<entries_per_cluster s'] = entries_of s' c"
      "fat_read_entry c s1 = (fat_next s' c, s2)" "same_volume s' s2" "volume_ok s2"
      by (rule dir_step [OF v])
    have e: "entries_of s' = entries_of s" "fat_next s' = fat_next s" using a entries_of_cong volume_cong(1) by blast+
    have "\<exists>calls. f c calls s2 = Some r"
      using f a assms(2-4) st(4) by (auto simp: st(1,5) list_entries_eq Let_def volume_cong(6) [OF st(2)] e)
    then show False using IH same_volume_trans [OF _ st(6)] a by blast
  qed
qed

lemma looping_chain_hangs:
  assumes "volume_ok s" "c < FAT32_EOC" "fat_next s c = c" "\<not> list_ex ends_dir (entries_of s c)"
  shows "list_clusters c calls s = None"
  using returns_outside_loop [OF assms] by (metis not_None_eq same_volume_refl)

end
