(* ===== verification/Cospy_Expr.thy ===== *)
theory Cospy_Expr
  imports Cospy
begin

text \<open>
  The expression evaluator of CosyPy: it always ends, the fuel of the model is enough, and on a printed
  expression tree it computes the value of the tree, with the usual precedences and with operators
  associating to the left.
\<close>

subsection \<open>Fuel\<close>

text \<open>A result that is not for want of fuel and leaves no more text than there was.\<close>

definition good :: "nat \<Rightarrow> cospy_error + i32 \<times> cospy \<Rightarrow> bool" where
  "good k r \<longleftrightarrow> (case r of Inl e \<Rightarrow> e \<noteq> Out_of_fuel | Inr (v, s) \<Rightarrow> pending s \<le> k)"

lemma good_simps [simp]: "good k (Inl e) \<longleftrightarrow> e \<noteq> Out_of_fuel" "good k (Inr (v, s)) \<longleftrightarrow> pending s \<le> k"
  by (simp_all add: good_def)

lemma good_mono: "good k r \<Longrightarrow> k \<le> k' \<Longrightarrow> good k' r"
  by (auto simp: good_def split: sum.splits)

lemma good_andthen:
  assumes "good k r" "\<And>v s. r = Inr (v, s) \<Longrightarrow> pending s \<le> k \<Longrightarrow> good k' (f (v, s))"
  shows "good k' (andthen r f)"
  using assms by (cases r) (auto simp: good_def)

lemma andthen_cong_good:
  assumes "good k r" "\<And>v s. r = Inr (v, s) \<Longrightarrow> pending s \<le> k \<Longrightarrow> f (v, s) = g (v, s)"
  shows "andthen r f = andthen r g"
  using assms by (cases r) (auto simp: good_def)

text \<open>What combines two values: it takes no token.\<close>

definition steady_op :: "(token \<Rightarrow> i32 \<Rightarrow> i32 \<Rightarrow> parser) \<Rightarrow> bool" where
  "steady_op app \<longleftrightarrow> (\<forall>op a b s. good (pending s) (app op a b s))"

definition good_parser :: "nat \<Rightarrow> parser \<Rightarrow> bool" where
  "good_parser k p \<longleftrightarrow> (\<forall>s. pending s \<le> k \<longrightarrow> good (pending s) (p s))"

lemma good_parserD: "good_parser k p \<Longrightarrow> pending s \<le> k \<Longrightarrow> good (pending s) (p s)"
  by (simp add: good_parser_def)

lemma say_pending [simp]: "pending (say t s) = pending s" "current_token (say t s) = current_token s" "cursor (say t s) = cursor s"
  by (simp_all add: say_def pending_def)

lemma steady_ops: "steady_op term_op" "steady_op additive_op" "steady_op comparison_op" "steady_op and_op" "steady_op or_op"
  by (simp_all add: steady_op_def term_op_def additive_op_def comparison_op_def and_op_def or_op_def c_div_def c_rem_def)

lemma bin_loop_good:
  assumes sub: "good_parser k sub" and app: "steady_op app" and ops: "TOK_EOF \<notin> ops"
  shows "pending s \<le> k \<Longrightarrow> pending s \<le> n \<Longrightarrow> good (pending s) (bin_loop ops app sub n left s)"
proof (induction n arbitrary: left s)
  case 0
  then show ?case using ops by (auto simp: pending_def split: if_splits)
next
  case (Suc n)
  show ?case
  proof (cases "current_token s \<in> ops")
    case True
    then have ne: "current_token s \<noteq> TOK_EOF" using ops by auto
    note lt = next_token_pending [OF ne]
    have 1: "good (pending (next_token s)) (sub (next_token s))"
      using sub lt Suc.prems by (simp add: good_parser_def)
    have 2: "good (pending (next_token s)) (andthen (app (current_token s) left right s') (\<lambda>(v, s''). bin_loop ops app sub n v s''))"
      if p: "pending s' \<le> pending (next_token s)" for right s'
    proof (rule good_andthen [of "pending s'"])
      show "good (pending s') (app (current_token s) left right s')" using app by (simp add: steady_op_def)
      fix v s''
      assume "pending s'' \<le> pending s'"
      then have "good (pending s'') (bin_loop ops app sub n v s'')" "pending s'' \<le> pending (next_token s)"
        using Suc.prems lt p by (auto intro!: Suc.IH)
      then show "good (pending (next_token s)) ((\<lambda>(v, s''). bin_loop ops app sub n v s'') (v, s''))" by (auto intro: good_mono)
    qed
    show ?thesis using True lt by (auto intro!: good_mono [of "pending (next_token s)"] good_andthen [OF 1] 2)
  next
    case False
    then show ?thesis by simp
  qed
qed

lemma bin_level_good:
  assumes "good_parser k sub" "steady_op app" "TOK_EOF \<notin> ops" "k \<le> n"
  shows "good_parser k (bin_level ops app sub n)"
proof -
  have "good (pending s) (bin_level ops app sub n s)" if "pending s \<le> k" for s
    unfolding bin_level_def
  proof (rule good_andthen [of "pending s"])
    show "good (pending s) (sub s)" using assms(1) that by (simp add: good_parser_def)
    fix v s'
    assume "pending s' \<le> pending s"
    then show "good (pending s) ((\<lambda>(left, s'). bin_loop ops app sub n left s') (v, s'))"
      using bin_loop_good [OF assms(1-3), of s' n v] that assms(4) by (auto intro: good_mono)
  qed
  then show ?thesis by (simp add: good_parser_def)
qed

lemma parse_or_good:
  assumes "good_parser k prim" "k \<le> n"
  shows "good_parser k (parse_or prim n)"
proof -
  have "good_parser k (parse_term prim n)" unfolding parse_term_def [abs_def]
    by (intro bin_level_good assms steady_ops) simp
  then have "good_parser k (parse_additive prim n)" unfolding parse_additive_def [abs_def]
    by (intro bin_level_good assms steady_ops) simp_all
  then have "good_parser k (parse_comparison prim n)" unfolding parse_comparison_def [abs_def]
    by (intro bin_level_good assms steady_ops) simp_all
  then have "good_parser k (parse_and prim n)" unfolding parse_and_def [abs_def]
    by (intro bin_level_good assms steady_ops) simp_all
  then show ?thesis unfolding parse_or_def [abs_def] by (intro bin_level_good assms steady_ops) simp_all
qed

lemma skip_args_pending: "pending (skip_args s) \<le> pending s"
proof (induction s rule: skip_args.induct)
  case (1 s)
  then show ?case using next_token_pending_le [of s] by (subst skip_args.simps) auto
qed

lemma read_line_good: "andthen (read_line n s) (\<lambda>(b, s). Inr (atoi b, s)) = r \<Longrightarrow> good (pending s) r"
  by (auto simp: read_line_def pending_def say_def split: option.splits sum.splits)

lemma parse_call_good: "good (pending s) (parse_call name s)"
proof -
  define s1 where "s1 = skip_args (next_token s)"
  define s2 where "s2 = (if current_token s1 = TOK_RPAREN then next_token s1 else s1)"
  have "pending s2 \<le> pending s"
    using skip_args_pending [of "next_token s"] next_token_pending_le [of s] next_token_pending_le [of s1] by (auto simp: s1_def s2_def)
  moreover have "good (pending s2) (parse_call name s)"
    using read_line_good [of 64 s2] unfolding parse_call_def Let_def s1_def [symmetric] s2_def [symmetric] by simp
  ultimately show ?thesis by (auto intro: good_mono)
qed

lemma primary_good: "k < n \<Longrightarrow> good_parser k (parse_primary n)"
proof (induction n arbitrary: k)
  case (Suc n)
  have "good (pending s) (parse_primary (Suc n) s)" if s: "pending s \<le> k" for s
  proof (cases "current_token s = TOK_EOF")
    case True
    then show ?thesis by simp
  next
    case ne: False
    note lt = next_token_pending [OF ne]
    have k: "pending (next_token s) < n" using lt s Suc.prems by simp
    have p: "good_parser (pending (next_token s)) (parse_primary n)" using Suc.IH [OF k] .
    then have 1: "good (pending (next_token s)) (parse_primary n (next_token s))" by (simp add: good_parser_def)
    have 2: "good (pending (next_token s)) (parse_or (parse_primary n) n (next_token s))"
      using parse_or_good [OF p] k by (simp add: good_parser_def)
    have 3: "good (pending s) (parse_call x (next_token s))" for x using lt by (intro good_mono [OF parse_call_good]) simp
    have 4: "pending (if current_token s' = TOK_RPAREN then next_token s' else s') \<le> pending s" if "pending s' \<le> pending (next_token s)" for s'
      using that lt next_token_pending_le [of s'] by simp
    show ?thesis using lt 3 4 by (auto simp: Let_def intro!: good_andthen [OF 1] good_andthen [OF 2])
  qed
  then show ?case by (simp add: good_parser_def)
qed simp

subsection \<open>The evaluator without fuel\<close>

text \<open>With enough fuel the amount does not matter.\<close>

lemma bin_loop_fuel:
  assumes sub: "good_parser k q" "\<And>s. pending s \<le> k \<Longrightarrow> p s = q s" and app: "steady_op app" and ops: "TOK_EOF \<notin> ops"
  shows "pending s \<le> k \<Longrightarrow> pending s \<le> n \<Longrightarrow> pending s \<le> m \<Longrightarrow> bin_loop ops app p n left s = bin_loop ops app q m left s"
proof (induction n arbitrary: m left s)
  case 0
  then show ?case using ops by (cases m) (auto simp: pending_def split: if_splits)
next
  case (Suc n)
  show ?case
  proof (cases "current_token s \<in> ops")
    case True
    then have ne: "current_token s \<noteq> TOK_EOF" using ops by auto
    note lt = next_token_pending [OF ne]
    then obtain m' where m: "m = Suc m'" using Suc.prems by (cases m) auto
    have e: "p (next_token s) = q (next_token s)" using sub(2) lt Suc.prems by simp
    have "andthen (app (current_token s) left right s') (\<lambda>(v, s''). bin_loop ops app p n v s'') =
        andthen (app (current_token s) left right s') (\<lambda>(v, s''). bin_loop ops app q m' v s'')"
      if s': "q (next_token s) = Inr (right, s')" for right s'
    proof -
      have "good (pending (next_token s)) (q (next_token s))" using sub(1) lt Suc.prems by (simp add: good_parser_def)
      then have p': "pending s' \<le> pending (next_token s)" using s' by simp
      have g: "good (pending s') (app (current_token s) left right s')" using app by (simp add: steady_op_def)
      show ?thesis
      proof (cases "app (current_token s) left right s'")
        case (Inr r)
        then obtain v s'' where r: "r = (v, s'')" "pending s'' \<le> pending s'" using g by (cases r) auto
        then show ?thesis using Inr Suc.IH [of s'' m' v] Suc.prems lt p' m by simp
      qed simp
    qed
    then show ?thesis unfolding m using True e by (cases "q (next_token s)") (auto simp: case_prod_beta)
  next
    case False
    then show ?thesis by (cases m) auto
  qed
qed

text \<open>The levels, from the operands upwards: the operators of each and what they compute.\<close>

fun level_ops :: "nat \<Rightarrow> token set" where
  "level_ops h = (if h = 1 then {TOK_STAR, TOK_SLASH, TOK_PERCENT} else if h = 2 then {TOK_PLUS, TOK_MINUS}
     else if h = 3 then {TOK_LT, TOK_GT, TOK_LE, TOK_GE, TOK_EQEQ, TOK_NE} else if h = 4 then {TOK_AND}
     else if h = 5 then {TOK_OR} else {})"

fun level_app :: "nat \<Rightarrow> token \<Rightarrow> i32 \<Rightarrow> i32 \<Rightarrow> parser" where
  "level_app h = (if h = 1 then term_op else if h = 2 then additive_op else if h = 3 then comparison_op
     else if h = 4 then and_op else or_op)"

declare level_ops.simps [simp del] level_app.simps [simp del]

fun lvl :: "nat \<Rightarrow> parser" where
  "lvl 0 s = parse_primary (Suc (pending s)) s"
| "lvl (Suc h) s = andthen (lvl h s) (\<lambda>(v, s'). bin_loop (level_ops (Suc h)) (level_app (Suc h)) (lvl h) (pending s') v s')"

declare lvl.simps [simp del]

definition loop :: "nat \<Rightarrow> i32 \<Rightarrow> parser" where
  "loop h v s = bin_loop (level_ops (Suc h)) (level_app (Suc h)) (lvl h) (pending s) v s"

lemma level_facts: "TOK_EOF \<notin> level_ops h" "steady_op (level_app h)"
  by (simp_all add: level_ops.simps level_app.simps steady_ops)

lemma lvl_good: "good_parser k (lvl h)"
proof (induction h)
  case 0
  have "good (pending s) (lvl 0 s)" for s
    unfolding lvl.simps by (rule good_parserD [OF primary_good [OF lessI]]) simp
  then show ?case by (simp add: good_parser_def)
next
  case (Suc h)
  have "good (pending s) (lvl (Suc h) s)" if "pending s \<le> k" for s
    unfolding lvl.simps
  proof (rule good_andthen [of "pending s"])
    show "good (pending s) (lvl h s)" using Suc.IH that by (simp add: good_parser_def)
    fix v s'
    assume "pending s' \<le> pending s"
    then show "good (pending s) ((\<lambda>(v, s'). bin_loop (level_ops (Suc h)) (level_app (Suc h)) (lvl h) (pending s') v s') (v, s'))"
      using bin_loop_good [OF Suc.IH level_facts(2) level_facts(1), of s' "pending s'"] that by (auto intro: good_mono)
  qed
  then show ?case by (simp add: good_parser_def)
qed

lemma bin_level_lvl:
  assumes e: "\<And>s. pending s \<le> k \<Longrightarrow> p s = lvl h s" and n: "k \<le> n" and s: "pending s \<le> k"
  shows "bin_level (level_ops (Suc h)) (level_app (Suc h)) p n s = lvl (Suc h) s"
proof -
  have "good (pending s) (lvl h s)" using lvl_good [of k h] s by (simp add: good_parser_def)
  then show ?thesis
    unfolding bin_level_def lvl.simps e [OF s] using s n
    by (cases "lvl h s") (auto intro!: bin_loop_fuel [OF lvl_good [of k h] e level_facts(2) level_facts(1)])
qed

lemma parse_or_lvl:
  assumes e: "\<And>s. pending s \<le> k \<Longrightarrow> prim s = lvl 0 s" and n: "k \<le> n" and s: "pending s \<le> k"
  shows "parse_or prim n s = lvl 5 s"
proof -
  have 1: "parse_term prim n s = lvl 1 s" if "pending s \<le> k" for s
    using bin_level_lvl [OF e n that] by (simp add: parse_term_def level_ops.simps level_app.simps)
  have 2: "parse_additive prim n s = lvl 2 s" if "pending s \<le> k" for s
    using bin_level_lvl [OF 1 n that] by (simp add: parse_additive_def level_ops.simps level_app.simps numeral_2_eq_2)
  have 3: "parse_comparison prim n s = lvl 3 s" if "pending s \<le> k" for s
    using bin_level_lvl [OF 2 n that] by (simp add: parse_comparison_def level_ops.simps level_app.simps numeral_3_eq_3)
  have 4: "parse_and prim n s = lvl 4 s" if "pending s \<le> k" for s
    using bin_level_lvl [OF 3 n that] by (simp add: parse_and_def level_ops.simps level_app.simps)
  show ?thesis
    using bin_level_lvl [OF 4 n s] by (simp add: parse_or_def level_ops.simps level_app.simps)
qed

lemma primary_fuel: "pending s < n \<Longrightarrow> parse_primary n s = lvl 0 s"
proof (induction n arbitrary: s rule: less_induct)
  case (less n)
  then obtain n' where n: "n = Suc n'" by (cases n) auto
  show ?case
  proof (cases "current_token s = TOK_EOF")
    case True
    then show ?thesis by (simp add: n lvl.simps)
  next
    case False
    note lt = next_token_pending [OF False]
    have small: "parse_primary m s' = lvl 0 s'" if "pending s' < m" "m < n" for m s' using less.IH that by blast
    have 1: "parse_primary n' (next_token s) = parse_primary (pending s) (next_token s)"
      using small [of "next_token s" n'] small [of "next_token s" "pending s"] lt less.prems n by simp
    have 2: "parse_or (parse_primary n') n' (next_token s) = parse_or (parse_primary (pending s)) (pending s) (next_token s)"
    proof -
      have "parse_or (parse_primary n') n' (next_token s) = lvl 5 (next_token s)"
        using lt less.prems n by (intro parse_or_lvl [of "pending (next_token s)"] small) auto
      moreover have "parse_or (parse_primary (pending s)) (pending s) (next_token s) = lvl 5 (next_token s)"
        using lt less.prems n by (intro parse_or_lvl [of "pending (next_token s)"] small) auto
      ultimately show ?thesis by simp
    qed
    show ?thesis unfolding n lvl.simps parse_primary.simps 1 2 ..
  qed
qed

lemma parse_expr_lvl: "pending s < n \<Longrightarrow> parse_expr n s = lvl 5 s"
  unfolding parse_expr_def by (rule parse_or_lvl [of "pending s"]) (auto intro: primary_fuel)

lemma eval_expr_lvl: "eval_expr s = lvl 5 s"
  unfolding eval_expr_def by (rule parse_expr_lvl) simp

text \<open>The equations of the evaluator without fuel.\<close>

lemma lvl_primary:
  "lvl 0 s =
     (if current_token s = TOK_NUMBER then Inr (token_number s, next_token s)
      else if current_token s = TOK_STRING then Inr (word_of_nat (strlen (token_string s)), next_token s)
      else if current_token s = TOK_IDENT then
        let name = token_ident s; s = next_token s in
        if current_token s = TOK_LPAREN then parse_call name s
        else Inr (case get_var name s of Some v \<Rightarrow> v | None \<Rightarrow> 0, s)
      else if current_token s = TOK_LPAREN then
        andthen (lvl 5 (next_token s)) (\<lambda>(val, s). Inr (val, if current_token s = TOK_RPAREN then next_token s else s))
      else if current_token s = TOK_MINUS then andthen (lvl 0 (next_token s)) (\<lambda>(v, s). Inr (- v, s))
      else if current_token s = TOK_NOT then andthen (lvl 0 (next_token s)) (\<lambda>(v, s). Inr (of_bool32 (v = 0), s))
      else Inr (0, s))"
proof (cases "current_token s = TOK_EOF")
  case True
  then show ?thesis by (simp add: lvl.simps)
next
  case False
  note lt = next_token_pending [OF False]
  have 1: "parse_primary (pending s) (next_token s) = lvl 0 (next_token s)" using primary_fuel lt by blast
  have 2: "parse_or (parse_primary (pending s)) (pending s) (next_token s) = lvl 5 (next_token s)"
    using lt by (intro parse_or_lvl [of "pending (next_token s)"] primary_fuel) auto
  show ?thesis by (subst lvl.simps(1)) (simp only: parse_primary.simps 1 2)
qed

lemma lvl_Suc: "lvl (Suc h) s = andthen (lvl h s) (\<lambda>(v, s'). loop h v s')"
  by (simp add: lvl.simps loop_def)

lemma loop_eq:
  "loop h v s =
     (if current_token s \<in> level_ops (Suc h) then
        andthen (lvl h (next_token s)) (\<lambda>(right, s').
          andthen (level_app (Suc h) (current_token s) v right s') (\<lambda>(v, s''). loop h v s''))
      else Inr (v, s))"
proof (cases "current_token s \<in> level_ops (Suc h)")
  case True
  then have ne: "current_token s \<noteq> TOK_EOF" using level_facts(1) [of "Suc h"] by metis
  note lt = next_token_pending [OF ne]
  let ?b = "bin_loop (level_ops (Suc h)) (level_app (Suc h)) (lvl h)"
  have "loop h v s = ?b (Suc (pending s)) v s"
    unfolding loop_def by (rule bin_loop_fuel [OF lvl_good [of "pending s"] _ level_facts(2) level_facts(1)]) auto
  also have "\<dots> = andthen (lvl h (next_token s)) (\<lambda>(right, s').
      andthen (level_app (Suc h) (current_token s) v right s') (\<lambda>(v, s''). ?b (pending s) v s''))"
    using True by simp
  also have "\<dots> = andthen (lvl h (next_token s)) (\<lambda>(right, s').
      andthen (level_app (Suc h) (current_token s) v right s') (\<lambda>(v, s''). loop h v s''))"
  proof (rule andthen_cong_good [OF good_parserD [OF lvl_good order_refl]], unfold prod.case)
    fix r s'
    assume p: "pending s' \<le> pending (next_token s)"
    have g: "good (pending s') (level_app (Suc h) (current_token s) v r s')" using level_facts(2) by (simp add: steady_op_def)
    show "andthen (level_app (Suc h) (current_token s) v r s') (\<lambda>(v, s''). ?b (pending s) v s'') =
      andthen (level_app (Suc h) (current_token s) v r s') (\<lambda>(v, s''). loop h v s'')"
    proof (rule andthen_cong_good [OF g], unfold prod.case loop_def)
      fix v' s''
      assume "pending s'' \<le> pending s'"
      then show "?b (pending s) v' s'' = ?b (pending s'') v' s''"
        using p lt by (intro bin_loop_fuel [OF lvl_good [of "pending s"] _ level_facts(2) level_facts(1)]) auto
    qed
  qed
  finally show ?thesis using True by simp
next
  case False
  then show ?thesis unfolding loop_def by (cases "pending s") simp_all
qed

subsection \<open>Lexemes\<close>

datatype lexeme = L_num u32 | L_id string | L_op token

definition op_text :: "token \<Rightarrow> string" where
  "op_text k = (case k of TOK_PLUS \<Rightarrow> ''+'' | TOK_MINUS \<Rightarrow> ''-'' | TOK_STAR \<Rightarrow> ''*'' | TOK_SLASH \<Rightarrow> ''/'' | TOK_PERCENT \<Rightarrow> ''%''
     | TOK_EQEQ \<Rightarrow> ''=='' | TOK_NE \<Rightarrow> ''!='' | TOK_LT \<Rightarrow> ''<'' | TOK_GT \<Rightarrow> ''>'' | TOK_LE \<Rightarrow> ''<='' | TOK_GE \<Rightarrow> ''>=''
     | TOK_LPAREN \<Rightarrow> ''('' | TOK_RPAREN \<Rightarrow> '')'' | TOK_AND \<Rightarrow> ''and'' | TOK_OR \<Rightarrow> ''or'' | TOK_NOT \<Rightarrow> ''not'' | _ \<Rightarrow> [])"

fun lex_text :: "lexeme \<Rightarrow> string" where
  "lex_text (L_num w) = dec_text w"
| "lex_text (L_id x) = x"
| "lex_text (L_op k) = op_text k"

definition name_ok :: "string \<Rightarrow> bool" where
  "name_ok x \<longleftrightarrow> x \<noteq> [] \<and> is_alpha (hd x) \<and> list_all is_alnum x \<and> length x \<le> 31 \<and> x \<notin> {''and'', ''or'', ''not''}"

fun lex_ok :: "lexeme \<Rightarrow> bool" where
  "lex_ok (L_num w) = True"
| "lex_ok (L_id x) = name_ok x"
| "lex_ok (L_op k) = (op_text k \<noteq> [])"

fun lex_state :: "lexeme \<Rightarrow> cospy \<Rightarrow> bool" where
  "lex_state (L_num w) s = (current_token s = TOK_NUMBER \<and> token_number s = w)"
| "lex_state (L_id x) s = (current_token s = TOK_IDENT \<and> token_ident s = x)"
| "lex_state (L_op k) s = (current_token s = k)"

definition spell :: "lexeme list \<Rightarrow> string" where
  "spell ls = concat (map (\<lambda>l. lex_text l @ '' '') ls)"

lemma spell_simps [simp]: "spell [] = []" "spell (l # ls) = lex_text l @ CHR '' '' # spell ls"
  by (simp_all add: spell_def)

definition frame :: "cospy \<Rightarrow> cospy \<Rightarrow> string \<Rightarrow> bool" where
  "frame s s' t \<longleftrightarrow> variables s' = variables s \<and> keys s' = keys s \<and> out s' = out s @ t"

lemma frame_trans: "frame s s' t \<Longrightarrow> frame s' s'' u \<Longrightarrow> frame s s'' (t @ u)"
  by (simp add: frame_def)

lemma next_token_frame: "frame s (next_token s) []"
  by (simp add: next_token_def frame_def Let_def split: prod.splits)

lemma is_digit_dec: "is_digit c \<longleftrightarrow> is_dec c"
  by (simp add: is_digit_def is_dec_def)

lemma scan_number_digits:
  "list_all is_dec ds \<Longrightarrow> scan_number (word_of_nat v) (ds @ CHR '' '' # r) = (word_of_nat (dec_val v ds), CHR '' '' # r)"
proof (induction ds arbitrary: v)
  case (Cons d ds)
  have e: "word_of_nat v * 10 + word_of_nat (ord d - 48) = (word_of_nat (v * 10 + (ord d - 48)) :: i32)"
    by (simp only: of_nat_add of_nat_mult of_nat_numeral)
  show ?case using Cons by (simp add: is_digit_dec e del: of_nat_add of_nat_mult)
qed (simp add: is_digit_def)

lemma scan_while_word:
  "list_all p w \<Longrightarrow> length w \<le> k \<Longrightarrow> \<not> p c \<Longrightarrow> scan_while p k (w @ c # r) = (w, c # r)"
proof (induction w arbitrary: k)
  case Nil
  then show ?case by (cases k) auto
next
  case (Cons a w)
  then show ?case by (cases k) auto
qed

lemma skip_word: "w \<noteq> [] \<Longrightarrow> \<not> is_space (hd w) \<Longrightarrow> list_all is_space sp \<Longrightarrow> skip_whitespace (sp @ w @ r) = w @ r"
  by (induction sp) (cases w, auto simp: skip_whitespace_def)

lemma lex_number:
  assumes "cursor s = sp @ dec_text w @ CHR '' '' # r" "list_all is_space sp"
  shows "lex_state (L_num w) (next_token s) \<and> cursor (next_token s) = CHR '' '' # r"
proof -
  note d = dec_text_facts [of w]
  obtain c ds where c: "dec_text w = c # ds" "is_dec c" using d by (cases "dec_text w") auto
  have sk: "skip_whitespace (cursor s) = dec_text w @ CHR '' '' # r"
    unfolding assms(1) using c assms(2) by (intro skip_word) (auto simp: is_space_def is_dec_def)
  have n: "scan_number 0 (dec_text w @ CHR '' '' # r) = (w, CHR '' '' # r)"
    using scan_number_digits [OF d(1), of 0 r] d(3) by simp
  have "c \<noteq> NUL" "c \<noteq> CHR ''#''" "c \<noteq> CHR ''-''" using c(2) by (auto simp: is_dec_def)
  then show ?thesis using c n unfolding next_token_def sk Let_def by (simp add: is_digit_dec)
qed

lemma alpha_not:
  assumes "is_alpha c"
  shows "c \<noteq> NUL" "c \<noteq> CHR ''#''" "c \<noteq> CHR ''-''" "c \<noteq> CHR 0x22" "c \<noteq> CHR 0x27" "\<not> is_digit c" "\<not> is_space c"
proof -
  have "is_alpha c \<Longrightarrow> ord c = 95 \<or> 65 \<le> ord c \<and> ord c \<le> 90 \<or> 97 \<le> ord c" by (auto simp: is_alpha_def)
  then show "c \<noteq> NUL" "c \<noteq> CHR ''#''" "c \<noteq> CHR ''-''" "c \<noteq> CHR 0x22" "c \<noteq> CHR 0x27" "\<not> is_digit c" "\<not> is_space c"
    using assms by (auto simp: is_digit_def is_space_def)
qed

lemma lex_word:
  assumes "cursor s = sp @ x @ CHR '' '' # r" "list_all is_space sp" "x \<noteq> []" "is_alpha (hd x)" "list_all is_alnum x" "length x \<le> 31"
  shows "current_token (next_token s) = keyword x \<and> token_ident (next_token s) = x \<and> cursor (next_token s) = CHR '' '' # r"
proof -
  obtain c x' where c: "x = c # x'" using assms(3) by (cases x) auto
  note a = alpha_not [of c]
  have sk: "skip_whitespace (cursor s) = x @ CHR '' '' # r"
    unfolding assms(1) using assms a(7) c by (intro skip_word) auto
  have w: "scan_while is_alnum 31 (x @ CHR '' '' # r) = (x, CHR '' '' # r)"
    using assms by (intro scan_while_word) (auto simp: is_alnum_def is_alpha_def is_digit_def)
  have al: "is_alpha c" using assms(4) c by simp
  show ?thesis using a [OF al] al w c unfolding next_token_def sk Let_def by simp
qed

lemma alnum_cstring: "list_all is_alnum x \<Longrightarrow> cstring x"
  by (induction x) (auto simp: is_alnum_def is_alpha_def is_digit_def)

lemma keyword_name: "name_ok x \<Longrightarrow> keyword x = TOK_IDENT"
  using alnum_cstring [of x] by (auto simp: name_ok_def keyword_def strcmp_eq_0)

lemma lex_op:
  assumes "cursor s = sp @ op_text k @ CHR '' '' # r" "list_all is_space sp" "op_text k \<noteq> []"
  shows "current_token (next_token s) = k \<and> cursor (next_token s) = CHR '' '' # r"
proof (cases "k = TOK_AND \<or> k = TOK_OR \<or> k = TOK_NOT")
  case True
  have "is_alpha (hd (op_text k))" "list_all is_alnum (op_text k)" "length (op_text k) \<le> 31" "keyword (op_text k) = k"
    using True by (auto simp: op_text_def is_alnum_def is_alpha_def keyword_def)
  then show ?thesis using lex_word [OF assms] by simp
next
  case False
  have h: "\<not> is_space (hd (op_text k))" "\<not> is_alpha (hd (op_text k))" "\<not> is_digit (hd (op_text k))" "hd (op_text k) \<noteq> NUL"
    "hd (op_text k) \<noteq> CHR ''#''" "hd (op_text k) \<noteq> CHR 0x22" "hd (op_text k) \<noteq> CHR 0x27"
    using False assms(3) by (auto simp: op_text_def is_space_def is_alpha_def is_digit_def split: token.splits)
  have sk: "skip_whitespace (cursor s) = op_text k @ CHR '' '' # r"
    unfolding assms(1) using assms h by (intro skip_word) auto
  have o: "operator_token (op_text k @ CHR '' '' # r) = (k, CHR '' '' # r)"
    using False assms(3) by (auto simp: op_text_def operator_token_def single_op_def double_op_def split: token.splits)
  have m: "\<not> (hd (op_text k) = CHR ''-'' \<and> is_digit (cget (op_text k @ CHR '' '' # r) 1))"
    using False assms(3) by (auto simp: op_text_def is_digit_def split: token.splits)
  have c: "chd (op_text k @ CHR '' '' # r) = hd (op_text k)" using assms(3) by (cases "op_text k") auto
  show ?thesis unfolding next_token_def sk Let_def c using h o by (simp only: m if_False) simp
qed

lemma next_token_lex:
  assumes "cursor s = sp @ lex_text l @ CHR '' '' # r" "list_all is_space sp" "lex_ok l"
  shows "lex_state l (next_token s) \<and> cursor (next_token s) = CHR '' '' # r"
proof (cases l)
  case (L_num w)
  then show ?thesis using lex_number assms by simp
next
  case (L_id x)
  then have n: "name_ok x" using assms by simp
  then have "x \<noteq> []" "is_alpha (hd x)" "list_all is_alnum x" "length x \<le> 31" by (auto simp: name_ok_def)
  from lex_word [OF _ assms(2) this, of s r] show ?thesis using L_id assms(1) keyword_name [OF n] by simp
next
  case (L_op k)
  then show ?thesis using lex_op assms by simp
qed

subsection \<open>Expression trees\<close>

datatype expr = Num u32 | Var string | Neg expr | Lnot expr | Bin token expr expr

definition height :: "token \<Rightarrow> nat" where
  "height k = (if k \<in> level_ops 1 then 1 else if k \<in> level_ops 2 then 2 else if k \<in> level_ops 3 then 3
     else if k \<in> level_ops 4 then 4 else 5)"

fun wf_expr :: "expr \<Rightarrow> bool" where
  "wf_expr (Num w) = True"
| "wf_expr (Var x) = name_ok x"
| "wf_expr (Neg e) = wf_expr e"
| "wf_expr (Lnot e) = wf_expr e"
| "wf_expr (Bin k a b) = (k \<in> level_ops (height k) \<and> wf_expr a \<and> wf_expr b)"

text \<open>
  The expression as a programmer writes it where operators up to level \<open>h\<close> need no parentheses: only
  weaker operators are put into parentheses, and the right operand of an operator when it is not
  stronger.
\<close>

fun lexs :: "nat \<Rightarrow> expr \<Rightarrow> lexeme list" where
  "lexs h (Num w) = [L_num w]"
| "lexs h (Var x) = [L_id x]"
| "lexs h (Neg e) = L_op TOK_MINUS # lexs 0 e"
| "lexs h (Lnot e) = L_op TOK_NOT # lexs 0 e"
| "lexs h (Bin k a b) =
     (let body = lexs (height k) a @ [L_op k] @ lexs (height k - 1) b in
      if height k \<le> h then body else [L_op TOK_LPAREN] @ body @ [L_op TOK_RPAREN])"

text \<open>The value of an operator, and the text it prints.\<close>

definition op_value :: "token \<Rightarrow> i32 \<Rightarrow> i32 \<Rightarrow> cospy_error + i32 \<times> string" where
  "op_value k x y =
     (case k of TOK_STAR \<Rightarrow> Inr (x * y, [])
      | TOK_SLASH \<Rightarrow> if y = 0 then Inr (0, ''division by zero'' @ [CHR 0x0A]) else andthen (c_div x y) (\<lambda>v. Inr (v, []))
      | TOK_PERCENT \<Rightarrow> if y = 0 then Inr (0, []) else andthen (c_rem x y) (\<lambda>v. Inr (v, []))
      | TOK_PLUS \<Rightarrow> Inr (x + y, []) | TOK_MINUS \<Rightarrow> Inr (x - y, [])
      | TOK_LT \<Rightarrow> Inr (of_bool32 (sint x < sint y), []) | TOK_GT \<Rightarrow> Inr (of_bool32 (sint x > sint y), [])
      | TOK_LE \<Rightarrow> Inr (of_bool32 (sint x \<le> sint y), []) | TOK_GE \<Rightarrow> Inr (of_bool32 (sint x \<ge> sint y), [])
      | TOK_EQEQ \<Rightarrow> Inr (of_bool32 (x = y), []) | TOK_NE \<Rightarrow> Inr (of_bool32 (x \<noteq> y), [])
      | TOK_AND \<Rightarrow> Inr (of_bool32 (x \<noteq> 0 \<and> y \<noteq> 0), []) | _ \<Rightarrow> Inr (of_bool32 (x \<noteq> 0 \<or> y \<noteq> 0), []))"

fun value_of :: "(string \<Rightarrow> i32 option) \<Rightarrow> expr \<Rightarrow> cospy_error + i32 \<times> string" where
  "value_of env (Num w) = Inr (w, [])"
| "value_of env (Var x) = Inr (case env x of Some v \<Rightarrow> v | None \<Rightarrow> 0, [])"
| "value_of env (Neg e) = andthen (value_of env e) (\<lambda>(v, t). Inr (- v, t))"
| "value_of env (Lnot e) = andthen (value_of env e) (\<lambda>(v, t). Inr (of_bool32 (v = 0), t))"
| "value_of env (Bin k a b) =
     andthen (value_of env a) (\<lambda>(x, t). andthen (value_of env b) (\<lambda>(y, u).
       andthen (op_value k x y) (\<lambda>(v, w). Inr (v, t @ u @ w))))"

lemma say_Nil [simp]: "say [] s = s"
  by (simp add: say_def)

lemma level_app_value:
  assumes "k \<in> level_ops h"
  shows "level_app h k x y s = andthen (op_value k x y) (\<lambda>(v, t). Inr (v, say t s))"
proof -
  consider "h = 1" "k = TOK_STAR" | "h = 1" "k = TOK_SLASH" | "h = 1" "k = TOK_PERCENT" | "h = 2" "k = TOK_PLUS" | "h = 2" "k = TOK_MINUS"
    | "h = 3" "k \<in> {TOK_LT, TOK_GT, TOK_LE, TOK_GE, TOK_EQEQ, TOK_NE}" | "h = 4" "k = TOK_AND" | "h = 5" "k = TOK_OR"
    using assms by (simp only: level_ops.simps split: if_splits) auto
  then show ?thesis
  proof cases
    case 2
    then show ?thesis by (cases "y = 0") (simp_all add: level_app.simps op_value_def term_op_def c_div_def)
  next
    case 3
    then show ?thesis by (cases "y = 0") (simp_all add: level_app.simps op_value_def term_op_def c_rem_def)
  next
    case 6
    then show ?thesis by (elim insertE emptyE) (simp_all add: level_app.simps op_value_def comparison_op_def)
  qed (simp_all add: level_app.simps op_value_def term_op_def additive_op_def and_op_def or_op_def)
qed

lemma height_facts:
  assumes "k \<in> level_ops (height k)"
  shows "1 \<le> height k" "height k \<le> 5" "h < height k \<Longrightarrow> k \<notin> level_ops h" "op_text k \<noteq> []" "k \<noteq> TOK_LPAREN"
  using assms by (auto simp: height_def level_ops.simps op_text_def split: if_splits)

lemma lexs_ok: "wf_expr e \<Longrightarrow> list_all lex_ok (lexs h e)"
proof (induction e arbitrary: h)
  case (Bin k a b)
  then show ?case using height_facts [of k] by (auto simp: Let_def op_text_def [of TOK_LPAREN] op_text_def [of TOK_RPAREN])
qed (auto simp: op_text_def)

definition ready :: "cospy \<Rightarrow> lexeme list \<Rightarrow> bool" where
  "ready s ls \<longleftrightarrow> (case ls of [] \<Rightarrow> current_token s = TOK_EOF | l # ls' \<Rightarrow> lex_state l s \<and> cursor s = CHR '' '' # spell ls')"

lemma ready_start:
  assumes "cursor s = sp @ spell ls" "list_all is_space sp" "list_all lex_ok ls"
  shows "ready (next_token s) ls"
proof (cases ls)
  case Nil
  have "skip_whitespace sp = []" using assms(2) by (simp add: skip_whitespace_def dropWhile_eq_Nil_conv list_all_iff)
  then show ?thesis using assms Nil by (simp add: ready_def next_token_def)
next
  case (Cons l ls')
  then show ?thesis using next_token_lex [of s sp l "spell ls'"] assms by (simp add: ready_def)
qed

lemma ready_next:
  assumes "ready s (l # ls)" "list_all lex_ok ls"
  shows "ready (next_token s) ls"
  using assms by (intro ready_start [of s "'' ''"]) (simp_all add: ready_def is_space_def)

subsection \<open>The evaluator computes the value of the tree\<close>

text \<open>What may follow an expression of level \<open>h\<close>.\<close>

definition calm :: "nat \<Rightarrow> lexeme list \<Rightarrow> bool" where
  "calm h rest \<longleftrightarrow> (case rest of [] \<Rightarrow> True | l # ls \<Rightarrow> l \<noteq> L_op TOK_LPAREN \<and> (\<forall>h' \<le> h. \<forall>k \<in> level_ops h'. l \<noteq> L_op k))"

definition follows :: "nat \<Rightarrow> nat \<Rightarrow> expr \<Rightarrow> cospy \<Rightarrow> lexeme list \<Rightarrow> bool" where
  "follows g h e s rest \<longleftrightarrow> ready s (lexs g e @ rest) \<and> list_all lex_ok (lexs g e @ rest) \<and> calm h rest"

definition env_of :: "cospy \<Rightarrow> string \<Rightarrow> i32 option" where
  "env_of s x = get_var x s"

text \<open>
  \<open>evals\<close>: level \<open>h\<close> applied to the printed tree delivers its value; \<open>evals_loop\<close>: one level up, the loop
  goes on with the value after the tree.
\<close>

definition evals :: "nat \<Rightarrow> expr \<Rightarrow> bool" where
  "evals h e \<longleftrightarrow> (\<forall>s rest. follows h h e s rest \<longrightarrow>
     (case value_of (env_of s) e of Inl er \<Rightarrow> lvl h s = Inl er
      | Inr (v, t) \<Rightarrow> \<exists>s'. lvl h s = Inr (v, s') \<and> ready s' rest \<and> frame s s' t))"

definition evals_loop :: "nat \<Rightarrow> expr \<Rightarrow> bool" where
  "evals_loop h e \<longleftrightarrow> (\<forall>s rest. follows (Suc h) h e s rest \<longrightarrow>
     (case value_of (env_of s) e of Inl er \<Rightarrow> lvl (Suc h) s = Inl er
      | Inr (v, t) \<Rightarrow> \<exists>s'. lvl (Suc h) s = loop h v s' \<and> ready s' rest \<and> frame s s' t))"

lemma calm_mono: "calm h rest \<Longrightarrow> h' \<le> h \<Longrightarrow> calm h' rest"
  unfolding calm_def by (cases rest) (simp, simp, meson le_trans)

lemma lex_state_say [simp]: "lex_state l (say w s) = lex_state l s"
  by (cases l) (simp_all add: say_def)

lemma ready_say [simp]: "ready (say w s) rest = ready s rest"
  by (cases rest) (simp_all add: ready_def)

lemma env_frame: "frame s s' t \<Longrightarrow> env_of s' = env_of s"
  by (simp add: fun_eq_iff env_of_def get_var_def frame_def)

lemma no_atoms: "TOK_NUMBER \<notin> level_ops h" "TOK_IDENT \<notin> level_ops h" "TOK_EOF \<notin> level_ops h"
  by (simp_all add: level_ops.simps)

lemma calm_token: "ready s rest \<Longrightarrow> calm h rest \<Longrightarrow> current_token s \<notin> level_ops h"
proof (cases rest)
  case (Cons l ls)
  assume "ready s rest" "calm h rest"
  then show ?thesis using Cons no_atoms by (cases l) (auto simp: ready_def calm_def)
qed (simp add: ready_def no_atoms)

lemma calm_not_LPAREN: "ready s rest \<Longrightarrow> calm h rest \<Longrightarrow> current_token s \<noteq> TOK_LPAREN"
proof (cases rest)
  case (Cons l ls)
  assume "ready s rest" "calm h rest"
  then show ?thesis using Cons by (cases l) (auto simp: ready_def calm_def)
qed (simp add: ready_def)

lemma evals_up:
  assumes "evals_loop h e"
  shows "evals (Suc h) e"
  unfolding evals_def
proof (intro allI impI)
  fix s rest
  assume f: "follows (Suc h) (Suc h) e s rest"
  have end_loop: "loop h v s' = Inr (v, s')" if "ready s' rest" for v s'
    using calm_token [OF that] f by (subst loop_eq) (simp add: follows_def)
  have "follows (Suc h) h e s rest" using f calm_mono by (auto simp: follows_def)
  from assms [unfolded evals_loop_def, rule_format, OF this]
  show "case value_of (env_of s) e of Inl er \<Rightarrow> lvl (Suc h) s = Inl er
    | Inr (v, t) \<Rightarrow> \<exists>s'. lvl (Suc h) s = Inr (v, s') \<and> ready s' rest \<and> frame s s' t"
    by (auto split: sum.splits simp: end_loop)
qed

lemma evals_loop_up:
  assumes "evals h e" "lexs (Suc h) e = lexs h e"
  shows "evals_loop h e"
  unfolding evals_loop_def
proof (intro allI impI)
  fix s rest
  assume "follows (Suc h) h e s rest"
  then have "follows h h e s rest" using assms(2) by (simp add: follows_def)
  from assms(1) [unfolded evals_def, rule_format, OF this]
  show "case value_of (env_of s) e of Inl er \<Rightarrow> lvl (Suc h) s = Inl er
    | Inr (v, t) \<Rightarrow> \<exists>s'. lvl (Suc h) s = loop h v s' \<and> ready s' rest \<and> frame s s' t"
    by (auto split: sum.splits simp: lvl_Suc)
qed

lemma evals_climb: "evals h e \<Longrightarrow> (\<And>g. h \<le> g \<Longrightarrow> g < h + n \<Longrightarrow> lexs (Suc g) e = lexs g e) \<Longrightarrow> evals (h + n) e"
proof (induction n)
  case (Suc n)
  then have "evals (h + n) e" by simp
  then show ?case using evals_up evals_loop_up Suc.prems(2) by simp
qed simp

lemma evals_loop_climb: "evals h e \<Longrightarrow> (\<And>g. h \<le> g \<Longrightarrow> g \<le> k \<Longrightarrow> lexs (Suc g) e = lexs g e) \<Longrightarrow> h \<le> k \<Longrightarrow> evals_loop k e"
  using evals_climb [of h e "k - h"] evals_loop_up [of k e] by simp

text \<open>An operator between two operands, at its own level.\<close>

lemma evals_loop_bin:
  assumes k: "k \<in> level_ops (height k)" and h: "height k = Suc h" and a: "evals_loop h a" and b: "evals h b"
  shows "evals_loop h (Bin k a b)"
  unfolding evals_loop_def
proof (intro allI impI)
  fix s rest
  assume f: "follows (Suc h) h (Bin k a b) s rest"
  let ?r1 = "L_op k # lexs h b @ rest"
  have kh: "k \<in> level_ops (Suc h)" using k h by simp
  have l: "lexs (Suc h) (Bin k a b) @ rest = lexs (Suc h) a @ ?r1" by (simp add: h Let_def)
  have ok: "list_all lex_ok (lexs (Suc h) a @ ?r1)" "calm h rest" using f unfolding follows_def l by simp_all
  have "calm h ?r1" using height_facts [OF k] h by (auto simp: calm_def)
  then have "follows (Suc h) h a s ?r1" using f unfolding follows_def l by simp
  note A = a [unfolded evals_loop_def, rule_format, OF this]
  show "case value_of (env_of s) (Bin k a b) of Inl er \<Rightarrow> lvl (Suc h) s = Inl er
    | Inr (v, t) \<Rightarrow> \<exists>s'. lvl (Suc h) s = loop h v s' \<and> ready s' rest \<and> frame s s' t"
  proof (cases "value_of (env_of s) a")
    case (Inl er)
    then show ?thesis using A by simp
  next
    case (Inr xt)
    then obtain x t where x: "value_of (env_of s) a = Inr (x, t)" by (metis surj_pair)
    obtain s1 where s1: "lvl (Suc h) s = loop h x s1" "ready s1 ?r1" "frame s s1 t" using A x by auto
    have k1: "current_token s1 = k" using s1(2) by (simp add: ready_def)
    let ?s2 = "next_token s1"
    have r2: "ready ?s2 (lexs h b @ rest)" using ready_next [OF s1(2)] ok(1) by simp
    have f2: "frame s ?s2 t" using frame_trans [OF s1(3) next_token_frame] by simp
    have "follows h h b ?s2 rest" using r2 ok by (simp add: follows_def)
    note B = b [unfolded evals_def, rule_format, OF this, unfolded env_frame [OF f2]]
    have L: "lvl (Suc h) s = andthen (lvl h ?s2) (\<lambda>(y, s'). andthen (level_app (Suc h) k x y s') (\<lambda>(v, s''). loop h v s''))"
      unfolding s1(1) using kh k1 by (subst loop_eq) simp
    show ?thesis
    proof (cases "value_of (env_of s) b")
      case (Inl er)
      then show ?thesis using B L x by simp
    next
      case (Inr yu)
      then obtain y u where y: "value_of (env_of s) b = Inr (y, u)" by (metis surj_pair)
      obtain s3 where s3: "lvl h ?s2 = Inr (y, s3)" "ready s3 rest" "frame ?s2 s3 u" using B y by auto
      have f3: "frame s s3 (t @ u)" using frame_trans [OF f2 s3(3)] .
      have L': "lvl (Suc h) s = andthen (andthen (op_value k x y) (\<lambda>(v, w). Inr (v, say w s3))) (\<lambda>(v, s''). loop h v s'')"
        using L s3(1) level_app_value [OF kh] by simp
      show ?thesis
      proof (cases "op_value k x y")
        case (Inl er)
        then show ?thesis using L' x y by simp
      next
        case (Inr vw)
        then obtain v w where v: "op_value k x y = Inr (v, w)" by (metis surj_pair)
        have "ready (say w s3) rest" using s3(2) by simp
        moreover have "frame s (say w s3) (t @ u @ w)" using f3 by (simp add: frame_def say_def)
        ultimately show ?thesis using L' x y v by auto
      qed
    qed
  qed
qed

text \<open>The operands.\<close>

lemma evals_num: "evals 0 (Num w)"
  unfolding evals_def
proof (intro allI impI)
  fix s rest
  assume f: "follows 0 0 (Num w) s rest"
  then have s: "current_token s = TOK_NUMBER" "token_number s = w" by (auto simp: follows_def ready_def)
  have "ready (next_token s) rest" by (rule ready_next) (use f in \<open>auto simp: follows_def\<close>)
  then show "case value_of (env_of s) (Num w) of Inl er \<Rightarrow> lvl 0 s = Inl er
    | Inr (v, t) \<Rightarrow> \<exists>s'. lvl 0 s = Inr (v, s') \<and> ready s' rest \<and> frame s s' t"
    using s next_token_frame by (subst lvl_primary) auto
qed

lemma evals_var: "evals 0 (Var x)"
  unfolding evals_def
proof (intro allI impI)
  fix s rest
  assume f: "follows 0 0 (Var x) s rest"
  then have s: "current_token s = TOK_IDENT" "token_ident s = x" by (auto simp: follows_def ready_def)
  have r: "ready (next_token s) rest" by (rule ready_next) (use f in \<open>auto simp: follows_def\<close>)
  have "current_token (next_token s) \<noteq> TOK_LPAREN" using calm_not_LPAREN [OF r, of 0] f by (auto simp: follows_def)
  moreover have "get_var x (next_token s) = env_of s x" using env_frame [OF next_token_frame [of s]] by (simp add: env_of_def fun_eq_iff)
  ultimately show "case value_of (env_of s) (Var x) of Inl er \<Rightarrow> lvl 0 s = Inl er
    | Inr (v, t) \<Rightarrow> \<exists>s'. lvl 0 s = Inr (v, s') \<and> ready s' rest \<and> frame s s' t"
    using s r next_token_frame [of s] by (subst lvl_primary) auto
qed

text \<open>Both prefix operators; \<open>f\<close> is what they do to the value.\<close>

lemma evals_prefix:
  assumes e: "evals 0 e"
    and lx: "lexs 0 u = L_op k # lexs 0 e"
    and vl: "\<And>env. value_of env u = andthen (value_of env e) (\<lambda>(v, t). Inr (f v, t))"
    and pr: "\<And>s. current_token s = k \<Longrightarrow> lvl 0 s = andthen (lvl 0 (next_token s)) (\<lambda>(v, s). Inr (f v, s))"
  shows "evals 0 u"
  unfolding evals_def
proof (intro allI impI)
  fix s rest
  assume fo: "follows 0 0 u s rest"
  then have s: "current_token s = k" by (simp add: follows_def ready_def lx)
  have "ready (next_token s) (lexs 0 e @ rest)" by (rule ready_next) (use fo in \<open>auto simp: follows_def lx\<close>)
  then have "follows 0 0 e (next_token s) rest" using fo by (simp add: follows_def lx)
  note E = e [unfolded evals_def, rule_format, OF this, unfolded env_frame [OF next_token_frame]]
  show "case value_of (env_of s) u of Inl er \<Rightarrow> lvl 0 s = Inl er
    | Inr (v, t) \<Rightarrow> \<exists>s'. lvl 0 s = Inr (v, s') \<and> ready s' rest \<and> frame s s' t"
  proof (cases "value_of (env_of s) e")
    case (Inl er)
    then show ?thesis using E pr [OF s] by (simp add: vl)
  next
    case (Inr vt)
    then obtain v t where v: "value_of (env_of s) e = Inr (v, t)" by (metis surj_pair)
    then obtain s' where "lvl 0 (next_token s) = Inr (v, s')" "ready s' rest" "frame (next_token s) s' t" using E by auto
    then show ?thesis using v pr [OF s] frame_trans [OF next_token_frame] by (auto simp: vl)
  qed
qed

lemma evals_neg: "evals 0 e \<Longrightarrow> evals 0 (Neg e)"
  by (rule evals_prefix [where k = TOK_MINUS and f = uminus]) (simp_all add: lvl_primary [of s for s])

lemma evals_lnot: "evals 0 e \<Longrightarrow> evals 0 (Lnot e)"
  by (rule evals_prefix [where k = TOK_NOT and f = "\<lambda>v. of_bool32 (v = 0)"]) (simp_all add: lvl_primary [of s for s])

lemma evals_paren:
  assumes e: "evals 5 e" and lx: "lexs 0 e = [L_op TOK_LPAREN] @ lexs 5 e @ [L_op TOK_RPAREN]"
  shows "evals 0 e"
  unfolding evals_def
proof (intro allI impI)
  fix s rest
  assume fo: "follows 0 0 e s rest"
  then have s: "current_token s = TOK_LPAREN" by (simp add: follows_def ready_def lx)
  have "ready (next_token s) (lexs 5 e @ L_op TOK_RPAREN # rest)" by (rule ready_next) (use fo in \<open>auto simp: follows_def lx\<close>)
  moreover have "calm 5 (L_op TOK_RPAREN # rest)" by (auto simp: calm_def level_ops.simps)
  ultimately have "follows 5 5 e (next_token s) (L_op TOK_RPAREN # rest)" using fo by (simp add: follows_def lx)
  note E = e [unfolded evals_def, rule_format, OF this, unfolded env_frame [OF next_token_frame]]
  show "case value_of (env_of s) e of Inl er \<Rightarrow> lvl 0 s = Inl er
    | Inr (v, t) \<Rightarrow> \<exists>s'. lvl 0 s = Inr (v, s') \<and> ready s' rest \<and> frame s s' t"
  proof (cases "value_of (env_of s) e")
    case (Inl er)
    then show ?thesis using E s by (subst lvl_primary) simp
  next
    case (Inr vt)
    then obtain v t where v: "value_of (env_of s) e = Inr (v, t)" by (metis surj_pair)
    then obtain s' where s': "lvl 5 (next_token s) = Inr (v, s')" "ready s' (L_op TOK_RPAREN # rest)" "frame (next_token s) s' t"
      using E by auto
    have "frame s (next_token s') t"
      using frame_trans [OF frame_trans [OF next_token_frame s'(3)] next_token_frame] by simp
    moreover have "ready (next_token s') rest" "current_token s' = TOK_RPAREN"
      using ready_next [OF s'(2)] s'(2) fo by (simp_all add: follows_def ready_def)
    ultimately show ?thesis using v s s'(1) by (subst lvl_primary) auto
  qed
qed

lemma atom_lexs: "(\<And>k a b. e \<noteq> Bin k a b) \<Longrightarrow> lexs h e = lexs g e"
  by (cases e) auto

lemma atom_evals:
  assumes "evals 0 e" "\<And>k a b. e \<noteq> Bin k a b"
  shows "evals h e \<and> evals_loop h e"
  using evals_climb [OF assms(1), of h] evals_loop_climb [OF assms(1), of h] atom_lexs [OF assms(2)] by auto

lemma all_evals: "wf_expr e \<Longrightarrow> h \<le> 5 \<Longrightarrow> evals h e \<and> (h < 5 \<longrightarrow> evals_loop h e)"
proof (induction e arbitrary: h)
  case (Num w)
  then show ?case using atom_evals [OF evals_num] by blast
next
  case (Var x)
  then show ?case using atom_evals [OF evals_var] by blast
next
  case (Neg e)
  then show ?case using atom_evals [OF evals_neg] by simp
next
  case (Lnot e)
  then show ?case using atom_evals [OF evals_lnot] by simp
next
  case (Bin k a b)
  let ?e = "Bin k a b"
  have k: "k \<in> level_ops (height k)" using Bin.prems by simp
  note hf = height_facts [OF k]
  then obtain g where g: "height k = Suc g" "g < 5" by (cases "height k") auto
  have "evals_loop g ?e"
    using Bin g by (intro evals_loop_bin [OF k g(1)]) auto
  then have top: "evals (Suc g) ?e" by (rule evals_up)
  have flat: "lexs (Suc j) ?e = lexs j ?e" if "j \<noteq> g" for j using that g(1) by (auto simp: Let_def)
  have "evals 5 ?e" using evals_climb [OF top, of "5 - Suc g"] flat g by simp
  then have "evals 0 ?e" using g by (intro evals_paren) (simp_all add: Let_def)
  then have low: "evals j ?e" if "j \<le> g" for j using evals_climb [of 0 ?e j] flat that by simp
  have high: "evals j ?e" if "Suc g \<le> j" for j using evals_climb [OF top, of "j - Suc g"] flat that by simp
  have ev: "evals j ?e" for j using low high by (cases "j \<le> g") auto
  have "evals_loop h ?e"
  proof (cases "h = g")
    case True
    then show ?thesis using \<open>evals_loop g ?e\<close> by simp
  next
    case False
    then show ?thesis using evals_loop_up [OF ev flat] by simp
  qed
  then show ?case using ev by simp
qed

lemma eval_text_value:
  assumes "wf_expr e"
  shows "case value_of (env_of s) e of Inl er \<Rightarrow> eval_text (spell (lexs 5 e)) s = Inl er
    | Inr (v, t) \<Rightarrow> \<exists>s'. eval_text (spell (lexs 5 e)) s = Inr (v, s') \<and> frame s s' t"
proof -
  let ?s = "next_token (s\<lparr>cursor := spell (lexs 5 e)\<rparr>)"
  have "ready ?s (lexs 5 e @ [])"
    using lexs_ok [OF assms] by (simp add: ready_start [where sp = "[]"])
  then have fo: "follows 5 5 e ?s []" using lexs_ok [OF assms] by (simp add: follows_def calm_def)
  have E: "evals 5 e" using all_evals [OF assms, of 5] by simp
  have env: "env_of ?s = env_of s" and f: "frame s ?s []"
    using next_token_frame [of "s\<lparr>cursor := spell (lexs 5 e)\<rparr>"] by (simp_all add: fun_eq_iff env_of_def get_var_def frame_def)
  have "case value_of (env_of s) e of Inl er \<Rightarrow> lvl 5 ?s = Inl er
    | Inr (v, t) \<Rightarrow> \<exists>s'. lvl 5 ?s = Inr (v, s') \<and> ready s' [] \<and> frame ?s s' t"
    using E [unfolded evals_def, rule_format, OF fo, unfolded env] .
  then show ?thesis using frame_trans [OF f] by (auto simp: eval_text_def eval_expr_lvl split: sum.splits)
qed

subsection \<open>Properties\<close>

text \<open>
  Property C36. Evaluating an expression always ends: fuel for one more than the characters left (and the
  current token) is enough, whatever the text, and more fuel changes nothing.
\<close>

theorem parse_expr_terminates:
  assumes "pending s < n"
  shows "parse_expr n s \<noteq> Inl Out_of_fuel \<and> parse_expr n s = eval_expr s"
proof -
  have "good (pending s) (lvl 5 s)" by (rule good_parserD [OF lvl_good order_refl])
  then have "lvl 5 s \<noteq> Inl Out_of_fuel" by auto
  then show ?thesis using parse_expr_lvl [OF assms] eval_expr_lvl by simp
qed

text \<open>An interpreter that has just started.\<close>

definition fresh :: cospy where
  "fresh = \<lparr>variables = [], funcs = [], cursor = [], current_token = TOK_EOF, token_number = 0, token_string = [], token_ident = [],
     in_if_false = False, if_depth = 0, while_depth = 0, while_cond = [], defining_function = False, current_func_idx = 0,
     out = [], keys = []\<rparr>"

theorem parse_expr_terminates_witness:
  "parse_expr 6 (fresh\<lparr>cursor := ''(((('', current_token := TOK_PLUS\<rparr>) \<noteq> Inl Out_of_fuel \<and>
   parse_expr 6 (fresh\<lparr>cursor := ''(((('', current_token := TOK_PLUS\<rparr>) = eval_expr (fresh\<lparr>cursor := ''(((('', current_token := TOK_PLUS\<rparr>)"
  by (rule parse_expr_terminates) (simp add: pending_def)

text \<open>
  Property C10. The evaluator computes the value of every expression tree from its text written with as
  few parentheses as the usual rules allow: \<open>or\<close> binds weakest, then \<open>and\<close>, comparisons, sums, products
  and the prefix operators; operators of the same level associate to the left; division by zero prints
  its message and counts as zero. Only the smallest number divided by -1 is fatal. The words of the
  text are separated by blanks.
\<close>

theorem expression_value:
  assumes "wf_expr e"
  shows "(\<forall>v t. value_of (env_of s) e = Inr (v, t) \<longrightarrow>
      (\<exists>s'. eval_text (spell (lexs 5 e)) s = Inr (v, s') \<and> variables s' = variables s \<and> out s' = out s @ t)) \<and>
    (\<forall>er. value_of (env_of s) e = Inl er \<longrightarrow> eval_text (spell (lexs 5 e)) s = Inl er)"
  using eval_text_value [OF assms, of s] by (auto simp: frame_def)

theorem expression_value_witness:
  "\<exists>s'. eval_text ''( 1 + 2 ) * 3 - 4 '' fresh = Inr (5, s')"
proof -
  let ?e = "Bin TOK_MINUS (Bin TOK_STAR (Bin TOK_PLUS (Num 1) (Num 2)) (Num 3)) (Num 4)"
  have h: "height TOK_MINUS = 2" "height TOK_PLUS = 2" "height TOK_STAR = 1" by (simp_all add: height_def level_ops.simps)
  have w: "wf_expr ?e" by (simp add: h level_ops.simps)
  have d: "dec_text 1 = ''1''" "dec_text 2 = ''2''" "dec_text 3 = ''3''" "dec_text 4 = ''4''"
    by code_simp+
  have t: "spell (lexs 5 ?e) = ''( 1 + 2 ) * 3 - 4 ''" by (simp add: h Let_def op_text_def d)
  have v: "value_of (env_of fresh) ?e = Inr (5, [])" by (simp add: op_value_def)
  then show ?thesis using expression_value [OF w, of fresh] unfolding t by blast
qed

end
