(* ===== verification/Cospy_Stmt.thy ===== *)
theory Cospy_Stmt
  imports Cospy_Expr
begin

text \<open>
  The statements of CosyPy: the variables as a bounded finite map, the tables of the interpreter stay
  within their arrays, and some scripts on which the interpreter does not do what it means to.
\<close>

subsection \<open>Finite stores of bounded size\<close>

text \<open>A store of named values for at most \<open>cap\<close> names of a certain form.\<close>

locale bounded_store =
  fixes ok :: "'s \<Rightarrow> bool"
    and key_ok :: "'k \<Rightarrow> bool"
    and cap :: nat
    and get :: "'k \<Rightarrow> 's \<Rightarrow> 'v option"
    and put :: "'k \<Rightarrow> 'v \<Rightarrow> 's \<Rightarrow> 'e + 's"
  assumes put_get: "ok s \<Longrightarrow> key_ok k \<Longrightarrow> get k s \<noteq> None \<or> card (dom (\<lambda>x. get x s)) < cap \<Longrightarrow>
      \<exists>s'. put k v s = Inr s' \<and> ok s' \<and> (\<forall>x. key_ok x \<longrightarrow> get x s' = (if x = k then Some v else get x s))"
    and full: "ok s \<Longrightarrow> key_ok k \<Longrightarrow> get k s = None \<Longrightarrow> card (dom (\<lambda>x. get x s)) \<ge> cap \<Longrightarrow> put k v s = Inr s"
    and only_keys: "ok s \<Longrightarrow> get k s \<noteq> None \<Longrightarrow> key_ok k"
    and finite_dom: "ok s \<Longrightarrow> finite (dom (\<lambda>x. get x s))"
begin

primrec puts :: "('k \<times> 'v) list \<Rightarrow> 's \<Rightarrow> 'e + 's" where
  "puts [] s = Inr s"
| "puts (p # ps) s = (case put (fst p) (snd p) s of Inl e \<Rightarrow> Inl e | Inr s' \<Rightarrow> puts ps s')"

lemma puts_map:
  "ok s \<Longrightarrow> list_all (key_ok \<circ> fst) ps \<Longrightarrow> card (dom (\<lambda>x. get x s) \<union> fst ` set ps) \<le> cap \<Longrightarrow>
     \<exists>s'. puts ps s = Inr s' \<and> ok s' \<and>
       (\<forall>x. key_ok x \<longrightarrow> get x s' = (case map_of (rev ps) x of Some v \<Rightarrow> Some v | None \<Rightarrow> get x s))"
proof (induction ps arbitrary: s)
  case (Cons p ps)
  obtain k v where p: "p = (k, v)" by force
  have k: "key_ok k" using Cons.prems p by simp
  let ?D = "dom (\<lambda>x. get x s)"
  have fin: "finite (?D \<union> fst ` set (p # ps))" using finite_dom [OF Cons.prems(1)] by simp
  have room: "get k s \<noteq> None \<or> card ?D < cap"
  proof (cases "k \<in> ?D")
    case False
    have "insert k ?D \<subseteq> ?D \<union> fst ` set (p # ps)" by (auto simp: p)
    then have "card (insert k ?D) \<le> cap" using card_mono [OF fin] Cons.prems(3) le_trans by blast
    then show ?thesis using False finite_dom [OF Cons.prems(1)] by simp
  qed auto
  obtain s1 where s1: "put k v s = Inr s1" "ok s1" "\<And>x. key_ok x \<Longrightarrow> get x s1 = (if x = k then Some v else get x s)"
    using put_get [OF Cons.prems(1) k room] by blast
  have d: "dom (\<lambda>x. get x s1) \<subseteq> insert k ?D"
  proof
    fix x
    assume "x \<in> dom (\<lambda>x. get x s1)"
    then have "get x s1 \<noteq> None" by auto
    moreover from this have "key_ok x" using only_keys [OF s1(2)] by blast
    ultimately show "x \<in> insert k ?D" using s1(3) by auto
  qed
  then have "dom (\<lambda>x. get x s1) \<union> fst ` set ps \<subseteq> ?D \<union> fst ` set (p # ps)" by (auto simp: p)
  then have "card (dom (\<lambda>x. get x s1) \<union> fst ` set ps) \<le> cap" using card_mono [OF fin] Cons.prems(3) le_trans by blast
  then obtain s' where "puts ps s1 = Inr s'" "ok s'"
    "\<And>x. key_ok x \<Longrightarrow> get x s' = (case map_of (rev ps) x of Some v \<Rightarrow> Some v | None \<Rightarrow> get x s1)"
    using Cons.IH [OF s1(2)] Cons.prems(2) by auto
  then show ?case using s1 p by (auto simp: map_add_def split: option.splits)
qed auto

end

subsection \<open>The variables\<close>

definition var_name_ok :: "string \<Rightarrow> bool" where
  "var_name_ok x \<longleftrightarrow> cstring x \<and> length x < 16"

definition vars_ok :: "cospy \<Rightarrow> bool" where
  "vars_ok s \<longleftrightarrow> length (variables s) \<le> COSPY_MAX_VARS \<and> list_all (var_name_ok \<circ> v_name) (variables s) \<and>
     distinct (map v_name (variables s))"

text \<open>Lookups of names that are C strings; other names never reach the code.\<close>

definition lookup :: "string \<Rightarrow> cospy \<Rightarrow> i32 option" where
  "lookup x s = (if cstring x then get_var x s else None)"

lemma var_index_map:
  "list_all (var_name_ok \<circ> v_name) vs \<Longrightarrow> cstring x \<Longrightarrow>
     map_option (\<lambda>i. v_value (vs ! i)) (var_index x vs) = map_of (map (\<lambda>v. (v_name v, v_value v)) vs) x"
proof (induction vs)
  case (Cons v vs)
  then show ?case by (auto simp: strcmp_eq_0 var_name_ok_def option.map_comp comp_def)
qed simp

lemma var_index_None: "list_all (var_name_ok \<circ> v_name) vs \<Longrightarrow> cstring x \<Longrightarrow> var_index x vs = None \<longleftrightarrow> x \<notin> v_name ` set vs"
  by (induction vs) (auto simp: strcmp_eq_0 var_name_ok_def)

lemma var_index_Some: "list_all (var_name_ok \<circ> v_name) vs \<Longrightarrow> cstring x \<Longrightarrow> var_index x vs = Some i \<Longrightarrow> i < length vs \<and> v_name (vs ! i) = x"
proof (induction vs arbitrary: i)
  case (Cons v vs)
  then show ?case by (auto simp: strcmp_eq_0 var_name_ok_def split: if_splits)
qed simp

lemma lookup_map_of: "vars_ok s \<Longrightarrow> cstring x \<Longrightarrow> lookup x s = map_of (map (\<lambda>v. (v_name v, v_value v)) (variables s)) x"
  by (simp add: lookup_def get_var_def vars_ok_def var_index_map)

lemma dom_lookup: "vars_ok s \<Longrightarrow> dom (\<lambda>x. lookup x s) = v_name ` set (variables s)"
proof -
  assume ok: "vars_ok s"
  have c: "cstring x" if "x \<in> v_name ` set (variables s)" for x
    using that ok by (auto simp: vars_ok_def list_all_iff var_name_ok_def)
  have "lookup x s \<noteq> None \<longleftrightarrow> x \<in> v_name ` set (variables s)" for x
    using lookup_map_of [OF ok, of x] c [of x] by (cases "cstring x") (auto simp: lookup_def map_of_eq_None_iff image_image)
  then show ?thesis by (auto simp: dom_def)
qed

lemma card_lookup: "vars_ok s \<Longrightarrow> card (dom (\<lambda>x. lookup x s)) = length (variables s)"
  unfolding dom_lookup using distinct_card [of "map v_name (variables s)"] by (simp add: vars_ok_def)

lemma map_of_update:
  "distinct (map f vs) \<Longrightarrow> i < length vs \<Longrightarrow> f v' = f (vs ! i) \<Longrightarrow>
     map_of (map (\<lambda>v. (f v, g v)) (vs[i := v'])) = (map_of (map (\<lambda>v. (f v, g v)) vs))(f (vs ! i) \<mapsto> g v')"
proof (induction vs arbitrary: i)
  case (Cons a vs)
  show ?case
  proof (cases i)
    case (Suc j)
    then have "f (vs ! j) \<in> f ` set vs" "f a \<notin> f ` set vs" using Cons.prems by simp_all
    then have "f (vs ! j) \<noteq> f a" by metis
    then show ?thesis using Cons Suc by (auto simp: fun_eq_iff)
  qed (use Cons in auto)
qed simp

lemma map_of_snoc:
  "f v' \<notin> f ` set vs \<Longrightarrow> map_of (map (\<lambda>v. (f v, g v)) (vs @ [v'])) x =
     (if x = f v' then Some (g v') else map_of (map (\<lambda>v. (f v, g v)) vs) x)"
  by (induction vs) auto

interpretation vs: bounded_store vars_ok var_name_ok 64 lookup set_var
proof (unfold_locales, goal_cases)
  case (1 s k v)
  have c: "cstring k" "length k < 16" using 1 by (auto simp: var_name_ok_def)
  have l: "list_all (var_name_ok \<circ> v_name) (variables s)" "distinct (map v_name (variables s))" using 1 by (simp_all add: vars_ok_def)
  show ?case
  proof (cases "var_index k (variables s)")
    case None
    then have n: "k \<notin> v_name ` set (variables s)" using var_index_None [OF l(1) c(1)] by simp
    then have "lookup k s = None" using dom_lookup [OF 1(1)] by (auto simp: dom_def)
    then have room: "length (variables s) < 64" using 1 card_lookup [OF 1(1)] by simp
    let ?s = "s\<lparr>variables := variables s @ [\<lparr>v_name = k, v_value = v\<rparr>]\<rparr>"
    have p: "set_var k v s = Inr ?s" using None room c by (simp add: set_var_def)
    have ok: "vars_ok ?s" using 1 room n by (auto simp: vars_ok_def)
    have "lookup x ?s = (if x = k then Some v else lookup x s)" if "var_name_ok x" for x
      using that n lookup_map_of [OF ok, of x] lookup_map_of [OF 1(1), of x]
        map_of_snoc [of v_name "\<lparr>v_name = k, v_value = v\<rparr>" "variables s" v_value x]
      by (simp add: var_name_ok_def del: map_of_append map_append)
    then show ?thesis using p ok by blast
  next
    case (Some i)
    note i = var_index_Some [OF l(1) c(1) Some]
    let ?s = "s\<lparr>variables := (variables s)[i := (variables s ! i)\<lparr>v_value := v\<rparr>]\<rparr>"
    have p: "set_var k v s = Inr ?s" using Some by (simp add: set_var_def)
    have nm: "map v_name ((variables s)[i := (variables s ! i)\<lparr>v_value := v\<rparr>]) = map v_name (variables s)"
      using i by (auto simp: map_update intro!: nth_equalityI simp: nth_list_update)
    have ok: "vars_ok ?s" using 1(1) nm by (simp add: vars_ok_def flip: list.pred_map)
    have "lookup x ?s = (if x = k then Some v else lookup x s)" if "var_name_ok x" for x
      using that lookup_map_of [OF ok, of x] lookup_map_of [OF 1(1), of x] i map_of_update [OF l(2), of i "(variables s ! i)\<lparr>v_value := v\<rparr>" v_value]
      by (auto simp: var_name_ok_def)
    then show ?thesis using p ok by blast
  qed
next
  case (2 s k v)
  then have "k \<notin> v_name ` set (variables s)" using dom_lookup [OF 2(1)] by (metis domIff)
  then have "var_index k (variables s) = None" using 2 var_index_None by (auto simp: vars_ok_def var_name_ok_def)
  then show ?case using 2 card_lookup [OF 2(1)] by (simp add: set_var_def)
next
  case (3 s k)
  then have "k \<in> v_name ` set (variables s)" using dom_lookup [OF 3(1)] by (auto simp: dom_def)
  then show ?case using 3(1) by (auto simp: vars_ok_def list_all_iff)
next
  case (4 s)
  then show ?case by (simp add: dom_lookup)
qed

subsection \<open>The tables stay within their arrays\<close>

text \<open>What expressions do not touch.\<close>

definition tables :: "cospy \<Rightarrow> variable list \<times> func list \<times> bool \<times> nat \<times> nat \<times> string \<times> bool \<times> nat" where
  "tables s = (variables s, funcs s, in_if_false s, if_depth s, while_depth s, while_cond s, defining_function s, current_func_idx s)"

definition keeps :: "parser \<Rightarrow> bool" where
  "keeps p \<longleftrightarrow> (\<forall>s v s'. p s = Inr (v, s') \<longrightarrow> tables s' = tables s)"

lemma keeps_tablesD: "keeps p \<Longrightarrow> p s = Inr (v, s') \<Longrightarrow> tables s' = tables s"
  by (simp add: keeps_def)

lemma andthen_Inr: "andthen r f = Inr b \<longleftrightarrow> (\<exists>a. r = Inr a \<and> f a = Inr b)"
  by (cases r) auto

lemma next_token_tables [simp]: "tables (next_token s) = tables s"
  by (simp add: next_token_def tables_def Let_def split: prod.splits)

lemma say_tables [simp]: "tables (say t s) = tables s"
  by (simp add: say_def tables_def)

lemma tables_upd [simp]: "tables (s\<lparr>cursor := t\<rparr>) = tables s" "tables (s\<lparr>keys := t\<rparr>) = tables s"
  by (simp_all add: tables_def)

lemma skip_args_tables [simp]: "tables (skip_args s) = tables s"
proof (induction s rule: skip_args.induct)
  case (1 s)
  then show ?case by (subst skip_args.simps) auto
qed

lemma read_line_tables: "read_line n s = Inr (b, s') \<Longrightarrow> tables s' = tables s"
  by (auto simp: read_line_def split: option.splits sum.splits)

lemma parse_call_keeps: "keeps (parse_call x)"
  by (auto simp: keeps_def parse_call_def Let_def andthen_Inr dest!: read_line_tables split: if_splits)

lemma ops_keep: "keeps (term_op k a b)" "keeps (additive_op k a b)" "keeps (comparison_op k a b)" "keeps (and_op k a b)" "keeps (or_op k a b)"
  by (auto simp: keeps_def term_op_def additive_op_def comparison_op_def and_op_def or_op_def andthen_Inr split: if_splits)

lemma bin_loop_keeps:
  assumes "keeps sub" "\<And>k a b. keeps (app k a b)"
  shows "bin_loop ops app sub n v s = Inr (v', s') \<Longrightarrow> tables s' = tables s"
proof (induction n arbitrary: v s)
  case (Suc n)
  show ?case
  proof (cases "current_token s \<in> ops")
    case True
    then obtain r s1 u s2 where "sub (next_token s) = Inr (r, s1)" "app (current_token s) v r s1 = Inr (u, s2)"
      "bin_loop ops app sub n u s2 = Inr (v', s')" using Suc.prems by (auto simp: andthen_Inr)
    then show ?thesis using Suc.IH keeps_tablesD [OF assms(1)] keeps_tablesD [OF assms(2)] by force
  qed (use Suc in simp)
qed (simp split: if_splits)

lemma bin_level_keeps: "keeps sub \<Longrightarrow> (\<And>k a b. keeps (app k a b)) \<Longrightarrow> keeps (bin_level ops app sub n)"
  unfolding keeps_def [of "bin_level ops app sub n"] bin_level_def andthen_Inr
  using bin_loop_keeps [of sub app] keeps_tablesD [of sub] by fastforce

lemma parse_or_keeps: "keeps p \<Longrightarrow> keeps (parse_or p n)"
  unfolding parse_or_def [abs_def] parse_and_def [abs_def] parse_comparison_def [abs_def] parse_additive_def [abs_def] parse_term_def [abs_def]
  by (intro bin_level_keeps ops_keep)

lemma primary_keeps: "keeps (parse_primary n)"
proof (induction n)
  case (Suc n)
  note a = keeps_tablesD [OF Suc.IH] and b = keeps_tablesD [OF parse_or_keeps [OF Suc.IH, of n]] and c = keeps_tablesD [OF parse_call_keeps]
  show ?case unfolding keeps_def
    by (auto simp: andthen_Inr Let_def split: if_splits dest!: a b c)
qed (simp add: keeps_def)

lemma eval_keeps: "eval_expr s = Inr (v, s') \<Longrightarrow> tables s' = tables s" "eval_text t s = Inr (v, s') \<Longrightarrow> tables s' = tables s"
proof -
  have k: "keeps (parse_expr n)" for n unfolding parse_expr_def [abs_def] by (rule parse_or_keeps [OF primary_keeps])
  show "eval_expr s = Inr (v, s') \<Longrightarrow> tables s' = tables s" using keeps_tablesD [OF k] by (simp add: eval_expr_def)
  show "eval_text t s = Inr (v, s') \<Longrightarrow> tables s' = tables s"
    using keeps_tablesD [OF k] by (fastforce simp: eval_text_def eval_expr_def)
qed

text \<open>The sizes of the arrays and of the lines in them.\<close>

definition line_ok :: "string \<Rightarrow> bool" where
  "line_ok l \<longleftrightarrow> length l < COSPY_LINE_MAX"

definition cospy_ok :: "cospy \<Rightarrow> bool" where
  "cospy_ok s \<longleftrightarrow> length (variables s) \<le> COSPY_MAX_VARS \<and> list_all (\<lambda>v. length (v_name v) < 16) (variables s) \<and>
     length (funcs s) \<le> COSPY_MAX_FUNCS \<and>
     list_all (\<lambda>f. length (f_name f) < 16 \<and> length (f_lines f) \<le> COSPY_MAX_FUNC_LINES \<and> list_all line_ok (f_lines f)) (funcs s) \<and>
     line_ok (while_cond s) \<and> (defining_function s \<longrightarrow> current_func_idx s < length (funcs s))"

lemma cospy_ok_tables: "tables s' = tables s \<Longrightarrow> cospy_ok s' = cospy_ok s"
  by (simp add: tables_def cospy_ok_def)

lemma scan_while_bound: "length (fst (scan_while p k t)) \<le> k"
  by (induction p k t rule: scan_while.induct) (auto split: prod.splits)

lemma list_all_update: "list_all P xs \<Longrightarrow> P x \<Longrightarrow> list_all P (xs[i := x])"
  by (metis list_all_iff set_update_subset_insert insertE subsetD)

lemma list_all_nthD: "list_all P xs \<Longrightarrow> i < length xs \<Longrightarrow> P (xs ! i)"
  by (simp add: list_all_length)

lemma set_var_ok:
  assumes "cospy_ok s" "set_var name v s = Inr s'"
  shows "cospy_ok s'"
proof (cases "var_index name (variables s)")
  case None
  then show ?thesis using assms by (auto simp: set_var_def cospy_ok_def split: if_splits)
next
  case (Some i)
  have i: "var_index x vs = Some j \<Longrightarrow> j < length vs" for x vs j
    by (induction vs arbitrary: j) (auto split: if_splits)
  have "length (v_name (variables s ! i)) < 16"
    using assms(1) i [OF Some] list_all_nthD by (fastforce simp: cospy_ok_def)
  then show ?thesis using assms Some by (auto simp: set_var_def cospy_ok_def intro!: list_all_update)
qed

lemma add_line_ok:
  assumes "cospy_ok s" "add_line line s = Inr s'" "defining_function s"
  shows "cospy_ok s'"
proof -
  let ?i = "current_func_idx s" let ?f = "funcs s ! ?i"
  have "?i < length (funcs s)" using assms by (simp add: cospy_ok_def)
  then have f: "length (f_name ?f) < 16" "length (f_lines ?f) \<le> 32" "list_all line_ok (f_lines ?f)"
    using assms(1) list_all_nthD [of _ "funcs s" ?i] by (auto simp: cospy_ok_def)
  show ?thesis
  proof (cases "?i < 16 \<and> length (f_lines ?f) < 32")
    case True
    then have l: "length line < 128" and s': "s' = s\<lparr>funcs := (funcs s)[?i := ?f\<lparr>f_lines := f_lines ?f @ [line]\<rparr>]\<rparr>"
      using assms(2) by (auto simp: add_line_def Let_def split: if_splits)
    show ?thesis unfolding s' using assms(1) f True l by (auto simp: cospy_ok_def line_ok_def intro!: list_all_update)
  next
    case False
    then have "s' = s" using assms(2) by (auto simp: add_line_def Let_def split: if_splits)
    then show ?thesis using assms(1) by simp
  qed
qed

lemma small_steps_ok:
  assumes "cospy_ok s"
  shows "cospy_ok (s\<lparr>defining_function := False\<rparr>)" "cospy_ok (leave_if s)" "cospy_ok (flip_if s)" "cospy_ok (say t s)"
    "cospy_ok (s\<lparr>in_if_false := b\<rparr>)" "cospy_ok (s\<lparr>if_depth := n\<rparr>)" "cospy_ok (next_token s)" "cospy_ok (s\<lparr>cursor := t\<rparr>)"
  using assms cospy_ok_tables [OF next_token_tables] cospy_ok_tables [OF say_tables]
  by (simp_all add: cospy_ok_def leave_if_def flip_if_def Let_def)

lemma eval_ok: "cospy_ok s \<Longrightarrow> eval_expr s = Inr (v, s') \<Longrightarrow> cospy_ok s'" "cospy_ok s \<Longrightarrow> eval_text t s = Inr (v, s') \<Longrightarrow> cospy_ok s'"
  using cospy_ok_tables [OF eval_keeps(1)] cospy_ok_tables [OF eval_keeps(2)] by blast+

lemma enter_if_ok: "cospy_ok s \<Longrightarrow> enter_if c s = Inr s' \<Longrightarrow> cospy_ok s'"
  by (auto simp: enter_if_def Let_def andthen_Inr small_steps_ok dest!: eval_ok(2) [rotated] split: if_splits)

lemma enter_while_ok: "cospy_ok s \<Longrightarrow> enter_while c s = Inr s' \<Longrightarrow> cospy_ok s'"
  by (auto simp: enter_while_def cospy_ok_def line_ok_def split: if_splits)

lemma start_def_ok: "cospy_ok s \<Longrightarrow> cospy_ok (start_def t s)"
  using scan_while_bound [of "\<lambda>c. c \<noteq> CHR ''(''" 15 t] by (auto simp: start_def_def small_steps_ok cospy_ok_def [of s] cospy_ok_def [of "s\<lparr>funcs := x, current_func_idx := y, defining_function := z\<rparr>" for x y z])

lemma exec_print_ok: "cospy_ok s \<Longrightarrow> exec_print t s = Inr s' \<Longrightarrow> cospy_ok s'"
  by (auto simp: exec_print_def Let_def andthen_Inr small_steps_ok dest!: eval_ok(1) [rotated] split: if_splits)

text \<open>Results that satisfy a predicate unless they are errors, and how they are put together.\<close>

definition holds :: "('a \<Rightarrow> bool) \<Rightarrow> 'e + 'a \<Rightarrow> bool" where
  "holds P r \<longleftrightarrow> (case r of Inl e \<Rightarrow> True | Inr a \<Rightarrow> P a)"

lemma holds_simps [simp]: "holds P (Inl e)" "holds P (Inr a) \<longleftrightarrow> P a"
  by (simp_all add: holds_def)

lemma holdsI: "(\<And>a. r = Inr a \<Longrightarrow> P a) \<Longrightarrow> holds P r"
  by (cases r) auto

lemma holds_if: "(c \<Longrightarrow> holds P a) \<Longrightarrow> (\<not> c \<Longrightarrow> holds P b) \<Longrightarrow> holds P (if c then a else b)"
  by simp

lemma holds_andthen: "holds P r \<Longrightarrow> (\<And>a. P a \<Longrightarrow> holds Q (f a)) \<Longrightarrow> holds Q (andthen r f)"
  by (cases r) auto

definition snd_ok :: "int \<times> cospy \<Rightarrow> bool" where
  "snd_ok p \<longleftrightarrow> cospy_ok (snd p)"

definition val_ok :: "i32 \<times> cospy \<Rightarrow> bool" where
  "val_ok p \<longleftrightarrow> cospy_ok (snd p)"

lemma safe_done: "cospy_ok s \<Longrightarrow> holds snd_ok (Inr (v, s))"
  by (simp add: snd_ok_def)

lemma safe_step: "holds cospy_ok r \<Longrightarrow> holds snd_ok (andthen r (\<lambda>s. Inr (0, s)))"
  by (rule holds_andthen) (simp_all add: snd_ok_def)

lemmas safe_intros = holds_if safe_done safe_step small_steps_ok

lemma eval_safe: "cospy_ok s \<Longrightarrow> holds val_ok (eval_expr s)" "cospy_ok s \<Longrightarrow> holds val_ok (eval_text t s)"
proof -
  show "holds val_ok (eval_expr s)" if "cospy_ok s"
    by (rule holdsI) (clarsimp simp: val_ok_def eval_ok(1) [OF that])
  show "holds val_ok (eval_text t s)" if "cospy_ok s"
    by (rule holdsI) (clarsimp simp: val_ok_def eval_ok(2) [OF that])
qed

lemma execute_safe_Suc:
  assumes run: "\<And>i j s. cospy_ok s \<Longrightarrow> holds cospy_ok (run_lines n i j s)" and ok: "cospy_ok s"
  shows "holds snd_ok (execute_statement (Suc n) line s)"
proof -
  define l where "l = skip_whitespace line"
  define s1 where "s1 = next_token (s\<lparr>cursor := l\<rparr>)"
  define s2 where "s2 = next_token s1"
  have s12: "cospy_ok s1" "cospy_ok s2" using ok by (simp_all add: s1_def s2_def small_steps_ok)
  have 1: "holds cospy_ok (add_line l s)" if "defining_function s" using add_line_ok [OF ok _ that] by (intro holdsI)
  have 2: "holds cospy_ok (enter_if t s)" "holds cospy_ok (enter_while t s)" "holds cospy_ok (exec_print t s)" for t
    using enter_if_ok [OF ok] enter_while_ok [OF ok] exec_print_ok [OF ok] by (intro holdsI; blast)+
  have 3: "holds snd_ok (andthen (eval_expr (next_token s2)) (\<lambda>(val, s). andthen (set_var x val s) (\<lambda>s. Inr (0, s))))" for x
  proof (rule holds_andthen [OF eval_safe(1) [OF small_steps_ok(7) [OF s12(2)]]], clarify)
    fix v s
    assume "val_ok (v, s)"
    then show "holds snd_ok (andthen (set_var x v s) (\<lambda>s. Inr (0, s)))"
      using set_var_ok by (intro safe_step holdsI) (auto simp: val_ok_def)
  qed
  have 4: "holds snd_ok (case func_index x (funcs s2) of Some i \<Rightarrow> andthen (run_lines n i 0 s2) (\<lambda>s. Inr (0, s)) | None \<Rightarrow> Inr (0, s2))" for x
    using run s12 by (auto intro: safe_intros simp: snd_ok_def split: option.splits)
  show ?thesis
    unfolding execute_statement.simps Let_def l_def [symmetric] s1_def [symmetric] s2_def [symmetric]
    by (intro safe_intros 1 2 3 4 start_def_ok ok s12)
qed

lemma run_lines_safe: "cospy_ok s \<Longrightarrow> holds cospy_ok (run_lines n i j s)"
proof (induction n arbitrary: i j s rule: less_induct)
  case (less n)
  show ?case
  proof (cases n)
    case 0
    then show ?thesis by (simp add: run_lines.simps)
  next
    case (Suc m)
    have "holds snd_ok (execute_statement m line s)" for line
    proof (cases m)
      case 0
      then show ?thesis by (simp add: execute_statement.simps)
    next
      case (Suc k)
      then show ?thesis using less.IH [of k] less.prems \<open>n = Suc m\<close> by (auto intro!: execute_safe_Suc)
    qed
    then show ?thesis
      unfolding Suc run_lines.simps using less.IH [of m] less.prems Suc
      by (intro holds_if holds_andthen [of snd_ok]) (auto simp: snd_ok_def)
  qed
qed

lemma execute_safe: "cospy_ok s \<Longrightarrow> holds snd_ok (execute_statement n line s)"
  by (cases n) (auto intro: execute_safe_Suc run_lines_safe simp: execute_statement.simps(1))

lemma run_body_safe: "cospy_ok s \<Longrightarrow> holds cospy_ok (run_body n pr ls s)"
proof (induction ls arbitrary: s)
  case (Cons l ls)
  then show ?case
    unfolding run_body.simps by (intro holds_andthen [OF execute_safe]) (auto simp: snd_ok_def)
qed simp

lemma while_loop_safe: "cospy_ok s \<Longrightarrow> holds cospy_ok (while_loop m n pr body s)"
proof (induction m arbitrary: s)
  case (Suc m)
  show ?case unfolding while_loop.simps
  proof (rule holds_andthen [OF eval_safe(2) [OF Suc.prems]], clarify)
    fix v s
    assume "val_ok (v, s)"
    then show "holds cospy_ok (if v = 0 then Inr s else andthen (run_body n pr body s) (while_loop m n pr body))"
      by (intro holds_if holds_andthen [OF run_body_safe] Suc.IH) (auto simp: val_ok_def)
  qed
qed simp

lemma while_depth_ok [simp]: "cospy_ok (s\<lparr>while_depth := d\<rparr>) = cospy_ok s"
  by (simp add: cospy_ok_def)

lemma feed_safe:
  assumes "cospy_ok s"
  shows "holds (\<lambda>(r, b, s). cospy_ok s) (feed n pr line body s)"
  unfolding feed_def Let_def using assms
  by (intro holds_if holds_andthen [OF execute_safe] holds_andthen [OF while_loop_safe]) (auto simp: snd_ok_def)

lemma run_script_safe: "cospy_ok s \<Longrightarrow> holds cospy_ok (run_script n ls body s)"
proof (induction ls arbitrary: body s)
  case (Cons l ls)
  then show ?case unfolding run_script.simps by (intro holds_andthen [OF feed_safe]) auto
qed simp

subsection \<open>Scripts that show faults\<close>

text \<open>A new variable with a name of 16 or more characters is written past its place in the table.\<close>

lemma long_name_overflows:
  assumes "length (variables s) < COSPY_MAX_VARS" "var_index name (variables s) = None" "16 \<le> length name"
  shows "set_var name v s = Inl Buffer_overflow"
  using assms by (simp add: set_var_def)

lemma long_name_script: "execute_statement 1 ''abcdefghijklmnop = 1'' fresh = Inl Buffer_overflow"
  by code_simp

text \<open>After the end of an inner \<open>if\<close> that was false, the rest of the outer block is skipped too.\<close>

lemma inner_if_skips_outer:
  "map_sum id (get_var ''x'') (run_script 9 [''if 1'', ''if 0'', ''endif'', ''x = 5'', ''endif''] [] fresh) = Inr None"
  by code_simp

text \<open>Without a blank after the minus sign a difference is read as two numbers, and the second is dropped.\<close>

lemma minus_one_dropped:
  "map_sum id (get_var ''x'') (run_script 9 [''x = 5'', ''x = x-1''] [] fresh) = Inr (Some 5)"
  by code_simp

text \<open>
  Running a loop whose body contains a loop opens the inner loop again: its condition replaces the outer
  one, and the rest of the script is collected as its body and never run.
\<close>

lemma inner_while_swallows_script:
  "map_sum id out (run_script 9 [''i = 0'', ''while i < 1'', ''while 0'', ''endwhile'', ''i = i + 1'', ''endwhile'', ''print(i)''] [] fresh) = Inr []"
  by code_simp

text \<open>Negative numbers are printed as unsigned ones.\<close>

lemma print_negative: "map_sum id out (run_script 9 [''print(-1)''] [] fresh) = Inr (''4294967295'' @ [CHR 0x0A])"
  by code_simp

subsection \<open>Properties\<close>

primrec assign_all :: "(string \<times> i32) list \<Rightarrow> cospy \<Rightarrow> cospy_error + cospy" where
  "assign_all [] s = Inr s"
| "assign_all (p # ps) s = andthen (set_var (fst p) (snd p) s) (assign_all ps)"

lemma assign_all_puts: "assign_all ps s = vs.puts ps s"
  by (induction ps arbitrary: s) (simp_all add: andthen_def split: sum.splits)

text \<open>
  The variables are a finite map of up to 64 names: after any assignments to at most 64
  different names of at most 15 characters, none of them fails and every name has the value assigned to
  it last.
\<close>

lemma variables_are_a_map:
  assumes "list_all (\<lambda>p. var_name_ok (fst p)) ps" "card (fst ` set ps) \<le> COSPY_MAX_VARS"
  shows "\<exists>s'. assign_all ps (cospy_init s) = Inr s' \<and> (\<forall>x. var_name_ok x \<longrightarrow> get_var x s' = map_of (rev ps) x)"
proof -
  have ok: "vars_ok (cospy_init s)" by (simp add: vars_ok_def cospy_init_def)
  have e: "lookup x (cospy_init s) = None" for x by (simp add: lookup_def get_var_def cospy_init_def)
  have d: "dom (\<lambda>x. lookup x (cospy_init s)) = {}" using e by simp
  obtain s' where s': "vs.puts ps (cospy_init s) = Inr s'"
    "\<forall>x. var_name_ok x \<longrightarrow> lookup x s' = (case map_of (rev ps) x of Some v \<Rightarrow> Some v | None \<Rightarrow> lookup x (cospy_init s))"
    using vs.puts_map [OF ok, of ps, unfolded d] assms by (auto simp: comp_def)
  have "get_var x s' = map_of (rev ps) x" if "var_name_ok x" for x
    using s'(2) [rule_format, OF that] that by (simp add: lookup_def var_name_ok_def get_var_def cospy_init_def split: option.splits)
  then show ?thesis using s'(1) by (simp add: assign_all_puts)
qed

lemma variables_are_a_map_witness:
  "\<exists>s'. assign_all [(''a'', 1), (''b'', 2), (''a'', 3)] (cospy_init fresh) = Inr s' \<and> get_var ''a'' s' = Some 3 \<and> get_var ''b'' s' = Some 2"
proof -
  let ?ps = "[(''a'', 1), (''b'', 2), (''a'', 3)] :: (string \<times> i32) list"
  have "fst ` set ?ps = {''a'', ''b''}" by auto
  then have "card (fst ` set ?ps) \<le> 64" by simp
  moreover have "list_all (\<lambda>p. var_name_ok (fst p)) ?ps" by (simp add: var_name_ok_def)
  ultimately obtain s' where "assign_all ?ps (cospy_init fresh) = Inr s'"
    "\<forall>x. var_name_ok x \<longrightarrow> get_var x s' = map_of (rev ?ps) x"
    using variables_are_a_map by blast
  then show ?thesis by (intro exI [of _ s']) (simp add: var_name_ok_def)
qed



end
