(* ===== verification/Spec2Isabelle.thy ===== *)
theory Spec2Isabelle
  imports System Console Stubs Fat32 Cospy_Stmt
begin

text \<open>
  Verification of the OsU kernel, a 32-bit hobby operating system in C: the code under \<open>kernel/\<close>. This
  theory only joins the others; every property stands in the theory of the component it is about, after
  a text that names it.

  \<^bold>\<open>The program.\<close> A boot loader leaves the kernel in protected mode and calls \<open>kmain\<close> (\<open>kmain.c\<close>). It starts
  the screen, the descriptor tables and interrupt controllers, the drivers, the heap, the file system,
  the scheduler and the system calls, and then runs the shell for ever. Interrupts go through
  \<open>isr_handler_c\<close> (\<open>idt.c\<close>) to the handlers that the drivers registered. The shell reads lines from the
  keyboard ring and runs commands on the file system, the screen and the process table; some of them are
  programs of their own: the editor, a small Forth, the interpreter CosyPy, scripts, a desktop and a
  demonstration of user mode. The kernel has one address space, no paging and no locks: what may happen
  at any moment is an interrupt.

  \<^bold>\<open>How the code is modelled.\<close> The static variables of a C file are a record, an operation is a function from
  the state to its C result and the new state, in the order of the C code; a pointer result is an option.
  A \<open>uint\<close>\<open>n\<close>\<open>_t\<close> is a word of its width, so that arithmetic wraps where the code's does; \<open>int\<close> values whose range
  the code keeps small are integers. Strings are character lists that read as NUL past their end, byte
  memory is a function from addresses. Stores past the end of an array, divisions that trap and pointers
  that would be null are values of the result (\<^const>\<open>None\<close> or an error), never undefined. Waiting (for a key, a
  tick, a status bit) is explicit: the operation takes the list of what will come, or polls a device, and is
  \<^const>\<open>None\<close> while nothing does. Loops without a bound are partial functions of the option monad.

  \<^bold>\<open>The theories\<close>, from the bottom up, with the files they model.

  \<^item> \<open>Prelude\<close>, \<open>Bytes\<close>: shared types and lemmas; little-endian fields. \<open>Kstring\<close>: \<open>string.c\<close>.
  \<^item> \<open>Ports\<close>: \<open>io.h\<close>. The devices are a parameter, a record \<open>bus\<close> of access functions on any device state.
  \<^item> \<open>Memory\<close>: \<open>memory.c\<close>, the bump allocator; the locale \<open>frontier_allocator\<close> states what its client relies on.
  \<^item> \<open>Drive\<close>: the block device the file system sees, with an arbitrary schedule of failures. \<open>Disk\<close>: \<open>disk.c\<close>,
    the ATA transfers over ports, shown to implement that device on everything that follows the
    command protocol (locale \<open>ata_device\<close>, interpreted on a reference drive).
  \<^item> \<open>Fat_Layout\<close>, \<open>Fat_Chain\<close>, \<open>Fs\<close>: \<open>fs.c\<close>, the FAT16 volume from its layout over cluster chains to the
    operations. \<open>Fs_Spec\<close> relates a state to a map from names to byte strings and shows that the operations act
    on it as insertion, deletion and lookup; \<open>Fs_Mount\<close> is mounting; \<open>Fs_Dir\<close> directories and paths; \<open>Fs_Props\<close>
    has the contract \<open>file_store\<close> and what follows for sequences of operations. \<open>Vfs\<close>: \<open>vfs.c\<close>, a second
    interpretation of the same contract. \<open>Fat32\<close>: \<open>fat32.c\<close>, which nothing calls yet.
  \<^item> \<open>Keyboard\<close>, \<open>Mouse\<close>, \<open>Timer\<close>: \<open>keyboard.c\<close>, \<open>mouse.c\<close>, \<open>timer.c\<close>. The keyboard's ring is shown to be a bounded
    queue (locale \<open>bounded_queue\<close>) although the handler interrupts its readers anywhere: \<open>kstep\<close> interleaves
    it with their single memory accesses.
  \<^item> \<open>Process\<close>: \<open>process.c\<close> and the stack frame of \<open>context.asm\<close>.
  \<^item> \<open>Vesa\<close>, \<open>Gfxcon\<close>, \<open>Vga\<close>: \<open>vesa.c\<close>, \<open>gfxcon.c\<close>, \<open>vga.c\<close>. The three grids of cells (pixels of 32 and 24 bits, text cells)
    share the locale \<open>cell_grid\<close> for scrolling.
  \<^item> \<open>Idt\<close>: \<open>idt.c\<close> and \<open>tss.c\<close>, with a reference model of the two 8259 controllers (locale \<open>pic_device\<close>). \<open>V86\<close>: \<open>v86.c\<close>.
    \<open>Syscall\<close>: \<open>syscall.c\<close>. \<open>Kernel\<close>: \<open>isr_handler_c\<close> and \<open>kmain\<close> over the joined state of all drivers. \<open>Usermode\<close>: the
    ring 3 program of \<open>shell.c\<close> as a sequence of interrupts.
  \<^item> \<open>Stubs\<close>: the assembly around the C code, \<open>isr.asm\<close>, \<open>context.asm\<close> and the inline assembly of \<open>cmd_usermode\<close>, on registers and
    stack memory. \<open>Console\<close>: \<open>keyboard_getchar\<close> and \<open>keyboard_readline\<close> over the whole kernel, with interrupts between any
    two looks at the ring.
  \<^item> \<open>Cospy\<close>, \<open>Cospy_Expr\<close>, \<open>Cospy_Stmt\<close>: \<open>cospy.c\<close>; its expressions compute the values of expression trees, and its
    variables are a bounded map (locale \<open>bounded_store\<close>). \<open>Lang\<close>: \<open>lang.c\<close>. \<open>Editor\<close>: \<open>editor.c\<close>, a zipper. \<open>Script\<close>: \<open>script.c\<close>.
  \<^item> \<open>Shell\<close>, \<open>Shell_Props\<close>: \<open>shell.c\<close>, the commands, the history and the loop, from the typed keys to the screen.
    \<open>Gui\<close>: \<open>gui.c\<close>. \<open>System\<close>: \<open>kmain\<close>, then sessions of the shell that go on into the desktop, user mode or a reset.

  \<^bold>\<open>What is shown.\<close> The file system refines a map from names to contents, over any sequence of operations, over a
  reboot, over the path layer and down to the ports of the drive, and a failed write loses no clusters.
  Whatever is typed and whatever interrupts come, the invariants of the drivers, the process table,
  the heap and the tables hold (\<open>kernel_ok\<close>, \<open>system_ok\<close>); the controllers, and the registers and the
  memory of what was interrupted, are left as they were by an interrupt that returns; the scheduler runs every ready process; the desktop never gets stuck or loses its
  window. A line typed at the shell does through all layers what it means to. The interpreters agree with the trees
  they parse, the editor with a zipper, the screen with a terminal.

  \<^bold>\<open>Bounds.\<close> Fuel appears in four places. The expression parser of CosyPy takes one more than the characters left, and
  that is proved enough for every text. Statements, calls and loops of CosyPy, the prompts of CosyPy and of
  Forth and the loop of the shell may go on for ever: their number of rounds is an argument, a run that uses it up has its
  own result, and no theorem concludes anything from it. The key loop of the desktop takes 256
  rounds, more than the ring holds, and a listing 33, one more than it can have entries; both are proved
  enough. The loops of number printing run on the digits of a 32-bit number.

  \<^bold>\<open>Not modelled.\<close> The boot loader and boot sectors; \<open>entry.asm\<close>, which clears the bss section and calls \<open>kmain\<close>; the stubs'
  addresses are parameters; the entry into virtual 8086 mode by inline assembly, the BIOS behind it, and the longer frame
  of an interrupt of that mode; the instructions that load table registers, of which the operand is
  kept; what the hardware behind the ports does beyond the contracts named above. A switch of
  processes is reported with the stack pointers involved, and \<open>Stubs\<close> shows what \<open>context.asm\<close> then restores, but
  the other process' code does not run in the model. The programs take a list of typed keys: for a line read at the
  prompt, \<open>Console\<close> shows that interrupts provide exactly that. While the shell runs a command no timer
  tick is taken; the ticks of sleeps and of the desktop are explicit lists. The bytes of uninitialised local
  arrays are parameters where they can be seen.

  \<^bold>\<open>What does not hold.\<close> Lemmas named in the manifest's findings show behaviour the code does not mean to have, among them:
  spawned processes never run, since nothing sets the current process; the emulation of virtual 8086 faults reads
  the wrong words of its frame; the end of an interrupt is signalled only after a switch; the last two lines of the
  desktop's log are hidden; a looping FAT32 chain is followed for ever.
\<close>

end
